(* ===== verification/Prelude.thy ===== *)
theory Prelude
  imports Main
begin

text \<open>
  Shared ground of the development: type names for Go's basic types, results with errors, the
  collections of simplification facts the component theories fill, and generic lemmas on lists
  and options.

  Go's \<open>int64\<close> revisions and counters are modelled by \<^typ>\<open>int\<close>: a revision is incremented once per
  write, so the wrap-around at \<open>2 ^ 63\<close> is out of reach. A \<open>time.Time\<close> is an instant, in nanoseconds since
  the Unix epoch; the zero time, which \<open>IsZero\<close> tests for, is the first of January of the year 1.
\<close>

type_synonym int64 = int
type_synonym time = int
type_synonym bytes = "nat list"

definition zero_time :: time where "zero_time = - 62135596800000000000"

named_theorems store_simps "equations of the storage operations"
named_theorems ring_simps "equations relating the ring of cells to a list"
named_theorems msg_simps "equations of the message operations"
named_theorems tracker_simps "equations of the config tracker"

section \<open>Lists\<close>

text \<open>The last element that satisfies a predicate, and the first.\<close>

fun find_first :: "('a \<Rightarrow> bool) \<Rightarrow> 'a list \<Rightarrow> 'a option" where
  "find_first P [] = None"
| "find_first P (x # xs) = (if P x then Some x else find_first P xs)"

lemma find_first_Some: "find_first P xs = Some x \<Longrightarrow> x \<in> set xs \<and> P x"
  by (induction xs) (auto split: if_splits)

lemma find_first_None: "find_first P xs = None \<longleftrightarrow> (\<forall>x \<in> set xs. \<not> P x)"
  by (induction xs) auto

lemma find_first_append:
  "find_first P (xs @ ys) = (case find_first P xs of None \<Rightarrow> find_first P ys | Some x \<Rightarrow> Some x)"
  by (induction xs) auto

lemma find_first_cong: "(\<And>x. x \<in> set xs \<Longrightarrow> P x = Q x) \<Longrightarrow> find_first P xs = find_first Q xs"
  by (induction xs) auto

lemma foldl_last_write:
  assumes "\<And>s x. f s x = (case g x of None \<Rightarrow> s | Some y \<Rightarrow> y)"
  shows "foldl f s xs = (case find_first (\<lambda>x. g x \<noteq> None) (rev xs) of None \<Rightarrow> s | Some x \<Rightarrow> the (g x))"
  by (induction xs rule: rev_induct) (auto simp: assms split: option.splits)

text \<open>Keep the elements that carry a value, in order.\<close>

definition somes :: "'a option list \<Rightarrow> 'a list" where
  "somes xs = map the (filter (\<lambda>x. x \<noteq> None) xs)"

lemma somes_simps [simp]:
  "somes [] = []" "somes (None # xs) = somes xs" "somes (Some x # xs) = x # somes xs"
  "somes (xs @ ys) = somes xs @ somes ys"
  by (simp_all add: somes_def)

lemma somes_map_Some [simp]: "somes (map Some xs) = xs"
  by (induction xs) auto

lemma somes_replicate_None [simp]: "somes (replicate n None) = []"
  by (induction n) auto

lemma takeWhile_map_Some_replicate:
  "takeWhile (\<lambda>x. x \<noteq> None) (map Some xs @ replicate n None) = map Some xs"
  by (induction xs) (cases n; auto)+

lemma butlast_take_append_replicate:
  "length xs < n \<Longrightarrow> butlast (xs @ replicate (n - length xs) y) = xs @ replicate (n - Suc (length xs)) y"
  by (simp add: butlast_append butlast_conv_take)

end
