(* ===== verification/Ring.thy ===== *)
theory Ring
  imports Prelude "HOL-Library.Word"
begin

text \<open>
  \<open>container/ring\<close> of the standard library, for the rings of 64 nodes the in-memory value store makes
  (\<open>ring.New(64)\<close>). A node is a \<open>6 word\<close>: there are 64 of them, \<open>Next\<close> and \<open>Prev\<close> add and subtract
  one and wrap around. The values of the nodes are a function from nodes, \<^term>\<open>None\<close> for the nil value
  of a node that was never written.

  \<open>cells\<close> lists the values met by walking \<open>Prev\<close> once around, starting at a node; the lemmas describe
  what one \<open>Next\<close>-and-write does to that list.
\<close>

type_synonym node = "6 word"

definition ring_New :: "node \<Rightarrow> 'v option" where
  "ring_New = (\<lambda>_. None)"

definition ring_Next :: "node \<Rightarrow> node" where
  "ring_Next r = r + 1"

definition ring_Prev :: "node \<Rightarrow> node" where
  "ring_Prev r = r - 1"

lemma ring_Prev_Next [simp]: "ring_Prev (ring_Next r) = r" "ring_Next (ring_Prev r) = r"
  by (simp_all add: ring_Prev_def ring_Next_def)

lemma unat_pred_less: "(p :: node) \<noteq> 0 \<Longrightarrow> unat (p - 1) < unat p"
  by (metis measure_unat)

text \<open>A step of \<open>Prev\<close> or \<open>Next\<close> shortens the way to a node that is not reached yet.\<close>

lemma Prev_less: "p \<noteq> q \<Longrightarrow> unat (ring_Prev p - q) < unat (p - q)"
  using unat_pred_less [of "p - q"] by (simp add: ring_Prev_def diff_right_commute)

lemma Next_less: "p \<noteq> q \<Longrightarrow> unat (q - ring_Next p) < unat (q - p)"
  using unat_pred_less [of "q - p"] by (simp add: ring_Next_def diff_diff_eq)

text \<open>The node \<open>i\<close> steps back from \<open>r\<close>.\<close>

definition node_back :: "node \<Rightarrow> nat \<Rightarrow> node" where
  "node_back r i = r - of_nat i"

lemma node_back_0 [simp]: "node_back r 0 = r"
  by (simp add: node_back_def)

lemma node_back_64 [simp]: "node_back r 64 = r"
  by (simp add: node_back_def)

lemma Prev_node_back [simp]: "ring_Prev (node_back r i) = node_back r (Suc i)"
  by (simp add: ring_Prev_def node_back_def algebra_simps)

lemma Next_node_back [simp]: "ring_Next (node_back r (Suc i)) = node_back r i"
  by (simp add: ring_Next_def node_back_def algebra_simps)

lemma of_nat_node_eq: "i < 64 \<Longrightarrow> j < 64 \<Longrightarrow> (of_nat i = (of_nat j :: node)) \<longleftrightarrow> i = j"
proof
  assume ij: "i < 64" "j < 64" and "of_nat i = (of_nat j :: node)"
  then have "unat (of_nat i :: node) = unat (of_nat j :: node)" by simp
  with ij show "i = j" by (simp add: unat_of_nat)
qed simp

lemma node_back_eq: "i < 64 \<Longrightarrow> j < 64 \<Longrightarrow> node_back r i = node_back r j \<longleftrightarrow> i = j"
  using of_nat_node_eq by (auto simp: node_back_def)

lemma node_back_self: "i < 64 \<Longrightarrow> node_back r i = r \<longleftrightarrow> i = 0"
  using node_back_eq [of i 0 r] by simp

lemma Next_eq_node_back: "ring_Next r = node_back r 63"
  by (simp add: ring_Next_def node_back_def)

lemma node_back_Next: "i < 64 \<Longrightarrow> node_back r i = ring_Next r \<longleftrightarrow> i = 63"
  using node_back_eq [of i 63 r] by (simp add: Next_eq_node_back)

lemma node_back_from_Next: "node_back (ring_Next r) (Suc i) = node_back r i"
  by (simp add: ring_Next_def node_back_def)

text \<open>Every node is some steps back from any other.\<close>

lemma node_back_exhaust: obtains i where "i < 64" "p = node_back r i"
proof
  show "unat (r - p) < 64" using unsigned_less [of "r - p", where ?'a = nat] by simp
  show "p = node_back r (unat (r - p))" by (simp add: node_back_def)
qed

definition cell :: "(node \<Rightarrow> 'v option) \<Rightarrow> node \<Rightarrow> nat \<Rightarrow> 'v option" where
  "cell vals r i = vals (node_back r i)"

definition cells :: "(node \<Rightarrow> 'v option) \<Rightarrow> node \<Rightarrow> 'v option list" where
  "cells vals r = map (cell vals r) [0..<64]"

lemma cell_write [ring_simps]:
  "i < 64 \<Longrightarrow> cell (vals(ring_Next r := x)) (ring_Next r) i = (if i = 0 then x else cell vals r (i - 1))"
  by (cases i) (auto simp: cell_def node_back_from_Next node_back_Next)

lemma length_cells [simp]: "length (cells vals r) = 64"
  by (simp add: cells_def)

lemma nth_cells: "i < 64 \<Longrightarrow> cells vals r ! i = cell vals r i"
  by (simp add: cells_def)

text \<open>Writing the next node and moving to it drops the oldest cell and puts the new one in front.\<close>

lemma cells_write:
  "cells (vals(ring_Next r := x)) (ring_Next r) = x # butlast (cells vals r)"
  by (rule nth_equalityI) (auto simp: nth_cells ring_simps nth_Cons nth_butlast split: nat.splits)

end
