(* ===== verification/Errors.thy ===== *)
theory Errors
  imports Prelude
begin

text \<open>
  \<open>storage/errors.go\<close>: the error values of the storage layer and the predicates on them.

  The code tells errors apart through the gRPC status package only (\<open>status.Code\<close>,
  \<open>status.Convert\<close>), so an error is represented by what that package reports of it: its status
  code, its details, and the format string of its message (the formatted arguments are left out).
  An error made by \<open>errors.New\<close> or by \<open>fmt.Errorf\<close> without \<open>%w\<close> has code \<open>Unknown\<close>; one made by
  \<open>fmt.Errorf\<close> with \<open>%w\<close> keeps the code and details of the error it wraps, as \<open>status.Convert\<close>
  documents. A nil error is \<^term>\<open>None\<close>. A panic (a nil dereference, an explicit \<open>panic\<close>) is an
  error value with the code \<open>GoPanic\<close>, which no status of the package carries: it reaches the caller
  through every \<open>if err != nil { return err }\<close> as the unwinding would.
\<close>

datatype code = OK | Unknown | InvalidArgument | NotFound | AlreadyExists | Aborted | OutOfRange
  | Unimplemented | Internal | OtherCode nat | GoPanic

datatype detail =
    ErrorInfo (info_reason: string) (info_domain: string) (info_metadata: "(string \<times> string) list")
  | OtherDetail string

record err =
  err_code :: code
  err_details :: "detail list"
  err_msg :: string

type_synonym 'a result = "err + 'a"

text \<open>A step after a fallible one, and the error alone.\<close>

definition rbind :: "'a result \<Rightarrow> ('a \<Rightarrow> 'b result) \<Rightarrow> 'b result" where
  "rbind r f = (case r of Inl e \<Rightarrow> Inl e | Inr x \<Rightarrow> f x)"

lemma rbind_simps [simp]: "rbind (Inl e) f = Inl e" "rbind (Inr x) f = f x"
  by (simp_all add: rbind_def)

lemma rbind_Inr: "rbind r f = Inr y \<longleftrightarrow> (\<exists>x. r = Inr x \<and> f x = Inr y)"
  by (cases r) simp_all

definition err_only :: "'a result \<Rightarrow> unit result" where
  "err_only r = map_sum id (\<lambda>_. ()) r"

lemma err_only_simps [simp]: "err_only (Inl e) = Inl e" "err_only (Inr x) = Inr ()"
  by (simp_all add: err_only_def)

lemma err_only_Inr [simp]: "err_only r = Inr u \<longleftrightarrow> (\<exists>x. r = Inr x)"
  "err_only r = Inl e \<longleftrightarrow> r = Inl e"
  by (cases r; simp)+

definition status_error :: "code \<Rightarrow> string \<Rightarrow> err" where
  "status_error c msg = \<lparr>err_code = c, err_details = [], err_msg = msg\<rparr>"

definition errorf :: "string \<Rightarrow> err" where
  "errorf msg = \<lparr>err_code = Unknown, err_details = [], err_msg = msg\<rparr>"

definition errorf_w :: "string \<Rightarrow> err \<Rightarrow> err" where
  "errorf_w msg e = e\<lparr>err_msg := msg\<rparr>"

definition go_panic :: "string \<Rightarrow> err" where
  "go_panic msg = \<lparr>err_code = GoPanic, err_details = [], err_msg = msg\<rparr>"

definition ErrDetailsConflict :: detail where
  "ErrDetailsConflict = ErrorInfo ''CONFLICT'' [] []"

definition ErrDetailsDiscontinuity :: detail where
  "ErrDetailsDiscontinuity = ErrorInfo ''DISCONTINUITY'' [] []"

definition ErrNotFound :: err where
  "ErrNotFound = status_error NotFound ''not found''"

definition ErrAlreadyExists :: err where
  "ErrAlreadyExists = status_error AlreadyExists ''already exists''"

definition ErrConflict :: err where
  "ErrConflict = (status_error Aborted ''conflict'')\<lparr>err_details := [ErrDetailsConflict]\<rparr>"

definition status_code :: "err option \<Rightarrow> code" where
  "status_code e = (case e of None \<Rightarrow> OK | Some x \<Rightarrow> err_code x)"

definition status_details :: "err option \<Rightarrow> detail list" where
  "status_details e = (case e of None \<Rightarrow> [] | Some x \<Rightarrow> err_details x)"

definition IsNotFound :: "err option \<Rightarrow> bool" where
  "IsNotFound e \<longleftrightarrow> status_code e = NotFound"

definition IsAlreadyExists :: "err option \<Rightarrow> bool" where
  "IsAlreadyExists e \<longleftrightarrow> status_code e = AlreadyExists"

definition IsConflict :: "err option \<Rightarrow> bool" where
  "IsConflict e \<longleftrightarrow>
     (if status_code e \<noteq> Aborted then False
      else list_ex (\<lambda>d. d = ErrDetailsConflict) (status_details e))"

fun is_discontinuity_detail :: "detail \<Rightarrow> bool" where
  "is_discontinuity_detail (ErrorInfo reason _ _) \<longleftrightarrow> reason = ''DISCONTINUITY''"
| "is_discontinuity_detail (OtherDetail _) \<longleftrightarrow> False"

definition IsDiscontinuity :: "err option \<Rightarrow> bool" where
  "IsDiscontinuity e \<longleftrightarrow>
     (if status_code e = OK then False
      else list_ex is_discontinuity_detail (status_details e))"

definition fails_only :: "(err \<Rightarrow> bool) \<Rightarrow> 'a result \<Rightarrow> bool" where
  "fails_only P r = (case r of Inl e \<Rightarrow> P e | Inr _ \<Rightarrow> True)"

lemma err_fields [simp]:
  "err_code (status_error c m) = c" "err_details (status_error c m) = []"
  "err_code (errorf m) = Unknown" "err_details (errorf m) = []"
  "err_code (go_panic m) = GoPanic" "err_details (go_panic m) = []"
  "err_code (errorf_w m e) = err_code e" "err_details (errorf_w m e) = err_details e"
  "err_code ErrNotFound = NotFound" "err_details ErrNotFound = []"
  "err_code ErrAlreadyExists = AlreadyExists"
  "err_code ErrConflict = Aborted" "err_details ErrConflict = [ErrDetailsConflict]"
  by (simp_all add: status_error_def errorf_def errorf_w_def ErrNotFound_def ErrAlreadyExists_def
      ErrConflict_def go_panic_def)

lemma err_preds [simp]:
  "IsNotFound None = False" "IsConflict None = False"
  "IsNotFound (Some e) \<longleftrightarrow> err_code e = NotFound"
  "IsAlreadyExists (Some e) \<longleftrightarrow> err_code e = AlreadyExists"
  "IsConflict (Some e) \<longleftrightarrow> err_code e = Aborted \<and> ErrDetailsConflict \<in> set (err_details e)"
  by (auto simp: IsNotFound_def IsAlreadyExists_def IsConflict_def status_code_def status_details_def
      list_ex_iff)

text \<open>
  The predicates of the error package are stable under wrapping: an error that
  \<open>fmt.Errorf("...%w", err)\<close> wraps is classified exactly as the error itself, so the callers that
  test \<open>IsNotFound\<close>, \<open>IsConflict\<close>, \<open>IsAlreadyExists\<close> or \<open>IsDiscontinuity\<close> see through the wrapping, and
  the four classes of the package's own errors do not overlap (a bare \<open>Aborted\<close> status is no
  conflict).
\<close>

theorem error_classes:
  "IsNotFound (Some (errorf_w m e)) = IsNotFound (Some e)
   \<and> IsConflict (Some (errorf_w m e)) = IsConflict (Some e)
   \<and> IsAlreadyExists (Some (errorf_w m e)) = IsAlreadyExists (Some e)
   \<and> IsDiscontinuity (Some (errorf_w m e)) = IsDiscontinuity (Some e)
   \<and> IsConflict (Some (errorf_w m ErrConflict)) \<and> \<not> IsConflict (Some (status_error Aborted m))
   \<and> \<not> IsNotFound (Some ErrConflict) \<and> \<not> IsConflict (Some ErrNotFound)
   \<and> \<not> IsDiscontinuity (Some ErrConflict)"
  by (simp add: IsDiscontinuity_def status_code_def status_details_def ErrDetailsConflict_def)

end
