(* ===== verification/Options.thy ===== *)
theory Options
  imports Prelude
begin

text \<open>
  \<open>storage/options.go\<close>: the option structs of the store operations and the functional options that
  fill them. A pointer field that may be nil is an \<open>option\<close>. The output pointer \<open>RevisionOut\<close> is
  modelled by whether it was given: the operations return the revision they would write through it.
\<close>

record GetOptions =
  get_Revision :: "int64 option"
  get_RevisionOut :: bool

record WatchOptions =
  watch_Revision :: "int64 option"
  watch_Prefix :: bool

record PutOptions =
  put_Revision :: "int64 option"
  put_RevisionOut :: bool

record DeleteOptions =
  delete_Revision :: "int64 option"

record ListKeysOptions =
  list_Limit :: "int64 option"

record HistoryOptions =
  history_Revision :: "int64 option"
  history_IncludeValues :: bool

text \<open>
  One datatype per option interface: its constructors are the option types that implement it
  (\<open>RevisionOpt\<close>, \<open>RevisionOutOpt\<close>, \<open>LimitOpt\<close>, \<open>IncludeValuesOpt\<close>, \<open>PrefixOpt\<close>).
\<close>

datatype GetOpt = Get_RevisionOpt int64 | Get_RevisionOutOpt bool
datatype WatchOpt = Watch_RevisionOpt int64 | Watch_PrefixOpt bool
datatype PutOpt = Put_RevisionOpt int64 | Put_RevisionOutOpt bool
datatype DeleteOpt = Delete_RevisionOpt int64
datatype ListOpt = List_LimitOpt int64
datatype HistoryOpt = History_RevisionOpt int64 | History_IncludeValuesOpt bool

fun ApplyGetOption :: "GetOptions \<Rightarrow> GetOpt \<Rightarrow> GetOptions" where
  "ApplyGetOption opts (Get_RevisionOpt r) = opts\<lparr>get_Revision := Some r\<rparr>"
| "ApplyGetOption opts (Get_RevisionOutOpt p) = opts\<lparr>get_RevisionOut := p\<rparr>"

fun ApplyWatchOption :: "WatchOptions \<Rightarrow> WatchOpt \<Rightarrow> WatchOptions" where
  "ApplyWatchOption opts (Watch_RevisionOpt r) = opts\<lparr>watch_Revision := Some r\<rparr>"
| "ApplyWatchOption opts (Watch_PrefixOpt p) = opts\<lparr>watch_Prefix := p\<rparr>"

fun ApplyPutOption :: "PutOptions \<Rightarrow> PutOpt \<Rightarrow> PutOptions" where
  "ApplyPutOption opts (Put_RevisionOpt r) = opts\<lparr>put_Revision := Some r\<rparr>"
| "ApplyPutOption opts (Put_RevisionOutOpt p) = opts\<lparr>put_RevisionOut := p\<rparr>"

fun ApplyDeleteOption :: "DeleteOptions \<Rightarrow> DeleteOpt \<Rightarrow> DeleteOptions" where
  "ApplyDeleteOption opts (Delete_RevisionOpt r) = opts\<lparr>delete_Revision := Some r\<rparr>"

fun ApplyListOption :: "ListKeysOptions \<Rightarrow> ListOpt \<Rightarrow> ListKeysOptions" where
  "ApplyListOption opts (List_LimitOpt l) = opts\<lparr>list_Limit := Some l\<rparr>"

fun ApplyHistoryOption :: "HistoryOptions \<Rightarrow> HistoryOpt \<Rightarrow> HistoryOptions" where
  "ApplyHistoryOption opts (History_RevisionOpt r) = opts\<lparr>history_Revision := Some r\<rparr>"
| "ApplyHistoryOption opts (History_IncludeValuesOpt b) = opts\<lparr>history_IncludeValues := b\<rparr>"

text \<open>
  \<open>options := storage.GetOptions{}; options.Apply(opts...)\<close>: the zero struct, then each option in
  turn.
\<close>

definition get_options :: "GetOpt list \<Rightarrow> GetOptions" where
  "get_options opts = foldl ApplyGetOption \<lparr>get_Revision = None, get_RevisionOut = False\<rparr> opts"

definition put_options :: "PutOpt list \<Rightarrow> PutOptions" where
  "put_options opts = foldl ApplyPutOption \<lparr>put_Revision = None, put_RevisionOut = False\<rparr> opts"

definition watch_options :: "WatchOpt list \<Rightarrow> WatchOptions" where
  "watch_options opts = foldl ApplyWatchOption \<lparr>watch_Revision = None, watch_Prefix = False\<rparr> opts"

definition delete_options :: "DeleteOpt list \<Rightarrow> DeleteOptions" where
  "delete_options opts = foldl ApplyDeleteOption \<lparr>delete_Revision = None\<rparr> opts"

definition list_options :: "ListOpt list \<Rightarrow> ListKeysOptions" where
  "list_options opts = foldl ApplyListOption \<lparr>list_Limit = None\<rparr> opts"

definition history_options :: "HistoryOpt list \<Rightarrow> HistoryOptions" where
  "history_options opts =
     foldl ApplyHistoryOption \<lparr>history_Revision = None, history_IncludeValues = False\<rparr> opts"

lemmas options_defs = get_options_def put_options_def watch_options_def delete_options_def
  list_options_def history_options_def

text \<open>Only the last option of a kind counts; an option of another kind changes nothing.\<close>

lemma options_snoc [simp]:
  "get_options (os @ [g]) = ApplyGetOption (get_options os) g"
  "put_options (ps @ [p]) = ApplyPutOption (put_options ps) p"
  "watch_options (ws @ [w]) = ApplyWatchOption (watch_options ws) w"
  "history_options (hs @ [h]) = ApplyHistoryOption (history_options hs) h"
  by (simp_all add: options_defs)

lemma options_nil [simp]:
  "get_options [] = \<lparr>get_Revision = None, get_RevisionOut = False\<rparr>"
  "put_options [] = \<lparr>put_Revision = None, put_RevisionOut = False\<rparr>"
  "watch_options [] = \<lparr>watch_Revision = None, watch_Prefix = False\<rparr>"
  "delete_options [] = \<lparr>delete_Revision = None\<rparr>"
  "list_options [] = \<lparr>list_Limit = None\<rparr>"
  "history_options [] = \<lparr>history_Revision = None, history_IncludeValues = False\<rparr>"
  by (simp_all add: options_defs)

lemma options_single [simp]:
  "get_options [g] = ApplyGetOption (get_options []) g"
  "get_options [g, g'] = ApplyGetOption (ApplyGetOption (get_options []) g) g'"
  "put_options [p] = ApplyPutOption (put_options []) p"
  "put_options [p, p'] = ApplyPutOption (ApplyPutOption (put_options []) p) p'"
  "watch_options [w] = ApplyWatchOption (watch_options []) w"
  "delete_options [d] = ApplyDeleteOption (delete_options []) d"
  "list_options [l] = ApplyListOption (list_options []) l"
  "history_options [h] = ApplyHistoryOption (history_options []) h"
  "history_options [h, h'] = ApplyHistoryOption (ApplyHistoryOption (history_options []) h) h'"
  by (simp_all add: options_defs)

end
