(* ===== verification/Stores.thy ===== *)
theory Stores
  imports Errors Options
begin

text \<open>
  \<open>storage/stores.go\<close>: the data the stores exchange with their clients (key revisions, watch events),
  the \<open>ValueStoreT\<close> interface as a record of operations over the state of the store, the laws a
  value store promises its clients as a locale, and the registry of store builders.
\<close>

section \<open>Key revisions and watch events\<close>

record 'a KeyRevisionImpl =
  kr_K :: string
  kr_V :: 'a
  kr_Rev :: int64
  kr_Time :: time

definition SetKey :: "string \<Rightarrow> 'a KeyRevisionImpl \<Rightarrow> 'a KeyRevisionImpl" where
  "SetKey key k = k\<lparr>kr_K := key\<rparr>"

datatype WatchEventType = WatchEventPut | WatchEventDelete

record 'a WatchEvent =
  ev_EventType :: WatchEventType
  ev_Current :: "'a KeyRevisionImpl option"
  ev_Previous :: "'a KeyRevisionImpl option"

text \<open>
  Both revisions of an event get a key: \<open>if event.Current != nil \<dots>; if event.Previous != nil \<dots>\<close>,
  as every wrapper of a watch channel does.
\<close>

definition map_event_revisions ::
  "('a KeyRevisionImpl \<Rightarrow> 'b KeyRevisionImpl) \<Rightarrow> 'a WatchEvent \<Rightarrow> 'b WatchEvent" where
  "map_event_revisions f e =
     \<lparr>ev_EventType = ev_EventType e, ev_Current = map_option f (ev_Current e),
      ev_Previous = map_option f (ev_Previous e)\<rparr>"

section \<open>The value store interface\<close>

text \<open>
  An interface value of type \<open>ValueStoreT[T]\<close> is the record of its operations. They read and replace
  the state of the store; \<open>now\<close> is what \<open>time.Now()\<close> returns during the call. A successful Put or Get
  also returns what it wrote through \<open>RevisionOut\<close>, if that was given. (\<open>Watch\<close> has a life of its own
  after the call returns and is modelled with each store.)
\<close>

record ('s, 'a) ValueStoreT =
  st_Put :: "time \<Rightarrow> 'a \<Rightarrow> PutOpt list \<Rightarrow> 's \<Rightarrow> int64 option result \<times> 's"
  st_Get :: "GetOpt list \<Rightarrow> 's \<Rightarrow> ('a \<times> int64 option) result"
  st_Delete :: "time \<Rightarrow> DeleteOpt list \<Rightarrow> 's \<Rightarrow> unit result \<times> 's"
  st_History :: "HistoryOpt list \<Rightarrow> 's \<Rightarrow> 'a KeyRevisionImpl list result"

text \<open>The same for \<open>KeyValueStoreT[T]\<close>.\<close>

record ('s, 'a) KeyValueStoreT =
  kv_Put :: "time \<Rightarrow> string \<Rightarrow> 'a \<Rightarrow> PutOpt list \<Rightarrow> 's \<Rightarrow> int64 option result \<times> 's"
  kv_Get :: "string \<Rightarrow> GetOpt list \<Rightarrow> 's \<Rightarrow> ('a \<times> int64 option) result"
  kv_Delete :: "time \<Rightarrow> string \<Rightarrow> DeleteOpt list \<Rightarrow> 's \<Rightarrow> unit result \<times> 's"
  kv_ListKeys :: "string \<Rightarrow> ListOpt list \<Rightarrow> 's \<Rightarrow> string list result"
  kv_History :: "string \<Rightarrow> HistoryOpt list \<Rightarrow> 's \<Rightarrow> 'a KeyRevisionImpl list result"

text \<open>
  What a value store promises: in a state that satisfies the invariant, \<open>cur s\<close> is the current
  value with its revision (\<^term>\<open>None\<close> when there is none). Reads without a revision return it, a
  successful write replaces it and moves the revision forward, a write with a revision succeeds only
  at the current revision (\<open>0\<close>: only when there is no value), and a failed operation changes nothing
  that matters: \<open>same\<close> relates the states before and after it. A read at a revision returns a value
  that is no younger; in an exact store, the value of that very revision.
\<close>

locale value_store =
  fixes st :: "('s, 'a) ValueStoreT"
    and inv :: "'s \<Rightarrow> bool"
    and cur :: "'s \<Rightarrow> ('a \<times> int64) option"
    and same :: "'s \<Rightarrow> 's \<Rightarrow> bool"
  assumes same_refl: "same s s"
    and same_cur: "same s s' \<Longrightarrow> cur s' = cur s"
    and get_cur:
      "inv s \<Longrightarrow> get_Revision (get_options os) = None \<Longrightarrow>
       st_Get st os s =
         (case cur s of None \<Rightarrow> Inl ErrNotFound
          | Some (v, r) \<Rightarrow> Inr (v, if get_RevisionOut (get_options os) then Some r else None))"
    and put_inv: "inv s \<Longrightarrow> inv (snd (st_Put st now v ps s))"
    and delete_inv: "inv s \<Longrightarrow> inv (snd (st_Delete st now ds s))"
    and put_ok:
      "inv s \<Longrightarrow> fst (st_Put st now v ps s) = Inr ro \<Longrightarrow>
       \<exists>r. cur (snd (st_Put st now v ps s)) = Some (v, r) \<and> 0 < r
         \<and> (\<forall>v' r'. cur s = Some (v', r') \<longrightarrow> r' < r)"
    and put_fail: "inv s \<Longrightarrow> fst (st_Put st now v ps s) = Inl e \<Longrightarrow> same s (snd (st_Put st now v ps s))"
    and put_cas:
      "inv s \<Longrightarrow> put_Revision (put_options ps) = Some r \<Longrightarrow>
       (r = 0 \<longrightarrow> (cur s = None \<longleftrightarrow> (\<exists>ro. fst (st_Put st now v ps s) = Inr ro)))
       \<and> (\<forall>v' r'. cur s = Some (v', r') \<longrightarrow>
            (if r = r' then \<exists>ro. fst (st_Put st now v ps s) = Inr ro
             else \<exists>e. fst (st_Put st now v ps s) = Inl e \<and> IsConflict (Some e)))"
    and delete_ok:
      "inv s \<Longrightarrow> fst (st_Delete st now ds s) = Inr u \<Longrightarrow> cur (snd (st_Delete st now ds s)) = None"
    and delete_fail:
      "inv s \<Longrightarrow> fst (st_Delete st now ds s) = Inl e \<Longrightarrow> same s (snd (st_Delete st now ds s))"
    and delete_cas:
      "inv s \<Longrightarrow> cur s = Some (v, r) \<Longrightarrow>
       (delete_Revision (delete_options ds) = None \<or> delete_Revision (delete_options ds) = Some r)
       = (\<exists>u. fst (st_Delete st now ds s) = Inr u)"
    and get_at_cur:
      "inv s \<Longrightarrow> cur s = Some (v, r) \<Longrightarrow> get_Revision (get_options os) = Some r \<Longrightarrow>
       st_Get st os s = Inr (v, if get_RevisionOut (get_options os) then Some r else None)"
    and get_at:
      "inv s \<Longrightarrow> get_Revision (get_options os) = Some r \<Longrightarrow> get_RevisionOut (get_options os) \<Longrightarrow>
       st_Get st os s = Inr (v, ro) \<Longrightarrow> 0 < r \<Longrightarrow> \<exists>r'. ro = Some r' \<and> 0 < r' \<and> r' \<le> r"
    and cur_pos: "inv s \<Longrightarrow> cur s = Some (v, r) \<Longrightarrow> 0 < r"
begin

lemma get_after_put:
  assumes "inv s" "st_Put st now v ps s = (Inr ro, s')"
  shows "\<exists>r. st_Get st [Get_RevisionOutOpt True] s' = Inr (v, Some r)"
proof -
  from assms put_ok [of s now v ps ro] obtain r where "cur s' = Some (v, r)" by auto
  moreover from assms put_inv [of s now v ps] have "inv s'" by simp
  ultimately show ?thesis using get_cur [of s' "[Get_RevisionOutOpt True]"] by simp
qed

lemma get_after_delete:
  assumes "inv s" "st_Delete st now ds s = (Inr u, s')"
  shows "st_Get st [Get_RevisionOutOpt True] s' = Inl ErrNotFound"
  using assms delete_ok [of s now ds u] delete_inv [of s now ds]
    get_cur [of s' "[Get_RevisionOutOpt True]"] by auto

lemma stale_put_conflict:
  assumes "inv s" "cur s = Some (v', r')" "r \<noteq> r'"
  shows "\<exists>e s'. st_Put st now v [Put_RevisionOpt r] s = (Inl e, s') \<and> same s s' \<and> IsConflict (Some e)"
proof -
  from assms put_cas [of s "[Put_RevisionOpt r]" r now v] obtain e
    where e: "fst (st_Put st now v [Put_RevisionOpt r] s) = Inl e" and "IsConflict (Some e)" by auto
  moreover from put_fail [OF assms(1) e] have "same s (snd (st_Put st now v [Put_RevisionOpt r] s))" .
  ultimately show ?thesis by (metis prod.collapse)
qed

lemma cas_put_ok:
  assumes "inv s" "cur s = Some (v', r)"
  shows "\<exists>ro s' r'. st_Put st now v [Put_RevisionOpt r] s = (Inr ro, s') \<and> inv s'
    \<and> cur s' = Some (v, r') \<and> r < r'"
proof -
  from assms put_cas [of s "[Put_RevisionOpt r]" r now v] obtain ro
    where ro: "fst (st_Put st now v [Put_RevisionOpt r] s) = Inr ro" by auto
  from put_ok [OF assms(1) ro] assms(2) obtain r'
    where "cur (snd (st_Put st now v [Put_RevisionOpt r] s)) = Some (v, r')" "r < r'" by auto
  with ro put_inv [OF assms(1)] show ?thesis by (metis prod.collapse)
qed

lemma create_put_ok:
  assumes "inv s" "cur s = None"
  shows "\<exists>ro s' r'. st_Put st now v [Put_RevisionOpt 0] s = (Inr ro, s') \<and> inv s'
    \<and> cur s' = Some (v, r') \<and> 0 < r'"
proof -
  from assms put_cas [of s "[Put_RevisionOpt 0]" 0 now v] obtain ro
    where ro: "fst (st_Put st now v [Put_RevisionOpt 0] s) = Inr ro" by auto
  from put_ok [OF assms(1) ro] obtain r'
    where "cur (snd (st_Put st now v [Put_RevisionOpt 0] s)) = Some (v, r')" "0 < r'" by auto
  with ro put_inv [OF assms(1)] show ?thesis by (metis prod.collapse)
qed

end

locale exact_store = value_store +
  assumes get_exact:
      "inv s \<Longrightarrow> get_Revision (get_options os) = Some r \<Longrightarrow> get_RevisionOut (get_options os) \<Longrightarrow>
       st_Get st os s = Inr (v, ro) \<Longrightarrow> ro = Some r \<and> r \<noteq> 0"

section \<open>Store builders\<close>

text \<open>
  \<open>strings.ToLower\<close> of the standard library, on ASCII names. The cache maps the lower-cased name to
  its builder.
\<close>

definition char_ToLower :: "char \<Rightarrow> char" where
  "char_ToLower c =
     (if 65 \<le> (of_char c :: nat) \<and> (of_char c :: nat) \<le> 90 then char_of ((of_char c :: nat) + 32) else c)"

definition ToLower :: "string \<Rightarrow> string" where
  "ToLower s = map char_ToLower s"

definition RegisterStoreBuilder ::
  "string \<Rightarrow> 'b \<Rightarrow> (string \<rightharpoonup> 'b) \<Rightarrow> (string \<rightharpoonup> 'b)" where
  "RegisterStoreBuilder name builder storeBuilderCache =
     storeBuilderCache(ToLower name \<mapsto> builder)"

definition GetStoreBuilder :: "string \<Rightarrow> (string \<rightharpoonup> 'b) \<Rightarrow> 'b option" where
  "GetStoreBuilder name storeBuilderCache = storeBuilderCache (ToLower name)"

lemma ToLower_idem [simp]: "ToLower (ToLower s) = ToLower s"
  by (simp add: ToLower_def char_ToLower_def)

text \<open>
  Store builders are registered case-insensitively: after \<open>RegisterStoreBuilder(name, b)\<close>, a lookup
  under any spelling of the name that differs only in case returns \<open>b\<close>, and every lookup under another
  name is unaffected.
\<close>

theorem store_builder_case_insensitive:
  "GetStoreBuilder name' (RegisterStoreBuilder name b cache) =
     (if ToLower name' = ToLower name then Some b else GetStoreBuilder name' cache)"
  by (simp add: GetStoreBuilder_def RegisterStoreBuilder_def)

end
