(* ===== verification/ValueStore.thy ===== *)
theory ValueStore
  imports Ring Stores
begin

text \<open>
  \<open>storage/inmemory/value_store.go\<close>: the in-memory value store, a ring of the last 64 writes. This
  theory holds the store itself: \<open>Put\<close>, \<open>Get\<close>, \<open>Delete\<close>, \<open>History\<close>, and the part of \<open>Watch\<close> that runs
  under the lock before it returns (the replay of past revisions). What a watch does afterwards is in
  \<open>ValueWatch\<close>.

  Each operation runs under the store's lock, so it is one function of the state. The ring loops
  (\<open>for elem := \<dots>; elem != \<dots>; elem = elem.Prev()\<close>) are recursive functions over the nodes; they stop
  because the distance to the final node shrinks.
\<close>

section \<open>State and operations\<close>

record 'a valueStoreElement =
  el_revision :: int64
  el_timestamp :: time
  el_value :: 'a
  el_deleted :: bool

record 'a inMemoryValueStore =
  vs_revision :: int64
  vs_values :: node
  vs_ring :: "node \<Rightarrow> 'a valueStoreElement option"
  vs_cloneFunc :: "'a \<Rightarrow> 'a"
  vs_zero :: 'a \<comment> \<open>the zero value of the type parameter T\<close>

definition NewValueStore :: "('a \<Rightarrow> 'a) \<Rightarrow> 'a \<Rightarrow> 'a inMemoryValueStore" where
  "NewValueStore cloneFunc zero =
     \<lparr>vs_revision = 0, vs_values = 0, vs_ring = ring_New, vs_cloneFunc = cloneFunc, vs_zero = zero\<rparr>"

definition isEmptyLocked :: "'a inMemoryValueStore \<Rightarrow> bool" where
  "isEmptyLocked s \<longleftrightarrow> vs_revision s = 0"

definition nil_deref :: err where
  "nil_deref = go_panic ''interface conversion: interface is nil''"

text \<open>The current element, \<open>s.values.Value\<close>.\<close>

abbreviation vs_current :: "'a inMemoryValueStore \<Rightarrow> 'a valueStoreElement option" where
  "vs_current s \<equiv> vs_ring s (vs_values s)"

text \<open>The revision a listener or a client gets for an element.\<close>

definition element_revision :: "('a \<Rightarrow> 'a) \<Rightarrow> 'a valueStoreElement \<Rightarrow> 'a KeyRevisionImpl" where
  "element_revision f e = \<lparr>kr_K = [], kr_V = f (el_value e), kr_Rev = el_revision e, kr_Time = el_timestamp e\<rparr>"

text \<open>The conditional part of Put: the error it returns before any change, if any.\<close>

definition vs_Put_check :: "PutOptions \<Rightarrow> 'a inMemoryValueStore \<Rightarrow> err option" where
  "vs_Put_check options s =
     (case put_Revision options of
        None \<Rightarrow> None
      | Some r \<Rightarrow>
          if r = 0 then
            (if vs_revision s \<noteq> 0 then
               (case vs_current s of
                  None \<Rightarrow> Some nil_deref
                | Some e \<Rightarrow>
                    if \<not> el_deleted e
                    then Some (errorf_w ''expected value not to exist (requested revision 0)'' ErrConflict)
                    else None)
             else None)
          else if r \<noteq> vs_revision s then Some (errorf_w ''revision mismatch'' ErrConflict)
          else None)"

text \<open>
  Put returns what it writes through \<open>RevisionOut\<close>, the new state, and the event it passes to every
  listener (each listener gets its own clones).
\<close>

definition vs_Put ::
  "time \<Rightarrow> 'a \<Rightarrow> PutOpt list \<Rightarrow> 'a inMemoryValueStore \<Rightarrow>
     int64 option result \<times> 'a inMemoryValueStore \<times> 'a WatchEvent option" where
  "vs_Put now value opts s =
     (let options = put_options opts in
      case vs_Put_check options s of
        Some e \<Rightarrow> (Inl e, s, None)
      | None \<Rightarrow>
          let previous = vs_current s;
              revision' = vs_revision s + 1;
              next = ring_Next (vs_values s);
              elem = \<lparr>el_revision = revision', el_timestamp = now, el_value = value, el_deleted = False\<rparr>;
              s' = s\<lparr>vs_revision := revision', vs_values := next,
                     vs_ring := (vs_ring s)(next := Some elem)\<rparr>;
              prevValue = (case previous of None \<Rightarrow> None
                           | Some p \<Rightarrow> if \<not> el_deleted p then Some p else None);
              ev = \<lparr>ev_EventType = WatchEventPut,
                    ev_Current = Some (element_revision (vs_cloneFunc s) elem),
                    ev_Previous = map_option (element_revision (vs_cloneFunc s)) prevValue\<rparr>
          in (Inr (if put_RevisionOut options then Some revision' else None), s', Some ev))"

text \<open>\<open>for elem := s.values.Prev(); elem != s.values; elem = elem.Prev()\<close> of Get.\<close>

function vs_Get_loop :: "'a inMemoryValueStore \<Rightarrow> int64 \<Rightarrow> node \<Rightarrow> 'a valueStoreElement option" where
  "vs_Get_loop s r elem =
     (if elem = vs_values s then None
      else case vs_ring s elem of
             None \<Rightarrow> None
           | Some v \<Rightarrow>
               if el_deleted v then vs_Get_loop s r (ring_Prev elem)
               else if el_revision v = r then Some v
               else vs_Get_loop s r (ring_Prev elem))"
  by pat_completeness auto
termination
  by (relation "measure (\<lambda>(s, r, elem). unat (elem - vs_values s))")
    (auto intro: Prev_less)

declare vs_Get_loop.simps [simp del]

definition vs_Get :: "GetOpt list \<Rightarrow> 'a inMemoryValueStore \<Rightarrow> ('a \<times> int64 option) result" where
  "vs_Get opts s =
     (let options = get_options opts in
      if isEmptyLocked s then
        (case get_Revision options of
           Some r \<Rightarrow> if r \<noteq> 0 then Inl (status_error OutOfRange ''revision %d is a future revision'')
                      else Inl ErrNotFound
         | None \<Rightarrow> Inl ErrNotFound)
      else
        let finish = (\<lambda>found. case found of
              None \<Rightarrow> Inl ErrNotFound
            | Some e \<Rightarrow> if el_deleted e then Inl ErrNotFound
                else Inr (vs_cloneFunc s (el_value e),
                          if get_RevisionOut options then Some (el_revision e) else None));
            current = (case vs_current s of None \<Rightarrow> Inl nil_deref | Some e \<Rightarrow> finish (Some e))
        in case get_Revision options of
             Some r \<Rightarrow>
               if vs_revision s = r then current
               else if r > vs_revision s
                 then Inl (status_error OutOfRange ''revision %d is a future revision'')
               else finish (vs_Get_loop s r (ring_Prev (vs_values s)))
           | None \<Rightarrow> current)"

definition vs_Delete ::
  "time \<Rightarrow> DeleteOpt list \<Rightarrow> 'a inMemoryValueStore \<Rightarrow>
     unit result \<times> 'a inMemoryValueStore \<times> 'a WatchEvent option" where
  "vs_Delete now opts s =
     (let options = delete_options opts in
      if isEmptyLocked s then (Inl ErrNotFound, s, None)
      else if delete_Revision options \<noteq> None \<and> delete_Revision options \<noteq> Some (vs_revision s)
        then (Inl (errorf_w ''revision mismatch'' ErrConflict), s, None)
      else case vs_current s of
             None \<Rightarrow> (Inl nil_deref, s, None)
           | Some previous \<Rightarrow>
               if el_deleted previous then (Inl ErrNotFound, s, None)
               else
                 let revision' = vs_revision s + 1;
                     next = ring_Next (vs_values s);
                     elem = \<lparr>el_revision = revision', el_timestamp = now, el_value = vs_zero s,
                             el_deleted = True\<rparr>;
                     s' = s\<lparr>vs_revision := revision', vs_values := next,
                            vs_ring := (vs_ring s)(next := Some elem)\<rparr>;
                     ev = \<lparr>ev_EventType = WatchEventDelete, ev_Current = None,
                           ev_Previous = Some (element_revision (vs_cloneFunc s) previous)\<rparr>
                 in (Inr (), s', Some ev))"

text \<open>
  The walk back to a starting revision, the same loop in History and in Watch:
  \<open>for ; current != s.values.Next(); current = current.Prev()\<close>. It fails on a node that was never
  written, stops at the revision, and ends at \<open>s.values.Next()\<close> when the whole ring was searched.
\<close>

function walk_back :: "'a inMemoryValueStore \<Rightarrow> int64 \<Rightarrow> node \<Rightarrow> node result" where
  "walk_back s r current =
     (if current = ring_Next (vs_values s) then Inr current
      else case vs_ring s current of
             None \<Rightarrow> Inl ErrNotFound
           | Some e \<Rightarrow>
               if el_deleted e then walk_back s r (ring_Prev current)
               else if el_revision e = r then Inr current
               else walk_back s r (ring_Prev current))"
  by pat_completeness auto
termination
  by (relation "measure (\<lambda>(s, r, current). unat (current - ring_Next (vs_values s)))")
    (auto intro: Prev_less)

declare walk_back.simps [simp del]

text \<open>The second loop of History: collect until a nil or deleted node, newest first.\<close>

function History_loop :: "'a inMemoryValueStore \<Rightarrow> bool \<Rightarrow> node \<Rightarrow> 'a KeyRevisionImpl list" where
  "History_loop s incl current =
     (if current = ring_Next (vs_values s) then []
      else case vs_ring s current of
             None \<Rightarrow> []
           | Some e \<Rightarrow>
               if el_deleted e then []
               else \<lparr>kr_K = [], kr_V = (if incl then vs_cloneFunc s (el_value e) else vs_zero s),
                     kr_Rev = el_revision e, kr_Time = el_timestamp e\<rparr>
                    # History_loop s incl (ring_Prev current))"
  by pat_completeness auto
termination
  by (relation "measure (\<lambda>(s, incl, current). unat (current - ring_Next (vs_values s)))")
    (auto intro: Prev_less)

declare History_loop.simps [simp del]

definition vs_History :: "HistoryOpt list \<Rightarrow> 'a inMemoryValueStore \<Rightarrow> 'a KeyRevisionImpl list result" where
  "vs_History opts s =
     (let options = history_options opts in
      if isEmptyLocked s then Inl ErrNotFound
      else case (case history_Revision options of
                   Some r \<Rightarrow> walk_back s r (vs_values s)
                 | None \<Rightarrow> Inr (vs_values s)) of
             Inl e \<Rightarrow> Inl e
           | Inr current \<Rightarrow>
               if (case vs_ring s current of None \<Rightarrow> False | Some e \<Rightarrow> el_deleted e)
               then Inl ErrNotFound
               else Inr (rev (History_loop s (history_IncludeValues options) current)))"

text \<open>
  The replay of Watch: from the starting node forward to the current one, one event per write, with
  the previous value. \<open>skip_delete\<close> is the case of revision 0, where a deleted current value sends
  no event.
\<close>

function Watch_replay ::
  "'a inMemoryValueStore \<Rightarrow> bool \<Rightarrow> node \<Rightarrow> 'a KeyRevisionImpl option \<Rightarrow> 'a WatchEvent list" where
  "Watch_replay s skip_delete current previous =
     (if current = ring_Next (vs_values s) then []
      else case vs_ring s current of
             None \<Rightarrow> Watch_replay s skip_delete (ring_Next current) previous
           | Some e \<Rightarrow>
               if el_deleted e then
                 (if \<not> skip_delete
                  then [\<lparr>ev_EventType = WatchEventDelete, ev_Current = None, ev_Previous = previous\<rparr>]
                  else [])
                 @ Watch_replay s skip_delete (ring_Next current) None
               else
                 \<lparr>ev_EventType = WatchEventPut,
                  ev_Current = Some (element_revision (vs_cloneFunc s) e),
                  ev_Previous = previous\<rparr>
                 # Watch_replay s skip_delete (ring_Next current) (Some (element_revision id e)))"
  by pat_completeness auto
termination
  by (relation "measure (\<lambda>(s, sd, current, p). unat (ring_Next (vs_values s) - current))")
    (auto intro: Next_less)

declare Watch_replay.simps [simp del]

definition vs_Watch :: "WatchOpt list \<Rightarrow> 'a inMemoryValueStore \<Rightarrow> 'a WatchEvent list result" where
  "vs_Watch opts s =
     (let options = watch_options opts in
      case (case watch_Revision options of
              Some r \<Rightarrow> if r > 0 then walk_back s r (vs_values s) else Inr (vs_values s)
            | None \<Rightarrow> Inr (ring_Next (vs_values s))) of
        Inl e \<Rightarrow> Inl e
      | Inr current \<Rightarrow>
          let previous = (case vs_ring s (ring_Prev current) of
                None \<Rightarrow> None
              | Some p \<Rightarrow> if \<not> el_deleted p then Some (element_revision (vs_cloneFunc s) p) else None);
              skip_delete = (case watch_Revision options of None \<Rightarrow> False | Some r \<Rightarrow> \<not> r > 0)
          in Inr (Watch_replay s skip_delete current previous))"

text \<open>The store as a value of the interface type \<open>ValueStoreT\<close>.\<close>

definition inMemory_ops :: "('a inMemoryValueStore, 'a) ValueStoreT" where
  "inMemory_ops =
     \<lparr>st_Put = (\<lambda>now v os s. let (r, s', _) = vs_Put now v os s in (r, s')),
      st_Get = vs_Get,
      st_Delete = (\<lambda>now os s. let (r, s', _) = vs_Delete now os s in (r, s')),
      st_History = vs_History\<rparr>"

end
