(* ===== verification/ValueLog.thy ===== *)
theory ValueLog
  imports ValueStore
begin

text \<open>
  The abstract value store, and the refinement of it by the ring: an unbounded log of the writes,
  oldest first, of which the ring keeps the last 64. \<open>refines s log\<close> is the representation invariant
  of the in-memory store; every operation keeps it, and every read is described over the log alone.
\<close>

section \<open>The log\<close>

type_synonym 'a log = "'a valueStoreElement list"

text \<open>
  Revisions count the writes from 1, the first write is no deletion, and no deletion follows another.
\<close>

definition wf_log :: "'a log \<Rightarrow> bool" where
  "wf_log log \<longleftrightarrow>
     (\<forall>k < length log. el_revision (log ! k) = int (Suc k)
        \<and> (el_deleted (log ! k) \<longrightarrow> 0 < k \<and> \<not> el_deleted (log ! (k - 1))))"

definition refines :: "'a inMemoryValueStore \<Rightarrow> 'a log \<Rightarrow> bool" where
  "refines s log \<longleftrightarrow>
     wf_log log \<and> vs_revision s = int (length log)
     \<and> (\<forall>i < 64. cell (vs_ring s) (vs_values s) i =
          (if i < length log then Some (log ! (length log - Suc i)) else None))"

text \<open>The element of a revision that reads can still find: retained by the ring and not deleted.\<close>

definition log_at :: "'a log \<Rightarrow> int64 \<Rightarrow> 'a valueStoreElement option" where
  "log_at log r =
     (if 0 < r \<and> r \<le> int (length log) \<and> int (length log) < r + 64 \<and> \<not> el_deleted (log ! (nat r - 1))
      then Some (log ! (nat r - 1)) else None)"

definition log_current :: "'a log \<Rightarrow> 'a valueStoreElement option" where
  "log_current log = log_at log (int (length log))"

text \<open>The writes since the last deletion.\<close>

definition live_run :: "'a log \<Rightarrow> 'a log" where
  "live_run log = rev (takeWhile (\<lambda>e. \<not> el_deleted e) (rev log))"

text \<open>The events that describe a list of writes, given the revision before the first.\<close>

fun events_of ::
  "('a \<Rightarrow> 'a) \<Rightarrow> bool \<Rightarrow> 'a KeyRevisionImpl option \<Rightarrow> 'a log \<Rightarrow> 'a WatchEvent list" where
  "events_of c skip prev [] = []"
| "events_of c skip prev (e # es) =
     (if el_deleted e then
        (if \<not> skip
         then [\<lparr>ev_EventType = WatchEventDelete, ev_Current = None, ev_Previous = prev\<rparr>] else [])
        @ events_of c skip None es
      else \<lparr>ev_EventType = WatchEventPut, ev_Current = Some (element_revision c e),
            ev_Previous = prev\<rparr>
           # events_of c skip (Some (element_revision id e)) es)"

lemma wf_logD:
  "wf_log log \<Longrightarrow> k < length log \<Longrightarrow> el_revision (log ! k) = int (Suc k)"
  by (simp add: wf_log_def)

definition wf_at :: "'a log \<Rightarrow> nat \<Rightarrow> bool" where
  "wf_at log k \<longleftrightarrow> el_revision (log ! k) = int (Suc k)
     \<and> (el_deleted (log ! k) \<longrightarrow> 0 < k \<and> \<not> el_deleted (log ! (k - 1)))"

lemma wf_log_iff: "wf_log log \<longleftrightarrow> (\<forall>k < length log. wf_at log k)"
  by (simp add: wf_log_def wf_at_def)

lemma wf_log_snoc:
  "wf_log (log @ [e]) \<longleftrightarrow>
     wf_log log \<and> el_revision e = int (Suc (length log))
     \<and> (el_deleted e \<longrightarrow> log \<noteq> [] \<and> \<not> el_deleted (last log))"
proof -
  have "wf_at (log @ [e]) k = wf_at log k" if "k < length log" for k
    using that by (simp add: wf_at_def nth_append less_imp_diff_less)
  moreover have "wf_at (log @ [e]) (length log) \<longleftrightarrow> el_revision e = int (Suc (length log))
     \<and> (el_deleted e \<longrightarrow> log \<noteq> [] \<and> \<not> el_deleted (last log))"
    by (cases log rule: rev_cases) (auto simp: wf_at_def nth_append)
  ultimately show ?thesis by (auto simp: wf_log_iff less_Suc_eq)
qed

lemma refinesD:
  assumes "refines s log"
  shows "wf_log log" "vs_revision s = int (length log)"
    "i < 64 \<Longrightarrow> vs_ring s (node_back (vs_values s) i) =
       (if i < length log then Some (log ! (length log - Suc i)) else None)"
  using assms by (auto simp: refines_def cell_def)

lemma refines_current:
  "refines s log \<Longrightarrow> vs_current s = (if log = [] then None else Some (last log))"
  using refinesD(3) [of s log 0] by (auto simp: last_conv_nth)

lemma refines_empty: "refines s log \<Longrightarrow> isEmptyLocked s \<longleftrightarrow> log = []"
  by (auto simp: isEmptyLocked_def refinesD(2))

section \<open>Writes\<close>

lemma refines_New [intro]: "refines (NewValueStore c z) []"
  by (simp add: refines_def NewValueStore_def wf_log_def ring_New_def cell_def)

text \<open>Writing the next node and moving to it appends to the log.\<close>

lemma refines_write:
  assumes s: "refines s log" and e: "wf_log (log @ [e])"
  shows "refines (s\<lparr>vs_revision := vs_revision s + 1, vs_values := ring_Next (vs_values s),
    vs_ring := (vs_ring s)(ring_Next (vs_values s) := Some e)\<rparr>) (log @ [e])"
proof -
  have "cell ((vs_ring s)(ring_Next (vs_values s) := Some e)) (ring_Next (vs_values s)) i =
      (if i < length (log @ [e]) then Some ((log @ [e]) ! (length (log @ [e]) - Suc i)) else None)"
    if i: "i < 64" for i
  proof (cases i)
    case 0
    then show ?thesis by (simp add: ring_simps)
  next
    case (Suc j)
    with i refinesD(3) [OF s, of j]
    have "cell (vs_ring s) (vs_values s) j = (if j < length log then Some (log ! (length log - Suc j)) else None)"
      by (simp add: cell_def)
    with Suc i show ?thesis
      by (simp add: ring_simps nth_append)
  qed
  with s e show ?thesis by (simp add: refines_def)
qed

lemma Put_check_iff:
  assumes "refines s log"
  shows "vs_Put_check options s = None \<longleftrightarrow>
    (case put_Revision options of None \<Rightarrow> True
     | Some r \<Rightarrow> if r = 0 then log_current log = None else r = int (length log))"
  using assms refines_current [OF assms] refinesD(2) [OF assms]
  by (auto simp: vs_Put_check_def log_current_def log_at_def last_conv_nth split: option.splits)

lemma Put_check_conflict:
  assumes "refines s log" "vs_Put_check options s = Some e"
  shows "IsConflict (Some e)"
  using assms refines_current [OF assms(1)] refinesD(2) [OF assms(1)]
  by (auto simp: vs_Put_check_def split: option.splits if_splits)

definition put_element :: "'a log \<Rightarrow> time \<Rightarrow> 'a \<Rightarrow> 'a valueStoreElement" where
  "put_element log now v =
     \<lparr>el_revision = int (length log) + 1, el_timestamp = now, el_value = v, el_deleted = False\<rparr>"

definition delete_element :: "'a log \<Rightarrow> time \<Rightarrow> 'a \<Rightarrow> 'a valueStoreElement" where
  "delete_element log now z =
     \<lparr>el_revision = int (length log) + 1, el_timestamp = now, el_value = z, el_deleted = True\<rparr>"

lemma Put_refines:
  assumes s: "refines s log"
  shows "(case vs_Put now v os s of
            (Inl e, s', ev) \<Rightarrow> s' = s \<and> ev = None \<and> IsConflict (Some e)
          | (Inr ro, s', ev) \<Rightarrow>
              refines s' (log @ [put_element log now v]) \<and> vs_cloneFunc s' = vs_cloneFunc s
              \<and> vs_zero s' = vs_zero s
              \<and> ro = (if put_RevisionOut (put_options os) then Some (int (length log) + 1) else None)
              \<and> ev = Some \<lparr>ev_EventType = WatchEventPut,
                  ev_Current = Some (element_revision (vs_cloneFunc s) (put_element log now v)),
                  ev_Previous = map_option (element_revision (vs_cloneFunc s)) (log_current log)\<rparr>)"
proof (cases "vs_Put_check (put_options os) s")
  case (Some e)
  with Put_check_conflict [OF s] show ?thesis by (simp add: vs_Put_def)
next
  case None
  have "wf_log (log @ [put_element log now v])"
    using refinesD(1) [OF s] by (simp add: wf_log_snoc put_element_def)
  from refines_write [OF s this] None refines_current [OF s] refinesD(2) [OF s]
  show ?thesis
    by (auto simp: vs_Put_def put_element_def Let_def log_current_def log_at_def last_conv_nth)
qed

lemma Delete_refines:
  assumes s: "refines s log"
  shows "(case vs_Delete now os s of
            (Inl e, s', ev) \<Rightarrow> s' = s \<and> ev = None
              \<and> (if log = [] then e = ErrNotFound
                 else if delete_Revision (delete_options os) \<notin> {None, Some (int (length log))}
                 then IsConflict (Some e)
                 else e = ErrNotFound \<and> log_current log = None)
          | (Inr u, s', ev) \<Rightarrow>
              refines s' (log @ [delete_element log now (vs_zero s)])
              \<and> vs_cloneFunc s' = vs_cloneFunc s \<and> vs_zero s' = vs_zero s
              \<and> delete_Revision (delete_options os) \<in> {None, Some (int (length log))}
              \<and> (\<exists>e. log_current log = Some e
                  \<and> ev = Some \<lparr>ev_EventType = WatchEventDelete, ev_Current = None,
                       ev_Previous = Some (element_revision (vs_cloneFunc s) e)\<rparr>))"
proof (cases "log = [] \<or> delete_Revision (delete_options os) \<notin> {None, Some (int (length log))}
    \<or> el_deleted (last log)")
  case True
  with s refines_current [OF s] refinesD(2) [OF s] refines_empty [OF s] show ?thesis
    by (auto simp: vs_Delete_def Let_def log_current_def log_at_def last_conv_nth)
next
  case False
  with refinesD(1) [OF s] have "wf_log (log @ [delete_element log now (vs_zero s)])"
    by (simp add: wf_log_snoc delete_element_def)
  from refines_write [OF s this] False refines_current [OF s] refinesD(2) [OF s] refines_empty [OF s]
  show ?thesis
    by (auto simp: vs_Delete_def delete_element_def Let_def log_current_def log_at_def last_conv_nth)
qed

section \<open>Reads\<close>

text \<open>The element at a revision is retained and alive when it is at most \<open>w\<close> back from the newest.\<close>

lemma vs_Get_loop_back:
  assumes s: "refines s log" and i: "0 < i" "i \<le> 64"
  shows "vs_Get_loop s r (node_back (vs_values s) i) =
    (if r \<le> int (length log) - int i then log_at log r else None)"
  using i
proof (induction "64 - i" arbitrary: i)
  case 0
  then have "i = 64" by simp
  then show ?case by (simp add: vs_Get_loop.simps log_at_def)
next
  case (Suc n)
  then have i: "0 < i" "i < 64" by auto
  then have ne: "node_back (vs_values s) i \<noteq> vs_values s" by (simp add: node_back_self)
  have IH: "vs_Get_loop s r (node_back (vs_values s) (Suc i)) =
      (if r \<le> int (length log) - int (Suc i) then log_at log r else None)"
    by (rule Suc.hyps) (use Suc.hyps(2) i in auto)
  show ?case
  proof (cases "i < length log")
    case False
    with refinesD(3) [OF s i(2)] ne show ?thesis
      by (simp add: vs_Get_loop.simps [of s r "node_back (vs_values s) i"] log_at_def)
  next
    case True
    let ?e = "log ! (length log - Suc i)"
    have rev: "el_revision ?e = int (length log) - int i"
      using wf_logD [OF refinesD(1) [OF s], of "length log - Suc i"] True by auto
    have unf: "vs_Get_loop s r (node_back (vs_values s) i) =
        (if el_deleted ?e then vs_Get_loop s r (node_back (vs_values s) (Suc i))
         else if el_revision ?e = r then Some ?e
         else vs_Get_loop s r (node_back (vs_values s) (Suc i)))"
      using refinesD(3) [OF s i(2)] ne True
      by (simp add: vs_Get_loop.simps [of s r "node_back (vs_values s) i"])
    show ?thesis
    proof (cases "r = int (length log) - int i")
      case True
      then have "nat r - 1 = length log - Suc i" using \<open>i < length log\<close> by simp
      with True rev unf IH i \<open>i < length log\<close> show ?thesis
        by (auto simp: log_at_def)
    next
      case False
      with rev unf IH show ?thesis by auto
    qed
  qed
qed

definition get_result :: "'a inMemoryValueStore \<Rightarrow> bool \<Rightarrow> 'a valueStoreElement option \<Rightarrow> ('a \<times> int64 option) result" where
  "get_result s out found =
     (case found of None \<Rightarrow> Inl ErrNotFound
      | Some e \<Rightarrow> Inr (vs_cloneFunc s (el_value e), if out then Some (el_revision e) else None))"

lemma Get_refines:
  assumes s: "refines s log"
  shows "vs_Get os s =
    (case get_Revision (get_options os) of
       None \<Rightarrow> get_result s (get_RevisionOut (get_options os)) (log_current log)
     | Some r \<Rightarrow>
         if r > int (length log) \<or> (log = [] \<and> r \<noteq> 0)
         then Inl (status_error OutOfRange ''revision %d is a future revision'')
         else get_result s (get_RevisionOut (get_options os)) (log_at log r))"
proof (cases "log = []")
  case True
  with s show ?thesis
    by (auto simp: vs_Get_def refines_empty get_result_def log_current_def log_at_def Let_def
        split: option.splits)
next
  case False
  from vs_Get_loop_back [OF s, of 1]
  have loop: "vs_Get_loop s r (ring_Prev (vs_values s)) =
      (if r \<le> int (length log) - 1 then log_at log r else None)" for r
    using Prev_node_back [of "vs_values s" 0] by simp
  have cur: "log_at log (int (length log)) = (if el_deleted (last log) then None else Some (last log))"
    using False by (simp add: log_at_def last_conv_nth)
  show ?thesis
    using False s refines_current [OF s] refinesD(2) [OF s] refines_empty [OF s]
    by (auto simp: vs_Get_def get_result_def log_current_def Let_def loop cur split: option.splits)
      (auto simp: log_at_def split: if_splits)
qed

text \<open>
  The walk back to a revision. It does not look at the oldest of the 64 nodes: the revision must be
  among the last 63. When it is not found, the result depends on whether the ring was ever filled.
\<close>

definition log_at63 :: "'a log \<Rightarrow> int64 \<Rightarrow> bool" where
  "log_at63 log r \<longleftrightarrow> log_at log r \<noteq> None \<and> int (length log) < r + 63"

lemma walk_back_at:
  assumes s: "refines s log" and i: "i \<le> 63" "i \<le> length log"
  shows "walk_back s r (node_back (vs_values s) i) =
    (if r \<le> int (length log) - int i \<and> log_at63 log r
     then Inr (node_back (vs_values s) (nat (int (length log) - r)))
     else if length log < 63 then Inl ErrNotFound else Inr (ring_Next (vs_values s)))"
  using i
proof (induction "63 - i" arbitrary: i)
  case 0
  then have "i = 63" by simp
  with 0 show ?case
    by (auto simp: walk_back.simps [of s r "node_back (vs_values s) 63"] Next_eq_node_back log_at63_def)
next
  case (Suc n)
  then have i: "i < 63" by auto
  then have ne: "node_back (vs_values s) i \<noteq> ring_Next (vs_values s)" by (simp add: node_back_Next)
  show ?case
  proof (cases "i < length log")
    case False
    with Suc.prems have "i = length log" by simp
    with refinesD(3) [OF s, of i] ne i show ?thesis
      by (auto simp: walk_back.simps [of s r "node_back (vs_values s) (length log)"] log_at63_def log_at_def)
  next
    case True
    let ?e = "log ! (length log - Suc i)"
    have IH: "walk_back s r (node_back (vs_values s) (Suc i)) =
        (if r \<le> int (length log) - int (Suc i) \<and> log_at63 log r
         then Inr (node_back (vs_values s) (nat (int (length log) - r)))
         else if length log < 63 then Inl ErrNotFound else Inr (ring_Next (vs_values s)))"
      by (rule Suc.hyps) (use Suc.hyps(2) i True in auto)
    have rev: "el_revision ?e = int (length log) - int i"
      using wf_logD [OF refinesD(1) [OF s], of "length log - Suc i"] True by auto
    have unf: "walk_back s r (node_back (vs_values s) i) =
        (if el_deleted ?e then walk_back s r (node_back (vs_values s) (Suc i))
         else if el_revision ?e = r then Inr (node_back (vs_values s) i)
         else walk_back s r (node_back (vs_values s) (Suc i)))"
      using refinesD(3) [OF s, of i] ne True i
      by (simp add: walk_back.simps [of s r "node_back (vs_values s) i"])
    show ?thesis
    proof (cases "r = int (length log) - int i")
      case eq: True
      then have "nat r - 1 = length log - Suc i" using True by simp
      with eq rev unf IH i True show ?thesis
        by (auto simp: log_at63_def log_at_def)
    next
      case False
      with rev unf IH show ?thesis by auto
    qed
  qed
qed

lemmas walk_back_start = walk_back_at [where i = 0, simplified]

text \<open>The collecting loop of History is a take-while over the log, read backwards.\<close>

definition history_entry ::
  "'a inMemoryValueStore \<Rightarrow> bool \<Rightarrow> 'a valueStoreElement \<Rightarrow> 'a KeyRevisionImpl" where
  "history_entry s incl e =
     \<lparr>kr_K = [], kr_V = (if incl then vs_cloneFunc s (el_value e) else vs_zero s),
      kr_Rev = el_revision e, kr_Time = el_timestamp e\<rparr>"

lemma take_Suc_rev:
  "n < length xs \<Longrightarrow> rev (take (Suc n) xs) = xs ! n # rev (take n xs)"
  by (simp add: take_Suc_conv_app_nth)

lemma History_loop_at:
  assumes s: "refines s log" and i: "i \<le> 63" "i \<le> length log"
  shows "History_loop s incl (node_back (vs_values s) i) =
    map (history_entry s incl)
      (takeWhile (\<lambda>e. \<not> el_deleted e) (take (63 - i) (rev (take (length log - i) log))))"
  using i
proof (induction "63 - i" arbitrary: i)
  case 0
  then have "i = 63" by simp
  then show ?case
    by (simp add: Next_eq_node_back
        History_loop.simps [of s incl "node_back (vs_values s) 63"])
next
  case (Suc n)
  then have i: "i < 63" by auto
  then have ne: "node_back (vs_values s) i \<noteq> ring_Next (vs_values s)" by (simp add: node_back_Next)
  show ?case
  proof (cases "i < length log")
    case False
    with Suc.prems have "i = length log" by simp
    with refinesD(3) [OF s, of i] ne i show ?thesis
      by (auto simp: History_loop.simps [of s incl "node_back (vs_values s) (length log)"])
  next
    case True
    have IH: "History_loop s incl (node_back (vs_values s) (Suc i)) =
        map (history_entry s incl)
          (takeWhile (\<lambda>e. \<not> el_deleted e) (take (63 - Suc i) (rev (take (length log - Suc i) log))))"
      by (rule Suc.hyps) (use Suc.hyps(2) i True in auto)
    have "take (63 - i) (rev (take (length log - i) log)) =
        log ! (length log - Suc i) # take (63 - Suc i) (rev (take (length log - Suc i) log))"
      using take_Suc_rev [of "length log - Suc i" log] True i
      by (simp add: Suc_diff_Suc numeral_eq_Suc Suc_diff_le)
    with refinesD(3) [OF s, of i] ne True i IH show ?thesis
      by (simp add: History_loop.simps [of s incl "node_back (vs_values s) i"] history_entry_def)
  qed
qed

lemma take_rev_window:
  "i \<le> 63 \<Longrightarrow> i \<le> length log \<Longrightarrow>
   take (63 - i) (rev (take (length log - i) log)) = rev (drop (length log - 63) (take (length log - i) log))"
  by (simp add: take_rev drop_take)

text \<open>The history ending at revision \<open>r\<close>: the writes since the last deletion, among the last 63.\<close>

definition history_run :: "'a log \<Rightarrow> int64 \<Rightarrow> 'a log" where
  "history_run log r = live_run (drop (length log - 63) (take (nat r) log))"

lemma History_refines:
  assumes s: "refines s log"
  shows "vs_History os s =
    (let entries = (\<lambda>r. Inr (map (history_entry s (history_IncludeValues (history_options os)))
                          (history_run log r)))
     in case history_Revision (history_options os) of
       None \<Rightarrow> if log_current log = None then Inl ErrNotFound else entries (int (length log))
     | Some r \<Rightarrow>
         if log_at63 log r then entries r
         else if length log < 63 then Inl ErrNotFound
         else if el_deleted (log ! (length log - 64)) \<and> 64 \<le> length log then Inl ErrNotFound
         else Inr [])"
proof -
  have loop: "rev (History_loop s b (node_back (vs_values s) i)) =
      map (history_entry s b) (history_run log (int (length log) - int i))"
    if "i \<le> 63" "i \<le> length log" for b i
    using History_loop_at [OF s that] that
    by (simp add: take_rev_window history_run_def live_run_def rev_map nat_diff_distrib')
  have at0: "rev (History_loop s b (vs_values s)) =
      map (history_entry s b) (history_run log (int (length log)))" for b
    using loop [of 0 b] by simp
  have end_loop: "History_loop s b (ring_Next (vs_values s)) = []" for b
    by (simp add: History_loop.simps)
  have oldest: "vs_ring s (ring_Next (vs_values s)) =
      (if 64 \<le> length log then Some (log ! (length log - 64)) else None)"
    using refinesD(3) [OF s, of 63] by (auto simp: Next_eq_node_back)
  have found: "\<not> el_deleted (log ! (length log - Suc (nat (int (length log) - r)))) \<and>
      nat (int (length log) - r) \<le> 62 \<and> nat (int (length log) - r) < length log \<and>
      int (nat (int (length log) - r)) = int (length log) - r" if "log_at63 log r" for r
  proof -
    from that have "length log - Suc (nat (int (length log) - r)) = nat r - 1"
      by (auto simp: log_at63_def log_at_def split: if_splits)
    with that show ?thesis by (auto simp: log_at63_def log_at_def split: if_splits)
  qed
  show ?thesis
  proof (cases "history_Revision (history_options os)")
    case None
    then show ?thesis
      using refines_current [OF s] refines_empty [OF s]
      by (auto simp: vs_History_def Let_def at0 log_current_def log_at_def last_conv_nth)
  next
    case (Some r)
    show ?thesis
    proof (cases "log_at63 log r")
      case True
      with found [OF True] loop [of "nat (int (length log) - r)"] refinesD(3) [OF s, of "nat (int (length log) - r)"]
        refines_empty [OF s] Some walk_back_start [OF s, of r]
      show ?thesis
        by (auto simp: vs_History_def Let_def log_at63_def log_at_def split: if_splits)
    next
      case False
      with Some walk_back_start [OF s, of r] refines_empty [OF s] oldest end_loop
      show ?thesis by (auto simp: vs_History_def Let_def)
    qed
  qed
qed

text \<open>The replay of Watch sends one event per write of the log from the starting revision on.\<close>

lemma Watch_replay_at:
  assumes s: "refines s log" and i: "i < 63" "i < length log"
  shows "Watch_replay s skip (node_back (vs_values s) i) prev =
    events_of (vs_cloneFunc s) skip prev (drop (length log - Suc i) log)"
  using i
proof (induction i arbitrary: prev)
  case 0
  have "drop (length log - Suc 0) log = [last log]"
    using 0 by (metis append_butlast_last_id append_eq_conv_conj length_butlast length_greater_0_conv
        One_nat_def)
  moreover have "vs_values s \<noteq> ring_Next (vs_values s)"
    using node_back_Next [of 0 "vs_values s"] by simp
  ultimately show ?case
    using refines_current [OF s] 0
    by (auto simp: Watch_replay.simps [of s skip "vs_values s"]
        Watch_replay.simps [of s skip "ring_Next (vs_values s)"])
next
  case (Suc j)
  then have ne: "node_back (vs_values s) (Suc j) \<noteq> ring_Next (vs_values s)"
    by (simp add: node_back_Next)
  have "drop (length log - Suc (Suc j)) log =
      log ! (length log - Suc (Suc j)) # drop (length log - Suc j) log"
    using Cons_nth_drop_Suc [of "length log - Suc (Suc j)" log] Suc.prems
    by (simp add: Suc_diff_Suc)
  with Suc ne refinesD(3) [OF s, of "Suc j"] show ?case
    by (simp add: Watch_replay.simps [of s skip "node_back (vs_values s) (Suc j)"])
qed

definition log_before :: "'a log \<Rightarrow> nat \<Rightarrow> 'a valueStoreElement option" where
  "log_before log k = (if k = 0 \<or> el_deleted (log ! (k - 1)) then None else Some (log ! (k - 1)))"

definition replay :: "'a inMemoryValueStore \<Rightarrow> 'a log \<Rightarrow> bool \<Rightarrow> nat \<Rightarrow> 'a WatchEvent list" where
  "replay s log skip k =
     events_of (vs_cloneFunc s) skip (map_option (element_revision (vs_cloneFunc s)) (log_before log k))
       (drop k log)"

lemma Watch_replay_from:
  assumes s: "refines s log" and i: "i < 63" "i < length log"
  shows "Watch_replay s skip (node_back (vs_values s) i)
      (case vs_ring s (ring_Prev (node_back (vs_values s) i)) of
         None \<Rightarrow> None
       | Some p \<Rightarrow> if \<not> el_deleted p then Some (element_revision (vs_cloneFunc s) p) else None) =
    replay s log skip (length log - Suc i)"
  using Watch_replay_at [OF assms] refinesD(3) [OF s, of "Suc i"] i
  by (auto simp: replay_def log_before_def)

lemma Watch_refines:
  assumes s: "refines s log"
  shows "vs_Watch os s =
    (case watch_Revision (watch_options os) of
       None \<Rightarrow> Inr []
     | Some r \<Rightarrow>
         if r > 0 then
           (if log_at63 log r then Inr (replay s log False (nat r - 1))
            else if length log < 63 then Inl ErrNotFound else Inr [])
         else Inr (if log = [] then [] else replay s log True (length log - 1)))"
proof -
  have at_end: "Watch_replay s b (ring_Next (vs_values s)) p = []" for b p
    by (simp add: Watch_replay.simps)
  show ?thesis
  proof (cases "watch_Revision (watch_options os)")
    case None
    then show ?thesis by (simp add: vs_Watch_def at_end Let_def)
  next
    case (Some r)
    show ?thesis
    proof (cases "r > 0")
      case True
      show ?thesis
      proof (cases "log_at63 log r")
        case at: True
        then have i: "nat (int (length log) - r) < 63" "nat (int (length log) - r) < length log"
          and k: "length log - Suc (nat (int (length log) - r)) = nat r - 1" and "r \<le> int (length log)"
          by (auto simp: log_at63_def log_at_def split: if_splits)
        with Watch_replay_from [OF s i, of False] Some True at walk_back_start [OF s, of r]
        show ?thesis by (simp add: vs_Watch_def Let_def)
      next
        case False
        with Some True walk_back_start [OF s, of r] at_end show ?thesis
          by (simp add: vs_Watch_def Let_def)
      qed
    next
      case r0: False
      show ?thesis
      proof (cases "log = []")
        case True
        with refinesD(3) [OF s, of 0] have "vs_current s = None" by simp
        then have "Watch_replay s True (vs_values s) p = []" for p
          by (simp add: Watch_replay.simps [of s True "vs_values s"] at_end)
        with True Some r0 show ?thesis by (simp add: vs_Watch_def Let_def)
      next
        case False
        with Watch_replay_from [OF s, of 0 True] Some r0 show ?thesis
          by (simp add: vs_Watch_def Let_def)
      qed
    qed
  qed
qed

section \<open>Runs\<close>

text \<open>A run of writes on a new store, and what it does to the log.\<close>

datatype 'a vs_op = Write_Put time 'a "PutOpt list" | Write_Delete time "DeleteOpt list"

fun vs_write :: "'a inMemoryValueStore \<Rightarrow> 'a vs_op \<Rightarrow> 'a inMemoryValueStore" where
  "vs_write s (Write_Put now v os) = fst (snd (vs_Put now v os s))"
| "vs_write s (Write_Delete now os) = fst (snd (vs_Delete now os s))"

text \<open>What a write returns: its error if it fails, the store afterwards and the event for the watches.\<close>

fun write_result :: "'a inMemoryValueStore \<Rightarrow> 'a vs_op
    \<Rightarrow> err option \<times> 'a inMemoryValueStore \<times> 'a WatchEvent option" where
  "write_result s (Write_Put now v os) = (case vs_Put now v os s of (r, s', ev) \<Rightarrow>
     (case r of Inl e \<Rightarrow> Some e | Inr _ \<Rightarrow> None, s', ev))"
| "write_result s (Write_Delete now os) = (case vs_Delete now os s of (r, s', ev) \<Rightarrow>
     (case r of Inl e \<Rightarrow> Some e | Inr _ \<Rightarrow> None, s', ev))"

fun write_revision :: "'a vs_op \<Rightarrow> int64 option" where
  "write_revision (Write_Put now v os) = put_Revision (put_options os)"
| "write_revision (Write_Delete now os) = delete_Revision (delete_options os)"

definition vs_run :: "('a \<Rightarrow> 'a) \<Rightarrow> 'a \<Rightarrow> 'a vs_op list \<Rightarrow> 'a inMemoryValueStore" where
  "vs_run c z ws = foldl vs_write (NewValueStore c z) ws"

fun put_allowed :: "'a log \<Rightarrow> int64 option \<Rightarrow> bool" where
  "put_allowed log None \<longleftrightarrow> True"
| "put_allowed log (Some r) \<longleftrightarrow> (if r = 0 then log_current log = None else r = int (length log))"

fun delete_allowed :: "'a log \<Rightarrow> int64 option \<Rightarrow> bool" where
  "delete_allowed log None \<longleftrightarrow> log_current log \<noteq> None"
| "delete_allowed log (Some r) \<longleftrightarrow> log_current log \<noteq> None \<and> r = int (length log)"

fun log_write :: "'a \<Rightarrow> 'a log \<Rightarrow> 'a vs_op \<Rightarrow> 'a log" where
  "log_write z log (Write_Put now v os) =
     (if put_allowed log (put_Revision (put_options os)) then log @ [put_element log now v] else log)"
| "log_write z log (Write_Delete now os) =
     (if delete_allowed log (delete_Revision (delete_options os))
      then log @ [delete_element log now z] else log)"

definition log_run :: "'a \<Rightarrow> 'a vs_op list \<Rightarrow> 'a log" where
  "log_run z ws = foldl (log_write z) [] ws"

lemma Put_ok_iff:
  assumes "refines s log"
  shows "(\<exists>ro. fst (vs_Put now v os s) = Inr ro) = put_allowed log (put_Revision (put_options os))"
proof -
  have "(\<exists>ro. fst (vs_Put now v os s) = Inr ro) \<longleftrightarrow> vs_Put_check (put_options os) s = None"
    by (auto simp: vs_Put_def Let_def split: option.splits)
  then show ?thesis using Put_check_iff [OF assms] by (auto split: option.splits)
qed

lemma Delete_ok_iff:
  assumes "refines s log"
  shows "(\<exists>u. fst (vs_Delete now os s) = Inr u) = delete_allowed log (delete_Revision (delete_options os))"
  using Delete_refines [OF assms, where now = now and os = os]
  by (cases "delete_Revision (delete_options os)")
    (auto split: prod.splits sum.splits if_splits simp: log_current_def log_at_def)

lemma vs_write_refines:
  assumes s: "refines s log"
  shows "refines (vs_write s w) (log_write (vs_zero s) log w)
    \<and> vs_cloneFunc (vs_write s w) = vs_cloneFunc s \<and> vs_zero (vs_write s w) = vs_zero s"
proof (cases w)
  case (Write_Put now v os)
  with Put_refines [OF s, where now = now and v = v and os = os] Put_ok_iff [OF s, of now v os] s show ?thesis
    by (cases "vs_Put now v os s") (auto split: sum.splits)
next
  case (Write_Delete now os)
  with Delete_refines [OF s, where now = now and os = os] Delete_ok_iff [OF s, of now os] s show ?thesis
    by (cases "vs_Delete now os s") (auto split: sum.splits)
qed

lemma vs_run_snoc: "vs_run c z (ws @ [w]) = vs_write (vs_run c z ws) w"
  by (simp add: vs_run_def)

lemma log_run_snoc: "log_run z (ws @ [w]) = log_write z (log_run z ws) w"
  by (simp add: log_run_def)

lemma vs_run_inv:
  "refines (vs_run c z ws) (log_run z ws) \<and> vs_cloneFunc (vs_run c z ws) = c \<and> vs_zero (vs_run c z ws) = z"
proof (induction ws rule: rev_induct)
  case Nil
  show ?case by (auto simp: vs_run_def log_run_def NewValueStore_def [of c z, symmetric])
      (simp_all add: NewValueStore_def)
next
  case (snoc w ws)
  with vs_write_refines [of "vs_run c z ws" "log_run z ws" w] show ?case
    by (simp add: vs_run_snoc log_run_snoc)
qed

lemmas vs_run_refines = vs_run_inv [THEN conjunct1]
  and vs_run_clone [simp] = vs_run_inv [THEN conjunct2, THEN conjunct1]
  and vs_run_zero [simp] = vs_run_inv [THEN conjunct2, THEN conjunct2]

end
