(* ===== verification/ValueIface.thy ===== *)
theory ValueIface
  imports ValueLog
begin

text \<open>
  The in-memory value store as a provider of the \<open>value_store\<close> interface: its invariant, its current
  value, and the interpretation of the locale on it.
\<close>

section \<open>The interface\<close>

definition inMemory_inv :: "'a inMemoryValueStore \<Rightarrow> bool" where
  "inMemory_inv s \<longleftrightarrow> (\<exists>log. refines s log) \<and> (\<forall>x. vs_cloneFunc s x = x)"

definition inMemory_cur :: "'a inMemoryValueStore \<Rightarrow> ('a \<times> int64) option" where
  "inMemory_cur s =
     (case vs_current s of
        None \<Rightarrow> None
      | Some e \<Rightarrow> if el_deleted e then None else Some (el_value e, el_revision e))"

lemma inMemory_cur_log:
  "refines s log \<Longrightarrow> inMemory_cur s = map_option (\<lambda>e. (el_value e, el_revision e)) (log_current log)"
  by (auto simp: inMemory_cur_def refines_current log_current_def log_at_def last_conv_nth)

lemma log_current_revision:
  "wf_log log \<Longrightarrow> log_current log = Some e \<Longrightarrow> el_revision e = int (length log) \<and> log \<noteq> []"
  using wf_logD [of log "length log - 1"]
  by (auto simp: log_current_def log_at_def split: if_splits)

lemma log_at_revision:
  "wf_log log \<Longrightarrow> log_at log r = Some e \<Longrightarrow> el_revision e = r \<and> 0 < r"
  using wf_logD [of log "nat r - 1"] by (auto simp: log_at_def split: if_splits)

lemma log_current_put [simp]: "log_current (log @ [put_element log now v]) = Some (put_element log now v)"
  by (simp add: log_current_def log_at_def put_element_def nth_append nat_add_distrib)

lemma log_current_delete [simp]: "log_current (log @ [delete_element log now v]) = None"
  by (simp add: log_current_def log_at_def delete_element_def nth_append nat_add_distrib)

lemma inMemory_get_cur:
  assumes "inMemory_inv s" "get_Revision (get_options os) = None"
  shows "vs_Get os s =
    (case inMemory_cur s of None \<Rightarrow> Inl ErrNotFound
     | Some (v, r) \<Rightarrow> Inr (v, if get_RevisionOut (get_options os) then Some r else None))"
proof -
  from assms(1) obtain log where "refines s log" "\<And>x. vs_cloneFunc s x = x"
    by (auto simp: inMemory_inv_def)
  with assms(2) show ?thesis
    by (simp add: Get_refines inMemory_cur_log get_result_def split: option.splits)
qed

lemma inMemory_get_at:
  assumes "inMemory_inv s" "get_Revision (get_options os) = Some r"
    "get_RevisionOut (get_options os)" "vs_Get os s = Inr (v, ro)"
  shows "ro = Some r \<and> r \<noteq> 0"
proof -
  from assms(1) obtain log where s: "refines s log" by (auto simp: inMemory_inv_def)
  from assms(2-4) log_at_revision [OF refinesD(1) [OF s], of r] show ?thesis
    by (auto simp: Get_refines [OF s] get_result_def split: if_splits option.splits)
qed

lemma inMemory_get_at_cur:
  assumes "inMemory_inv s" "inMemory_cur s = Some (v, r)" "get_Revision (get_options os) = Some r"
  shows "vs_Get os s = Inr (v, if get_RevisionOut (get_options os) then Some r else None)"
proof -
  from assms(1) obtain log where s: "refines s log" and c: "\<And>x. vs_cloneFunc s x = x"
    by (auto simp: inMemory_inv_def)
  from assms(2) obtain e where e: "log_current log = Some e" "v = el_value e" "r = el_revision e"
    by (auto simp: inMemory_cur_log [OF s])
  with log_current_revision [OF refinesD(1) [OF s]] have "r = int (length log)" "log \<noteq> []" by auto
  with e assms(3) c show ?thesis
    by (simp add: Get_refines [OF s] get_result_def log_current_def)
qed

lemma inMemory_put:
  assumes "inMemory_inv s" "vs_Put now v os s = (r, s', ev)"
  shows "inMemory_inv s'"
    "r = Inr ro \<Longrightarrow> \<exists>n. inMemory_cur s' = Some (v, n) \<and> 0 < n
       \<and> (\<forall>v' n'. inMemory_cur s = Some (v', n') \<longrightarrow> n' < n)"
    "r = Inl e \<Longrightarrow> s' = s \<and> IsConflict (Some e)"
proof -
  from assms(1) obtain log where s: "refines s log" and c: "\<And>x. vs_cloneFunc s x = x"
    by (auto simp: inMemory_inv_def)
  note P = Put_refines [OF s, where now = now and v = v and os = os] assms(2)
  from P assms(1) c show "inMemory_inv s'" by (auto simp: inMemory_inv_def split: sum.splits)
  from P show "r = Inl e \<Longrightarrow> s' = s \<and> IsConflict (Some e)" by simp
  assume "r = Inr ro"
  with P have s': "refines s' (log @ [put_element log now v])" by simp
  show "\<exists>n. inMemory_cur s' = Some (v, n) \<and> 0 < n
       \<and> (\<forall>v' n'. inMemory_cur s = Some (v', n') \<longrightarrow> n' < n)"
    using log_current_revision [OF refinesD(1) [OF s]]
    by (auto simp: inMemory_cur_log [OF s] inMemory_cur_log [OF s'] put_element_def
        simp flip: put_element_def)
      (auto simp: put_element_def)
qed

lemma inMemory_put_cas:
  assumes "inMemory_inv s" "put_Revision (put_options os) = Some r"
  shows "(r = 0 \<longrightarrow> (inMemory_cur s = None \<longleftrightarrow> (\<exists>ro. fst (vs_Put now v os s) = Inr ro)))
    \<and> (\<forall>v' r'. inMemory_cur s = Some (v', r') \<longrightarrow>
         (if r = r' then \<exists>ro. fst (vs_Put now v os s) = Inr ro
          else \<exists>e. fst (vs_Put now v os s) = Inl e \<and> IsConflict (Some e)))"
proof -
  from assms(1) obtain log where s: "refines s log" by (auto simp: inMemory_inv_def)
  have fail: "\<nexists>ro. fst (vs_Put now v os s) = Inr ro \<Longrightarrow>
      \<exists>e. fst (vs_Put now v os s) = Inl e \<and> IsConflict (Some e)"
    using inMemory_put(3) [OF assms(1), of now v os]
    by (cases "vs_Put now v os s"; cases "fst (vs_Put now v os s)") auto
  have "log_current log = None \<longleftrightarrow> inMemory_cur s = None" by (simp add: inMemory_cur_log [OF s])
  moreover have "r' = int (length log) \<and> log \<noteq> []" if "inMemory_cur s = Some (v', r')" for v' r'
    using that log_current_revision [OF refinesD(1) [OF s]] by (auto simp: inMemory_cur_log [OF s])
  ultimately show ?thesis
    using Put_ok_iff [OF s, of now v os] assms(2) fail by (auto split: if_splits)
qed

lemma inMemory_delete:
  assumes "inMemory_inv s" "vs_Delete now os s = (r, s', ev)"
  shows "inMemory_inv s'"
    "r = Inr u \<Longrightarrow> inMemory_cur s' = None"
    "r = Inl e \<Longrightarrow> s' = s"
proof -
  from assms(1) obtain log where s: "refines s log" and c: "\<And>x. vs_cloneFunc s x = x"
    by (auto simp: inMemory_inv_def)
  note D = Delete_refines [OF s, where now = now and os = os] assms(2)
  from D assms(1) c show "inMemory_inv s'" by (auto simp: inMemory_inv_def split: sum.splits)
  from D show "r = Inl e \<Longrightarrow> s' = s" by simp
  assume "r = Inr u"
  with D have "refines s' (log @ [delete_element log now (vs_zero s)])" by simp
  then show "inMemory_cur s' = None" by (simp add: inMemory_cur_log)
qed

lemma inMemory_delete_cas:
  assumes "inMemory_inv s" "inMemory_cur s = Some (v, r)"
  shows "(delete_Revision (delete_options os) = None \<or> delete_Revision (delete_options os) = Some r)
    = (\<exists>u. fst (vs_Delete now os s) = Inr u)"
proof -
  from assms(1) obtain log where s: "refines s log" by (auto simp: inMemory_inv_def)
  from assms(2) obtain e where "log_current log = Some e" "r = el_revision e"
    by (auto simp: inMemory_cur_log [OF s])
  with log_current_revision [OF refinesD(1) [OF s]] Delete_ok_iff [OF s, of now os] show ?thesis
    by (cases "delete_Revision (delete_options os)") auto
qed

lemma inMemory_ops_eqs [store_simps]:
  "st_Put inMemory_ops now v os s = (fst (vs_Put now v os s), fst (snd (vs_Put now v os s)))"
  "st_Get inMemory_ops gs s = vs_Get gs s"
  "st_Delete inMemory_ops now ds s = (fst (vs_Delete now ds s), fst (snd (vs_Delete now ds s)))"
  "st_History inMemory_ops hs s = vs_History hs s"
  by (simp_all add: inMemory_ops_def case_prod_beta)

interpretation inmem: exact_store inMemory_ops inMemory_inv inMemory_cur "(=)"
proof (unfold_locales, goal_cases)
  case 1 show ?case by simp
next
  case 2 then show ?case by simp
next
  case 3 then show ?case by (simp add: store_simps inMemory_get_cur)
next
  case (4 s now v ps) then show ?case
    by (metis inMemory_ops_eqs(1) inMemory_put(1) prod.collapse snd_conv)
next
  case (5 s now ds) then show ?case
    by (metis inMemory_ops_eqs(3) inMemory_delete(1) prod.collapse snd_conv)
next
  case (6 s now v ps ro) then show ?case
    by (metis inMemory_ops_eqs(1) inMemory_put(2) prod.collapse fst_conv snd_conv)
next
  case (7 s now v ps e) then show ?case
    by (metis inMemory_ops_eqs(1) inMemory_put(3) prod.collapse fst_conv snd_conv)
next
  case (8 s ps r now v) then show ?case
    by (simp add: store_simps inMemory_put_cas del: err_preds)
next
  case (9 s now ds u) then show ?case
    by (metis inMemory_ops_eqs(3) inMemory_delete(2) prod.collapse fst_conv snd_conv)
next
  case (10 s now ds e) then show ?case
    by (metis inMemory_ops_eqs(3) inMemory_delete(3) prod.collapse fst_conv snd_conv)
next
  case (11 s v r ds now) then show ?case
    using inMemory_delete_cas [of s v r ds now] by (simp add: store_simps)
next
  case (12 s v r os) then show ?case by (simp add: store_simps inMemory_get_at_cur)
next
  case (13 s os r v ro) then show ?case by (metis inMemory_ops_eqs(2) inMemory_get_at order_refl)
next
  case (14 s v r) then show ?case
    using log_current_revision by (fastforce simp: inMemory_inv_def inMemory_cur_log dest: refinesD(1))
next
  case (15 s os r v ro) then show ?case by (metis inMemory_ops_eqs(2) inMemory_get_at)
qed

end
