(* ===== verification/ValueProps.thy ===== *)
theory ValueProps
  imports ValueIface
begin

text \<open>
  The properties of the in-memory value store in every state a run of writes can reach.
\<close>

section \<open>Lemmas on runs\<close>

lemma length_log_write: "length (log_write z log w) \<le> Suc (length log)"
  by (cases w) auto

lemma log_write_prefix: "\<exists>es. log_write z log w = log @ es"
  by (cases w) auto

lemma log_run_append: "log_run z (ws @ ws') = foldl (log_write z) (log_run z ws) ws'"
  by (simp add: log_run_def)

lemma foldl_log_write:
  "\<exists>es. foldl (log_write z) log ws = log @ es \<and> length es \<le> length ws"
proof (induction ws rule: rev_induct)
  case (snoc w ws)
  then obtain es where es: "foldl (log_write z) log ws = log @ es" "length es \<le> length ws" by blast
  obtain fs where fs: "log_write z (log @ es) w = (log @ es) @ fs"
    using log_write_prefix [of z "log @ es" w] by blast
  have "length fs \<le> 1" using length_log_write [of z "log @ es" w] fs by simp
  with es fs show ?case by simp
qed simp

lemma length_log_run: "length (log_run z ws) \<le> length ws"
  using foldl_log_write [of z "[]" ws] by (auto simp: log_run_def)

lemma refines_foldl:
  "refines s log \<Longrightarrow> refines (foldl vs_write s ws) (foldl (log_write (vs_zero s)) log ws)
     \<and> vs_cloneFunc (foldl vs_write s ws) = vs_cloneFunc s"
proof (induction ws arbitrary: s log)
  case (Cons w ws)
  note w = vs_write_refines [OF Cons.prems, of w]
  from Cons.IH [OF w [THEN conjunct1]] w show ?case by simp
qed simp

lemma log_at_append:
  "0 < r \<Longrightarrow> r \<le> int (length log) \<Longrightarrow> int (length (log @ es)) < r + 64 \<Longrightarrow>
   \<not> el_deleted (log ! (nat r - 1)) \<Longrightarrow> log_at (log @ es) r = Some (log ! (nat r - 1))"
  by (auto simp: log_at_def nth_append)

lemma vs_run_append: "vs_run c z (ws @ ws') = foldl vs_write (vs_run c z ws) ws'"
  by (simp add: vs_run_def)

lemma Put_result:
  assumes "refines s log" "vs_Put now v os s = (Inr ro, s', ev)"
  shows "refines s' (log @ [put_element log now v])"
    "ro = (if put_RevisionOut (put_options os) then Some (int (length log) + 1) else None)"
    "vs_cloneFunc s' = vs_cloneFunc s" "vs_zero s' = vs_zero s"
    "put_allowed log (put_Revision (put_options os))"
proof -
  note P = Put_refines [OF assms(1), where now = now and v = v and os = os, unfolded assms(2), simplified]
  from P show "refines s' (log @ [put_element log now v])"
    "ro = (if put_RevisionOut (put_options os) then Some (int (length log) + 1) else None)"
    "vs_cloneFunc s' = vs_cloneFunc s" "vs_zero s' = vs_zero s" by simp_all
  from Put_ok_iff [OF assms(1), of now v os] assms(2)
  show "put_allowed log (put_Revision (put_options os))" by simp
qed

lemma length_events_of: "length (events_of c skip p es) \<le> length es"
  by (induction es arbitrary: p) (auto simp: le_SucI)

lemma last_events_of:
  "es \<noteq> [] \<Longrightarrow> \<not> skip \<Longrightarrow> events_of c skip p es \<noteq> []
     \<and> ev_Current (last (events_of c skip p es)) =
         (if el_deleted (last es) then None else Some (element_revision c (last es)))"
  by (induction es arbitrary: p) auto

text \<open>Each event of a replay continues from the one before it.\<close>

fun linked :: "'a WatchEvent list \<Rightarrow> bool" where
  "linked (e # e' # es) \<longleftrightarrow>
     map_option kr_Rev (ev_Previous e') = map_option kr_Rev (ev_Current e) \<and> linked (e' # es)"
| "linked _ \<longleftrightarrow> True"

lemma linked_Cons:
  "linked (e # es) \<longleftrightarrow> (case es of [] \<Rightarrow> True
     | e' # _ \<Rightarrow> map_option kr_Rev (ev_Previous e') = map_option kr_Rev (ev_Current e) \<and> linked es)"
  by (cases es) auto

lemma ev_Previous_events_of:
  "\<not> skip \<Longrightarrow> events_of c skip p es = e # evs \<Longrightarrow> ev_Previous e = p"
  by (cases es) (auto split: if_splits)

lemma linked_events_of: "\<not> skip \<Longrightarrow> linked (events_of c skip p es)"
proof (induction es arbitrary: p)
  case (Cons e es)
  show ?case
  proof (cases "events_of c skip (if el_deleted e then None else Some (element_revision id e)) es")
    case Nil
    with Cons.prems show ?thesis by (auto split: if_splits)
  next
    case (Cons e' evs)
    moreover have "linked (e' # evs)"
      using Cons.IH [OF Cons.prems, of "if el_deleted e then None else Some (element_revision id e)"] Cons
      by simp
    ultimately show ?thesis
      using ev_Previous_events_of [OF Cons.prems Cons] Cons.prems
      by (auto simp: element_revision_def split: if_splits)
  qed
qed simp

lemma replay_single:
  "log \<noteq> [] \<Longrightarrow> replay s log True (length log - Suc 0) =
     (if el_deleted (last log) then []
      else [\<lparr>ev_EventType = WatchEventPut, ev_Current = Some (element_revision (vs_cloneFunc s) (last log)),
             ev_Previous = map_option (element_revision (vs_cloneFunc s)) (log_before log (length log - 1))\<rparr>])"
  by (cases log rule: rev_cases) (auto simp: replay_def)

lemma Get_current:
  assumes "refines s log"
  shows "vs_Get [Get_RevisionOutOpt True] s =
    (if log = [] \<or> el_deleted (last log) then Inl ErrNotFound
     else Inr (vs_cloneFunc s (el_value (last log)), Some (el_revision (last log))))"
  by (auto simp: Get_refines [OF assms] get_result_def log_current_def log_at_def last_conv_nth)

text \<open>What a client that follows the events knows: the current revision, or that there is none.\<close>

definition shown :: "('a \<Rightarrow> 'a) \<Rightarrow> 'a log \<Rightarrow> 'a KeyRevisionImpl option" where
  "shown c log = (if log = [] \<or> el_deleted (last log) then None else Some (element_revision c (last log)))"

definition event_ok :: "'a WatchEvent \<Rightarrow> bool" where
  "event_ok e \<longleftrightarrow> (ev_EventType e = WatchEventDelete \<longleftrightarrow> ev_Current e = None)"

definition follows :: "('a \<Rightarrow> 'a) \<Rightarrow> 'a log \<Rightarrow> 'a WatchEvent list \<Rightarrow> bool" where
  "follows c log evs \<longleftrightarrow> linked evs \<and> (\<forall>e \<in> set evs. event_ok e) \<and> (evs \<noteq> [] \<longrightarrow> ev_Current (last evs) = shown c log)"

lemma Get_shown:
  assumes "refines s log"
  shows "vs_Get [Get_RevisionOutOpt True] s =
    (case shown (vs_cloneFunc s) log of None \<Rightarrow> Inl ErrNotFound | Some k \<Rightarrow> Inr (kr_V k, Some (kr_Rev k)))"
  by (simp add: Get_current [OF assms] shown_def element_revision_def)

lemma events_of_ok: "\<forall>e \<in> set (events_of c skip p es). event_ok e"
  by (induction es arbitrary: p) (auto simp: event_ok_def)

lemma Watch_follows:
  assumes s: "refines s log" and w: "vs_Watch os s = Inr evs"
  shows "follows (vs_cloneFunc s) log evs \<and> length evs \<le> 63"
proof (cases "evs = []")
  case True
  then show ?thesis by (simp add: follows_def)
next
  case False
  note W = Watch_refines [OF s, of os, unfolded w]
  with False obtain r where r: "watch_Revision (watch_options os) = Some r"
    by (auto split: option.splits)
  show ?thesis
  proof (cases "r > 0")
    case True
    with W r False have at: "log_at63 log r" and evs: "evs = replay s log False (nat r - 1)"
      by (auto split: if_splits)
    then have k: "nat r - 1 < length log" "length log - (nat r - 1) \<le> 63"
      by (auto simp: log_at63_def log_at_def split: if_splits)
    then have d: "drop (nat r - 1) log \<noteq> []" "last (drop (nat r - 1) log) = last log" by auto
    have "length evs \<le> 63"
      using length_events_of [of _ False _ "drop (nat r - 1) log"] k evs
      by (auto simp: replay_def intro: order_trans)
    with last_events_of [OF d(1), of False] linked_events_of [of False] evs d(2) k(1) show ?thesis
      by (auto simp: replay_def follows_def shown_def events_of_ok [rule_format])
  next
    case r0: False
    with W r False have "log \<noteq> []" "evs = replay s log True (length log - 1)"
      by (auto split: if_splits)
    with False show ?thesis
      by (simp add: replay_single follows_def shown_def event_ok_def split: if_splits)
  qed
qed

section \<open>Properties\<close>

text \<open>
  C1. The ring implements the log: after any sequence of Put and Delete calls on a new store (failed
  calls included), the ring holds exactly the last 64 successful writes of an unbounded log, with
  revisions counting from 1; and the next Put or Delete succeeds exactly when the log says so
  (unconditionally; with revision 0 only when there is no live value; with another revision only at the
  current one; a Delete only of a live value).
\<close>

theorem ring_implements_log:
  "refines (vs_run c z ws) (log_run z ws)
   \<and> (\<exists>ro. fst (vs_Put now v ps (vs_run c z ws)) = Inr ro)
       = put_allowed (log_run z ws) (put_Revision (put_options ps))
   \<and> (\<exists>u. fst (vs_Delete now ds (vs_run c z ws)) = Inr u)
       = delete_allowed (log_run z ws) (delete_Revision (delete_options ds))"
  by (intro conjI vs_run_refines Put_ok_iff [OF vs_run_refines] Delete_ok_iff [OF vs_run_refines])

text \<open>
  C3. Retention: the value a successful Put stored is returned by Get at the revision that Put
  reported, through any later sequence of fewer than 64 writes, deletions included.
\<close>

theorem get_old_revision:
  assumes "vs_Put now v ps (vs_run c z ws) = (Inr (Some r), s', ev)" and "length ws' < 64"
  shows "vs_Get [Get_RevisionOpt r, Get_RevisionOutOpt True] (foldl vs_write s' ws') = Inr (c v, Some r)"
proof -
  let ?log = "log_run z ws" and ?e = "put_element (log_run z ws) now v"
  note P = Put_result [OF vs_run_refines assms(1)]
  obtain es where es: "foldl (log_write (vs_zero s')) (?log @ [?e]) ws' = (?log @ [?e]) @ es"
    "length es \<le> length ws'"
    using foldl_log_write [of "vs_zero s'" "?log @ [?e]" ws'] by blast
  have r: "r = int (length ?log) + 1" using P(2) by (simp split: if_splits)
  have R: "refines (foldl vs_write s' ws') ((?log @ [?e]) @ es)"
    "vs_cloneFunc (foldl vs_write s' ws') = c"
    using refines_foldl [OF P(1), of ws'] es P(3) by auto
  have "(?log @ [?e]) ! (nat r - 1) = ?e" using r by (simp add: nat_add_distrib)
  then have "log_at ((?log @ [?e]) @ es) r = Some ?e"
    using log_at_append [of r "?log @ [?e]" es] r es(2) assms(2) by (simp add: put_element_def)
  with R r show ?thesis by (auto simp: Get_refines [OF R(1)] get_result_def put_element_def)
qed

theorem get_old_revision_witness:
  "vs_Get [Get_RevisionOpt 2, Get_RevisionOutOpt True]
     (foldl vs_write (fst (snd (vs_Put 7 (5 :: int) [Put_RevisionOutOpt True]
        (vs_run id 0 [Write_Put 1 3 []])))) [Write_Put 8 9 [], Write_Delete 9 []]) = Inr (5, Some 2)"
proof -
  have "fst (vs_Put 7 (5 :: int) [Put_RevisionOutOpt True] (vs_run id 0 [Write_Put 1 3 []])) = Inr (Some 2)"
    by code_simp
  then obtain s' ev where P: "vs_Put 7 (5 :: int) [Put_RevisionOutOpt True] (vs_run id 0 [Write_Put 1 3 []])
      = (Inr (Some 2), s', ev)" by (metis prod.collapse)
  from get_old_revision [OF P, of "[Write_Put 8 9 [], Write_Delete 9 []]"] show ?thesis by (simp add: P)
qed

text \<open>
  Get in full: what it returns in every reachable state, for every combination of options, as a
  function of the log. In particular a revision beyond the current one (or any non-zero revision of
  an empty store) is OutOfRange, and a deleted or overwritten revision is NotFound.
\<close>

theorem get_reads_log:
  "vs_Get os (vs_run c z ws) =
    (let log = log_run z ws;
         found = (\<lambda>e. case e of None \<Rightarrow> Inl ErrNotFound
           | Some e \<Rightarrow> Inr (c (el_value e),
               if get_RevisionOut (get_options os) then Some (el_revision e) else None))
     in case get_Revision (get_options os) of
          None \<Rightarrow> found (log_current log)
        | Some r \<Rightarrow>
            if r > int (length log) \<or> (log = [] \<and> r \<noteq> 0)
            then Inl (status_error OutOfRange ''revision %d is a future revision'')
            else found (log_at log r))"
  unfolding Get_refines [OF vs_run_refines] get_result_def vs_run_clone Let_def ..

lemma write_succeeds:
  assumes "refines s log" "fst (write_result s w) = None" "write_revision w = Some r" "r \<noteq> 0"
  shows "r = int (length log)" "\<exists>e. log_write (vs_zero s) log w = log @ [e]"
proof -
  have "r = int (length log) \<and> (\<exists>e. log_write (vs_zero s) log w = log @ [e])"
  proof (cases w)
    case (Write_Put now v os)
    with assms(2-4) Put_ok_iff [OF assms(1), of now v os] show ?thesis
      by (auto split: prod.splits sum.splits)
  next
    case (Write_Delete now os)
    with assms(2-4) Delete_ok_iff [OF assms(1), of now os] show ?thesis
      by (auto split: prod.splits sum.splits)
  qed
  then show "r = int (length log)" "\<exists>e. log_write (vs_zero s) log w = log @ [e]" by simp_all
qed

lemma write_conflicts:
  assumes "refines s log" "write_revision w = Some r" "r \<noteq> 0" "r \<noteq> int (length log)" "log \<noteq> []"
  shows "\<exists>e. write_result s w = (Some e, s, None) \<and> IsConflict (Some e)"
proof (cases w)
  case (Write_Put now v os)
  with assms Put_ok_iff [OF assms(1), of now v os] Put_refines [OF assms(1), where now = now and v = v and os = os]
  show ?thesis by (cases "vs_Put now v os s") (auto split: sum.splits)
next
  case (Write_Delete now os)
  with assms Delete_refines [OF assms(1), where now = now and os = os]
  show ?thesis by (cases "vs_Delete now os s") (auto split: sum.splits)
qed

text \<open>
  C2. Optimistic concurrency: once a \<open>Put\<close> or \<open>Delete\<close> conditioned on a non-zero revision \<open>r\<close> has succeeded, every
  later \<open>Put\<close> or \<open>Delete\<close> conditioned on the same revision fails with a conflict, changes nothing and sends no
  event, whatever writes and deletes happen in between. No update is lost. (Revision 0 only asks that there be no
  current value, so a \<open>Put\<close> at revision 0 succeeds again after a deletion.)
\<close>

theorem no_lost_update:
  assumes "fst (write_result (vs_run c z ws) w) = None"
    and "write_revision w = Some r" and "r \<noteq> 0" and "write_revision w' = Some r"
  shows "\<exists>e. write_result (vs_run c z (ws @ w # ws')) w' = (Some e, vs_run c z (ws @ w # ws'), None)
           \<and> IsConflict (Some e)"
proof -
  note w = write_succeeds [OF vs_run_refines assms(1-3)]
  from w(2) obtain e where "log_run z (ws @ [w]) = log_run z ws @ [e]" by (auto simp: log_run_snoc)
  then obtain es where "log_run z (ws @ w # ws') = (log_run z ws @ [e]) @ es"
    using foldl_log_write [of z "log_run z (ws @ [w])" ws'] by (auto simp: log_run_def)
  then have "r \<noteq> int (length (log_run z (ws @ w # ws')))" "log_run z (ws @ w # ws') \<noteq> []"
    using w(1) by simp_all
  from write_conflicts [OF vs_run_refines assms(4,3) this] show ?thesis .
qed

theorem no_lost_update_witness:
  "(\<exists>e. write_result (vs_run id (0 :: int) [Write_Put 1 3 [], Write_Put 2 5 [Put_RevisionOpt 1], Write_Put 3 8 []])
           (Write_Delete 4 [Delete_RevisionOpt 1]) =
         (Some e, vs_run id 0 [Write_Put 1 3 [], Write_Put 2 5 [Put_RevisionOpt 1], Write_Put 3 8 []], None)
       \<and> IsConflict (Some e))
   \<and> (\<exists>e. write_result (vs_run id (0 :: int) [Write_Put 1 3 [], Write_Delete 2 [Delete_RevisionOpt 1]])
           (Write_Put 3 4 [Put_RevisionOpt 1]) =
         (Some e, vs_run id 0 [Write_Put 1 3 [], Write_Delete 2 [Delete_RevisionOpt 1]], None)
       \<and> IsConflict (Some e))"
proof -
  have p: "fst (write_result (vs_run id (0 :: int) [Write_Put 1 3 []]) (Write_Put 2 5 [Put_RevisionOpt 1])) = None"
    "write_revision (Write_Put 2 (5 :: int) [Put_RevisionOpt 1]) = Some 1"
    "write_revision (Write_Delete 4 [Delete_RevisionOpt 1] :: int vs_op) = Some 1"
    by code_simp+
  have d: "fst (write_result (vs_run id (0 :: int) [Write_Put 1 3 []]) (Write_Delete 2 [Delete_RevisionOpt 1])) = None"
    "write_revision (Write_Delete 2 [Delete_RevisionOpt 1] :: int vs_op) = Some 1"
    "write_revision (Write_Put 3 (4 :: int) [Put_RevisionOpt 1]) = Some 1"
    by code_simp+
  from no_lost_update [OF p(1,2) _ p(3), of "[Write_Put 3 8 []]"] no_lost_update [OF d(1,2) _ d(3), of "[]"]
  show ?thesis by simp
qed

text \<open>
  History in full: with no revision, the writes since the last deletion, oldest first, among the
  last 63 writes; with a revision the ring still finds, the writes since the deletion before it; else
  NotFound on a ring that was never filled. On a filled ring an unknown revision is not an error: the
  history is then empty, unless the oldest retained write happens to be a deletion.
\<close>

theorem history_reads_log:
  "vs_History os (vs_run c z ws) =
    (let log = log_run z ws;
         entry = (\<lambda>e. \<lparr>kr_K = [],
           kr_V = (if history_IncludeValues (history_options os) then c (el_value e) else z),
           kr_Rev = el_revision e, kr_Time = el_timestamp e\<rparr>);
         entries = (\<lambda>r. Inr (map entry (live_run (drop (length log - 63) (take (nat r) log)))))
     in case history_Revision (history_options os) of
          None \<Rightarrow> if log_current log = None then Inl ErrNotFound else entries (int (length log))
        | Some r \<Rightarrow>
            if log_at log r \<noteq> None \<and> int (length log) < r + 63 then entries r
            else if length log < 63 then Inl ErrNotFound
            else if el_deleted (log ! (length log - 64)) \<and> 64 \<le> length log then Inl ErrNotFound
            else Inr [])"
  unfolding History_refines [OF vs_run_refines] log_at63_def history_run_def history_entry_def
    vs_run_clone vs_run_zero Let_def ..

text \<open>
  Watch in full: the events queued before it returns. Without a revision there are none; with a
  revision the ring finds, one event per write from that revision on, each with the value it
  replaced; with revision 0, the current value if there is a live one. An unknown revision is NotFound
  only while the ring was never filled.
\<close>

theorem watch_replays_log:
  "vs_Watch os (vs_run c z ws) =
    (let log = log_run z ws;
         from = (\<lambda>skip k. events_of c skip (map_option (element_revision c) (log_before log k)) (drop k log))
     in case watch_Revision (watch_options os) of
          None \<Rightarrow> Inr []
        | Some r \<Rightarrow>
            if r > 0 then
              (if log_at log r \<noteq> None \<and> int (length log) < r + 63 then Inr (from False (nat r - 1))
               else if length log < 63 then Inl ErrNotFound else Inr [])
            else Inr (if log = [] then [] else from True (length log - 1)))"
  unfolding Watch_refines [OF vs_run_refines] log_at63_def replay_def vs_run_clone Let_def ..

text \<open>
  C4. A watch catches up: when the replay of a watch is not empty, a client that follows it ends at
  the current value (what Get returns, or no value after a deletion), each event continues from the
  one before it, and there are at most 63 events, so the channel of capacity 64 never blocks the
  store while the replay is queued.
\<close>

theorem watch_catches_up:
  assumes "vs_Watch os (vs_run c z ws) = Inr evs" and "evs \<noteq> []"
  shows "vs_Get [Get_RevisionOutOpt True] (vs_run c z ws) =
      (case ev_Current (last evs) of None \<Rightarrow> Inl ErrNotFound | Some k \<Rightarrow> Inr (kr_V k, Some (kr_Rev k)))
    \<and> linked evs \<and> length evs \<le> 63"
  using Watch_follows [OF vs_run_refines assms(1)] assms(2)
  by (simp add: Get_shown [OF vs_run_refines] follows_def)

theorem watch_catches_up_witness:
  "\<exists>evs. vs_Watch [Watch_RevisionOpt 1] (vs_run id (0 :: int) [Write_Put 1 3 [], Write_Put 2 4 []]) = Inr evs
     \<and> evs \<noteq> [] \<and> linked evs \<and> length evs \<le> 63"
proof -
  have "(case vs_Watch [Watch_RevisionOpt 1] (vs_run id (0 :: int) [Write_Put 1 3 [], Write_Put 2 4 []]) of
      Inl _ \<Rightarrow> False | Inr evs \<Rightarrow> evs \<noteq> [])" by code_simp
  then obtain evs where
    "vs_Watch [Watch_RevisionOpt 1] (vs_run id (0 :: int) [Write_Put 1 3 [], Write_Put 2 4 []]) = Inr evs"
    and "evs \<noteq> []" by (auto split: sum.splits)
  with watch_catches_up [OF this] show ?thesis by blast
qed

lemma log_run_puts:
  "length (log_run z (replicate n (Write_Put t v []))) = n
   \<and> (\<forall>e \<in> set (log_run z (replicate n (Write_Put t v []))). \<not> el_deleted e)"
proof (induction n)
  case (Suc n)
  have "replicate (Suc n) (Write_Put t v []) = replicate n (Write_Put t v []) @ [Write_Put t v []]"
    by (simp add: replicate_append_same)
  with Suc show ?case by (simp add: log_run_snoc put_element_def del: replicate_Suc)
qed (simp add: log_run_def)

text \<open>
  The limit of the ring is visible in the error of an unknown revision: after \<open>n\<close> plain writes, a
  History at revision -1 and a Watch from a future revision fail with NotFound as long as \<open>n < 63\<close>, but
  from the 63rd write on both succeed, with an empty history and without replaying anything.
\<close>

theorem unknown_revision_at_capacity:
  "vs_History [History_RevisionOpt (-1)] (vs_run c z (replicate n (Write_Put t v []))) =
     (if n < 63 then Inl ErrNotFound else Inr [])
   \<and> vs_Watch [Watch_RevisionOpt (int n + 1)] (vs_run c z (replicate n (Write_Put t v []))) =
     (if n < 63 then Inl ErrNotFound else Inr [])"
  using log_run_puts [of z n t v]
  by (auto simp: History_refines [OF vs_run_refines] Watch_refines [OF vs_run_refines] Let_def
      log_at63_def log_at_def)

text \<open>
  C8. No panic: in a reachable state no operation dereferences the nil value of a ring node that was
  never written, and the writes fail only with NotFound or with a conflict.
\<close>

theorem value_store_errors:
  "fails_only (\<lambda>e. IsConflict (Some e)) (fst (vs_Put now v ps (vs_run c z ws)))
   \<and> fails_only (\<lambda>e. IsConflict (Some e) \<or> IsNotFound (Some e)) (fst (vs_Delete now ds (vs_run c z ws)))
   \<and> fails_only (\<lambda>e. err_code e \<in> {NotFound, OutOfRange}) (vs_Get os (vs_run c z ws))
   \<and> fails_only (\<lambda>e. IsNotFound (Some e)) (vs_History hs (vs_run c z ws))
   \<and> fails_only (\<lambda>e. IsNotFound (Some e)) (vs_Watch wos (vs_run c z ws))"
proof (intro conjI)
  show "fails_only (\<lambda>e. IsConflict (Some e)) (fst (vs_Put now v ps (vs_run c z ws)))"
    using Put_refines [OF vs_run_refines [of c z ws], where now = now and v = v and os = ps]
    by (cases "vs_Put now v ps (vs_run c z ws)") (auto simp: fails_only_def split: sum.splits simp del: err_preds)
  show "fails_only (\<lambda>e. IsConflict (Some e) \<or> IsNotFound (Some e)) (fst (vs_Delete now ds (vs_run c z ws)))"
    using Delete_refines [OF vs_run_refines [of c z ws], where now = now and os = ds]
    by (cases "vs_Delete now ds (vs_run c z ws)")
      (auto simp: fails_only_def split: sum.splits if_splits simp del: err_preds(5))
  show "fails_only (\<lambda>e. err_code e \<in> {NotFound, OutOfRange}) (vs_Get os (vs_run c z ws))"
    by (auto simp: Get_refines [OF vs_run_refines] get_result_def fails_only_def split: option.splits)
  show "fails_only (\<lambda>e. IsNotFound (Some e)) (vs_History hs (vs_run c z ws))"
    by (auto simp: History_refines [OF vs_run_refines] Let_def fails_only_def split: option.splits)
  show "fails_only (\<lambda>e. IsNotFound (Some e)) (vs_Watch wos (vs_run c z ws))"
    by (auto simp: Watch_refines [OF vs_run_refines] fails_only_def split: option.splits)
qed

end
