(* ===== verification/ValueWatch.thy ===== *)
theory ValueWatch
  imports ValueProps "HOL-Library.Sublist"
begin

text \<open>
  What a watch of \<open>storage/inmemory/value_store.go\<close> does after \<open>Watch\<close> returns: the goroutine that
  forwards the events of later writes, the writers that wait for their listeners, and the client. The
  goroutines' interleavings are a step relation on the store with its watches.

  A write changes the store and starts one listener per registered watch; it holds the store's write
  lock until each listener has put its event in the watch's buffer. A watch's goroutine moves events
  from the buffer to the client's channel. When its context is done, or the channel is full, it stops:
  it takes the store's read lock, unregisters, moves what is left in the buffer, and closes.
\<close>

section \<open>State\<close>

text \<open>
  Where a watch's goroutine is: at the outer select; with an event it took from the buffer; at the
  deferred function, waiting for the read lock; in the loop of the deferred function with the lock, at
  its select or with an event; done.
\<close>

datatype 'e goroutine = Selecting | Taken 'e | Stopping | Draining | DrainTaken 'e | Closed

text \<open>
  A watch: its two channels, its goroutine, the event a listener is waiting to put in the buffer,
  whether the context is done. The last three fields are not in the code: what the client has received,
  all events it was to be sent (the replay, then one per write), and what was thrown away.
\<close>

record 'e watch =
  w_updateC :: "'e list"
  w_buffer :: "'e list"
  w_goroutine :: "'e goroutine"
  w_listener :: "'e option"
  w_ctxDone :: bool
  w_received :: "'e list"
  w_events :: "'e list"
  w_dropped :: "'e list"

definition updateC_cap :: nat where "updateC_cap = 64"
definition buffer_cap :: nat where "buffer_cap = 8"

definition new_watch :: "'e list \<Rightarrow> 'e watch" where
  "new_watch evs =
     \<lparr>w_updateC = evs, w_buffer = [], w_goroutine = Selecting, w_listener = None, w_ctxDone = False,
      w_received = [], w_events = evs, w_dropped = []\<rparr>"

record 'a watched_store =
  wst_store :: "'a inMemoryValueStore"
  wst_watches :: "'a WatchEvent watch list"

text \<open>The watch is in \<open>s.watches\<close>; its goroutine holds \<open>s.lock\<close> for reading.\<close>

definition registered :: "'e watch \<Rightarrow> bool" where
  "registered w \<longleftrightarrow> (case w_goroutine w of Selecting \<Rightarrow> True | Taken _ \<Rightarrow> True | Stopping \<Rightarrow> True | _ \<Rightarrow> False)"

definition holds_rlock :: "'e watch \<Rightarrow> bool" where
  "holds_rlock w \<longleftrightarrow> (case w_goroutine w of Draining \<Rightarrow> True | DrainTaken _ \<Rightarrow> True | _ \<Rightarrow> False)"

definition write_locked :: "'a watched_store \<Rightarrow> bool" where
  "write_locked s \<longleftrightarrow> (\<exists>w \<in> set (wst_watches s). w_listener w \<noteq> None)"

definition read_locked :: "'a watched_store \<Rightarrow> bool" where
  "read_locked s \<longleftrightarrow> (\<exists>w \<in> set (wst_watches s). holds_rlock w)"

section \<open>Steps\<close>

text \<open>
  The steps of one watch that move events along: a listener's \<open>buffer <- ev\<close>, the two receives and
  sends of the goroutine, and a receive of the client.
\<close>

inductive forward :: "'e watch \<Rightarrow> 'e watch \<Rightarrow> bool" where
  listen: "w_listener w = Some e \<Longrightarrow> length (w_buffer w) < buffer_cap \<Longrightarrow>
     forward w (w\<lparr>w_buffer := w_buffer w @ [e], w_listener := None\<rparr>)"
| take_event: "w_goroutine w = Selecting \<Longrightarrow> w_buffer w = e # b \<Longrightarrow>
     forward w (w\<lparr>w_buffer := b, w_goroutine := Taken e\<rparr>)"
| send: "w_goroutine w = Taken e \<Longrightarrow> length (w_updateC w) < updateC_cap \<Longrightarrow>
     forward w (w\<lparr>w_updateC := w_updateC w @ [e], w_goroutine := Selecting\<rparr>)"
| receive: "w_updateC w = e # c \<Longrightarrow> forward w (w\<lparr>w_updateC := c, w_received := w_received w @ [e]\<rparr>)"

text \<open>
  The steps that end a watch: the client's cancel, the return of the goroutine at the select or at a full
  channel, and the loop of the deferred function up to the close.
\<close>

inductive stopping :: "'e watch \<Rightarrow> 'e watch \<Rightarrow> bool" where
  cancel: "stopping w (w\<lparr>w_ctxDone := True\<rparr>)"
| ctx_done: "w_goroutine w = Selecting \<Longrightarrow> w_ctxDone w \<Longrightarrow> stopping w (w\<lparr>w_goroutine := Stopping\<rparr>)"
| give_up: "w_goroutine w = Taken e \<Longrightarrow> length (w_updateC w) = updateC_cap \<Longrightarrow>
     stopping w (w\<lparr>w_goroutine := Stopping, w_dropped := w_dropped w @ [e]\<rparr>)"
| drain_take: "w_goroutine w = Draining \<Longrightarrow> w_buffer w = e # b \<Longrightarrow>
     stopping w (w\<lparr>w_buffer := b, w_goroutine := DrainTaken e\<rparr>)"
| drain_send: "w_goroutine w = DrainTaken e \<Longrightarrow> length (w_updateC w) < updateC_cap \<Longrightarrow>
     stopping w (w\<lparr>w_updateC := w_updateC w @ [e], w_goroutine := Draining\<rparr>)"
| close: "w_goroutine w = Draining \<Longrightarrow> w_buffer w = [] \<Longrightarrow> stopping w (w\<lparr>w_goroutine := Closed\<rparr>)"

text \<open>A write starts a listener with its event for each registered watch.\<close>

definition notify_watch :: "'e option \<Rightarrow> 'e watch \<Rightarrow> 'e watch" where
  "notify_watch ev w =
     (case ev of
        None \<Rightarrow> w
      | Some e \<Rightarrow> if registered w then w\<lparr>w_listener := Some e, w_events := w_events w @ [e]\<rparr> else w)"

inductive wstep :: "'a watched_store \<Rightarrow> 'a watched_store \<Rightarrow> bool" where
  forward_step: "i < length (wst_watches s) \<Longrightarrow> forward (wst_watches s ! i) w \<Longrightarrow>
     wstep s (s\<lparr>wst_watches := (wst_watches s)[i := w]\<rparr>)"
| stopping_step: "i < length (wst_watches s) \<Longrightarrow> stopping (wst_watches s ! i) w \<Longrightarrow>
     wstep s (s\<lparr>wst_watches := (wst_watches s)[i := w]\<rparr>)"
| unregister: "i < length (wst_watches s) \<Longrightarrow> w_goroutine (wst_watches s ! i) = Stopping \<Longrightarrow> \<not> write_locked s \<Longrightarrow>
     wstep s (s\<lparr>wst_watches := (wst_watches s)[i := (wst_watches s ! i)\<lparr>w_goroutine := Draining\<rparr>]\<rparr>)"
| put: "\<not> write_locked s \<Longrightarrow> \<not> read_locked s \<Longrightarrow> vs_Put now v os (wst_store s) = (r, vs, ev) \<Longrightarrow>
     wstep s (s\<lparr>wst_store := vs, wst_watches := map (notify_watch ev) (wst_watches s)\<rparr>)"
| delete: "\<not> write_locked s \<Longrightarrow> \<not> read_locked s \<Longrightarrow> vs_Delete now dos (wst_store s) = (u, vs, ev) \<Longrightarrow>
     wstep s (s\<lparr>wst_store := vs, wst_watches := map (notify_watch ev) (wst_watches s)\<rparr>)"
| watch: "\<not> write_locked s \<Longrightarrow> vs_Watch ws (wst_store s) = Inr events \<Longrightarrow>
     wstep s (s\<lparr>wst_watches := wst_watches s @ [new_watch events]\<rparr>)"

definition initial :: "('a \<Rightarrow> 'a) \<Rightarrow> 'a \<Rightarrow> 'a watched_store" where
  "initial c z = \<lparr>wst_store = NewValueStore c z, wst_watches = []\<rparr>"

definition reachable :: "('a \<Rightarrow> 'a) \<Rightarrow> 'a \<Rightarrow> 'a watched_store \<Rightarrow> bool" where
  "reachable c z s \<longleftrightarrow> wstep\<^sup>*\<^sup>* (initial c z) s"

section \<open>Every event is somewhere\<close>

fun held :: "'e goroutine \<Rightarrow> 'e list" where
  "held (Taken e) = [e]"
| "held (DrainTaken e) = [e]"
| "held _ = []"

fun opt_list :: "'e option \<Rightarrow> 'e list" where
  "opt_list None = []"
| "opt_list (Some e) = [e]"

definition in_flight :: "'e watch \<Rightarrow> 'e list" where
  "in_flight w = w_received w @ w_updateC w @ held (w_goroutine w) @ w_buffer w @ opt_list (w_listener w)"

text \<open>
  The invariant of a watch: channels within their capacity, listeners only for registered watches, and
  no event out of order, duplicated or, unless the watch gave up, lost.
\<close>

definition watch_inv :: "'e watch \<Rightarrow> bool" where
  "watch_inv w \<longleftrightarrow>
     length (w_updateC w) \<le> updateC_cap \<and> length (w_buffer w) \<le> buffer_cap
     \<and> (w_listener w \<noteq> None \<longrightarrow> registered w)
     \<and> (w_goroutine w = Closed \<longrightarrow> w_buffer w = [])
     \<and> subseq (in_flight w) (w_events w)
     \<and> (w_dropped w = [] \<longrightarrow> in_flight w = w_events w)
     \<and> (w_dropped w \<noteq> [] \<longrightarrow> (\<forall>e. w_goroutine w \<noteq> Selecting \<and> w_goroutine w \<noteq> Taken e))"

lemmas watch_defs = watch_inv_def in_flight_def registered_def holds_rlock_def

inductive_cases forwardE: "forward w w'"
inductive_cases stoppingE: "stopping w w'"
inductive_cases wstepE: "wstep s s'"

lemma new_watch_inv: "length evs \<le> 63 \<Longrightarrow> watch_inv (new_watch evs)"
  by (simp add: watch_defs new_watch_def updateC_cap_def buffer_cap_def)

lemma new_watch_events [simp]: "w_events (new_watch evs) = evs"
  by (simp add: new_watch_def)

lemma forward_inv: "forward w w' \<Longrightarrow> watch_inv w \<Longrightarrow> watch_inv w'"
  by (erule forwardE) (auto simp: watch_defs)

lemma forward_in_flight: "forward w w' \<Longrightarrow> in_flight w' = in_flight w"
  by (erule forwardE) (auto simp: in_flight_def)

lemma subseq_dropped: "subseq (a @ u @ b) (a @ u @ e # b)"
  by (simp add: list_emb_append_mono subseq_Cons')

lemma stopping_inv:
  assumes "stopping w w'" "watch_inv w"
  shows "watch_inv w'"
  using assms(1)
proof (cases rule: stopping.cases)
  case (give_up e)
  with assms(2) have "w_events w = w_received w @ w_updateC w @ e # w_buffer w @ opt_list (w_listener w)"
    by (auto simp: watch_inv_def in_flight_def)
  with give_up assms(2) subseq_dropped show ?thesis by (simp add: watch_defs)
qed (use assms(2) in \<open>auto simp: watch_defs\<close>)

lemma stopping_same: "stopping w w' \<Longrightarrow> w_events w' = w_events w \<and> w_listener w' = w_listener w"
  by (erule stoppingE) auto

lemma stopping_registered: "stopping w w' \<Longrightarrow> registered w' = registered w"
  by (erule stoppingE) (auto simp: registered_def)

lemma forward_same: "forward w w' \<Longrightarrow> w_events w' = w_events w \<and> registered w' = registered w"
  by (erule forwardE) (auto simp: registered_def)

lemma unregister_inv:
  "watch_inv w \<Longrightarrow> w_goroutine w = Stopping \<Longrightarrow> w_listener w = None \<Longrightarrow> watch_inv (w\<lparr>w_goroutine := Draining\<rparr>)"
  by (auto simp: watch_defs)

lemma notify_inv: "watch_inv w \<Longrightarrow> w_listener w = None \<Longrightarrow> watch_inv (notify_watch ev w)"
  using list_emb_append_mono [of "(=)" "in_flight w" "w_events w" "[e]" "[e]" for e]
  by (cases ev) (auto simp: notify_watch_def watch_inv_def in_flight_def registered_def split: goroutine.splits)

section \<open>The store and its watches\<close>

definition watched_inv :: "('a \<Rightarrow> 'a) \<Rightarrow> 'a watched_store \<Rightarrow> 'a log \<Rightarrow> bool" where
  "watched_inv c s log \<longleftrightarrow>
     refines (wst_store s) log \<and> vs_cloneFunc (wst_store s) = c
     \<and> (\<forall>w \<in> set (wst_watches s). watch_inv w \<and> linked (w_events w) \<and> (registered w \<longrightarrow> follows c log (w_events w)))"

lemma linked_snoc:
  "linked (es @ [e]) \<longleftrightarrow> linked es
     \<and> (es \<noteq> [] \<longrightarrow> map_option kr_Rev (ev_Previous e) = map_option kr_Rev (ev_Current (last es)))"
  by (induction es rule: linked.induct) auto

lemma log_current_shown: "map_option (element_revision c) (log_current log) = shown c log"
  by (cases "log = []") (auto simp: log_current_def log_at_def shown_def last_conv_nth)

lemma shown_current: "log_current log = Some e \<Longrightarrow> shown c log = Some (element_revision c e)"
  by (simp add: log_current_shown [symmetric])

lemma shown_snoc: "shown c (log @ [e]) = (if el_deleted e then None else Some (element_revision c e))"
  by (simp add: shown_def)

text \<open>The event of a write continues where the log was and shows what it is now.\<close>

lemma follows_write:
  assumes "follows c log es" "ev_Current e = shown c log'" "ev_Previous e = shown c log" "event_ok e"
  shows "follows c log' (es @ [e])"
  using assms by (auto simp: follows_def linked_snoc)

lemma watches_update:
  assumes "watched_inv c s log" "i < length (wst_watches s)"
    and "watch_inv w" "w_events w = w_events (wst_watches s ! i)" "registered w \<longrightarrow> registered (wst_watches s ! i)"
  shows "watched_inv c (s\<lparr>wst_watches := (wst_watches s)[i := w]\<rparr>) log"
proof -
  have "wst_watches s ! i \<in> set (wst_watches s)" using assms(2) by simp
  with assms show ?thesis
    unfolding watched_inv_def by (auto dest!: subsetD [OF set_update_subset_insert])
qed

lemma watches_notify:
  assumes "watched_inv c s log" "\<not> write_locked s" "refines vs log'" "vs_cloneFunc vs = c"
    and "case ev of None \<Rightarrow> log' = log | Some e \<Rightarrow> event_ok e \<and> ev_Current e = shown c log' \<and> ev_Previous e = shown c log"
  shows "watched_inv c (s\<lparr>wst_store := vs, wst_watches := map (notify_watch ev) (wst_watches s)\<rparr>) log'"
proof -
  have "watch_inv (notify_watch ev w) \<and> linked (w_events (notify_watch ev w))
      \<and> (registered (notify_watch ev w) \<longrightarrow> follows c log' (w_events (notify_watch ev w)))"
    if "w \<in> set (wst_watches s)" for w
  proof -
    have w: "watch_inv w" "linked (w_events w)" "registered w \<Longrightarrow> follows c log (w_events w)" "w_listener w = None"
      using assms(1,2) that by (auto simp: watched_inv_def write_locked_def)
    then show ?thesis
    proof (cases ev)
      case None
      with w assms(5) show ?thesis by (simp add: notify_watch_def)
    next
      case (Some e)
      show ?thesis
      proof (cases "registered w")
        case True
        with w(3) assms(5) Some have "follows c log' (w_events w @ [e])" by (auto intro: follows_write)
        with Some True notify_inv [OF w(1,4), of ev] show ?thesis by (simp add: notify_watch_def follows_def)
      next
        case False
        with w Some show ?thesis by (simp add: notify_watch_def)
      qed
    qed
  qed
  with assms(3,4) show ?thesis by (simp add: watched_inv_def)
qed

lemma wstep_inv:
  assumes "wstep s s'" "watched_inv c s log"
  shows "\<exists>log'. watched_inv c s' log'"
  using assms(1)
proof (cases rule: wstep.cases)
  case (forward_step i w)
  with assms(2) have "watch_inv (wst_watches s ! i)" by (simp add: watched_inv_def)
  from forward_inv [OF forward_step(3) this] forward_same [OF forward_step(3)]
    watches_update [OF assms(2) forward_step(2)] forward_step(1)
  show ?thesis by blast
next
  case (stopping_step i w)
  with assms(2) have "watch_inv (wst_watches s ! i)" by (simp add: watched_inv_def)
  from stopping_inv [OF stopping_step(3) this] stopping_same [OF stopping_step(3)]
    stopping_registered [OF stopping_step(3)] watches_update [OF assms(2) stopping_step(2)] stopping_step(1)
  show ?thesis by blast
next
  case (unregister i)
  let ?w = "wst_watches s ! i"
  have "?w \<in> set (wst_watches s)" using unregister(2) by simp
  with assms(2) unregister have "watch_inv (?w\<lparr>w_goroutine := Draining\<rparr>)"
    by (intro unregister_inv) (auto simp: watched_inv_def write_locked_def)
  from watches_update [OF assms(2) unregister(2) this] unregister(1) show ?thesis
    by (auto simp: registered_def)
next
  case (put now v os r vs ev)
  have s: "refines (wst_store s) log" "vs_cloneFunc (wst_store s) = c" using assms(2) by (simp_all add: watched_inv_def)
  from Put_refines [OF s(1), of now v os] put(4) s
  have "\<exists>log'. refines vs log' \<and> vs_cloneFunc vs = c \<and>
      (case ev of None \<Rightarrow> log' = log | Some e \<Rightarrow> event_ok e \<and> ev_Current e = shown c log' \<and> ev_Previous e = shown c log)"
    by (cases r) (auto simp: log_current_shown shown_snoc put_element_def event_ok_def intro!: exI [of _ "log @ [put_element log now v]"])
  with watches_notify [OF assms(2) put(2)] put(1) show ?thesis by blast
next
  case (delete now dos u vs ev)
  have s: "refines (wst_store s) log" "vs_cloneFunc (wst_store s) = c" using assms(2) by (simp_all add: watched_inv_def)
  from Delete_refines [OF s(1), where now = now and os = dos] delete(4) s
  have "\<exists>log'. refines vs log' \<and> vs_cloneFunc vs = c \<and>
      (case ev of None \<Rightarrow> log' = log | Some e \<Rightarrow> event_ok e \<and> ev_Current e = shown c log' \<and> ev_Previous e = shown c log)"
    by (cases u)
      (auto simp: shown_current shown_snoc delete_element_def event_ok_def
        intro!: exI [of _ "log @ [delete_element log now (vs_zero (wst_store s))]"])
  with watches_notify [OF assms(2) delete(2)] delete(1) show ?thesis by blast
next
  case (watch ws events)
  have s: "refines (wst_store s) log" "vs_cloneFunc (wst_store s) = c" using assms(2) by (simp_all add: watched_inv_def)
  from Watch_follows [OF s(1) watch(3)] s(2) assms(2) watch(1) show ?thesis
    by (auto simp: watched_inv_def new_watch_inv follows_def intro!: exI [of _ log])
qed

lemma reachable_inv: "reachable c z s \<Longrightarrow> \<exists>log. watched_inv c s log"
  unfolding reachable_def
proof (induction rule: rtranclp_induct)
  case base
  have "vs_cloneFunc (NewValueStore c z) = c" by (simp add: NewValueStore_def)
  then show ?case by (auto simp: watched_inv_def initial_def)
next
  case (step s s')
  then show ?case using wstep_inv by blast
qed

end
