(* ===== verification/ValueWatchProps.thy ===== *)
theory ValueWatchProps
  imports ValueWatch
begin

text \<open>
  Properties of the watches of the in-memory value store under every interleaving: what a client
  receives, that what is under way arrives, and where the store can lock up.
\<close>

section \<open>Delivery\<close>

text \<open>
  C5. Under every interleaving of writes, watches, cancellations and reads: what the client of a watch
  has received is, in order and without duplicates, part of the events of the watch (the replay, then
  one event for each write while it was registered), and a gapless initial part unless the watch gave up
  on a full channel. Each event continues from the one before; the last event of a registered watch shows
  what \<open>Get\<close> returns; the channels stay within their capacities.
\<close>

theorem watch_delivers_in_order:
  assumes "reachable c z s" "w \<in> set (wst_watches s)"
  shows "subseq (w_received w) (w_events w)
    \<and> (w_dropped w = [] \<longrightarrow> prefix (w_received w) (w_events w))
    \<and> linked (w_events w)
    \<and> (registered w \<and> w_events w \<noteq> [] \<longrightarrow>
         vs_Get [Get_RevisionOutOpt True] (wst_store s) =
           (case ev_Current (last (w_events w)) of None \<Rightarrow> Inl ErrNotFound | Some k \<Rightarrow> Inr (kr_V k, Some (kr_Rev k))))
    \<and> length (w_updateC w) \<le> 64 \<and> length (w_buffer w) \<le> 8"
proof -
  from reachable_inv [OF assms(1)] obtain log where log: "watched_inv c s log" by blast
  then have s: "refines (wst_store s) log" "vs_cloneFunc (wst_store s) = c" by (simp_all add: watched_inv_def)
  from log assms(2) have w: "watch_inv w" "linked (w_events w)" "registered w \<longrightarrow> follows c log (w_events w)"
    by (auto simp: watched_inv_def)
  have pre: "prefix (w_received w) (in_flight w)" by (simp add: in_flight_def)
  with w(1) have "subseq (w_received w) (w_events w)" "w_dropped w = [] \<longrightarrow> prefix (w_received w) (w_events w)"
    using subseq_order.trans [OF prefix_imp_subseq [OF pre]] by (auto simp: watch_inv_def)
  with w Get_shown [OF s(1)] s(2) show ?thesis
    by (auto simp: watch_inv_def updateC_cap_def buffer_cap_def follows_def)
qed

section \<open>Progress\<close>

text \<open>A step that moves an event along, in some watch; a watch that is not ending.\<close>

inductive deliver :: "'a watched_store \<Rightarrow> 'a watched_store \<Rightarrow> bool" where
  "i < length (wst_watches s) \<Longrightarrow> forward (wst_watches s ! i) w \<Longrightarrow>
     deliver s (s\<lparr>wst_watches := (wst_watches s)[i := w]\<rparr>)"

definition active :: "'e watch \<Rightarrow> bool" where
  "active w \<longleftrightarrow> (case w_goroutine w of Selecting \<Rightarrow> True | Taken _ \<Rightarrow> True | _ \<Rightarrow> False)"

text \<open>The steps the events of a watch still have to make.\<close>

definition watch_work :: "'e watch \<Rightarrow> nat" where
  "watch_work w = length (w_updateC w) + 2 * length (held (w_goroutine w)) + 3 * length (w_buffer w)
     + 4 * length (opt_list (w_listener w))"

definition work :: "'a watched_store \<Rightarrow> nat" where
  "work s = (\<Sum>w \<leftarrow> wst_watches s. watch_work w)"

lemma forward_work: "forward w w' \<Longrightarrow> watch_work w = Suc (watch_work w')"
  by (erule forwardE) (auto simp: watch_work_def)

lemma forward_active: "forward w w' \<Longrightarrow> active w \<Longrightarrow> active w'"
  by (erule forwardE) (auto simp: active_def)

lemma forward_possible:
  assumes "active w" "watch_work w \<noteq> 0"
  shows "\<exists>w'. forward w w'"
proof (cases "w_updateC w")
  case Nil
  show ?thesis
  proof (cases "w_goroutine w")
    case (Taken e)
    with Nil forward.send [of w e] show ?thesis by (auto simp: updateC_cap_def)
  next
    case Selecting
    show ?thesis
    proof (cases "w_buffer w")
      case empty: Nil
      with assms(2) Nil Selecting obtain e where "w_listener w = Some e"
        by (cases "w_listener w") (auto simp: watch_work_def)
      with forward.listen [of w e] empty show ?thesis by (auto simp: buffer_cap_def)
    next
      case (Cons e b)
      with forward.take_event [OF Selecting] show ?thesis by blast
    qed
  qed (use assms(1) in \<open>simp_all add: active_def\<close>)
next
  case (Cons e c)
  from forward.receive [OF this] show ?thesis by blast
qed

lemma active_complete: "active w \<Longrightarrow> watch_inv w \<Longrightarrow> in_flight w = w_events w"
  by (cases "w_goroutine w") (auto simp: watch_inv_def active_def)

lemma no_work: "watch_work w = 0 \<Longrightarrow> w_listener w = None \<and> in_flight w = w_received w"
  by (cases "w_goroutine w"; cases "w_listener w") (simp_all add: watch_work_def in_flight_def)

lemma sum_list_replace:
  fixes f :: "'b \<Rightarrow> nat"
  shows "i < length xs \<Longrightarrow> f (xs ! i) = Suc (f x) \<Longrightarrow> sum_list (map f xs) = Suc (sum_list (map f (xs[i := x])))"
  by (induction xs arbitrary: i) (auto split: nat.splits simp: less_Suc_eq_0_disj)

lemma deliver_work: "deliver s s' \<Longrightarrow> work s = Suc (work s')"
  by (erule deliver.cases) (auto simp: work_def forward_work intro: sum_list_replace)

lemma deliver_inv:
  assumes "deliver s s'" "\<forall>w \<in> set (wst_watches s). active w" "watched_inv c s log"
  shows "(\<forall>w \<in> set (wst_watches s'). active w) \<and> watched_inv c s' log"
  using assms(1)
proof cases
  case (1 i w)
  let ?w = "wst_watches s ! i"
  have mem: "?w \<in> set (wst_watches s)" using 1(2) by simp
  with assms(2,3) have "active w" "watch_inv w"
    using forward_active [OF 1(3)] forward_inv [OF 1(3)] by (auto simp: watched_inv_def)
  with watches_update [OF assms(3) 1(2)] forward_same [OF 1(3)] assms(2) 1(1) show ?thesis
    by (auto dest!: subsetD [OF set_update_subset_insert])
qed

lemma delivers_inv:
  assumes "(deliver ^^ n) s s'" "\<forall>w \<in> set (wst_watches s). active w" "watched_inv c s log"
  shows "(\<forall>w \<in> set (wst_watches s'). active w) \<and> watched_inv c s' log \<and> work s = n + work s'"
  using assms(1)
proof (induction n arbitrary: s')
  case (Suc n)
  then obtain t where "(deliver ^^ n) s t" "deliver t s'" by auto
  with Suc.IH deliver_inv deliver_work show ?case by fastforce
qed (use assms(2,3) in auto)

lemma deliver_possible:
  assumes "\<forall>w \<in> set (wst_watches s). active w" "work s \<noteq> 0"
  shows "\<exists>s'. deliver s s'"
proof -
  from assms(2) obtain w where "w \<in> set (wst_watches s)" "watch_work w \<noteq> 0" by (auto simp: work_def)
  then obtain i where "i < length (wst_watches s)" "watch_work (wst_watches s ! i) \<noteq> 0" "active (wst_watches s ! i)"
    using assms(1) by (metis in_set_conv_nth)
  with forward_possible deliver.intros show ?thesis by blast
qed

text \<open>
  C6. Every event arrives, and no write waits forever, as long as no watch ends: from a reachable state
  whose watches are all active, exactly \<open>work s\<close> delivery steps can be made, in whatever order; until
  then another one is possible, and after them every client has received all events of its watch and no
  write holds the lock.
\<close>

theorem watches_drain:
  assumes "reachable c z s" "\<forall>w \<in> set (wst_watches s). active w" "(deliver ^^ n) s s'"
  shows "n \<le> work s \<and> (n < work s \<longrightarrow> (\<exists>s''. deliver s' s''))
    \<and> (n = work s \<longrightarrow> \<not> write_locked s' \<and> (\<forall>w \<in> set (wst_watches s'). w_received w = w_events w))"
proof -
  from reachable_inv [OF assms(1)] obtain log where "watched_inv c s log" by blast
  from delivers_inv [OF assms(3,2) this]
  have *: "\<forall>w \<in> set (wst_watches s'). active w" "watched_inv c s' log" "work s = n + work s'" by auto
  have "w_listener w = None \<and> w_received w = w_events w" if "work s' = 0" "w \<in> set (wst_watches s')" for w
  proof -
    from that have "watch_work w = 0" by (auto simp: work_def)
    moreover have "in_flight w = w_events w"
      using *(1,2) that(2) by (intro active_complete) (auto simp: watched_inv_def)
    ultimately show ?thesis using no_work [of w] by simp
  qed
  with * deliver_possible [of s'] show ?thesis by (auto simp: write_locked_def)
qed

section \<open>A store with one watch\<close>

text \<open>The states with the one watch \<open>w\<close> and a store at revision \<open>r\<close> that can be reached.\<close>

definition single :: "('a \<Rightarrow> 'a) \<Rightarrow> 'a \<Rightarrow> 'a WatchEvent watch \<Rightarrow> int64 \<Rightarrow> bool" where
  "single c z w r \<longleftrightarrow> (\<exists>s. reachable c z s \<and> wst_watches s = [w] \<and> vs_revision (wst_store s) = r)"

lemma reachable_step: "reachable c z s \<Longrightarrow> wstep s s' \<Longrightarrow> reachable c z s'"
  by (simp add: reachable_def rtranclp.rtrancl_into_rtrancl)

lemma start_watch: "reachable c z ((initial c z)\<lparr>wst_watches := [new_watch []]\<rparr>)"
proof -
  have "vs_Watch [] (NewValueStore c z) = Inr []" by (simp add: Watch_refines [OF refines_New])
  then have "wstep (initial c z) ((initial c z)\<lparr>wst_watches := wst_watches (initial c z) @ [new_watch []]\<rparr>)"
    by (intro wstep.watch [where ws = "[]"]) (simp_all add: initial_def write_locked_def)
  moreover have "reachable c z (initial c z)" by (simp add: reachable_def)
  ultimately have "reachable c z ((initial c z)\<lparr>wst_watches := wst_watches (initial c z) @ [new_watch []]\<rparr>)"
    by (rule reachable_step [rotated])
  then show ?thesis by (simp add: initial_def)
qed

lemma single_new: "single c z (new_watch []) 0"
  using start_watch [of c z] unfolding single_def
  by (intro exI [of _ "(initial c z)\<lparr>wst_watches := [new_watch []]\<rparr>"]) (simp add: initial_def NewValueStore_def)

text \<open>The event of a first \<open>Put\<close>.\<close>

definition first_event :: "('a \<Rightarrow> 'a) \<Rightarrow> 'a \<Rightarrow> 'a WatchEvent" where
  "first_event c z = \<lparr>ev_EventType = WatchEventPut,
     ev_Current = Some \<lparr>kr_K = [], kr_V = c z, kr_Rev = 1, kr_Time = 0\<rparr>, ev_Previous = None\<rparr>"

lemma single_first_put: "single c z ((new_watch [])\<lparr>w_listener := Some (first_event c z), w_events := [first_event c z]\<rparr>) 1"
proof -
  let ?s = "(initial c z)\<lparr>wst_watches := [new_watch []]\<rparr>"
  obtain r vs where put: "vs_Put 0 z [] (wst_store ?s) = (r, vs, Some (first_event c z))" "vs_revision vs = 1"
    by (auto simp: initial_def NewValueStore_def vs_Put_def vs_Put_check_def Let_def first_event_def element_revision_def
        ring_New_def)
  have "\<not> write_locked ?s" "\<not> read_locked ?s"
    by (simp_all add: write_locked_def read_locked_def new_watch_def holds_rlock_def)
  from reachable_step [OF start_watch wstep.put [OF this put(1)]] put(2) show ?thesis
    unfolding single_def by (intro exI conjI) (auto simp: notify_watch_def registered_def new_watch_def)
qed

lemma single_local:
  assumes "single c z w r" "forward w w' \<or> stopping w w'"
  shows "single c z w' r"
proof -
  from assms(1) obtain s where s: "reachable c z s" "wst_watches s = [w]" "vs_revision (wst_store s) = r"
    by (auto simp: single_def)
  with assms(2) wstep.forward_step [of 0 s w'] wstep.stopping_step [of 0 s w']
  have "wstep s (s\<lparr>wst_watches := (wst_watches s)[0 := w']\<rparr>)" by auto
  from reachable_step [OF s(1) this] s(2,3) show ?thesis unfolding single_def by (intro exI) auto
qed

lemmas single_forward = single_local [OF _ disjI1] and single_stopping = single_local [OF _ disjI2]

lemma single_unregister:
  assumes "single c z w r" "w_goroutine w = Stopping" "w_listener w = None"
  shows "single c z (w\<lparr>w_goroutine := Draining\<rparr>) r"
proof -
  from assms(1) obtain s where s: "reachable c z s" "wst_watches s = [w]" "vs_revision (wst_store s) = r"
    by (auto simp: single_def)
  with assms(2,3) wstep.unregister [of 0 s]
  have "wstep s (s\<lparr>wst_watches := [w\<lparr>w_goroutine := Draining\<rparr>]\<rparr>)" by (simp add: write_locked_def)
  from reachable_step [OF s(1) this] s(3) show ?thesis unfolding single_def by (intro exI) auto
qed

lemma single_put:
  assumes "single c z w r" "registered w" "w_listener w = None"
  shows "\<exists>e. single c z (w\<lparr>w_listener := Some e, w_events := w_events w @ [e]\<rparr>) (r + 1)
     \<and> map_option kr_Rev (ev_Current e) = Some (r + 1)"
proof -
  from assms(1) obtain s where s: "reachable c z s" "wst_watches s = [w]" "vs_revision (wst_store s) = r"
    by (auto simp: single_def)
  obtain ro vs e where put: "vs_Put 0 z [] (wst_store s) = (Inr ro, vs, Some e)"
    "map_option kr_Rev (ev_Current e) = Some (r + 1)" "vs_revision vs = r + 1"
    using s(3) by (auto simp: vs_Put_def vs_Put_check_def Let_def element_revision_def)
  have "\<not> write_locked s" "\<not> read_locked s"
    using s(2) assms(2,3) by (auto simp: write_locked_def read_locked_def holds_rlock_def registered_def split: goroutine.splits)
  from reachable_step [OF s(1) wstep.put [OF this put(1)]] s(2) put(2,3) assms(2) show ?thesis
    unfolding single_def by (intro exI [of _ e] conjI exI) (auto simp: notify_watch_def)
qed

text \<open>A write whose event reaches the buffer.\<close>

lemma single_put_buffered:
  assumes "single c z w r" "registered w" "w_listener w = None" "length (w_buffer w) < 8"
  shows "\<exists>e. single c z (w\<lparr>w_buffer := w_buffer w @ [e], w_events := w_events w @ [e]\<rparr>) (r + 1)
     \<and> map_option kr_Rev (ev_Current e) = Some (r + 1)"
proof -
  from single_put [OF assms(1-3)] obtain e where
    e: "single c z (w\<lparr>w_listener := Some e, w_events := w_events w @ [e]\<rparr>) (r + 1)" "map_option kr_Rev (ev_Current e) = Some (r + 1)"
    by blast
  from single_forward [OF e(1) forward.listen] assms(3,4)
  have "single c z (w\<lparr>w_listener := w_listener w, w_buffer := w_buffer w @ [e], w_events := w_events w @ [e]\<rparr>) (r + 1)"
    by (cases w) (simp add: buffer_cap_def)
  with e(2) show ?thesis by auto
qed

text \<open>An event that passes through to the client's channel.\<close>

lemma single_put_sent:
  assumes "single c z w r" "w_goroutine w = Selecting" "w_listener w = None" "w_buffer w = []"
    and "length (w_updateC w) < 64"
  shows "\<exists>e. single c z (w\<lparr>w_updateC := w_updateC w @ [e], w_events := w_events w @ [e]\<rparr>) (r + 1)"
proof -
  from single_put_buffered [OF assms(1) _ assms(3)] assms(2,4) obtain e where
    "single c z (w\<lparr>w_buffer := [e], w_events := w_events w @ [e]\<rparr>) (r + 1)" by (auto simp: registered_def)
  from single_forward [OF this forward.take_event [where e = e and b = "[]"]] assms(2)
  have "single c z (w\<lparr>w_buffer := [], w_goroutine := Taken e, w_events := w_events w @ [e]\<rparr>) (r + 1)" by (cases w) simp
  from single_forward [OF this forward.send [where e = e]] assms
  have "single c z (w\<lparr>w_updateC := w_updateC w @ [e], w_events := w_events w @ [e]\<rparr>) (r + 1)"
    by (cases w) (simp add: updateC_cap_def)
  then show ?thesis ..
qed

lemma fill_buffer:
  "k \<le> 8 \<Longrightarrow> \<exists>w r. single c z w r \<and> w_goroutine w = Selecting \<and> w_listener w = None \<and> length (w_buffer w) = k"
proof (induction k)
  case 0
  show ?case using single_new [of c z] by (intro exI conjI) (auto simp: new_watch_def)
next
  case (Suc k)
  then obtain w r where w: "single c z w r" "w_goroutine w = Selecting" "w_listener w = None" "length (w_buffer w) = k"
    by auto
  with single_put_buffered [OF w(1) _ w(3)] Suc.prems obtain e where
    "single c z (w\<lparr>w_buffer := w_buffer w @ [e], w_events := w_events w @ [e]\<rparr>) (r + 1)"
    by (auto simp: registered_def)
  with w show ?case
    by (intro exI [of _ "w\<lparr>w_buffer := w_buffer w @ [e], w_events := w_events w @ [e]\<rparr>"] exI [of _ "r + 1"]) simp
qed

lemma fill_channel:
  "k \<le> 64 \<Longrightarrow> \<exists>w r. single c z w r \<and> w_goroutine w = Selecting \<and> w_listener w = None \<and> w_buffer w = []
     \<and> length (w_updateC w) = k \<and> w_received w = [] \<and> w_events w = w_updateC w"
proof (induction k)
  case 0
  show ?case using single_new [of c z] by (intro exI conjI) (auto simp: new_watch_def)
next
  case (Suc k)
  then obtain w r where w: "single c z w r" "w_goroutine w = Selecting" "w_listener w = None" "w_buffer w = []"
    "length (w_updateC w) = k" "w_received w = []" "w_events w = w_updateC w" by auto
  with single_put_sent [OF w(1-4)] Suc.prems obtain e where
    "single c z (w\<lparr>w_updateC := w_updateC w @ [e], w_events := w_events w @ [e]\<rparr>) (r + 1)" by auto
  with w show ?case
    by (intro exI [of _ "w\<lparr>w_updateC := w_updateC w @ [e], w_events := w_events w @ [e]\<rparr>"] exI [of _ "r + 1"]) simp
qed

lemma single_read_all:
  "single c z w r \<Longrightarrow> single c z (w\<lparr>w_updateC := [], w_received := w_received w @ w_updateC w\<rparr>) r"
proof (induction "w_updateC w" arbitrary: w)
  case Nil
  then have "w\<lparr>w_updateC := [], w_received := w_received w @ w_updateC w\<rparr> = w" by (cases w) simp
  with Nil(2) show ?case by simp
next
  case (Cons e es)
  from single_forward [OF Cons(3) forward.receive [OF Cons(2) [symmetric]]]
  have "single c z (w\<lparr>w_updateC := es, w_received := w_received w @ [e]\<rparr>) r" .
  from Cons(1) [OF _ this] Cons(2) [symmetric] show ?case by simp
qed

section \<open>Locking up\<close>

text \<open>
  A watch whose goroutine waits for the read lock while a writer waits for room in the watch's buffer:
  nothing can change that.
\<close>

definition stuck :: "'a watched_store \<Rightarrow> nat \<Rightarrow> bool" where
  "stuck s i \<longleftrightarrow> i < length (wst_watches s) \<and> w_goroutine (wst_watches s ! i) = Stopping
     \<and> w_listener (wst_watches s ! i) \<noteq> None \<and> length (w_buffer (wst_watches s ! i)) = buffer_cap"

lemma stuck_locked: "stuck s i \<Longrightarrow> write_locked s"
  unfolding stuck_def write_locked_def by (meson nth_mem)

lemma stuck_step:
  assumes "wstep s s'" "stuck s i"
  shows "stuck s' i"
  using assms(1)
proof cases
  case (forward_step j w)
  with assms(2) show ?thesis by (cases "j = i") (auto simp: stuck_def elim!: forwardE)
next
  case (stopping_step j w)
  with assms(2) show ?thesis by (cases "j = i") (auto simp: stuck_def elim!: stoppingE)
qed (use stuck_locked [OF assms(2)] in simp_all)

text \<open>
  C7. The store can lock up for good: there is a reachable state in which a write is under way and in no
  continuation, whatever the clients do, does it ever end. A watch is cancelled while its buffer is full,
  so that its goroutine waits for the lock the writer holds, and the writer for room in the buffer.
\<close>

theorem cancelled_watch_deadlock:
  "\<exists>s. reachable c z s \<and> write_locked s \<and> {s'. wstep\<^sup>*\<^sup>* s s'} \<subseteq> Collect write_locked"
proof -
  from fill_buffer [of 8 c z] obtain w r where w: "single c z w r" "w_goroutine w = Selecting"
    "w_listener w = None" "length (w_buffer w) = 8" by auto
  with single_put [OF w(1) _ w(3)] obtain e where
    "single c z (w\<lparr>w_listener := Some e, w_events := w_events w @ [e]\<rparr>) (r + 1)" by (auto simp: registered_def)
  from single_stopping [OF single_stopping [OF this stopping.cancel] stopping.ctx_done] w
  have "single c z (w\<lparr>w_listener := Some e, w_events := w_events w @ [e], w_ctxDone := True, w_goroutine := Stopping\<rparr>) (r + 1)"
    by simp
  then obtain s where s: "reachable c z s" "stuck s 0"
    using w(4) by (auto simp: single_def stuck_def buffer_cap_def)
  have "stuck s' 0" if "wstep\<^sup>*\<^sup>* s s'" for s'
    using that s(2) by (induction rule: rtranclp_induct) (auto intro: stuck_step)
  with s stuck_locked show ?thesis by blast
qed

text \<open>
  A client that reads too slowly gets a gap: when a watch gives up on a full channel, the event it
  was about to send is thrown away, but events already in its buffer are still delivered after it, before
  the channel is closed.
\<close>

theorem slow_client_gap:
  "\<exists>s w. reachable c z s \<and> wst_watches s = [w] \<and> w_goroutine w = Closed \<and> w_updateC w = []
     \<and> \<not> prefix (w_received w) (w_events w)"
proof -
  from fill_channel [of 64 c z] obtain w r where w: "single c z w r" "w_goroutine w = Selecting"
    "w_listener w = None" "w_buffer w = []" "length (w_updateC w) = 64" "w_received w = []" "w_events w = w_updateC w" by auto
  with single_put_buffered [OF w(1) _ w(3)] obtain a where
    a: "single c z (w\<lparr>w_buffer := [a], w_events := w_updateC w @ [a]\<rparr>) (r + 1)" "map_option kr_Rev (ev_Current a) = Some (r + 1)"
    by (auto simp: registered_def)
  from single_forward [OF a(1) forward.take_event [where e = a and b = "[]"]] w(2)
  have "single c z (w\<lparr>w_buffer := [], w_goroutine := Taken a, w_events := w_updateC w @ [a]\<rparr>) (r + 1)" by (cases w) simp
  from single_put_buffered [OF this] w(3) obtain b where
    b: "single c z (w\<lparr>w_buffer := [b], w_goroutine := Taken a, w_events := w_updateC w @ [a, b]\<rparr>) (r + 2)"
      "map_option kr_Rev (ev_Current b) = Some (r + 2)"
    by (cases w) (auto simp: registered_def add.commute)
  from single_stopping [OF b(1) stopping.give_up [where e = a]] w(5)
  have "single c z (w\<lparr>w_buffer := [b], w_goroutine := Stopping, w_events := w_updateC w @ [a, b],
      w_dropped := w_dropped w @ [a]\<rparr>) (r + 2)" by (cases w) (simp add: updateC_cap_def)
  from single_unregister [OF single_read_all [OF this]] w(3,6)
  have "single c z (w\<lparr>w_updateC := [], w_buffer := [b], w_goroutine := Draining, w_received := w_updateC w,
      w_events := w_updateC w @ [a, b], w_dropped := w_dropped w @ [a]\<rparr>) (r + 2)" by (cases w) simp
  from single_stopping [OF single_stopping [OF this stopping.drain_take [where e = b and b = "[]"]] stopping.drain_send [where e = b]]
  have "single c z (w\<lparr>w_updateC := [b], w_buffer := [], w_goroutine := Draining, w_received := w_updateC w,
      w_events := w_updateC w @ [a, b], w_dropped := w_dropped w @ [a]\<rparr>) (r + 2)" by (cases w) (simp add: updateC_cap_def)
  from single_read_all [OF single_stopping [OF this stopping.close]]
  have "single c z (w\<lparr>w_updateC := [], w_buffer := [], w_goroutine := Closed, w_received := w_updateC w @ [b],
      w_events := w_updateC w @ [a, b], w_dropped := w_dropped w @ [a]\<rparr>) (r + 2)" by (cases w) simp
  moreover have "a \<noteq> b" using a(2) b(2) by auto
  ultimately show ?thesis by (auto simp: single_def)
qed

section \<open>The first two properties on an example\<close>

lemma watch_delivers_in_order_witness:
  "\<exists>s w. reachable id (0 :: int) s \<and> w \<in> set (wst_watches s) \<and> length (w_updateC w) = 3 \<and> registered w
     \<and> linked (w_events w)
     \<and> vs_Get [Get_RevisionOutOpt True] (wst_store s) =
         (case ev_Current (last (w_events w)) of None \<Rightarrow> Inl ErrNotFound | Some k \<Rightarrow> Inr (kr_V k, Some (kr_Rev k)))"
proof -
  from fill_channel [of 3 id "0 :: int"] obtain s w where s: "reachable id (0 :: int) s" "w \<in> set (wst_watches s)"
    and "w_goroutine w = Selecting" "length (w_updateC w) = 3" "w_events w = w_updateC w"
    by (auto simp: single_def)
  then have "length (w_updateC w) = 3" "registered w" "w_events w \<noteq> []" by (auto simp: registered_def)
  with watch_delivers_in_order [OF s] s show ?thesis by blast
qed

lemma watches_drain_witness:
  "\<exists>s s'. reachable id (0 :: int) s \<and> work s = 3 \<and> deliver s s'"
proof -
  from fill_channel [of 3 id "0 :: int"] obtain s w where s: "reachable id (0 :: int) s" "wst_watches s = [w]"
    and "w_goroutine w = Selecting" "w_listener w = None" "w_buffer w = []" "length (w_updateC w) = 3"
    by (auto simp: single_def)
  then have "\<forall>w \<in> set (wst_watches s). active w" "work s = 3" by (simp_all add: active_def work_def watch_work_def)
  with watches_drain [OF s(1) this(1), of 0 s] s(1) show ?thesis by auto
qed

end
