(* ===== verification/Msg.thy ===== *)
theory Msg
  imports Prelude "HOL-Library.Word"
begin

text \<open>
  Protobuf messages as data: what \<open>protoreflect\<close> shows of a message, which is all the code under
  \<open>util/merge\<close>, \<open>util/fieldmask\<close>, \<open>server\<close> and \<open>reactive\<close> looks at. A message is its full name, one
  slot per field of its descriptor in the descriptor's order (the field's descriptor, and the value if
  the field is populated), and its unknown bytes. \<open>msg.Has(fd)\<close> is that the slot holds a value,
  \<open>msg.Clear(fd)\<close> empties it, and a field without presence is populated when it is not the default.

  Floats are kept as their bit patterns. Values are immutable here, so a clone is the value itself.
\<close>

datatype kind = BoolKind | EnumKind | Int32Kind | Int64Kind | Uint32Kind | Uint64Kind | FloatKind
  | DoubleKind | StringKind | BytesKind | MessageKind | OtherKind

record fdesc =
  fd_Name :: string
  fd_Kind :: kind
  fd_IsList :: bool
  fd_IsMap :: bool
  fd_Message :: string \<comment> \<open>full name of the message type of the field, if it has one\<close>
  fd_Masked :: bool \<comment> \<open>the field option \<open>(core.masked)\<close> is set\<close>
  fd_Oneof :: string \<comment> \<open>the oneof that contains the field, empty for none\<close>

datatype scalar = SBool bool | SInt32 "32 word" | SInt64 "64 word" | SUint32 "32 word"
  | SUint64 "64 word" | SFloat32 "32 word" | SFloat64 "64 word" | SString string | SBytes bytes
  | SEnum "32 word"

datatype pval = VScalar scalar | VMsg pmsg | VList "pval list" | VMap "(scalar \<times> pval) list"
  and pmsg = Msg (msg_name: string) (msg_slots: "(fdesc \<times> pval option) list") (msg_unknown: bytes)

type_synonym slots = "(fdesc \<times> pval option) list"

text \<open>\<open>field.Kind() == protoreflect.MessageKind && !field.IsMap() && !field.IsList()\<close>\<close>

definition is_msg_field :: "fdesc \<Rightarrow> bool" where
  "is_msg_field fd \<longleftrightarrow> fd_Kind fd = MessageKind \<and> \<not> fd_IsMap fd \<and> \<not> fd_IsList fd"

definition msg_fields :: "pmsg \<Rightarrow> fdesc list" where
  "msg_fields m = map fst (msg_slots m)"

text \<open>Two messages have the same descriptor.\<close>

definition same_descriptor :: "pmsg \<Rightarrow> pmsg \<Rightarrow> bool" where
  "same_descriptor m m' \<longleftrightarrow> msg_name m = msg_name m' \<and> msg_fields m = msg_fields m'"

text \<open>An empty message of the same type: \<open>m.Type().Zero()\<close>, \<open>m.New()\<close>.\<close>

definition msg_new :: "pmsg \<Rightarrow> pmsg" where
  "msg_new m = Msg (msg_name m) (map (\<lambda>s. (fst s, None)) (msg_slots m)) []"

text \<open>The slot of a field, by name.\<close>

fun slot_get :: "string \<Rightarrow> slots \<Rightarrow> pval option" where
  "slot_get n [] = None"
| "slot_get n ((fd, v) # ss) = (if fd_Name fd = n then v else slot_get n ss)"

fun slot_set :: "string \<Rightarrow> pval option \<Rightarrow> slots \<Rightarrow> slots" where
  "slot_set n x [] = []"
| "slot_set n x ((fd, v) # ss) = (if fd_Name fd = n then (fd, x) # ss else (fd, v) # slot_set n x ss)"

definition msg_get :: "string \<Rightarrow> pmsg \<Rightarrow> pval option" where
  "msg_get n m = slot_get n (msg_slots m)"

definition msg_Has :: "string \<Rightarrow> pmsg \<Rightarrow> bool" where
  "msg_Has n m \<longleftrightarrow> msg_get n m \<noteq> None"

definition msg_put :: "string \<Rightarrow> pval option \<Rightarrow> pmsg \<Rightarrow> pmsg" where
  "msg_put n x m = Msg (msg_name m) (slot_set n x (msg_slots m)) (msg_unknown m)"

abbreviation msg_Clear :: "string \<Rightarrow> pmsg \<Rightarrow> pmsg" where
  "msg_Clear n m \<equiv> msg_put n None m"

abbreviation msg_Set :: "string \<Rightarrow> pval \<Rightarrow> pmsg \<Rightarrow> pmsg" where
  "msg_Set n v m \<equiv> msg_put n (Some v) m"

text \<open>
  Of the members of a oneof at most one is populated: \<open>Set\<close> and \<open>Mutable\<close> of a member clear the others. \<open>release\<close>
  is what setting all fields that \<open>ss\<close> populates does to the fields it does not populate. The plain
  \<^const>\<open>msg_put\<close> is for fields outside of oneofs, such as a revision.
\<close>

definition set_oneofs :: "slots \<Rightarrow> string list" where
  "set_oneofs ss = filter (\<lambda>o'. o' \<noteq> []) (map (fd_Oneof \<circ> fst) (filter (\<lambda>s. snd s \<noteq> None) ss))"

definition released :: "slots \<Rightarrow> fdesc \<Rightarrow> bool" where
  "released ss fd \<longleftrightarrow> slot_get (fd_Name fd) ss = None \<and> fd_Oneof fd \<in> set (set_oneofs ss)"

definition clear_where :: "(fdesc \<Rightarrow> bool) \<Rightarrow> slots \<Rightarrow> slots" where
  "clear_where P ds = map (\<lambda>(fd, d). (fd, if P fd then None else d)) ds"

definition release :: "slots \<Rightarrow> slots \<Rightarrow> slots" where
  "release ss ds = clear_where (released ss) ds"

text \<open>The field is not a member of a oneof; a field that is loses its value to another member that is set.\<close>

definition outside_oneofs :: "string \<Rightarrow> pmsg \<Rightarrow> bool" where
  "outside_oneofs n m \<longleftrightarrow> (\<forall>fd \<in> set (msg_fields m). fd_Name fd = n \<longrightarrow> fd_Oneof fd = [])"

text \<open>\<open>Mutable\<close> and \<open>Set\<close> of a field clear the other members of its oneof.\<close>

definition clear_siblings :: "fdesc \<Rightarrow> pmsg \<Rightarrow> pmsg" where
  "clear_siblings fd m = Msg (msg_name m)
     (clear_where (\<lambda>gd. fd_Oneof gd \<noteq> [] \<and> fd_Oneof gd = fd_Oneof fd \<and> fd_Name gd \<noteq> fd_Name fd) (msg_slots m)) (msg_unknown m)"

definition sibling_set :: "string \<Rightarrow> pmsg \<Rightarrow> bool" where
  "sibling_set n m \<longleftrightarrow>
     (case find_first (\<lambda>fd. fd_Name fd = n) (msg_fields m) of None \<Rightarrow> False | Some fd \<Rightarrow> released (msg_slots m) fd)"

text \<open>
  The two messages whose zero value the merge tells apart from an absent one:
  \<open>google.protobuf.Duration\<close> and \<open>google.protobuf.Timestamp\<close>, both with the fields seconds and nanos.
\<close>

definition is_time_message :: "string \<Rightarrow> bool" where
  "is_time_message fqn \<longleftrightarrow> fqn = ''google.protobuf.Duration'' \<or> fqn = ''google.protobuf.Timestamp''"

text \<open>
  Well-formed: a slot of a singular message field holds a message and no other slot does, a list
  field holds a list and a map field a map; and so on inside. Populated lists and maps are not empty.
\<close>

definition val_fits :: "fdesc \<Rightarrow> pval \<Rightarrow> bool" where
  "val_fits fd v \<longleftrightarrow>
     (case v of
        VMsg m \<Rightarrow> is_msg_field fd
      | VList vs \<Rightarrow> fd_IsList fd \<and> \<not> fd_IsMap fd \<and> vs \<noteq> []
      | VMap kvs \<Rightarrow> fd_IsMap fd \<and> \<not> fd_IsList fd \<and> kvs \<noteq> []
      | VScalar s \<Rightarrow> \<not> fd_IsMap fd \<and> \<not> fd_IsList fd \<and> fd_Kind fd \<noteq> MessageKind)"

fun wf_msg :: "pmsg \<Rightarrow> bool" and wf_slots :: "slots \<Rightarrow> bool" and wf_val :: "pval \<Rightarrow> bool"
  and wf_vals :: "pval list \<Rightarrow> bool" and wf_map :: "(scalar \<times> pval) list \<Rightarrow> bool" where
  "wf_msg (Msg n ss u) \<longleftrightarrow> wf_slots ss
     \<and> (is_time_message n \<longrightarrow> map (fd_Name \<circ> fst) ss = [''seconds'', ''nanos''])"
| "wf_slots [] \<longleftrightarrow> True"
| "wf_slots ((fd, None) # ss) \<longleftrightarrow> wf_slots ss"
| "wf_slots ((fd, Some v) # ss) \<longleftrightarrow> val_fits fd v \<and> wf_val v \<and> wf_slots ss"
| "wf_val (VScalar s) \<longleftrightarrow> True"
| "wf_val (VMsg m) \<longleftrightarrow> wf_msg m"
| "wf_val (VList vs) \<longleftrightarrow> wf_vals vs"
| "wf_val (VMap kvs) \<longleftrightarrow> distinct (map fst kvs) \<and> wf_map kvs"
| "wf_vals [] \<longleftrightarrow> True"
| "wf_vals (v # vs) \<longleftrightarrow> wf_val v \<and> wf_vals vs"
| "wf_map [] \<longleftrightarrow> True"
| "wf_map ((k, v) # kvs) \<longleftrightarrow> wf_val v \<and> wf_map kvs"

text \<open>No message inside carries unknown bytes.\<close>

fun no_unknown :: "pmsg \<Rightarrow> bool" and no_unknown_slots :: "slots \<Rightarrow> bool" and no_unknown_val :: "pval \<Rightarrow> bool"
  and no_unknown_vals :: "pval list \<Rightarrow> bool" and no_unknown_map :: "(scalar \<times> pval) list \<Rightarrow> bool" where
  "no_unknown (Msg n ss u) \<longleftrightarrow> u = [] \<and> no_unknown_slots ss"
| "no_unknown_slots [] \<longleftrightarrow> True"
| "no_unknown_slots ((fd, None) # ss) \<longleftrightarrow> no_unknown_slots ss"
| "no_unknown_slots ((fd, Some v) # ss) \<longleftrightarrow> no_unknown_val v \<and> no_unknown_slots ss"
| "no_unknown_val (VScalar s) \<longleftrightarrow> True"
| "no_unknown_val (VMsg m) \<longleftrightarrow> no_unknown m"
| "no_unknown_val (VList vs) \<longleftrightarrow> no_unknown_vals vs"
| "no_unknown_val (VMap kvs) \<longleftrightarrow> no_unknown_map kvs"
| "no_unknown_vals [] \<longleftrightarrow> True"
| "no_unknown_vals (v # vs) \<longleftrightarrow> no_unknown_val v \<and> no_unknown_vals vs"
| "no_unknown_map [] \<longleftrightarrow> True"
| "no_unknown_map ((k, v) # kvs) \<longleftrightarrow> no_unknown_val v \<and> no_unknown_map kvs"

lemma slot_get_set: "slot_get n (slot_set n' x ss) =
    (if n' = n then (if n \<in> set (map (fd_Name \<circ> fst) ss) then x else None) else slot_get n ss)"
proof (induction n' x ss rule: slot_set.induct)
  case (2 n' x fd v ss)
  then show ?case by (cases "fd_Name fd = n'"; cases "n' = n") simp_all
qed simp

lemma slot_set_fields [simp]: "map fst (slot_set n x ss) = map fst ss"
  by (induction n x ss rule: slot_set.induct) auto

lemma slot_set_twice [simp]: "slot_set n x (slot_set n y ss) = slot_set n x ss"
  by (induction n y ss rule: slot_set.induct) auto

lemma slot_set_get [simp]: "slot_set n (slot_get n ss) ss = ss"
  by (induction n ss rule: slot_get.induct) auto

lemma slot_set_commute: "n \<noteq> n' \<Longrightarrow> slot_set n x (slot_set n' y ss) = slot_set n' y (slot_set n x ss)"
  by (induction n x ss rule: slot_set.induct) auto

lemma clear_where_simps [simp]:
  "clear_where P [] = []" "clear_where P ((fd, d) # ds) = (fd, if P fd then None else d) # clear_where P ds"
  by (simp_all add: clear_where_def)

lemma clear_where_twice [simp]: "clear_where P (clear_where P ds) = clear_where P ds"
  by (simp add: clear_where_def comp_def case_prod_beta)

lemma release_fields [simp]: "map fst (release ss ds) = map fst ds"
  by (simp add: release_def clear_where_def comp_def case_prod_beta)

lemma release_empty [simp]: "release (map (\<lambda>s. (f s, None)) xs) ds = ds"
  by (simp add: release_def clear_where_def released_def set_oneofs_def filter_empty_conv comp_def case_prod_beta)

lemma release_new [simp]: "release ss (map (\<lambda>s. (f s, None)) xs) = map (\<lambda>s. (f s, None)) xs"
  by (simp add: release_def clear_where_def)

lemma release_twice [simp]: "release ss (release ss ds) = release ss ds"
  by (simp add: release_def clear_where_def comp_def case_prod_beta)

lemma release_get_set: "slot_get n ss \<noteq> None \<Longrightarrow> slot_get n (release ss ds) = slot_get n ds"
  by (induction ds) (auto simp: release_def released_def)

lemma no_empty_oneof [simp]: "[] \<notin> set (set_oneofs ss)"
  by (simp add: set_oneofs_def)

lemma release_get_outside:
  "\<forall>fd \<in> set (map fst ds). fd_Name fd = n \<longrightarrow> fd_Oneof fd = [] \<Longrightarrow> slot_get n (release ss ds) = slot_get n ds"
  by (induction ds) (auto simp: release_def released_def)

lemma release_get:
  "slot_get n (release ss ds) =
     (case find_first (\<lambda>fd. fd_Name fd = n) (map fst ds) of
        None \<Rightarrow> None | Some fd \<Rightarrow> if released ss fd then None else slot_get n ds)"
  by (induction ds) (auto simp: release_def split: option.splits dest: find_first_Some)

lemma outside_oneofs_same: "same_descriptor a b \<Longrightarrow> outside_oneofs n a = outside_oneofs n b"
  by (simp add: same_descriptor_def outside_oneofs_def)

definition has_field :: "string \<Rightarrow> pmsg \<Rightarrow> bool" where
  "has_field n m \<longleftrightarrow> n \<in> set (map fd_Name (msg_fields m))"

lemma msg_get_put [msg_simps]:
  "msg_get n (msg_put n' x m) = (if n' = n then (if has_field n m then x else None) else msg_get n m)"
  by (simp add: msg_get_def msg_put_def slot_get_set has_field_def msg_fields_def comp_def)

lemma msg_put_simps [msg_simps, simp]:
  "msg_name (msg_put n x m) = msg_name m" "msg_fields (msg_put n x m) = msg_fields m"
  "has_field k (msg_put n x m) = has_field k m" "msg_put n x (msg_put n y m) = msg_put n x m"
  "msg_put n (msg_get n m) m = m" "msg_unknown (msg_put n x m) = msg_unknown m"
  by (auto simp: msg_put_def msg_fields_def has_field_def msg_get_def)

lemma msg_put_commute: "n \<noteq> n' \<Longrightarrow> msg_put n x (msg_put n' y m) = msg_put n' y (msg_put n x m)"
  by (simp add: msg_put_def slot_set_commute)

lemma clear_where_get: "slot_get n (clear_where P ss) = slot_get n ss \<or> slot_get n (clear_where P ss) = None"
  by (induction ss) (auto split: if_splits)

lemma clear_siblings_get: "msg_get n (clear_siblings fd m) = msg_get n m \<or> msg_get n (clear_siblings fd m) = None"
  by (simp add: msg_get_def clear_siblings_def clear_where_get)

lemma same_descriptor_refl [simp]: "same_descriptor m m"
  by (simp add: same_descriptor_def)

lemma same_descriptor_sym: "same_descriptor a b \<Longrightarrow> same_descriptor b a"
  by (simp add: same_descriptor_def)

lemma same_descriptor_trans [trans]: "same_descriptor a b \<Longrightarrow> same_descriptor b c \<Longrightarrow> same_descriptor a c"
  by (simp add: same_descriptor_def)

lemma same_descriptor_put [simp]:
  "same_descriptor (msg_put n x a) b = same_descriptor a b"
  "same_descriptor a (msg_put n x b) = same_descriptor a b"
  by (simp_all add: same_descriptor_def)

lemma msg_new_simps [simp]:
  "msg_name (msg_new m) = msg_name m" "msg_fields (msg_new m) = msg_fields m"
  "same_descriptor (msg_new m) m" "same_descriptor m (msg_new m)" "msg_unknown (msg_new m) = []"
  by (simp_all add: msg_new_def msg_fields_def same_descriptor_def comp_def)

lemma same_descriptor_new: "same_descriptor a b \<Longrightarrow> msg_new a = msg_new b"
proof -
  assume *: "same_descriptor a b"
  have "msg_new m = Msg (msg_name m) (map (\<lambda>f. (f, None)) (msg_fields m)) []" for m
    by (simp add: msg_new_def msg_fields_def comp_def)
  with * show "msg_new a = msg_new b" by (simp add: same_descriptor_def)
qed

lemma msg_get_new [simp]: "msg_get n (msg_new m) = None"
proof -
  have "slot_get n (map (\<lambda>s. (fst s, None)) ss) = None" for ss by (induction ss) auto
  then show ?thesis by (simp add: msg_get_def msg_new_def)
qed


section \<open>Descriptors\<close>

text \<open>
  The fields of each message type, by full name. A message conforms to it when its slots are the
  fields of its type and every singular message in it is of the type its field declares. Field names
  are identifiers: they contain no dot, and no two fields of a message share one.
\<close>

type_synonym schema = "string \<Rightarrow> fdesc list"

fun conforms :: "schema \<Rightarrow> pmsg \<Rightarrow> bool" and conforms_slots :: "schema \<Rightarrow> slots \<Rightarrow> bool"
  and conforms_val :: "schema \<Rightarrow> fdesc \<Rightarrow> pval \<Rightarrow> bool" where
  "conforms sch (Msg n ss u) \<longleftrightarrow> map fst ss = sch n \<and> conforms_slots sch ss"
| "conforms_slots sch [] \<longleftrightarrow> True"
| "conforms_slots sch ((fd, None) # ss) \<longleftrightarrow> conforms_slots sch ss"
| "conforms_slots sch ((fd, Some v) # ss) \<longleftrightarrow> conforms_val sch fd v \<and> conforms_slots sch ss"
| "conforms_val sch fd (VMsg m) \<longleftrightarrow> msg_name m = fd_Message fd \<and> conforms sch m"
| "conforms_val sch fd (VScalar s) \<longleftrightarrow> True"
| "conforms_val sch fd (VList vs) \<longleftrightarrow> True"
| "conforms_val sch fd (VMap kvs) \<longleftrightarrow> True"

definition dotless :: "string \<Rightarrow> bool" where
  "dotless s \<longleftrightarrow> CHR ''.'' \<notin> set s"

fun names_ok :: "pmsg \<Rightarrow> bool" and names_ok_slots :: "slots \<Rightarrow> bool" and names_ok_val :: "pval \<Rightarrow> bool" where
  "names_ok (Msg n ss u) \<longleftrightarrow> distinct (map (fd_Name \<circ> fst) ss) \<and> names_ok_slots ss"
| "names_ok_slots [] \<longleftrightarrow> True"
| "names_ok_slots ((fd, None) # ss) \<longleftrightarrow> dotless (fd_Name fd) \<and> names_ok_slots ss"
| "names_ok_slots ((fd, Some v) # ss) \<longleftrightarrow> dotless (fd_Name fd) \<and> names_ok_val v \<and> names_ok_slots ss"
| "names_ok_val (VMsg m) \<longleftrightarrow> names_ok m"
| "names_ok_val (VScalar s) \<longleftrightarrow> True"
| "names_ok_val (VList vs) \<longleftrightarrow> True"
| "names_ok_val (VMap kvs) \<longleftrightarrow> True"

end
