(* ===== verification/Merge.thy ===== *)
theory Merge
  imports Msg Errors "HOL-Library.AList"
begin

text \<open>
  \<open>util/merge/merge.go\<close>: merging one message into another, with options that replace lists and maps
  instead of extending them. The recursion is on the source message. The fast path for empty options
  is a method of the protobuf runtime and a parameter here (\<open>fast\<close>): \<^term>\<open>None\<close> if the message type
  has no such method, else the destination it leaves and whether it reports the merge complete.
\<close>

record MergeOptions =
  mo_ReplaceLists :: bool
  mo_ReplaceMaps :: bool

type_synonym fast_merge = "pmsg \<Rightarrow> pmsg \<Rightarrow> (pmsg \<times> bool) option"

text \<open>The zero value of a duration or timestamp, and the assignments that set one to zero.\<close>

definition is_zero_time :: "pmsg \<Rightarrow> bool" where
  "is_zero_time m \<longleftrightarrow>
     is_time_message (msg_name m) \<and> msg_get ''seconds'' m = None \<and> msg_get ''nanos'' m = None"

definition zero_time_fields :: "pmsg \<Rightarrow> pmsg" where
  "zero_time_fields m = msg_Clear ''nanos'' (msg_Clear ''seconds'' m)"

definition fast_path :: "fast_merge \<Rightarrow> MergeOptions \<Rightarrow> pmsg \<Rightarrow> pmsg \<Rightarrow> pmsg \<times> bool" where
  "fast_path fast o' dst src =
     (if \<not> mo_ReplaceLists o' \<and> \<not> mo_ReplaceMaps o' then
        (case fast dst src of Some r \<Rightarrow> r | None \<Rightarrow> (dst, False))
      else (dst, False))"

text \<open>
  \<open>mergeMessage\<close>, with the callback of its \<open>src.Range\<close> as \<open>merge_slots\<close> and \<open>merge_field\<close>, and
  \<open>mergeList\<close> and \<open>mergeMap\<close>. The callback calls \<open>Set\<close> or \<open>Mutable\<close> for every populated field of the source, which
  clears the other members of their oneofs.
\<close>

fun mergeMessage :: "fast_merge \<Rightarrow> MergeOptions \<Rightarrow> pmsg \<Rightarrow> pmsg \<Rightarrow> pmsg"
  and merge_slots :: "fast_merge \<Rightarrow> MergeOptions \<Rightarrow> slots \<Rightarrow> slots \<Rightarrow> slots"
  and merge_field :: "fast_merge \<Rightarrow> MergeOptions \<Rightarrow> pval option \<Rightarrow> pval \<Rightarrow> pval"
  and merge_elem :: "fast_merge \<Rightarrow> MergeOptions \<Rightarrow> pval \<Rightarrow> pval"
  and mergeList :: "fast_merge \<Rightarrow> MergeOptions \<Rightarrow> pval list \<Rightarrow> pval list \<Rightarrow> pval list"
  and mergeMap :: "fast_merge \<Rightarrow> MergeOptions \<Rightarrow> (scalar \<times> pval) list \<Rightarrow> (scalar \<times> pval) list \<Rightarrow> (scalar \<times> pval) list"
where
  "mergeMessage fast o' dst (Msg n ss u) =
     (let (dst, complete) = fast_path fast o' dst (Msg n ss u) in
      if complete then dst
      else if is_zero_time (Msg n ss u) then zero_time_fields dst
      else Msg (msg_name dst) (merge_slots fast o' (release ss (msg_slots dst)) ss) (msg_unknown dst @ u))"
| "merge_slots fast o' ((fd, d) # ds) ((fd', s) # ss) =
     (fd, case s of None \<Rightarrow> d | Some v \<Rightarrow> Some (merge_field fast o' d v)) # merge_slots fast o' ds ss"
| "merge_slots fast o' ds [] = ds"
| "merge_slots fast o' [] (s # ss) = []"
| "merge_field fast o' d (VList vs) =
     VList (mergeList fast o' (if mo_ReplaceLists o' then []
                               else case d of Some (VList ds) \<Rightarrow> ds | _ \<Rightarrow> []) vs)"
| "merge_field fast o' d (VMap kvs) =
     VMap (mergeMap fast o' (if mo_ReplaceMaps o' then []
                             else case d of Some (VMap ds) \<Rightarrow> ds | _ \<Rightarrow> []) kvs)"
| "merge_field fast o' d (VMsg m) =
     VMsg (mergeMessage fast o' (case d of Some (VMsg dm) \<Rightarrow> dm | _ \<Rightarrow> msg_new m) m)"
| "merge_field fast o' d (VScalar x) = VScalar x"
| "merge_elem fast o' (VMsg m) = VMsg (mergeMessage fast o' (msg_new m) m)"
| "merge_elem fast o' (VScalar x) = VScalar x"
| "merge_elem fast o' (VList vs) = VList vs"
| "merge_elem fast o' (VMap kvs) = VMap kvs"
| "mergeList fast o' ds [] = ds"
| "mergeList fast o' ds (v # vs) = mergeList fast o' (ds @ [merge_elem fast o' v]) vs"
| "mergeMap fast o' ds [] = ds"
| "mergeMap fast o' ds ((k, v) # kvs) = mergeMap fast o' (AList.update k (merge_elem fast o' v) ds) kvs"

text \<open>\<open>MergeOptions.Merge\<close>, and its two entry points.\<close>

definition MergeOptions_Merge :: "fast_merge \<Rightarrow> MergeOptions \<Rightarrow> pmsg \<Rightarrow> pmsg \<Rightarrow> pmsg result" where
  "MergeOptions_Merge fast o' dst src =
     (if \<not> same_descriptor dst src then Inl (go_panic ''descriptor mismatch'')
      else Inr (mergeMessage fast o' dst src))"

definition Merge :: "fast_merge \<Rightarrow> pmsg \<Rightarrow> pmsg \<Rightarrow> pmsg result" where
  "Merge fast = MergeOptions_Merge fast \<lparr>mo_ReplaceLists = False, mo_ReplaceMaps = False\<rparr>"

definition replace_options :: MergeOptions where
  "replace_options = \<lparr>mo_ReplaceLists = True, mo_ReplaceMaps = True\<rparr>"

definition MergeWithReplace :: "fast_merge \<Rightarrow> pmsg \<Rightarrow> pmsg \<Rightarrow> pmsg result" where
  "MergeWithReplace fast = MergeOptions_Merge fast replace_options"

end
