(* ===== verification/MergeProps.thy ===== *)
theory MergeProps
  imports Merge
begin

text \<open>
  What \<open>MergeWithReplace\<close> does to a message: a copy onto an empty message, field by field replacement
  onto a populated one, and no change when it is repeated. The config tracker builds its
  configurations with these.
\<close>

section \<open>Copies\<close>

lemma fast_path_replace [simp]: "fast_path fast replace_options dst src = (dst, False)"
  by (simp add: fast_path_def replace_options_def)

lemma replace_options_simps [simp]: "mo_ReplaceLists replace_options" "mo_ReplaceMaps replace_options"
  by (simp_all add: replace_options_def)

lemma update_new: "k \<notin> fst ` set ds \<Longrightarrow> AList.update k v ds = ds @ [(k, v)]"
  by (induction ds) auto

lemma zero_time_new:
  assumes "wf_msg m" "no_unknown m" "is_zero_time m"
  shows "m = msg_new m"
proof (cases m)
  case (Msg n ss u)
  with assms obtain f g v w where ss: "ss = [(f, v), (g, w)]" "fd_Name f = ''seconds''" "fd_Name g = ''nanos''"
    by (auto simp: is_zero_time_def Cons_eq_map_conv)
  with assms Msg show ?thesis by (auto simp: is_zero_time_def msg_get_def msg_new_def)
qed

lemma zero_time_fields_new: "zero_time_fields (msg_new m) = msg_new m"
  unfolding zero_time_fields_def by (metis msg_get_new msg_put_simps(5))

text \<open>Merging into an empty message of the same type copies the message.\<close>

lemma merge_copy:
  "no_unknown m \<Longrightarrow> wf_msg m \<Longrightarrow> mergeMessage f replace_options (msg_new m) m = m"
  "no_unknown_slots ss \<Longrightarrow> wf_slots ss \<Longrightarrow>
     merge_slots f replace_options (map (\<lambda>s. (fst s, None)) ss) ss = ss"
  "no_unknown_val v \<Longrightarrow> wf_val v \<Longrightarrow>
     merge_elem f replace_options v = v \<and> merge_field f replace_options None v = v
     \<and> ((\<nexists>m. v = VMsg m) \<longrightarrow> merge_field f replace_options d v = v)"
  "no_unknown_vals vs \<Longrightarrow> wf_vals vs \<Longrightarrow> mergeList f replace_options ds vs = ds @ vs"
  "no_unknown_map kvs \<Longrightarrow> wf_map kvs \<Longrightarrow> distinct (map fst kvs) \<Longrightarrow> fst ` set es \<inter> fst ` set kvs = {}
     \<Longrightarrow> mergeMap f replace_options es kvs = es @ kvs"
proof (induction m and ss and v and vs and kvs arbitrary: and and d and ds and es
    rule: no_unknown_no_unknown_slots_no_unknown_val_no_unknown_vals_no_unknown_map.induct)
  case (1 n ss u)
  show ?case
  proof (cases "is_zero_time (Msg n ss u)")
    case True
    let ?m = "Msg n ss u"
    from True have "mergeMessage f replace_options (msg_new ?m) ?m = zero_time_fields (msg_new ?m)"
      by simp
    also have "\<dots> = msg_new ?m" by (rule zero_time_fields_new)
    also have "\<dots> = ?m" using zero_time_new [OF 1(3) 1(2) True] by (rule sym)
    finally show ?thesis .
  next
    case False
    with 1 show ?thesis by (simp add: msg_new_def)
  qed
next
  case (12 k v kvs)
  then show ?case by (simp add: update_new image_iff)
qed auto

lemmas merge_copy_msg = merge_copy(1)
  and merge_copy_field = merge_copy(3) [THEN conjunct2, THEN conjunct2, rule_format]

section \<open>Idempotence\<close>

lemma zero_time_fields_idem [simp]: "zero_time_fields (zero_time_fields m) = zero_time_fields m"
  unfolding zero_time_fields_def by (simp add: msg_put_commute [of "''nanos''" "''seconds''"])

lemma merge_field_indep:
  "(\<nexists>m. v = VMsg m) \<Longrightarrow> merge_field f replace_options d v = merge_field f replace_options d' v"
  by (cases v) auto

lemma merge_twice:
  "no_unknown m \<Longrightarrow> mergeMessage f replace_options (mergeMessage f replace_options dm m) m =
     mergeMessage f replace_options dm m"
  "no_unknown_slots ss \<Longrightarrow> merge_slots f replace_options (clear_where P (merge_slots f replace_options (clear_where P dss) ss)) ss =
     merge_slots f replace_options (clear_where P dss) ss"
  "no_unknown_val v \<Longrightarrow> merge_field f replace_options (Some (merge_field f replace_options d v)) v =
     merge_field f replace_options d v"
  "no_unknown_vals vs \<Longrightarrow> True"
  "no_unknown_map kvs \<Longrightarrow> True"
proof (induction m and ss and v and vs and kvs arbitrary: dm and dss P and d and and
    rule: no_unknown_no_unknown_slots_no_unknown_val_no_unknown_vals_no_unknown_map.induct)
  case (1 n ss u)
  then show ?case by (cases "is_zero_time (Msg n ss u)") (auto simp: release_def)
next
  case (3 fd ss)
  then show ?case by (cases dss) auto
next
  case (4 fd v ss)
  then show ?case by (cases dss) auto
qed auto


section \<open>Field by field\<close>

lemma merge_slots_fields [simp]: "map fst (merge_slots f o' ds ss) = map fst ds"
proof (induction ds arbitrary: ss)
  case (Cons d ds)
  then show ?case by (cases d; cases ss) auto
qed (case_tac ss; simp)

lemma zero_time_fields_simps [simp]:
  "msg_name (zero_time_fields m) = msg_name m" "msg_fields (zero_time_fields m) = msg_fields m"
  by (simp_all add: zero_time_fields_def)

lemma merge_header [simp]:
  "msg_name (mergeMessage f replace_options dst src) = msg_name dst"
  "msg_fields (mergeMessage f replace_options dst src) = msg_fields dst"
proof -
  obtain n ss u where "src = Msg n ss u" by (cases src)
  then show "msg_name (mergeMessage f replace_options dst src) = msg_name dst"
    and "msg_fields (mergeMessage f replace_options dst src) = msg_fields dst"
    by (cases "is_zero_time (Msg n ss u)"; simp; simp add: msg_fields_def)+
qed

lemma merge_same_descriptor [simp]: "same_descriptor (mergeMessage f replace_options dst src) src' =
    same_descriptor dst src'"
  by (simp add: same_descriptor_def)

lemma merge_slot_get:
  "map fst ds = map fst ss \<Longrightarrow> slot_get n (merge_slots f o' ds ss) =
     (case slot_get n ss of None \<Rightarrow> slot_get n ds | Some v \<Rightarrow> Some (merge_field f o' (slot_get n ds) v))"
proof (induction ds arbitrary: ss)
  case (Cons d ds)
  then obtain s ss' where "ss = s # ss'" by (cases ss) auto
  with Cons show ?case by (cases d; cases s) (auto split: option.splits)
qed simp

lemma slot_get_None: "find_first (\<lambda>fd. fd_Name fd = n) (map fst ss) = None \<Longrightarrow> slot_get n ss = None"
  by (induction ss) (auto split: if_splits)

lemma wf_slot_get: "wf_slots ss \<Longrightarrow> slot_get n ss = Some v \<Longrightarrow> wf_val v"
  by (induction ss rule: wf_msg_wf_slots_wf_val_wf_vals_wf_map.induct(2)) (auto split: if_splits)

lemma no_unknown_slot_get: "no_unknown_slots ss \<Longrightarrow> slot_get n ss = Some v \<Longrightarrow> no_unknown_val v"
  by (induction ss rule: no_unknown_no_unknown_slots_no_unknown_val_no_unknown_vals_no_unknown_map.induct(2))
    (auto split: if_splits)

text \<open>What a populated field of the source makes of a field of the destination.\<close>

definition replaced_field :: "fast_merge \<Rightarrow> pval option \<Rightarrow> pval option \<Rightarrow> pval option" where
  "replaced_field fast d s =
     (case s of None \<Rightarrow> d
      | Some (VMsg sm) \<Rightarrow>
          Some (VMsg (mergeMessage fast replace_options
                        (case d of Some (VMsg dm) \<Rightarrow> dm | _ \<Rightarrow> msg_new sm) sm))
      | Some v \<Rightarrow> Some v)"

lemma merge_field_replaced:
  "no_unknown_val v \<Longrightarrow> wf_val v \<Longrightarrow> Some (merge_field f replace_options d v) = replaced_field f d (Some v)"
  using merge_copy_field [of v f d] by (cases v) (auto simp: replaced_field_def)

text \<open>
  Read off a success: a field outside of oneofs, or one the source sets. A field the source leaves unset can only
  lose its value to a member of its oneof.
\<close>

lemma merge_get:
  assumes "MergeWithReplace f dst src = Inr r" "\<not> is_time_message (msg_name src)"
    and "outside_oneofs n dst \<or> msg_get n src \<noteq> None"
  shows "msg_get n r = (case msg_get n src of None \<Rightarrow> msg_get n dst
      | Some v \<Rightarrow> Some (merge_field f replace_options (msg_get n dst) v))"
    and "same_descriptor r m = same_descriptor dst m"
proof -
  obtain k ss u where src: "src = Msg k ss u" by (cases src)
  let ?ds = "release ss (msg_slots dst)"
  from src assms(1,2) have r: "r = Msg (msg_name dst) (merge_slots f replace_options ?ds ss) (msg_unknown dst @ u)"
    and same: "map fst ?ds = map fst ss"
    by (auto simp: MergeWithReplace_def MergeOptions_Merge_def is_zero_time_def same_descriptor_def msg_fields_def
        split: if_splits)
  have "slot_get n ?ds = slot_get n (msg_slots dst)"
    using assms(3) release_get_outside [of "msg_slots dst" n ss] release_get_set [of n ss "msg_slots dst"] src
    by (auto simp: outside_oneofs_def msg_fields_def msg_get_def)
  then show "msg_get n r = (case msg_get n src of None \<Rightarrow> msg_get n dst
      | Some v \<Rightarrow> Some (merge_field f replace_options (msg_get n dst) v))"
    using merge_slot_get [OF same, of n f replace_options] r src by (simp add: msg_get_def cong: option.case_cong)
  show "same_descriptor r m = same_descriptor dst m"
    using r by (simp add: same_descriptor_def msg_fields_def)
qed

section \<open>Properties\<close>

text \<open>A message with a scalar, a list and a duration, for the examples below.\<close>

definition ex_duration_fields :: "fdesc list" where
  "ex_duration_fields =
     [\<lparr>fd_Name = ''seconds'', fd_Kind = Int64Kind, fd_IsList = False, fd_IsMap = False, fd_Message = [], fd_Masked = False, fd_Oneof = []\<rparr>,
      \<lparr>fd_Name = ''nanos'', fd_Kind = Int32Kind, fd_IsList = False, fd_IsMap = False, fd_Message = [], fd_Masked = False, fd_Oneof = []\<rparr>]"

definition ex_duration :: "64 word option \<Rightarrow> pmsg" where
  "ex_duration secs = Msg ''google.protobuf.Duration''
     [(ex_duration_fields ! 0, map_option (VScalar \<circ> SInt64) secs), (ex_duration_fields ! 1, None)] []"

definition ex_msg :: "string option \<Rightarrow> pval list option \<Rightarrow> pmsg option \<Rightarrow> pmsg" where
  "ex_msg name tags d = Msg ''ex.Msg''
     [(\<lparr>fd_Name = ''name'', fd_Kind = StringKind, fd_IsList = False, fd_IsMap = False, fd_Message = [], fd_Masked = False, fd_Oneof = []\<rparr>,
       map_option (VScalar \<circ> SString) name),
      (\<lparr>fd_Name = ''tags'', fd_Kind = StringKind, fd_IsList = True, fd_IsMap = False, fd_Message = [], fd_Masked = False, fd_Oneof = []\<rparr>,
       map_option VList tags),
      (\<lparr>fd_Name = ''wait'', fd_Kind = MessageKind, fd_IsList = False, fd_IsMap = False,
        fd_Message = ''google.protobuf.Duration'', fd_Masked = True, fd_Oneof = []\<rparr>, map_option VMsg d)] []"

text \<open>A message with a oneof of two strings, and a duration.\<close>

definition ex_choice :: "string option \<Rightarrow> string option \<Rightarrow> pmsg option \<Rightarrow> pmsg" where
  "ex_choice one other d = Msg ''ex.Choice''
     [(\<lparr>fd_Name = ''one'', fd_Kind = StringKind, fd_IsList = False, fd_IsMap = False, fd_Message = [], fd_Masked = False,
        fd_Oneof = ''choice''\<rparr>, map_option (VScalar \<circ> SString) one),
      (\<lparr>fd_Name = ''other'', fd_Kind = StringKind, fd_IsList = False, fd_IsMap = False, fd_Message = [], fd_Masked = False,
        fd_Oneof = ''choice''\<rparr>, map_option (VScalar \<circ> SString) other),
      (\<lparr>fd_Name = ''wait'', fd_Kind = MessageKind, fd_IsList = False, fd_IsMap = False,
        fd_Message = ''google.protobuf.Duration'', fd_Masked = False, fd_Oneof = []\<rparr>, map_option VMsg d)] []"

lemmas ex_msg_defs = ex_msg_def ex_duration_def ex_duration_fields_def

text \<open>
  Copying: \<open>MergeWithReplace\<close> of a message onto an empty message of its type gives exactly that
  message, at every depth: nested messages, lists and maps of messages, and a present but zero
  duration or timestamp, which stays present.
\<close>

theorem merge_copies_message:
  assumes "wf_msg m" "no_unknown m"
  shows "MergeWithReplace fast (msg_new m) m = Inr m"
  using merge_copy_msg [OF assms(2,1)] by (simp add: MergeWithReplace_def MergeOptions_Merge_def)

lemma merge_copies_message_witness:
  "MergeWithReplace (\<lambda>_ _. None) (ex_msg None None None)
     (ex_msg (Some ''a'') (Some [VScalar (SString ''t'')]) (Some (ex_duration None)))
   = Inr (ex_msg (Some ''a'') (Some [VScalar (SString ''t'')]) (Some (ex_duration None)))"
proof -
  let ?m = "ex_msg (Some ''a'') (Some [VScalar (SString ''t'')]) (Some (ex_duration None))"
  have "msg_new ?m = ex_msg None None None" by (simp add: msg_new_def ex_msg_defs)
  moreover have "wf_msg ?m" "no_unknown ?m"
    by (simp_all add: ex_msg_defs val_fits_def is_msg_field_def is_time_message_def)
  ultimately show ?thesis using merge_copies_message [of ?m "\<lambda>_ _. None"] by simp
qed

text \<open>
  C17. Replacement field by field: a field the source does not set keeps its value in the destination, unless
  the source sets another member of its oneof, which clears it; a scalar, list or map field the source sets is
  taken over whole; a message field is merged recursively, into an empty message if the destination has none.
  Unknown bytes of the destination are kept. The source is well-formed, carries no unknown bytes and is not a
  zero duration or timestamp.
\<close>

theorem replace_field_by_field:
  assumes "same_descriptor dst src" "wf_msg src" "no_unknown src" "\<not> is_zero_time src"
  shows "\<exists>r. MergeWithReplace fast dst src = Inr r \<and> same_descriptor r dst
    \<and> msg_unknown r = msg_unknown dst
    \<and> (\<forall>n. msg_get n r = (if sibling_set n src then None else replaced_field fast (msg_get n dst) (msg_get n src)))"
proof -
  obtain n ss u where src: "src = Msg n ss u" by (cases src)
  let ?ds = "release ss (msg_slots dst)"
  from src assms have r: "mergeMessage fast replace_options dst src =
      Msg (msg_name dst) (merge_slots fast replace_options ?ds ss) (msg_unknown dst)"
    by simp
  have fields: "map fst (msg_slots dst) = map fst ss" "msg_fields src = map fst (msg_slots dst)"
    using assms(1) src by (simp_all add: same_descriptor_def msg_fields_def)
  have wf: "wf_slots ss" "no_unknown_slots ss" using assms(2,3) src by simp_all
  have "slot_get k (merge_slots fast replace_options ?ds ss) = replaced_field fast (slot_get k ?ds) (slot_get k ss)" for k
    using merge_slot_get [of ?ds ss k fast replace_options] fields(1) wf_slot_get [OF wf(1), of k]
      no_unknown_slot_get [OF wf(2), of k]
    by (cases "slot_get k ss") (auto simp: merge_field_replaced, simp add: replaced_field_def)
  moreover have "slot_get k ?ds = (if sibling_set k src then None else slot_get k (msg_slots dst))" for k
    using src fields(2) slot_get_None [of k "msg_slots dst"]
    by (auto simp: release_get sibling_set_def split: option.split)
  moreover have "sibling_set k src \<Longrightarrow> slot_get k ss = None" for k
    using src by (auto simp: sibling_set_def released_def split: option.splits dest: find_first_Some)
  ultimately have "slot_get k (merge_slots fast replace_options ?ds ss) =
      (if sibling_set k src then None else replaced_field fast (slot_get k (msg_slots dst)) (slot_get k ss))" for k
    by (simp add: replaced_field_def)
  with r assms(1) show ?thesis
    by (simp add: MergeWithReplace_def MergeOptions_Merge_def msg_get_def src same_descriptor_def msg_fields_def)
qed

lemma replace_field_by_field_witness:
  "\<exists>r. MergeWithReplace (\<lambda>_ _. None) (ex_choice (Some ''a'') None (Some (ex_duration (Some 3))))
       (ex_choice None (Some ''b'') (Some (ex_duration None))) = Inr r
     \<and> msg_get ''one'' r = None \<and> msg_get ''other'' r = Some (VScalar (SString ''b''))
     \<and> msg_get ''wait'' r = Some (VMsg (ex_duration None))"
proof -
  let ?d = "ex_choice (Some ''a'') None (Some (ex_duration (Some 3)))"
  let ?s = "ex_choice None (Some ''b'') (Some (ex_duration None))"
  have "same_descriptor ?d ?s" "wf_msg ?s" "no_unknown ?s" "\<not> is_zero_time ?s" by code_simp+
  from replace_field_by_field [OF this, of "\<lambda>_ _. None"] obtain r where r: "MergeWithReplace (\<lambda>_ _. None) ?d ?s = Inr r"
    "\<And>n. msg_get n r = (if sibling_set n ?s then None else replaced_field (\<lambda>_ _. None) (msg_get n ?d) (msg_get n ?s))"
    by blast
  have "sibling_set ''one'' ?s" "\<not> sibling_set ''other'' ?s" "\<not> sibling_set ''wait'' ?s"
    "replaced_field (\<lambda>_ _. None) (msg_get ''other'' ?d) (msg_get ''other'' ?s) = Some (VScalar (SString ''b''))"
    "replaced_field (\<lambda>_ _. None) (msg_get ''wait'' ?d) (msg_get ''wait'' ?s) = Some (VMsg (ex_duration None))"
    by code_simp+
  with r show ?thesis by simp
qed

text \<open>
  Merging with replacement is idempotent: if it returns, repeating it with the same source changes
  nothing. It fails only by the panic on messages of different types.
\<close>

theorem merge_idempotent:
  assumes "no_unknown src"
  shows "(case MergeWithReplace fast dst src of
            Inl e \<Rightarrow> err_code e = GoPanic \<and> \<not> same_descriptor dst src
          | Inr r \<Rightarrow> MergeWithReplace fast r src = Inr r \<and> same_descriptor dst src)"
  using merge_twice(1) [OF assms] by (simp add: MergeWithReplace_def MergeOptions_Merge_def)

lemma merge_idempotent_witness:
  "MergeWithReplace (\<lambda>_ _. None) (ex_duration (Some 3)) (ex_duration None) = Inr (ex_duration None)
   \<and> MergeWithReplace (\<lambda>_ _. None) (ex_duration None) (ex_duration None) = Inr (ex_duration None)"
proof -
  have "MergeWithReplace (\<lambda>_ _. None) (ex_duration (Some 3)) (ex_duration None) = Inr (ex_duration None)"
    by code_simp
  moreover have "no_unknown (ex_duration None)" by (simp add: ex_msg_defs)
  ultimately show ?thesis
    using merge_idempotent [where src = "ex_duration None" and fast = "\<lambda>_ _. None" and dst = "ex_duration (Some 3)"]
    by simp
qed

text \<open>
  Merging an empty message changes nothing, except for a \<open>Duration\<close> or \<open>Timestamp\<close>: there the
  empty message is the value zero, and the seconds and nanoseconds of the destination are reset.
\<close>

theorem merge_empty_source:
  "MergeWithReplace fast dst (msg_new dst) =
     Inr (if is_time_message (msg_name dst) then msg_Clear ''nanos'' (msg_Clear ''seconds'' dst) else dst)"
proof -
  have empty: "merge_slots f o' ds (map (\<lambda>s. (fst s, None)) ds) = ds" for f o' and ds :: slots
    by (induction ds) auto
  have zero: "is_zero_time (msg_new dst) = is_time_message (msg_name dst)"
    by (simp add: is_zero_time_def)
  have "msg_new dst = Msg (msg_name dst) (map (\<lambda>s. (fst s, None)) (msg_slots dst)) []"
    by (simp add: msg_new_def)
  with zero empty show ?thesis
    by (cases dst) (simp add: MergeWithReplace_def MergeOptions_Merge_def zero_time_fields_def same_descriptor_def
        msg_fields_def comp_def)
qed

end
