(* ===== verification/Art.thy ===== *)
theory Art
  imports Prelude "HOL-Library.Sublist" "HOL-Library.AList"
begin

text \<open>
  The adaptive radix tree of \<open>github.com/plar/go-adaptive-radix-tree\<close>, which the field masks, the
  in-memory key-value store and the reactive controller keep their keys in. It is third-party code:
  its operations are a parameter, a record of functions over the tree, and \<open>art_laws\<close> states what
  its documentation says of them. \<open>ForEachPrefix\<close> gives the nodes it would visit, in order; a callback
  that returns false stops the visit.
\<close>

datatype 'v art_node = art_Leaf (art_Key: string) (art_Value: 'v) | art_Inner

record ('t, 'v) art_ops =
  art_New :: 't
  art_Insert :: "string \<Rightarrow> 'v \<Rightarrow> 't \<Rightarrow> 't"
  art_Delete :: "string \<Rightarrow> 't \<Rightarrow> 't"
  art_Search :: "'t \<Rightarrow> string \<Rightarrow> 'v option"
  art_ForEachPrefix :: "'t \<Rightarrow> string \<Rightarrow> 'v art_node list"

fun art_leaves :: "'v art_node list \<Rightarrow> (string \<times> 'v) list" where
  "art_leaves [] = []"
| "art_leaves (art_Leaf k v # ns) = (k, v) # art_leaves ns"
| "art_leaves (art_Inner # ns) = art_leaves ns"

text \<open>
  The documented behaviour: a lookup returns what was inserted last under the key and not deleted
  since, and a prefix visit reaches exactly the leaves whose keys start with the prefix, once each.
\<close>

definition art_laws :: "('t, 'v) art_ops \<Rightarrow> bool" where
  "art_laws A \<longleftrightarrow>
     (\<forall>k. art_Search A (art_New A) k = None)
     \<and> (\<forall>t k v. art_Search A (art_Insert A k v t) = (art_Search A t)(k \<mapsto> v))
     \<and> (\<forall>t k. art_Search A (art_Delete A k t) = (art_Search A t)(k := None))
     \<and> (\<forall>t p. distinct (map fst (art_leaves (art_ForEachPrefix A t p)))
            \<and> set (art_leaves (art_ForEachPrefix A t p)) =
                {(k, v). art_Search A t k = Some v \<and> prefix p k})"

text \<open>The callback of the visits below: was there a leaf before the end?\<close>

fun art_any_leaf :: "'v art_node list \<Rightarrow> bool" where
  "art_any_leaf [] \<longleftrightarrow> False"
| "art_any_leaf (art_Inner # ns) \<longleftrightarrow> art_any_leaf ns"
| "art_any_leaf (art_Leaf k v # ns) \<longleftrightarrow> True"

lemma art_any_leaf_iff: "art_any_leaf ns \<longleftrightarrow> art_leaves ns \<noteq> []"
  by (induction ns rule: art_leaves.induct) auto

lemma art_prefix_visit:
  assumes "art_laws A"
  shows "art_any_leaf (art_ForEachPrefix A t p) \<longleftrightarrow> (\<exists>k. prefix p k \<and> art_Search A t k \<noteq> None)"
proof -
  have "art_any_leaf (art_ForEachPrefix A t p) \<longleftrightarrow> set (art_leaves (art_ForEachPrefix A t p)) \<noteq> {}"
    by (simp add: art_any_leaf_iff)
  also have "\<dots> \<longleftrightarrow> (\<exists>k. prefix p k \<and> art_Search A t k \<noteq> None)"
    using assms by (simp add: art_laws_def) blast
  finally show ?thesis .
qed

lemma art_simps:
  assumes "art_laws A"
  shows "art_Search A (art_New A) = Map.empty"
    "art_Search A (art_Insert A k v t) = (art_Search A t)(k \<mapsto> v)"
    "art_Search A (art_Delete A k t) = (art_Search A t)(k := None)"
  using assms by (auto simp: art_laws_def)

section \<open>A tree that obeys the laws\<close>

text \<open>An association list with distinct keys, to evaluate the model on examples.\<close>

typedef 'v alist_tree = "{xs :: (string \<times> 'v) list. distinct (map fst xs)}"
  by (rule exI [of _ "[]"]) simp

setup_lifting type_definition_alist_tree

lift_definition at_New :: "'v alist_tree" is "[]" by simp
lift_definition at_Insert :: "string \<Rightarrow> 'v \<Rightarrow> 'v alist_tree \<Rightarrow> 'v alist_tree" is AList.update
  by (rule distinct_update)
lift_definition at_Delete :: "string \<Rightarrow> 'v alist_tree \<Rightarrow> 'v alist_tree" is AList.delete
  by (rule distinct_delete)
lift_definition at_Search :: "'v alist_tree \<Rightarrow> string \<Rightarrow> 'v option" is map_of .
lift_definition at_ForEachPrefix :: "'v alist_tree \<Rightarrow> string \<Rightarrow> 'v art_node list" is
  "\<lambda>xs p. map (\<lambda>(k, v). art_Leaf k v) (filter (\<lambda>(k, v). prefix p k) xs)" .

definition alist_art :: "('v alist_tree, 'v) art_ops" where
  "alist_art = \<lparr>art_New = at_New, art_Insert = at_Insert, art_Delete = at_Delete,
     art_Search = at_Search, art_ForEachPrefix = at_ForEachPrefix\<rparr>"

lemma at_New_search: "at_Search at_New k = None"
  by transfer simp

lemma at_Insert_search: "at_Search (at_Insert k v t) = (at_Search t)(k \<mapsto> v)"
  by transfer (simp add: update_conv')

lemma at_Delete_search: "at_Search (at_Delete k t) = (at_Search t)(k := None)"
  by transfer (simp add: delete_conv')

lemma art_leaves_map: "art_leaves (map (\<lambda>(k, v). art_Leaf k v) xs) = xs"
  by (induction xs) auto

lemma at_prefix_distinct: "distinct (map fst (art_leaves (at_ForEachPrefix t p)))"
  by transfer (simp add: art_leaves_map distinct_map_filter)

lemma at_prefix_set:
  "set (art_leaves (at_ForEachPrefix t p)) = {(k, v). at_Search t k = Some v \<and> prefix p k}"
  by transfer (auto simp: art_leaves_map)

lemma alist_art_laws: "art_laws alist_art"
  by (simp add: art_laws_def alist_art_def at_New_search at_Insert_search at_Delete_search
      at_prefix_distinct at_prefix_set)

end
