(* ===== verification/FieldMask.thy ===== *)
theory FieldMask
  imports Msg Errors Art
begin

text \<open>
  \<open>util/fieldmask/masks.go\<close> and \<open>diff.go\<close>: masks made from the populated or the absent fields of a
  message, clearing the fields inside or outside a mask, and the mask of the differences of two
  messages. A mask is its list of paths, a nil mask is \<^term>\<open>None\<close>. Two things are third-party and
  parameters: the radix tree a mask is put into, and \<open>FieldMask.Normalize\<close>, which sorts the paths and
  drops those that another path covers.
\<close>

type_synonym mask = "string list"

text \<open>\<open>fmt.Sprintf("%s.%s", field.Name(), nestedPath)\<close>\<close>

definition sub_path :: "string \<Rightarrow> string \<Rightarrow> string" where
  "sub_path name nested = name @ ''.'' @ nested"

section \<open>Masks of a message\<close>

fun rangePresentMessageFields :: "pmsg \<Rightarrow> string list" and present_slots :: "slots \<Rightarrow> string list"
  and present_field :: "fdesc \<Rightarrow> pval \<Rightarrow> string list" where
  "rangePresentMessageFields (Msg n ss u) = present_slots ss"
| "present_slots [] = []"
| "present_slots ((fd, None) # ss) = present_slots ss"
| "present_slots ((fd, Some v) # ss) = present_field fd v @ present_slots ss"
| "present_field fd (VMsg m) =
     (if is_msg_field fd then map (sub_path (fd_Name fd)) (rangePresentMessageFields m)
      else [fd_Name fd])"
| "present_field fd (VScalar s) = [fd_Name fd]"
| "present_field fd (VList vs) = [fd_Name fd]"
| "present_field fd (VMap kvs) = [fd_Name fd]"

fun rangeAbsentMessageFields :: "pmsg \<Rightarrow> string list" and absent_slots :: "slots \<Rightarrow> string list"
  and absent_field :: "fdesc \<Rightarrow> pval \<Rightarrow> string list" where
  "rangeAbsentMessageFields (Msg n ss u) = absent_slots ss"
| "absent_slots [] = []"
| "absent_slots ((fd, None) # ss) = fd_Name fd # absent_slots ss"
| "absent_slots ((fd, Some v) # ss) = absent_field fd v @ absent_slots ss"
| "absent_field fd (VMsg m) =
     (if is_msg_field fd then map (sub_path (fd_Name fd)) (rangeAbsentMessageFields m) else [])"
| "absent_field fd (VScalar s) = []"
| "absent_field fd (VList vs) = []"
| "absent_field fd (VMap kvs) = []"

definition ByPresence :: "(mask \<Rightarrow> mask) \<Rightarrow> pmsg \<Rightarrow> mask" where
  "ByPresence nrm m = nrm (rangePresentMessageFields m)"

definition ByAbsence :: "(mask \<Rightarrow> mask) \<Rightarrow> pmsg \<Rightarrow> mask" where
  "ByAbsence nrm m = nrm (rangeAbsentMessageFields m)"

text \<open>
  \<open>rangeDescriptorFields\<close> recurses through the descriptors; on a recursive message type it would not
  return, which is \<^term>\<open>None\<close> at every fuel.
\<close>

fun rangeDescriptorFields :: "nat \<Rightarrow> schema \<Rightarrow> string \<Rightarrow> string list option"
  and descriptor_fields :: "nat \<Rightarrow> schema \<Rightarrow> fdesc list \<Rightarrow> string list option" where
  "rangeDescriptorFields 0 sch desc = None"
| "rangeDescriptorFields (Suc fuel) sch desc = descriptor_fields fuel sch (sch desc)"
| "descriptor_fields fuel sch [] = Some []"
| "descriptor_fields fuel sch (fd # fds) =
     (case (if is_msg_field fd
            then map_option (map (sub_path (fd_Name fd))) (rangeDescriptorFields fuel sch (fd_Message fd))
            else Some [fd_Name fd]) of
        None \<Rightarrow> None
      | Some ps \<Rightarrow> map_option (\<lambda>qs. ps @ qs) (descriptor_fields fuel sch fds))"

definition AllFields :: "(mask \<Rightarrow> mask) \<Rightarrow> nat \<Rightarrow> schema \<Rightarrow> string \<Rightarrow> mask option" where
  "AllFields nrm fuel sch desc = map_option nrm (rangeDescriptorFields fuel sch desc)"

section \<open>Keeping and discarding\<close>

definition AsTree :: "('t, unit) art_ops \<Rightarrow> mask \<Rightarrow> 't" where
  "AsTree A paths = foldl (\<lambda>tree path. art_Insert A path () tree) (art_New A) paths"

definition maskHasFieldOrPrefix :: "('t, unit) art_ops \<Rightarrow> 't \<Rightarrow> string \<Rightarrow> bool" where
  "maskHasFieldOrPrefix A tree path = art_any_leaf (art_ForEachPrefix A tree path)"

definition maskHasExactField :: "('t, unit) art_ops \<Rightarrow> 't \<Rightarrow> string \<Rightarrow> bool" where
  "maskHasExactField A tree path \<longleftrightarrow> art_Search A tree path \<noteq> None"

text \<open>
  \<open>keep\<close> and \<open>discard\<close>: the message left behind, and \<open>keptAny\<close>. The field function gives what becomes of
  a populated field: \<^term>\<open>None\<close> if it is cleared.
\<close>

fun keep :: "('t, unit) art_ops \<Rightarrow> 't \<Rightarrow> string \<Rightarrow> pmsg \<Rightarrow> pmsg \<times> bool"
  and keep_slots :: "('t, unit) art_ops \<Rightarrow> 't \<Rightarrow> string \<Rightarrow> slots \<Rightarrow> slots \<times> bool"
  and keep_field :: "('t, unit) art_ops \<Rightarrow> 't \<Rightarrow> string \<Rightarrow> fdesc \<Rightarrow> pval \<Rightarrow> pval option"
  and keep_message :: "('t, unit) art_ops \<Rightarrow> 't \<Rightarrow> string \<Rightarrow> pval \<Rightarrow> pval option" where
  "keep A tree pre (Msg n ss u) =
     (let (ss', keptAny) = keep_slots A tree pre ss in (Msg n ss' u, keptAny))"
| "keep_slots A tree pre [] = ([], False)"
| "keep_slots A tree pre ((fd, None) # ss) =
     (let (ss', keptAny) = keep_slots A tree pre ss in ((fd, None) # ss', keptAny))"
| "keep_slots A tree pre ((fd, Some v) # ss) =
     (let v' = keep_field A tree (pre @ fd_Name fd) fd v;
          (ss', keptAny) = keep_slots A tree pre ss
      in ((fd, v') # ss', v' \<noteq> None \<or> keptAny))"
| "keep_field A tree path fd v =
     (if maskHasFieldOrPrefix A tree path then
        if is_msg_field fd then
          if \<not> maskHasExactField A tree path then keep_message A tree path v
          else Some v
        else Some v
      else None)"
| "keep_message A tree path (VMsg m) =
     (let (m', keptAny) = keep A tree (path @ ''.'') m in if \<not> keptAny then None else Some (VMsg m'))"
| "keep_message A tree path (VScalar s) = Some (VScalar s)"
| "keep_message A tree path (VList vs) = Some (VList vs)"
| "keep_message A tree path (VMap kvs) = Some (VMap kvs)"

fun discard :: "('t, unit) art_ops \<Rightarrow> 't \<Rightarrow> string \<Rightarrow> pmsg \<Rightarrow> pmsg \<times> bool"
  and discard_slots :: "('t, unit) art_ops \<Rightarrow> 't \<Rightarrow> string \<Rightarrow> slots \<Rightarrow> slots \<times> bool"
  and discard_field :: "('t, unit) art_ops \<Rightarrow> 't \<Rightarrow> string \<Rightarrow> fdesc \<Rightarrow> pval \<Rightarrow> pval option"
  and discard_message :: "('t, unit) art_ops \<Rightarrow> 't \<Rightarrow> string \<Rightarrow> pval \<Rightarrow> pval option" where
  "discard A tree pre (Msg n ss u) =
     (let (ss', keptAny) = discard_slots A tree pre ss in (Msg n ss' u, keptAny))"
| "discard_slots A tree pre [] = ([], False)"
| "discard_slots A tree pre ((fd, None) # ss) =
     (let (ss', keptAny) = discard_slots A tree pre ss in ((fd, None) # ss', keptAny))"
| "discard_slots A tree pre ((fd, Some v) # ss) =
     (let v' = discard_field A tree (pre @ fd_Name fd) fd v;
          (ss', keptAny) = discard_slots A tree pre ss
      in ((fd, v') # ss', v' \<noteq> None \<or> keptAny))"
| "discard_field A tree path fd v =
     (if \<not> maskHasFieldOrPrefix A tree path then Some v
      else if is_msg_field fd then
        if maskHasExactField A tree path then None else discard_message A tree path v
      else None)"
| "discard_message A tree path (VMsg m) =
     (let (m', keptAny) = discard A tree (path @ ''.'') m in if \<not> keptAny then None else Some (VMsg m'))"
| "discard_message A tree path (VScalar s) = Some (VScalar s)"
| "discard_message A tree path (VList vs) = Some (VList vs)"
| "discard_message A tree path (VMap kvs) = Some (VMap kvs)"

definition ExclusiveKeep :: "('t, unit) art_ops \<Rightarrow> pmsg \<Rightarrow> mask option \<Rightarrow> pmsg" where
  "ExclusiveKeep A m fm =
     (case fm of None \<Rightarrow> m | Some paths \<Rightarrow> fst (keep A (AsTree A paths) [] m))"

definition ExclusiveDiscard :: "('t, unit) art_ops \<Rightarrow> pmsg \<Rightarrow> mask option \<Rightarrow> pmsg" where
  "ExclusiveDiscard A m fm =
     (case fm of None \<Rightarrow> m | Some paths \<Rightarrow> fst (discard A (AsTree A paths) [] m))"

section \<open>Leaf paths\<close>

text \<open>\<open>strings.Split(path, ".")\<close>: never empty.\<close>

fun split_dots :: "string \<Rightarrow> string list" where
  "split_dots [] = [[]]"
| "split_dots (c # cs) =
     (if c = CHR ''.'' then [] # split_dots cs
      else case split_dots cs of [] \<Rightarrow> [[c]] | p # ps \<Rightarrow> (c # p) # ps)"

text \<open>The inner loop of \<open>Leaves\<close>: does it reach the append?\<close>

fun is_leaf_path :: "schema \<Rightarrow> string \<Rightarrow> string list \<Rightarrow> bool" where
  "is_leaf_path sch md [] \<longleftrightarrow> False"
| "is_leaf_path sch md (field # parts) \<longleftrightarrow>
     (case find_first (\<lambda>fd. fd_Name fd = field) (sch md) of
        None \<Rightarrow> is_leaf_path sch md parts
      | Some fd \<Rightarrow>
          if is_msg_field fd then is_leaf_path sch (fd_Message fd) parts
          else if parts = [] then True
          else is_leaf_path sch md parts)"

definition Leaves :: "schema \<Rightarrow> mask \<Rightarrow> string \<Rightarrow> mask" where
  "Leaves sch paths desc = filter (\<lambda>path. is_leaf_path sch desc (split_dots path)) paths"

section \<open>Differences\<close>

text \<open>
  \<open>diffFields\<close>, with the paths it appends as its result. \<open>veq\<close> is \<open>protoreflect.Value.Equal\<close>. The
  weight of a message counts its populated fields, so that the comparison of a nested message with
  an empty one weighs less than its parent.
\<close>

fun msg_weight :: "pmsg \<Rightarrow> nat" and slots_weight :: "slots \<Rightarrow> nat" and val_weight :: "pval \<Rightarrow> nat" where
  "msg_weight (Msg n ss u) = 1 + slots_weight ss"
| "slots_weight [] = 0"
| "slots_weight ((fd, None) # ss) = slots_weight ss"
| "slots_weight ((fd, Some v) # ss) = 3 + val_weight v + slots_weight ss"
| "val_weight (VMsg m) = msg_weight m"
| "val_weight (VScalar s) = 0"
| "val_weight (VList vs) = 0"
| "val_weight (VMap kvs) = 0"

definition val_msg :: "pval \<Rightarrow> pmsg" where
  "val_msg v = (case v of VMsg m \<Rightarrow> m | _ \<Rightarrow> Msg [] [] [])"

lemma slots_weight_new: "slots_weight (map (\<lambda>s. (fst s, None)) ss) = 0"
  by (induction ss) auto

lemma msg_weight_new [simp]: "msg_weight (msg_new m) = 1"
  by (simp add: msg_new_def slots_weight_new)

lemma msg_weight_val [simp]: "msg_weight (val_msg v) \<le> Suc (val_weight v)"
  by (cases v) (auto simp: val_msg_def)

function diffFields :: "(pval \<Rightarrow> pval \<Rightarrow> bool) \<Rightarrow> pmsg \<Rightarrow> pmsg \<Rightarrow> string \<Rightarrow> string list"
  and diff_slots :: "(pval \<Rightarrow> pval \<Rightarrow> bool) \<Rightarrow> slots \<Rightarrow> slots \<Rightarrow> string \<Rightarrow> string list" where
  "diffFields veq (Msg n os u) (Msg n' ns u') pre = diff_slots veq os ns pre"
| "diff_slots veq [] ns pre = []"
| "diff_slots veq (o' # os) [] pre = []"
| "diff_slots veq ((fd, None) # os) ((fd', None) # ns) pre = diff_slots veq os ns pre"
| "diff_slots veq ((fd, Some v) # os) ((fd', None) # ns) pre =
     (pre @ fd_Name fd)
     # (if is_msg_field fd
        then diffFields veq (val_msg v) (msg_new (val_msg v)) (pre @ fd_Name fd @ ''.'') else [])
     @ diff_slots veq os ns pre"
| "diff_slots veq ((fd, None) # os) ((fd', Some v) # ns) pre =
     (pre @ fd_Name fd)
     # (if is_msg_field fd
        then diffFields veq (msg_new (val_msg v)) (val_msg v) (pre @ fd_Name fd @ ''.'') else [])
     @ diff_slots veq os ns pre"
| "diff_slots veq ((fd, Some v) # os) ((fd', Some w) # ns) pre =
     (if is_msg_field fd then
        (let nested = diffFields veq (val_msg v) (val_msg w) (pre @ fd_Name fd @ ''.'')
         in if nested \<noteq> [] then nested @ [pre @ fd_Name fd] else [])
      else if \<not> veq v w then [pre @ fd_Name fd] else [])
     @ diff_slots veq os ns pre"
  by pat_completeness auto
termination
proof (relation "measures [\<lambda>x. case x of Inl (q, a, b, p) \<Rightarrow> msg_weight a + msg_weight b
        | Inr (q, a, b, p) \<Rightarrow> slots_weight a + slots_weight b,
      \<lambda>x. case x of Inl _ \<Rightarrow> 0 | Inr (q, a, b, p) \<Rightarrow> length a]", goal_cases)
  case (4 veq fd v os fd' ns pre)
  then show ?case using msg_weight_val [of v] by (simp, linarith)
next
  case (6 veq fd os fd' v ns pre)
  then show ?case using msg_weight_val [of v] by (simp, linarith)
next
  case (8 veq fd v os fd' w ns pre)
  then show ?case using msg_weight_val [of v] msg_weight_val [of w] by (simp, linarith)
qed simp_all

definition Diff :: "(pval \<Rightarrow> pval \<Rightarrow> bool) \<Rightarrow> pmsg \<Rightarrow> pmsg \<Rightarrow> mask result" where
  "Diff veq old new =
     (if \<not> same_descriptor old new then Inl (go_panic ''bug: cannot compare messages of different types'')
      else Inr (diffFields veq old new []))"

end
