(* ===== verification/FieldMaskLemmas.thy ===== *)
theory FieldMaskLemmas
  imports FieldMask
begin

text \<open>
  What the masks, \<open>keep\<close>, \<open>discard\<close> and \<open>diffFields\<close> do, in terms of the paths of the populated leaf
  fields: which paths a mask covers, that normalising a mask covers the same, and that a path is never
  both populated and absent.
\<close>


lemma is_msg_val: "wf_slots ((fd, Some v) # ss) \<Longrightarrow> is_msg_field fd \<longleftrightarrow> (\<exists>m. v = VMsg m)"
  by (cases v) (auto simp: val_fits_def is_msg_field_def)

definition in_mask :: "string set \<Rightarrow> string \<Rightarrow> bool" where
  "in_mask S p \<longleftrightarrow> (\<exists>q \<in> S. prefix p q \<or> prefix (q @ ''.'') p)"

definition mask_tree :: "('t, unit) art_ops \<Rightarrow> 't \<Rightarrow> string set \<Rightarrow> bool" where
  "mask_tree A t S \<longleftrightarrow> (\<forall>p. maskHasFieldOrPrefix A t p = (\<exists>q \<in> S. prefix p q))
     \<and> (\<forall>p. maskHasExactField A t p = (p \<in> S))"

lemma AsTree_search:
  assumes "art_laws A"
  shows "art_Search A (AsTree A ps) = (\<lambda>k. if k \<in> set ps then Some () else None)"
proof (induction ps rule: rev_induct)
  case (snoc p ps)
  then show ?case by (auto simp: AsTree_def art_simps [OF assms])
qed (simp add: AsTree_def art_simps [OF assms] fun_eq_iff)

lemma AsTree_mask: "art_laws A \<Longrightarrow> mask_tree A (AsTree A ps) (set ps)"
  by (auto simp: mask_tree_def maskHasFieldOrPrefix_def maskHasExactField_def art_prefix_visit AsTree_search)

lemma dotless_split:
  assumes "dotless a" "prefix (q @ ''.'') (pre @ a @ r)" "\<not> prefix (q @ ''.'') pre"
  shows "prefix (pre @ a) q"
proof -
  from assms(2) consider "prefix (q @ ''.'') pre" | "prefix pre (q @ ''.'')"
    using prefix_same_cases [of "q @ ''.''" "pre @ a @ r" pre] by auto
  then show ?thesis
  proof cases
    case 2
    then obtain x where x: "q @ ''.'' = pre @ x" by (auto simp: prefix_def)
    with assms(3) have "x \<noteq> []" by auto
    with x obtain y where y: "x = y @ ''.''" "q = pre @ y"
      by (metis append_butlast_last_id butlast_append last_append last_snoc butlast_snoc list.discI)
    with assms(2) have "prefix (y @ ''.'') (a @ r)" by simp
    then show ?thesis
    proof -
      consider "prefix (y @ ''.'') a" | "prefix a (y @ ''.'')"
        using prefix_same_cases [OF \<open>prefix (y @ ''.'') (a @ r)\<close>, of a] by auto
      then show ?thesis
      proof cases
        case 1
        then have "CHR ''.'' \<in> set a" by (auto simp: prefix_def)
        with assms(1) show ?thesis by (simp add: dotless_def)
      next
        case 2
        with assms(1) have "a \<noteq> y @ ''.''" by (auto simp: dotless_def)
        with 2 have "prefix a y" by (metis prefix_snoc)
        with y show ?thesis by simp
      qed
    qed
  qed (use assms in simp)
qed

lemma in_mask_leaf:
  assumes "mask_tree A t S" "dotless a" "\<forall>q \<in> S. \<not> prefix (q @ ''.'') pre"
  shows "maskHasFieldOrPrefix A t (pre @ a) = in_mask S (pre @ a)"
  using assms dotless_split [OF assms(2), of _ pre "[]"] by (auto simp: mask_tree_def in_mask_def)

lemma in_mask_below:
  assumes "mask_tree A t S" "dotless a" "\<forall>q \<in> S. \<not> prefix (q @ ''.'') pre"
    and "in_mask S (pre @ sub_path a p)"
  shows "maskHasFieldOrPrefix A t (pre @ a)"
proof -
  from assms(4) obtain q where q: "q \<in> S" "prefix (pre @ sub_path a p) q \<or> prefix (q @ ''.'') (pre @ sub_path a p)"
    by (auto simp: in_mask_def)
  then have "prefix (pre @ a) q"
    using assms(3) dotless_split [OF assms(2), of q pre "CHR ''.'' # p"] q(1)
    by (auto simp: sub_path_def prefix_def)
  with q(1) assms(1) show ?thesis by (auto simp: mask_tree_def)
qed

lemma in_mask_exact:
  assumes "mask_tree A t S" "maskHasExactField A t (pre @ a)"
  shows "in_mask S (pre @ sub_path a p)"
  using assms by (auto simp: mask_tree_def in_mask_def sub_path_def prefix_def intro!: bexI [of _ "pre @ a"])

lemma not_covered_below:
  assumes "mask_tree A t S" "dotless a" "\<forall>q \<in> S. \<not> prefix (q @ ''.'') pre"
    and "\<not> maskHasExactField A t (pre @ a)" "q \<in> S"
  shows "\<not> prefix (q @ ''.'') (pre @ a @ ''.'')"
proof
  assume *: "prefix (q @ ''.'') (pre @ a @ ''.'')"
  with assms dotless_split [of a q pre "''.''"] have "prefix (pre @ a) q" by auto
  with * have "q = pre @ a" by (auto simp: prefix_def append_eq_Cons_conv Cons_eq_append_conv)
  with assms show False by (simp add: mask_tree_def)
qed

lemma keep_None: "snd (keep A t pre m) = False \<Longrightarrow> rangePresentMessageFields (fst (keep A t pre m)) = []"
proof (cases m)
  case (Msg n ss u)
  have "\<not> snd (keep_slots A t pre ss) \<Longrightarrow> present_slots (fst (keep_slots A t pre ss)) = []"
    by (induction ss rule: msg_weight_slots_weight_val_weight.induct(2)) (auto simp: Let_def split_def)
  then show "snd (keep A t pre m) = False \<Longrightarrow> ?thesis" using Msg by (simp add: split_def Let_def)
qed

lemma discard_None: "snd (discard A t pre m) = False \<Longrightarrow> rangePresentMessageFields (fst (discard A t pre m)) = []"
proof (cases m)
  case (Msg n ss u)
  have "\<not> snd (discard_slots A t pre ss) \<Longrightarrow> present_slots (fst (discard_slots A t pre ss)) = []"
    by (induction ss rule: msg_weight_slots_weight_val_weight.induct(2)) (auto simp: Let_def split_def)
  then show "snd (discard A t pre m) = False \<Longrightarrow> ?thesis" using Msg by (simp add: split_def Let_def)
qed

lemma keep_fields: "map fst (fst (keep_slots A t pre ss)) = map fst ss"
  by (induction ss rule: msg_weight_slots_weight_val_weight.induct(2)) (auto simp: Let_def split_def)

definition field_leaves :: "fdesc \<Rightarrow> pval option \<Rightarrow> string list" where
  "field_leaves fd v = (case v of None \<Rightarrow> [] | Some v \<Rightarrow> present_field fd v)"

lemma field_leaves_simps [simp]:
  "field_leaves fd None = []" "field_leaves fd (Some v) = present_field fd v"
  "present_slots ((fd, v') # ss) = field_leaves fd v' @ present_slots ss"
  by (auto simp: field_leaves_def split: option.splits)

lemma present_field_leaf: "\<not> is_msg_field fd \<or> (\<nexists>m. v = VMsg m) \<Longrightarrow> present_field fd v = [fd_Name fd]"
  by (cases v) auto

lemma keep_leaves:
  assumes "mask_tree A t S"
  shows "names_ok m \<Longrightarrow> \<forall>q \<in> S. \<not> prefix (q @ ''.'') pre \<Longrightarrow>
      rangePresentMessageFields (fst (keep A t pre m)) = filter (\<lambda>p. in_mask S (pre @ p)) (rangePresentMessageFields m)"
    and "names_ok_slots ss \<Longrightarrow> \<forall>q \<in> S. \<not> prefix (q @ ''.'') pre \<Longrightarrow>
      present_slots (fst (keep_slots A t pre ss)) = filter (\<lambda>p. in_mask S (pre @ p)) (present_slots ss)"
    and "names_ok_val v \<Longrightarrow> dotless (fd_Name fd) \<Longrightarrow> \<forall>q \<in> S. \<not> prefix (q @ ''.'') pre \<Longrightarrow>
      field_leaves fd (keep_field A t (pre @ fd_Name fd) fd v) =
      filter (\<lambda>p. in_mask S (pre @ p)) (present_field fd v)"
proof (induction m and ss and fd v arbitrary: pre and pre and pre
    rule: rangePresentMessageFields_present_slots_present_field.induct)
  case (5 fd m)
  show ?case
  proof (cases "is_msg_field fd")
    case leaf: False
    then show ?thesis using 5 in_mask_leaf [OF assms, of "fd_Name fd" pre] by simp
  next
    case True
    note msg = this
    consider "\<not> maskHasFieldOrPrefix A t (pre @ fd_Name fd)"
      | "maskHasExactField A t (pre @ fd_Name fd)" "maskHasFieldOrPrefix A t (pre @ fd_Name fd)"
      | "\<not> maskHasExactField A t (pre @ fd_Name fd)" "maskHasFieldOrPrefix A t (pre @ fd_Name fd)" by blast
    then show ?thesis
    proof cases
      case 1
      then show ?thesis using msg 5 in_mask_below [OF assms, of "fd_Name fd" pre] 
        by (simp, intro sym [OF filter_False] ballI) auto
    next
      case 2
      then show ?thesis using msg in_mask_exact [OF assms, of pre "fd_Name fd"] by (simp add: filter_id_conv)
    next
      case 3
      have eq: "rangePresentMessageFields (fst (keep A t (pre @ fd_Name fd @ ''.'') m)) =
          filter (\<lambda>p. in_mask S (pre @ sub_path (fd_Name fd) p)) (rangePresentMessageFields m)"
        using 5(1) [OF msg, of "pre @ fd_Name fd @ ''.''"] 5(2,3,4)
          not_covered_below [OF assms 5(3) 5(4) 3(1)] by (simp add: sub_path_def)
      with keep_None [of A t "pre @ fd_Name fd @ ''.''" m] 3 msg show ?thesis
        by (auto simp: split_def Let_def filter_map comp_def)
    qed
  qed
qed (use in_mask_leaf [OF assms] in \<open>auto simp: Let_def split_def\<close>)

lemma discard_leaves:
  assumes "mask_tree A t S"
  shows "names_ok m \<Longrightarrow> wf_msg m \<Longrightarrow> \<forall>q \<in> S. \<not> prefix (q @ ''.'') pre \<Longrightarrow>
      rangePresentMessageFields (fst (discard A t pre m)) = filter (\<lambda>p. \<not> in_mask S (pre @ p)) (rangePresentMessageFields m)"
    and "names_ok_slots ss \<Longrightarrow> wf_slots ss \<Longrightarrow> \<forall>q \<in> S. \<not> prefix (q @ ''.'') pre \<Longrightarrow>
      present_slots (fst (discard_slots A t pre ss)) = filter (\<lambda>p. \<not> in_mask S (pre @ p)) (present_slots ss)"
    and "names_ok_val v \<Longrightarrow> val_fits fd v \<Longrightarrow> wf_val v \<Longrightarrow> dotless (fd_Name fd) \<Longrightarrow> \<forall>q \<in> S. \<not> prefix (q @ ''.'') pre \<Longrightarrow>
      field_leaves fd (discard_field A t (pre @ fd_Name fd) fd v) =
      filter (\<lambda>p. \<not> in_mask S (pre @ p)) (present_field fd v)"
proof (induction m and ss and fd v arbitrary: pre and pre and pre
    rule: rangePresentMessageFields_present_slots_present_field.induct)
  case (5 fd m)
  then have msg: "is_msg_field fd" by (simp add: val_fits_def)
  consider "\<not> maskHasFieldOrPrefix A t (pre @ fd_Name fd)"
    | "maskHasExactField A t (pre @ fd_Name fd)" "maskHasFieldOrPrefix A t (pre @ fd_Name fd)"
    | "\<not> maskHasExactField A t (pre @ fd_Name fd)" "maskHasFieldOrPrefix A t (pre @ fd_Name fd)" by blast
  then show ?case
  proof cases
    case 1
    then show ?thesis using msg 5 in_mask_below [OF assms, of "fd_Name fd" pre]
      by (simp, intro sym [OF filter_True] ballI) auto
  next
    case 2
    then show ?thesis using msg in_mask_exact [OF assms, of pre "fd_Name fd"]
      by (auto simp: filter_empty_conv)
  next
    case 3
    have eq: "rangePresentMessageFields (fst (discard A t (pre @ fd_Name fd @ ''.'') m)) =
        filter (\<lambda>p. \<not> in_mask S (pre @ sub_path (fd_Name fd) p)) (rangePresentMessageFields m)"
      using 5(1) [OF msg, of "pre @ fd_Name fd @ ''.''"] 5(2,3,4,5,6)
        not_covered_below [OF assms 5(5) 5(6) 3(1)] by (simp add: sub_path_def)
    with discard_None [of A t "pre @ fd_Name fd @ ''.''" m] 3 msg show ?thesis
      by (auto simp: split_def Let_def filter_map comp_def)
  qed
qed (use in_mask_leaf [OF assms] in \<open>auto simp: Let_def split_def val_fits_def is_msg_field_def\<close>)

section \<open>Normalisation\<close>

definition norm_law :: "(mask \<Rightarrow> mask) \<Rightarrow> bool" where
  "norm_law nrm \<longleftrightarrow>
     (\<forall>ps. set (nrm ps) = {p \<in> set ps. \<not> (\<exists>q \<in> set ps. prefix (q @ ''.'') p)})"

lemma nrm_cover:
  assumes "norm_law nrm"
  shows "q \<in> set ps \<Longrightarrow> \<exists>q' \<in> set (nrm ps). q' = q \<or> prefix (q' @ ''.'') q"
proof (induction q rule: measure_induct_rule [of length])
  case (less q)
  show ?case
  proof (cases "\<exists>r \<in> set ps. prefix (r @ ''.'') q")
    case True
    then obtain r where r: "r \<in> set ps" "prefix (r @ ''.'') q" by blast
    then have "length r < length q" using prefix_length_le by fastforce
    with less r obtain q' where "q' \<in> set (nrm ps)" "q' = r \<or> prefix (q' @ ''.'') r" by blast
    moreover from r have "prefix r q" by (rule_tac append_prefixD)
    ultimately show ?thesis using r prefix_order.trans [of "q' @ ''.''" r q] by blast
  next
    case False
    with less assms show ?thesis unfolding norm_law_def by blast
  qed
qed

lemma in_mask_nrm:
  assumes "norm_law nrm"
  shows "in_mask (set (nrm ps)) p = in_mask (set ps) p"
proof
  assume "in_mask (set ps) p"
  then obtain q where q: "q \<in> set ps" "prefix p q \<or> prefix (q @ ''.'') p" by (auto simp: in_mask_def)
  from nrm_cover [OF assms q(1)] obtain q' where q': "q' \<in> set (nrm ps)" "q' = q \<or> prefix (q' @ ''.'') q" by blast
  have "prefix p q' \<or> prefix (q' @ ''.'') p"
  proof (cases "q' = q")
    case False
    with q' have c: "prefix (q' @ ''.'') q" by simp
    from q(2) show ?thesis
    proof
      assume "prefix p q"
      from prefix_same_cases [OF this c] show ?thesis by (auto simp: prefix_snoc)
    next
      assume "prefix (q @ ''.'') p"
      then have "prefix q p" by (rule append_prefixD)
      with c show ?thesis using prefix_order.trans by blast
    qed
  qed (use q in simp)
  with q' show "in_mask (set (nrm ps)) p" by (auto simp: in_mask_def)
next
  assume "in_mask (set (nrm ps)) p"
  with assms show "in_mask (set ps) p" unfolding in_mask_def norm_law_def by blast
qed

section \<open>Messages without empty messages\<close>

fun no_empty :: "pmsg \<Rightarrow> bool" and no_empty_slots :: "slots \<Rightarrow> bool" and no_empty_val :: "pval \<Rightarrow> bool" where
  "no_empty (Msg n ss u) \<longleftrightarrow> no_empty_slots ss"
| "no_empty_slots [] \<longleftrightarrow> True"
| "no_empty_slots ((fd, None) # ss) \<longleftrightarrow> no_empty_slots ss"
| "no_empty_slots ((fd, Some v) # ss) \<longleftrightarrow> no_empty_val v \<and> no_empty_slots ss"
| "no_empty_val (VMsg m) \<longleftrightarrow> rangePresentMessageFields m \<noteq> [] \<and> no_empty m"
| "no_empty_val (VScalar s) \<longleftrightarrow> True"
| "no_empty_val (VList vs) \<longleftrightarrow> True"
| "no_empty_val (VMap kvs) \<longleftrightarrow> True"

definition cleared :: "pmsg \<Rightarrow> pmsg" where
  "cleared m = Msg (msg_name m) (map (\<lambda>s. (fst s, None)) (msg_slots m)) (msg_unknown m)"

abbreviation covered :: "string set \<Rightarrow> string \<Rightarrow> bool" where
  "covered S pre \<equiv> \<exists>q \<in> S. prefix (q @ ''.'') pre"

lemma present_field_nonempty: "no_empty_val v \<Longrightarrow> present_field fd v \<noteq> []"
  by (cases v) auto

lemma keep_inside:
  assumes "mask_tree A t S"
  shows "names_ok m \<Longrightarrow> no_empty m \<Longrightarrow> \<not> covered S pre \<Longrightarrow> \<forall>p \<in> set (rangePresentMessageFields m). in_mask S (pre @ p)
      \<Longrightarrow> keep A t pre m = (m, rangePresentMessageFields m \<noteq> [])"
    and "names_ok_slots ss \<Longrightarrow> no_empty_slots ss \<Longrightarrow> \<not> covered S pre \<Longrightarrow> \<forall>p \<in> set (present_slots ss). in_mask S (pre @ p)
      \<Longrightarrow> keep_slots A t pre ss = (ss, present_slots ss \<noteq> [])"
    and "names_ok_val v \<Longrightarrow> no_empty_val v \<Longrightarrow> dotless (fd_Name fd) \<Longrightarrow> \<not> covered S pre \<Longrightarrow> \<forall>p \<in> set (present_field fd v). in_mask S (pre @ p)
      \<Longrightarrow> keep_field A t (pre @ fd_Name fd) fd v = Some v"
proof (induction m and ss and fd v arbitrary: pre and pre and pre
    rule: rangePresentMessageFields_present_slots_present_field.induct)
  case (5 fd m)
  show ?case
  proof (cases "is_msg_field fd")
    case True
    with 5 obtain p where "in_mask S (pre @ sub_path (fd_Name fd) p)" by (cases "rangePresentMessageFields m") auto
    with 5 have has: "maskHasFieldOrPrefix A t (pre @ fd_Name fd)"
      using in_mask_below [OF assms, of "fd_Name fd" pre p] by blast
    show ?thesis
    proof (cases "maskHasExactField A t (pre @ fd_Name fd)")
      case False
      have "keep A t (pre @ fd_Name fd @ ''.'') m = (m, True)"
        using 5(1) [OF True, of "pre @ fd_Name fd @ ''.''"] 5(2,3,4,5,6) True
          not_covered_below [OF assms 5(4) _ False] by (simp add: sub_path_def)
      with has True False show ?thesis by simp
    qed (use has True in simp)
  qed (use 5 in_mask_leaf [OF assms, of "fd_Name fd" pre] in auto)
qed (use in_mask_leaf [OF assms] in \<open>auto simp: present_field_nonempty\<close>)

lemma discard_inside:
  assumes "mask_tree A t S"
  shows "names_ok m \<Longrightarrow> wf_msg m \<Longrightarrow> no_empty m \<Longrightarrow> \<not> covered S pre \<Longrightarrow> \<forall>p \<in> set (rangePresentMessageFields m). in_mask S (pre @ p)
      \<Longrightarrow> discard A t pre m = (cleared m, False)"
    and "names_ok_slots ss \<Longrightarrow> wf_slots ss \<Longrightarrow> no_empty_slots ss \<Longrightarrow> \<not> covered S pre \<Longrightarrow> \<forall>p \<in> set (present_slots ss). in_mask S (pre @ p)
      \<Longrightarrow> discard_slots A t pre ss = (map (\<lambda>s. (fst s, None)) ss, False)"
    and "names_ok_val v \<Longrightarrow> val_fits fd v \<Longrightarrow> wf_val v \<Longrightarrow> no_empty_val v \<Longrightarrow> dotless (fd_Name fd) \<Longrightarrow> \<not> covered S pre
      \<Longrightarrow> \<forall>p \<in> set (present_field fd v). in_mask S (pre @ p)
      \<Longrightarrow> discard_field A t (pre @ fd_Name fd) fd v = None"
proof (induction m and ss and fd v arbitrary: pre and pre and pre
    rule: rangePresentMessageFields_present_slots_present_field.induct)
  case (5 fd m)
  then have True: "is_msg_field fd" by (simp add: val_fits_def)
  with 5 obtain p where "in_mask S (pre @ sub_path (fd_Name fd) p)" by (cases "rangePresentMessageFields m") auto
  with 5 have has: "maskHasFieldOrPrefix A t (pre @ fd_Name fd)"
    using in_mask_below [OF assms, of "fd_Name fd" pre p] by blast
  show ?case
  proof (cases "maskHasExactField A t (pre @ fd_Name fd)")
    case False
    have "discard A t (pre @ fd_Name fd @ ''.'') m = (cleared m, False)"
      using 5(1) [OF True, of "pre @ fd_Name fd @ ''.''"] 5(2,3,4,5,6,7,8) True
        not_covered_below [OF assms 5(6) _ False] by (simp add: sub_path_def)
    with has True False show ?thesis by simp
  qed (use has True in simp)
qed (use in_mask_leaf [OF assms] in \<open>auto simp: val_fits_def is_msg_field_def cleared_def\<close>)

lemma keep_outside:
  assumes "mask_tree A t S"
  shows "names_ok m \<Longrightarrow> wf_msg m \<Longrightarrow> no_empty m \<Longrightarrow> \<not> covered S pre \<Longrightarrow> \<forall>p \<in> set (rangePresentMessageFields m). \<not> in_mask S (pre @ p)
      \<Longrightarrow> keep A t pre m = (cleared m, False)"
    and "names_ok_slots ss \<Longrightarrow> wf_slots ss \<Longrightarrow> no_empty_slots ss \<Longrightarrow> \<not> covered S pre \<Longrightarrow> \<forall>p \<in> set (present_slots ss). \<not> in_mask S (pre @ p)
      \<Longrightarrow> keep_slots A t pre ss = (map (\<lambda>s. (fst s, None)) ss, False)"
    and "names_ok_val v \<Longrightarrow> val_fits fd v \<Longrightarrow> wf_val v \<Longrightarrow> no_empty_val v \<Longrightarrow> dotless (fd_Name fd) \<Longrightarrow> \<not> covered S pre
      \<Longrightarrow> \<forall>p \<in> set (present_field fd v). \<not> in_mask S (pre @ p)
      \<Longrightarrow> keep_field A t (pre @ fd_Name fd) fd v = None"
proof (induction m and ss and fd v arbitrary: pre and pre and pre
    rule: rangePresentMessageFields_present_slots_present_field.induct)
  case (5 fd m)
  then have True: "is_msg_field fd" by (simp add: val_fits_def)
  with 5 obtain p where "\<not> in_mask S (pre @ sub_path (fd_Name fd) p)" by (cases "rangePresentMessageFields m") auto
  with 5 have False: "\<not> maskHasExactField A t (pre @ fd_Name fd)"
    using in_mask_exact [OF assms, of pre "fd_Name fd" p] by blast
  have "keep A t (pre @ fd_Name fd @ ''.'') m = (cleared m, False)"
    using 5(1) [OF True, of "pre @ fd_Name fd @ ''.''"] 5(2,3,4,5,6,7,8) True
      not_covered_below [OF assms 5(6) _ False] by (simp add: sub_path_def)
  with True False show ?case by simp
qed (use in_mask_leaf [OF assms] in \<open>auto simp: val_fits_def is_msg_field_def cleared_def\<close>)

lemma discard_outside:
  assumes "mask_tree A t S"
  shows "names_ok m \<Longrightarrow> wf_msg m \<Longrightarrow> no_empty m \<Longrightarrow> \<not> covered S pre \<Longrightarrow> \<forall>p \<in> set (rangePresentMessageFields m). \<not> in_mask S (pre @ p)
      \<Longrightarrow> discard A t pre m = (m, rangePresentMessageFields m \<noteq> [])"
    and "names_ok_slots ss \<Longrightarrow> wf_slots ss \<Longrightarrow> no_empty_slots ss \<Longrightarrow> \<not> covered S pre \<Longrightarrow> \<forall>p \<in> set (present_slots ss). \<not> in_mask S (pre @ p)
      \<Longrightarrow> discard_slots A t pre ss = (ss, present_slots ss \<noteq> [])"
    and "names_ok_val v \<Longrightarrow> val_fits fd v \<Longrightarrow> wf_val v \<Longrightarrow> no_empty_val v \<Longrightarrow> dotless (fd_Name fd) \<Longrightarrow> \<not> covered S pre
      \<Longrightarrow> \<forall>p \<in> set (present_field fd v). \<not> in_mask S (pre @ p)
      \<Longrightarrow> discard_field A t (pre @ fd_Name fd) fd v = Some v"
proof (induction m and ss and fd v arbitrary: pre and pre and pre
    rule: rangePresentMessageFields_present_slots_present_field.induct)
  case (5 fd m)
  then have True: "is_msg_field fd" by (simp add: val_fits_def)
  with 5 obtain p where "\<not> in_mask S (pre @ sub_path (fd_Name fd) p)" by (cases "rangePresentMessageFields m") auto
  with 5 have False: "\<not> maskHasExactField A t (pre @ fd_Name fd)"
    using in_mask_exact [OF assms, of pre "fd_Name fd" p] by blast
  have "discard A t (pre @ fd_Name fd @ ''.'') m = (m, True)"
    using 5(1) [OF True, of "pre @ fd_Name fd @ ''.''"] 5(2,3,4,5,6,7,8) True
      not_covered_below [OF assms 5(6) _ False] by (simp add: sub_path_def)
  with True False show ?case by simp
qed (use in_mask_leaf [OF assms] in \<open>auto simp: val_fits_def is_msg_field_def present_field_nonempty\<close>)

section \<open>Present and absent fields\<close>

text \<open>No field's name starts with the name of another field of the same message.\<close>

definition prefix_free :: "string list \<Rightarrow> bool" where
  "prefix_free ns \<longleftrightarrow> list_all (\<lambda>a. list_all (\<lambda>b. prefix a b \<longrightarrow> a = b) ns) ns"

fun names_prefix_free :: "pmsg \<Rightarrow> bool" and pf_slots :: "slots \<Rightarrow> bool" and pf_val :: "pval \<Rightarrow> bool" where
  "names_prefix_free (Msg n ss u) \<longleftrightarrow> prefix_free (map (fd_Name \<circ> fst) ss) \<and> pf_slots ss"
| "pf_slots [] \<longleftrightarrow> True"
| "pf_slots ((fd, None) # ss) \<longleftrightarrow> pf_slots ss"
| "pf_slots ((fd, Some v) # ss) \<longleftrightarrow> pf_val v \<and> pf_slots ss"
| "pf_val (VMsg m) \<longleftrightarrow> names_prefix_free m"
| "pf_val (VScalar s) \<longleftrightarrow> True"
| "pf_val (VList vs) \<longleftrightarrow> True"
| "pf_val (VMap kvs) \<longleftrightarrow> True"

lemma present_slots_set: "p \<in> set (present_slots ss) \<longleftrightarrow> (\<exists>fd v. (fd, Some v) \<in> set ss \<and> p \<in> set (present_field fd v))"
  by (induction ss rule: msg_weight_slots_weight_val_weight.induct(2)) auto

lemma absent_slots_set: "p \<in> set (absent_slots ss) \<longleftrightarrow>
    (\<exists>fd. (fd, None) \<in> set ss \<and> p = fd_Name fd) \<or> (\<exists>fd v. (fd, Some v) \<in> set ss \<and> p \<in> set (absent_field fd v))"
  by (induction ss rule: msg_weight_slots_weight_val_weight.induct(2)) auto

lemma slots_mem:
  assumes "(fd, Some v) \<in> set ss"
  shows "slots_weight ss > val_weight v"
    and "wf_slots ss \<Longrightarrow> val_fits fd v \<and> wf_val v" and "names_ok_slots ss \<Longrightarrow> names_ok_val v"
    and "pf_slots ss \<Longrightarrow> pf_val v"
  using assms by (induction ss rule: msg_weight_slots_weight_val_weight.induct(2)) auto

lemma names_ok_dotless: "names_ok_slots ss \<Longrightarrow> (fd, x) \<in> set ss \<Longrightarrow> dotless (fd_Name fd)"
  by (induction ss rule: msg_weight_slots_weight_val_weight.induct(2)) auto

lemma dotted_prefix:
  assumes "dotless a" "dotless b" "prefix (sub_path a x) (sub_path b y)"
  shows "a = b \<and> prefix x y"
proof -
  from assms(3) obtain z where "a @ CHR ''.'' # x @ z = b @ CHR ''.'' # y"
    by (auto simp: sub_path_def prefix_def)
  with assms(1,2) have "a = b \<and> x @ z = y"
    by (auto simp: dotless_def append_eq_append_conv2 Cons_eq_append_conv append_eq_Cons_conv)
  then show ?thesis by auto
qed

lemma dotless_prefix:
  assumes "dotless b" "prefix a (sub_path b y)" "dotless a"
  shows "prefix a b"
  using assms by (auto simp: prefix_def sub_path_def dotless_def append_eq_append_conv2 append_eq_Cons_conv Cons_eq_append_conv)

lemma no_dotted_prefix: "dotless b \<Longrightarrow> \<not> prefix (sub_path a x) b"
  by (auto simp: dotless_def sub_path_def prefix_def)

lemma sub_path_snoc: "sub_path a x @ y = sub_path a (x @ y)" "a @ ''.'' = sub_path a []"
  by (simp_all add: sub_path_def)

lemma absent_not_present:
  "names_ok m \<Longrightarrow> wf_msg m \<Longrightarrow> names_prefix_free m \<Longrightarrow> p \<in> set (rangePresentMessageFields m) \<Longrightarrow>
     q \<in> set (rangeAbsentMessageFields m) \<Longrightarrow> \<not> prefix p q \<and> \<not> prefix (q @ ''.'') p"
proof (induction m arbitrary: p q rule: measure_induct_rule [of msg_weight])
  case (less m)
  obtain n ss u where m: "m = Msg n ss u" by (cases m)
  note ok = less.prems(1) [unfolded m names_ok.simps] and wf = less.prems(2) [unfolded m wf_msg.simps]
    and pf = less.prems(3) [unfolded m names_prefix_free.simps]
  have same: "x = y \<and> fd = fd'" if "(fd, x) \<in> set ss" "(fd', y) \<in> set ss" "fd_Name fd = fd_Name fd'" for fd fd' x y
    using that ok inj_onD [of "fd_Name \<circ> fst" "set ss" "(fd, x)" "(fd', y)"] by (simp add: distinct_map)
  have names: "fd_Name fd \<in> set (map (fd_Name \<circ> fst) ss)" if "(fd, x) \<in> set ss" for fd x
    using that by (simp add: image_iff) (rule bexI [of _ "(fd, x)"], simp_all)
  have free: "fd_Name fd = fd_Name fd'" if "(fd, x) \<in> set ss" "(fd', y) \<in> set ss" "prefix (fd_Name fd) (fd_Name fd')" for fd fd' x y
    using that(3) names [OF that(1)] names [OF that(2)] pf unfolding prefix_free_def list_all_iff by blast
  have dl: "dotless (fd_Name fd)" if "(fd, x) \<in> set ss" for fd x
    using that ok names_ok_dotless by blast
  from less.prems(4) m obtain fd v where v: "(fd, Some v) \<in> set ss" "p \<in> set (present_field fd v)"
    by (auto simp: present_slots_set)
  from slots_mem [OF v(1)] wf have fits: "val_fits fd v" "wf_val v" by auto
  from v(2) fits consider (leaf) "p = fd_Name fd" "\<not> is_msg_field fd"
    | (sub) m' p' where "v = VMsg m'" "is_msg_field fd" "p = sub_path (fd_Name fd) p'" "p' \<in> set (rangePresentMessageFields m')"
    by (cases v) (auto simp: val_fits_def is_msg_field_def)
  note p = this
  from less.prems(5) m consider (none) fd' where "(fd', None) \<in> set ss" "q = fd_Name fd'"
    | (some) fd' v' where "(fd', Some v') \<in> set ss" "q \<in> set (absent_field fd' v')"
    by (auto simp: absent_slots_set)
  then show ?case
  proof cases
    case none
    from p show ?thesis
    proof cases
      case leaf
      with none show ?thesis using free [OF v(1) none(1)] same [OF v(1) none(1)] no_dotted_prefix [OF dl [OF v(1)]]
        by (auto simp: sub_path_snoc)
    next
      case sub
      with none show ?thesis
        using no_dotted_prefix [OF dl [OF none(1)]] dotted_prefix [OF dl [OF none(1)] dl [OF v(1)], THEN conjunct1, THEN sym] same [OF v(1) none(1)]
        by (auto simp: sub_path_snoc)
    qed
  next
    case some
    then obtain m'' q' where q: "v' = VMsg m''" "is_msg_field fd'" "q = sub_path (fd_Name fd') q'"
      "q' \<in> set (rangeAbsentMessageFields m'')" by (cases v') (auto split: if_splits)
    from p show ?thesis
    proof cases
      case leaf
      have "\<not> prefix p q"
      proof
        assume "prefix p q"
        then have "prefix (fd_Name fd) (fd_Name fd')"
          using dotless_prefix [OF dl [OF some(1)] _ dl [OF v(1)]] leaf q by simp
        with free same v(1) some(1) leaf q(2) show False by metis
      qed
      with leaf q show ?thesis using no_dotted_prefix [OF dl [OF v(1)]] by (auto simp: sub_path_snoc)
    next
      case sub
      have eq: "m'' = m'" if "fd_Name fd = fd_Name fd'" using same [OF v(1) some(1) that] sub q by simp
      have "\<not> prefix p' q' \<and> \<not> prefix (q' @ ''.'') p'" if "m'' = m'"
      proof (rule less.IH)
        show "msg_weight m' < msg_weight m" using slots_mem(1) [OF v(1)] sub m by simp
      qed (use slots_mem [OF v(1)] ok wf pf sub q that in auto)
      note IH = this
      show ?thesis
      proof (intro conjI notI)
        assume "prefix p q"
        then show False
          using dotted_prefix [OF dl [OF v(1)] dl [OF some(1)], of p' q'] sub(3) q(3) eq IH by simp
      next
        assume "prefix (q @ ''.'') p"
        then show False
          using dotted_prefix [OF dl [OF some(1)] dl [OF v(1)], of "q' @ ''.''" p'] sub(3) q(3) eq IH
          by (simp add: sub_path_def)
      qed
    qed
  qed
qed

section \<open>Differences\<close>

lemma diff_slots_paths:
  "p \<in> set (diffFields veq a b pre) \<Longrightarrow> prefix pre p"
  "p \<in> set (diff_slots veq os ns pre) \<Longrightarrow>
     \<exists>f \<in> set (map (fd_Name \<circ> fst) os). p = pre @ f \<or> prefix (pre @ sub_path f []) p"
proof (induction veq a b pre and veq os ns pre rule: diffFields_diff_slots.induct)
  case (1 veq n os u n' ns u' pre)
  then show ?case by (auto simp: prefix_def)
next
  case (7 veq fd v os fd' w ns pre)
  then show ?case by (auto simp: Let_def sub_path_def split: if_splits)
qed (auto simp: sub_path_def split: if_splits)

lemma conforms_header: "conforms sch a \<Longrightarrow> conforms sch b \<Longrightarrow> msg_name a = msg_name b \<Longrightarrow> same_descriptor a b"
  by (cases a; cases b) (auto simp: same_descriptor_def msg_fields_def)

lemma diff_none:
  "conforms sch a \<Longrightarrow> conforms sch b \<Longrightarrow> same_descriptor a b \<Longrightarrow> no_unknown a \<Longrightarrow> no_unknown b \<Longrightarrow> wf_msg a \<Longrightarrow> wf_msg b
     \<Longrightarrow> (\<And>v w. veq v w = (v = w)) \<Longrightarrow> diffFields veq a b pre = [] \<longleftrightarrow> a = b"
  "conforms_slots sch os \<Longrightarrow> conforms_slots sch ns \<Longrightarrow> map fst os = map fst ns \<Longrightarrow> no_unknown_slots os \<Longrightarrow> no_unknown_slots ns
     \<Longrightarrow> wf_slots os \<Longrightarrow> wf_slots ns \<Longrightarrow> (\<And>v w. veq v w = (v = w)) \<Longrightarrow> diff_slots veq os ns pre = [] \<longleftrightarrow> os = ns"
proof (induction veq a b pre and veq os ns pre rule: diffFields_diff_slots.induct)
  case (1 veq n os u n' ns u' pre)
  then show ?case by (simp add: same_descriptor_def msg_fields_def)
next
  case (7 veq fd v os fd' w ns pre)
  show ?case
  proof (cases "is_msg_field fd")
    case True
    with 7 obtain mv mw where v: "v = VMsg mv" "w = VMsg mw"
      by (cases v; cases w) (auto simp: val_fits_def is_msg_field_def)
    with 7 True have "same_descriptor mv mw" using conforms_header by auto
    with 7 True v show ?thesis by (simp add: val_msg_def Let_def)
  next
    case False
    with 7 show ?thesis by simp
  qed
qed auto

lemma diff_slots_mem:
  assumes "\<And>v w. veq v w = (v = w)" "dotless n"
  shows "conforms_slots sch os \<Longrightarrow> conforms_slots sch ns \<Longrightarrow> map fst os = map fst ns \<Longrightarrow> no_unknown_slots os \<Longrightarrow> no_unknown_slots ns
    \<Longrightarrow> wf_slots os \<Longrightarrow> wf_slots ns \<Longrightarrow> distinct (map (fd_Name \<circ> fst) os) \<Longrightarrow>
    n \<in> set (diff_slots veq os ns []) \<longleftrightarrow> slot_get n os \<noteq> slot_get n ns"
proof (induction os arbitrary: ns)
  case (Cons o' os)
  then obtain fd x y ns' where o': "o' = (fd, x)" "ns = (fd, y) # ns'" by (cases o'; cases ns) auto
  have nested: "n \<notin> set (diffFields veq a b (fd_Name fd @ ''.''))" for a b
    using assms(2) diff_slots_paths(1) [of n veq a b "fd_Name fd @ ''.''"] by (auto simp: dotless_def prefix_def)
  have tail: "n \<notin> set (diff_slots veq os ns' [])" if "fd_Name fd = n"
    using Cons.prems(8) o' that assms(2) diff_slots_paths(2) [of n veq os ns' "[]"]
    by (auto simp: dotless_def prefix_def sub_path_def)
  have IH: "n \<in> set (diff_slots veq os ns' []) \<longleftrightarrow> slot_get n os \<noteq> slot_get n ns'"
    by (rule Cons.IH) (use Cons.prems o' in \<open>cases x; cases y; auto\<close>)+
  show ?case
  proof (cases x)
    case None
    then show ?thesis using o' nested tail IH by (cases y) auto
  next
    case (Some v)
    note v = this
    show ?thesis
    proof (cases y)
      case None
      then show ?thesis using v o' nested tail IH by auto
    next
      case (Some w)
      show ?thesis
      proof (cases "is_msg_field fd")
        case True
        with Cons.prems v Some o' obtain mv mw where m: "v = VMsg mv" "w = VMsg mw"
          by (cases v; cases w) (auto simp: val_fits_def is_msg_field_def)
        with Cons.prems v Some o' have "same_descriptor mv mw" using conforms_header by auto
        with m Cons.prems v Some o' have "diffFields veq mv mw (fd_Name fd @ ''.'') = [] \<longleftrightarrow> mv = mw"
          by (intro diff_none(1) [of sch]) (auto simp: assms(1))
        with m v Some o' True nested tail IH show ?thesis by (auto simp: val_msg_def Let_def)
      next
        case False
        with v Some o' tail IH assms(1) [of v w] show ?thesis by auto
      qed
    qed
  qed
qed simp

end
