(* ===== verification/FieldMaskProps.thy ===== *)
theory FieldMaskProps
  imports FieldMaskLemmas MergeProps
begin

text \<open>
  The properties of the field masks: what keeping and discarding leave of a message, when the
  identities its documentation promises for \<open>ByPresence\<close> and \<open>ByAbsence\<close> hold and when they do not, and
  that a difference lists exactly the fields that changed.
\<close>

section \<open>An instance of the parameters, and a message\<close>

definition ex_nrm :: "mask \<Rightarrow> mask" where
  "ex_nrm ps = filter (\<lambda>p. \<not> list_ex (\<lambda>q. prefix (q @ ''.'') p) ps) ps"

lemma ex_nrm_law: "norm_law ex_nrm"
  by (auto simp: norm_law_def ex_nrm_def list_ex_iff)

lemma ex_keep_laws: "art_laws (alist_art :: (unit alist_tree, unit) art_ops)"
  by (rule alist_art_laws)

lemmas ex_msg_preds = ex_msg_defs val_fits_def is_msg_field_def is_time_message_def dotless_def
  prefix_free_def sub_path_def

section \<open>Keeping and discarding\<close>

text \<open>
  C18. For any mask, \<open>ExclusiveKeep\<close> leaves exactly the populated leaf fields the mask covers and
  \<open>ExclusiveDiscard\<close> exactly the others, in order, so the two split the fields of a message. A path is
  covered when it is a string prefix of a path of the mask, or when a path of the mask is one of its
  parents. A nil mask changes nothing.
\<close>

theorem mask_splits_leaves:
  assumes "art_laws A" "names_ok m" "wf_msg m"
  shows "rangePresentMessageFields (ExclusiveKeep A m (Some ps)) =
      filter (in_mask (set ps)) (rangePresentMessageFields m)
    \<and> rangePresentMessageFields (ExclusiveDiscard A m (Some ps)) =
      filter (\<lambda>p. \<not> in_mask (set ps) p) (rangePresentMessageFields m)
    \<and> ExclusiveKeep A m None = m \<and> ExclusiveDiscard A m None = m"
  using keep_leaves(1) [OF AsTree_mask [OF assms(1)] assms(2), where pre = "[]"]
    discard_leaves(1) [OF AsTree_mask [OF assms(1)] assms(2,3), where pre = "[]"]
  by (simp add: ExclusiveKeep_def ExclusiveDiscard_def)

lemma mask_splits_leaves_witness:
  "rangePresentMessageFields (ExclusiveKeep alist_art
     (ex_msg (Some ''a'') (Some [VScalar (SString ''t'')]) (Some (ex_duration (Some 1)))) (Some [''name'', ''wait'']))
   = [''name'', ''wait.seconds'']"
proof -
  let ?m = "ex_msg (Some ''a'') (Some [VScalar (SString ''t'')]) (Some (ex_duration (Some 1)))"
  have "names_ok ?m" "wf_msg ?m" by (simp_all add: ex_msg_preds)
  from mask_splits_leaves [OF ex_keep_laws this, of "[''name'', ''wait'']"]
  show ?thesis by (simp add: ex_msg_preds in_mask_def)
qed

text \<open>
  The identities of \<open>ByPresence\<close>: keeping the mask of the populated fields of a message returns
  the message, and discarding it empties the message, provided no populated message inside it is
  itself empty.
\<close>

theorem presence_mask:
  assumes "art_laws A" "norm_law nrm" "names_ok m" "wf_msg m" "no_empty m"
  shows "ExclusiveKeep A m (Some (ByPresence nrm m)) = m
    \<and> ExclusiveDiscard A m (Some (ByPresence nrm m)) = cleared m"
proof -
  let ?S = "set (ByPresence nrm m)"
  have in_mask: "\<forall>p \<in> set (rangePresentMessageFields m). in_mask ?S ([] @ p)"
    unfolding ByPresence_def in_mask_nrm [OF assms(2)] by (auto simp: in_mask_def)
  have none: "\<not> covered ?S []" by simp
  show ?thesis
    using keep_inside(1) [OF AsTree_mask [OF assms(1)] assms(3,5) none in_mask]
      discard_inside(1) [OF AsTree_mask [OF assms(1)] assms(3,4,5) none in_mask]
    by (simp add: ExclusiveKeep_def ExclusiveDiscard_def)
qed

lemma presence_mask_witness:
  "ExclusiveKeep alist_art (ex_msg (Some ''a'') None (Some (ex_duration (Some 1))))
     (Some (ByPresence ex_nrm (ex_msg (Some ''a'') None (Some (ex_duration (Some 1))))))
   = ex_msg (Some ''a'') None (Some (ex_duration (Some 1)))"
proof -
  let ?m = "ex_msg (Some ''a'') None (Some (ex_duration (Some 1)))"
  have "names_ok ?m" "wf_msg ?m" "no_empty ?m" by (simp_all add: ex_msg_preds)
  from presence_mask [OF ex_keep_laws ex_nrm_law this] show ?thesis by simp
qed

text \<open>
  The identities of \<open>ByAbsence\<close>: keeping the mask of the absent fields empties the message and
  discarding it changes nothing, provided no populated message inside is empty and no field's name is
  a prefix of the name of a sibling.
\<close>

theorem absence_mask:
  assumes "art_laws A" "norm_law nrm" "names_ok m" "wf_msg m" "no_empty m" "names_prefix_free m"
  shows "ExclusiveKeep A m (Some (ByAbsence nrm m)) = cleared m
    \<and> ExclusiveDiscard A m (Some (ByAbsence nrm m)) = m"
proof -
  let ?S = "set (ByAbsence nrm m)"
  have in_mask: "\<forall>p \<in> set (rangePresentMessageFields m). \<not> in_mask ?S ([] @ p)"
    unfolding ByAbsence_def in_mask_nrm [OF assms(2)]
    using absent_not_present [OF assms(3,4,6)] by (auto simp: in_mask_def)
  have none: "\<not> covered ?S []" by simp
  show ?thesis
    using keep_outside(1) [OF AsTree_mask [OF assms(1)] assms(3,4,5) none in_mask]
      discard_outside(1) [OF AsTree_mask [OF assms(1)] assms(3,4,5) none in_mask]
    by (simp add: ExclusiveKeep_def ExclusiveDiscard_def)
qed

lemma absence_mask_witness:
  "ExclusiveKeep alist_art (ex_msg (Some ''a'') None (Some (ex_duration (Some 1))))
     (Some (ByAbsence ex_nrm (ex_msg (Some ''a'') None (Some (ex_duration (Some 1))))))
   = ex_msg None None None"
proof -
  let ?m = "ex_msg (Some ''a'') None (Some (ex_duration (Some 1)))"
  have "names_ok ?m" "wf_msg ?m" "no_empty ?m" "names_prefix_free ?m" by (simp_all add: ex_msg_preds)
  from absence_mask [OF ex_keep_laws ex_nrm_law this] show ?thesis
    by (simp add: cleared_def ex_msg_defs)
qed

text \<open>
  Where a populated leaf field's name is a prefix of an absent sibling's, the mask of the absent
  fields covers it too: \<open>ExclusiveKeep\<close> keeps it and \<open>ExclusiveDiscard\<close> clears it, against what is
  documented.
\<close>

theorem sibling_name_prefix:
  assumes "art_laws A" "norm_law nrm" "names_ok m" "wf_msg m"
    and "p \<in> set (rangePresentMessageFields m)" "q \<in> set (rangeAbsentMessageFields m)" "prefix p q"
  shows "p \<in> set (rangePresentMessageFields (ExclusiveKeep A m (Some (ByAbsence nrm m))))
    \<and> p \<notin> set (rangePresentMessageFields (ExclusiveDiscard A m (Some (ByAbsence nrm m))))"
proof -
  have "in_mask (set (ByAbsence nrm m)) p"
    unfolding ByAbsence_def in_mask_nrm [OF assms(2)] using assms(6,7) by (auto simp: in_mask_def)
  then show ?thesis
    using assms(5) keep_leaves(1) [OF AsTree_mask [OF assms(1)] assms(3), where pre = "[]"]
      discard_leaves(1) [OF AsTree_mask [OF assms(1)] assms(3,4), where pre = "[]"]
    by (simp add: ExclusiveKeep_def ExclusiveDiscard_def)
qed

text \<open>A message with the fields \<open>field1\<close> and \<open>field10\<close>.\<close>

definition ex_field1 :: pmsg where
  "ex_field1 = Msg ''ex.Fields''
     [(\<lparr>fd_Name = ''field1'', fd_Kind = Int32Kind, fd_IsList = False, fd_IsMap = False, fd_Message = [], fd_Masked = False, fd_Oneof = []\<rparr>,
       Some (VScalar (SInt32 7))),
      (\<lparr>fd_Name = ''field10'', fd_Kind = Int32Kind, fd_IsList = False, fd_IsMap = False, fd_Message = [], fd_Masked = False, fd_Oneof = []\<rparr>,
       None)] []"

lemma sibling_name_prefix_witness:
  "''field1'' \<in> set (rangePresentMessageFields (ExclusiveKeep alist_art ex_field1 (Some (ByAbsence ex_nrm ex_field1))))"
proof -
  have "names_ok ex_field1" "wf_msg ex_field1" by (simp_all add: ex_field1_def ex_msg_preds)
  moreover have "''field1'' \<in> set (rangePresentMessageFields ex_field1)"
    "''field10'' \<in> set (rangeAbsentMessageFields ex_field1)" "prefix ''field1'' ''field10''"
    by (simp_all add: ex_field1_def)
  ultimately show ?thesis using sibling_name_prefix [OF ex_keep_laws ex_nrm_law] by blast
qed

section \<open>Differences\<close>

text \<open>
  \<open>Diff\<close> is exact: where \<open>Value.Equal\<close> is equality, the name of a field of the messages is among
  the paths if and only if the field differs (is set in one and not the other, or set to different
  values), however deep the difference; and there are no paths at all if and only if the messages
  are equal.
\<close>

theorem diff_exact:
  assumes "conforms sch old" "conforms sch new" "same_descriptor old new" "wf_msg old" "wf_msg new"
    and "no_unknown old" "no_unknown new" "names_ok old" "\<And>v w. veq v w = (v = w)"
  shows "\<exists>paths. Diff veq old new = Inr paths \<and> (paths = [] \<longleftrightarrow> old = new)
    \<and> (\<forall>n. dotless n \<longrightarrow> (n \<in> set paths \<longleftrightarrow> msg_get n old \<noteq> msg_get n new))"
proof -
  have eq: "veq = (=)" by (simp add: fun_eq_iff assms(9))
  obtain k os u k' ns u' where m: "old = Msg k os u" "new = Msg k' ns u'" by (cases old; cases new)
  have "n \<in> set (diffFields veq old new []) \<longleftrightarrow> msg_get n old \<noteq> msg_get n new" if "dotless n" for n
    using assms(1-8) m diff_slots_mem [OF assms(9) that, of sch os ns, folded eq]
    by (simp add: msg_get_def same_descriptor_def msg_fields_def eq)
  moreover have "diffFields veq old new [] = [] \<longleftrightarrow> old = new"
    by (rule diff_none(1) [OF assms(1,2,3,6,7,4,5,9)])
  ultimately show ?thesis using assms(3) by (simp add: Diff_def)
qed

definition ex_schema :: schema where
  "ex_schema n = (if n = ''ex.Msg'' then msg_fields (ex_msg None None None)
     else if n = ''google.protobuf.Duration'' then ex_duration_fields else [])"

lemma diff_exact_witness:
  "\<exists>paths. Diff (\<lambda>v w. v = w) (ex_msg (Some ''a'') None (Some (ex_duration (Some 1))))
       (ex_msg (Some ''a'') None (Some (ex_duration (Some 2)))) = Inr paths
     \<and> ''wait'' \<in> set paths \<and> ''name'' \<notin> set paths"
proof -
  let ?o = "ex_msg (Some ''a'') None (Some (ex_duration (Some 1)))"
    and ?n = "ex_msg (Some ''a'') None (Some (ex_duration (Some 2)))"
  have "conforms ex_schema ?o" "conforms ex_schema ?n"
    by (simp_all add: ex_schema_def msg_fields_def ex_msg_defs)
  moreover have "same_descriptor ?o ?n" by (simp add: same_descriptor_def msg_fields_def ex_msg_defs)
  moreover have "wf_msg ?o" "wf_msg ?n" "no_unknown ?o" "no_unknown ?n" "names_ok ?o"
    by (simp_all add: ex_msg_preds)
  ultimately obtain paths where "Diff (\<lambda>v w. v = w) ?o ?n = Inr paths"
    "\<And>n. dotless n \<Longrightarrow> n \<in> set paths \<longleftrightarrow> msg_get n ?o \<noteq> msg_get n ?n"
    using diff_exact [of ex_schema ?o ?n "\<lambda>v w. v = w"] by blast
  then show ?thesis by (simp add: dotless_def msg_get_def ex_msg_defs)
qed

end
