(* ===== verification/Revision.thy ===== *)
theory Revision
  imports Msg Errors
begin

text \<open>
  Revisions inside a configuration: \<open>apis/core/v1/extensions.go\<close> (making and setting a \<open>core.Revision\<close>,
  the masked fields of a type) and \<open>server/reflect.go\<close> (setting, clearing and copying the revision field
  of a configuration message). A time is an instant in nanoseconds. A revision number is stored as
  a 64-bit word and read as a signed number.
\<close>

section \<open>The messages\<close>

definition revision_fields :: "fdesc list" where
  "revision_fields =
     [\<lparr>fd_Name = ''revision'', fd_Kind = Int64Kind, fd_IsList = False, fd_IsMap = False, fd_Message = [], fd_Masked = False, fd_Oneof = []\<rparr>,
      \<lparr>fd_Name = ''timestamp'', fd_Kind = MessageKind, fd_IsList = False, fd_IsMap = False,
       fd_Message = ''google.protobuf.Timestamp'', fd_Masked = False, fd_Oneof = []\<rparr>]"

definition timestamp_fields :: "fdesc list" where
  "timestamp_fields =
     [\<lparr>fd_Name = ''seconds'', fd_Kind = Int64Kind, fd_IsList = False, fd_IsMap = False, fd_Message = [], fd_Masked = False, fd_Oneof = []\<rparr>,
      \<lparr>fd_Name = ''nanos'', fd_Kind = Int32Kind, fd_IsList = False, fd_IsMap = False, fd_Message = [], fd_Masked = False, fd_Oneof = []\<rparr>]"

text \<open>\<open>timestamppb.New\<close>: a field without presence is populated when it is not zero.\<close>

definition timestamppb_New :: "time \<Rightarrow> pmsg" where
  "timestamppb_New t = Msg ''google.protobuf.Timestamp''
     (zip timestamp_fields
        [if t div 1000000000 = 0 then None else Some (VScalar (SInt64 (word_of_int (t div 1000000000)))),
         if t mod 1000000000 = 0 then None else Some (VScalar (SInt32 (word_of_int (t mod 1000000000))))])
     []"

definition revision_msg :: "int64 option \<Rightarrow> pmsg option \<Rightarrow> pmsg" where
  "revision_msg r ts = Msg ''core.Revision''
     (zip revision_fields
        [map_option (\<lambda>n. VScalar (SInt64 (word_of_int n))) r, map_option VMsg ts]) []"

section \<open>extensions.go\<close>

text \<open>The variadic timestamp is a list.\<close>

definition maybe_timestamp :: "time list \<Rightarrow> pmsg option" where
  "maybe_timestamp maybeTimestamp =
     (case maybeTimestamp of [] \<Rightarrow> None | t # _ \<Rightarrow> if t = zero_time then None else Some (timestamppb_New t))"

definition NewRevision :: "int64 \<Rightarrow> time list \<Rightarrow> pmsg" where
  "NewRevision revision maybeTimestamp = revision_msg (Some revision) (maybe_timestamp maybeTimestamp)"

text \<open>\<open>(*Revision).Set\<close>. Only a revision that had a number loses its timestamp.\<close>

definition Revision_Set :: "int64 \<Rightarrow> pmsg \<Rightarrow> pmsg" where
  "Revision_Set revision r =
     (if msg_get ''revision'' r = None then
        msg_Set ''revision'' (VScalar (SInt64 (word_of_int revision))) r
      else
        msg_Clear ''timestamp'' (msg_Set ''revision'' (VScalar (SInt64 (word_of_int revision))) r))"

text \<open>The generated getter \<open>(*Revision).GetRevision\<close>, which is nil-safe, and the pointer it reads.\<close>

definition Revision_number :: "pmsg option \<Rightarrow> int64 option" where
  "Revision_number r =
     (case r of None \<Rightarrow> None
      | Some m \<Rightarrow> (case msg_get ''revision'' m of Some (VScalar (SInt64 w)) \<Rightarrow> Some (sint w) | _ \<Rightarrow> None))"

definition Revision_GetRevision :: "pmsg option \<Rightarrow> int64" where
  "Revision_GetRevision r = (case Revision_number r of None \<Rightarrow> 0 | Some n \<Rightarrow> n)"

text \<open>\<open>MaskedFields\<close> of the type of a message.\<close>

definition MaskedFields :: "pmsg \<Rightarrow> fdesc list" where
  "MaskedFields t = filter fd_Masked (msg_fields t)"

section \<open>reflect.go\<close>

text \<open>
  The field the revision helpers write: the first of kind message whose type is \<open>core.Revision\<close>; a type
  without one panics. \<open>GetRevision\<close> is the generated getter of the field named \<open>revision\<close>. The cache of
  the index per type returns what the function returns and is left out.
\<close>

definition GetRevisionFieldIndex :: "pmsg \<Rightarrow> fdesc option" where
  "GetRevisionFieldIndex t =
     find_first (\<lambda>field. fd_Kind field = MessageKind \<and> fd_Message field = ''core.Revision'') (msg_fields t)"

definition GetRevision :: "pmsg \<Rightarrow> pmsg option" where
  "GetRevision t = (case msg_get ''revision'' t of Some (VMsg r) \<Rightarrow> Some r | _ \<Rightarrow> None)"

definition with_revision_field :: "pmsg \<Rightarrow> (string \<Rightarrow> pmsg) \<Rightarrow> pmsg result" where
  "with_revision_field t f =
     (case GetRevisionFieldIndex t of
        None \<Rightarrow> Inl (go_panic ''revision field not found'')
      | Some field \<Rightarrow> Inr (f (fd_Name field)))"

definition UnsetRevision :: "pmsg \<Rightarrow> pmsg result" where
  "UnsetRevision t =
     with_revision_field t (\<lambda>field. if GetRevision t \<noteq> None then msg_Clear field t else t)"

text \<open>The else branch writes through the pointer that \<open>GetRevision\<close> returned.\<close>

definition SetRevision :: "pmsg \<Rightarrow> int64 \<Rightarrow> time list \<Rightarrow> pmsg result" where
  "SetRevision t value' maybeTimestamp =
     with_revision_field t (\<lambda>field.
       case GetRevision t of
         None \<Rightarrow> msg_Set field (VMsg (revision_msg (Some value') (maybe_timestamp maybeTimestamp))) t
       | Some old \<Rightarrow> msg_Set ''revision'' (VMsg (Revision_Set value' old)) t)"

definition CopyRevision :: "pmsg \<Rightarrow> pmsg \<Rightarrow> pmsg result" where
  "CopyRevision dst src =
     (case GetRevision src of
        Some srcRev \<Rightarrow> with_revision_field dst (\<lambda>field. msg_Set field (VMsg srcRev) dst)
      | None \<Rightarrow> UnsetRevision dst)"

text \<open>\<open>(*Timestamp).AsTime\<close>, of a nil timestamp the epoch.\<close>

definition AsTime :: "pmsg option \<Rightarrow> time" where
  "AsTime ts =
     (case ts of
        None \<Rightarrow> 0
      | Some m \<Rightarrow>
          (case msg_get ''seconds'' m of Some (VScalar (SInt64 w)) \<Rightarrow> sint w | _ \<Rightarrow> 0) * 1000000000
          + (case msg_get ''nanos'' m of Some (VScalar (SInt32 w)) \<Rightarrow> sint w | _ \<Rightarrow> 0))"

definition GetTimestamp :: "pmsg option \<Rightarrow> pmsg option" where
  "GetTimestamp r = Option.bind r (\<lambda>m. case msg_get ''timestamp'' m of Some (VMsg ts) \<Rightarrow> Some ts | _ \<Rightarrow> None)"

section \<open>Configurations with a revision field\<close>

text \<open>
  The types the server is used with: one field of type \<open>core.Revision\<close>, named \<open>revision\<close>.
\<close>

definition has_revision :: "pmsg \<Rightarrow> bool" where
  "has_revision t \<longleftrightarrow> map_option fd_Name (GetRevisionFieldIndex t) = Some ''revision''"

lemma has_revision_field: "has_revision t \<Longrightarrow> has_field ''revision'' t"
proof -
  assume "has_revision t"
  then obtain field where "GetRevisionFieldIndex t = Some field" "fd_Name field = ''revision''"
    by (auto simp: has_revision_def)
  moreover from this(1) have "field \<in> set (msg_fields t)"
    unfolding GetRevisionFieldIndex_def by (blast dest: find_first_Some)
  ultimately show ?thesis unfolding has_field_def by (metis image_eqI set_map)
qed

lemma with_revision_field_ok: "has_revision t \<Longrightarrow> with_revision_field t f = Inr (f ''revision'')"
  by (auto simp: has_revision_def with_revision_field_def)

lemma has_revision_same: "same_descriptor a b \<Longrightarrow> has_revision a = has_revision b"
  by (simp add: has_revision_def GetRevisionFieldIndex_def same_descriptor_def)

lemma has_revision_put [simp]: "has_revision (msg_put n x t) = has_revision t"
  by (simp add: has_revision_def GetRevisionFieldIndex_def)

definition unset_revision :: "pmsg \<Rightarrow> pmsg" where
  "unset_revision t = (if GetRevision t \<noteq> None then msg_Clear ''revision'' t else t)"

lemma UnsetRevision_ok: "has_revision t \<Longrightarrow> UnsetRevision t = Inr (unset_revision t)"
  by (simp add: UnsetRevision_def with_revision_field_ok unset_revision_def)

lemma unset_revision_get: "n \<noteq> ''revision'' \<Longrightarrow> msg_get n (unset_revision t) = msg_get n t"
  by (simp add: unset_revision_def msg_get_put)

lemma unset_revision_same [simp]: "same_descriptor (unset_revision t) t'  = same_descriptor t t'"
  "has_revision (unset_revision t) = has_revision t"
  by (simp_all add: unset_revision_def)

lemma sint_word_of_int:
  "- (2 ^ 63) \<le> n \<Longrightarrow> n < 2 ^ 63 \<Longrightarrow> sint (word_of_int n :: 64 word) = n"
  by (simp add: sint_sbintrunc' signed_take_bit_int_eq_self)

lemma revision_msg_number [simp]:
  "Revision_number (Some (revision_msg (Some n) ts)) = Some (sint (word_of_int n :: 64 word))"
  by (simp add: Revision_number_def revision_msg_def revision_fields_def msg_get_def)

text \<open>
  Setting a revision on a configuration and reading it back gives the number, for every number an
  \<open>int64\<close> holds, whether or not the configuration already had a revision; nothing else in it changes, and
  a revision it had before loses its timestamp.
\<close>

theorem set_revision_roundtrip:
  assumes "has_revision t" "Revision_number (GetRevision t) \<noteq> None \<or> GetRevision t = None"
    and "- (2 ^ 63) \<le> n" "n < 2 ^ 63"
  shows "\<exists>t'. SetRevision t n [] = Inr t' \<and> Revision_number (GetRevision t') = Some n
    \<and> map_option (msg_get ''timestamp'') (GetRevision t') = Some None
    \<and> unset_revision t' = msg_Clear ''revision'' t"
proof (cases "GetRevision t")
  case None
  with assms show ?thesis
    by (simp add: SetRevision_def with_revision_field_ok GetRevision_def msg_get_put has_revision_field
        maybe_timestamp_def unset_revision_def sint_word_of_int revision_msg_def revision_fields_def
        msg_get_def [of _ "Msg _ _ _"] Revision_number_def)
next
  case (Some r)
  with assms(2) obtain w where w: "msg_get ''revision'' r = Some (VScalar (SInt64 w))"
    by (auto simp: Revision_number_def split: option.splits pval.splits scalar.splits)
  then have "has_field ''revision'' r"
    by (cases "has_field ''revision'' r")
      (metis msg_get_put msg_put_simps(5) option.distinct(1))+
  with w have "Revision_number (Some (Revision_Set n r)) = Some n"
    "msg_get ''timestamp'' (Revision_Set n r) = None"
    using sint_word_of_int [OF assms(3,4)]
    by (simp_all add: Revision_Set_def Revision_number_def msg_get_put)
  with Some assms(1) show ?thesis
    by (simp add: SetRevision_def with_revision_field_ok GetRevision_def [of "msg_put _ _ _"] msg_get_put
        has_revision_field unset_revision_def)
qed

definition ex_revision_fd :: fdesc where
  "ex_revision_fd = \<lparr>fd_Name = ''revision'', fd_Kind = MessageKind, fd_IsList = False, fd_IsMap = False,
     fd_Message = ''core.Revision'', fd_Masked = False, fd_Oneof = []\<rparr>"

lemma set_revision_roundtrip_witness:
  "\<exists>t'. SetRevision (Msg ''ex.Cfg'' [(ex_revision_fd, None)] []) 7 [] = Inr t'
    \<and> Revision_number (GetRevision t') = Some 7"
  using set_revision_roundtrip [of "Msg ''ex.Cfg'' [(ex_revision_fd, None)] []" 7]
  by (auto simp: has_revision_def GetRevisionFieldIndex_def msg_fields_def ex_revision_fd_def GetRevision_def
      msg_get_def)

end
