(* ===== verification/Tracker.thy ===== *)
theory Tracker
  imports FieldMask Merge Revision Stores
begin

text \<open>
  \<open>server/config.go\<close>: the defaulting config tracker, which keeps a default and an active configuration
  in two value stores. The tracker itself is a constant record: the operations of its two stores, the
  empty message of its configuration type, and what the type and third-party packages supply (loading
  of defaults, redaction of secrets, validation, normalising and checking of masks). The state is the
  pair of the two stores' states, threaded through every handler; the lock makes each handler one
  step. The handlers that write take the time of the call.

  \<open>unredact\<close> gets the configuration it modifies and the existing one. A nil patch or configuration
  behaves as an empty message and is one here. A variadic or nilable revision is a list of optional
  \<open>core.Revision\<close> messages.
\<close>

section \<open>The tracker\<close>

datatype 'v validation = Valid | Violation 'v | ValidationFailed err

text \<open>What the configuration type and the packages around it supply.\<close>

record ('t, 'v) ConfigType =
  ct_New :: pmsg \<comment> \<open>\<open>t.ProtoReflect().New()\<close>\<close>
  ct_defaultLoader :: "pmsg \<Rightarrow> pmsg"
  ct_redact :: "pmsg \<Rightarrow> pmsg"
  ct_unredact :: "pmsg \<Rightarrow> pmsg \<Rightarrow> pmsg result"
  ct_Validate :: "pmsg \<Rightarrow> 'v validation"
  ct_Normalize :: "mask \<Rightarrow> mask"
  ct_IsValid :: "mask \<Rightarrow> pmsg \<Rightarrow> bool"
  ct_Append :: "mask \<Rightarrow> string \<Rightarrow> mask result" \<comment> \<open>\<open>FieldMask.Append\<close>, on the type of the configuration\<close>
  ct_art :: "('t, unit) art_ops"
  ct_fast :: fast_merge

record ('t, 'v, 'd, 's) DefaultingConfigTracker = "('t, 'v) ConfigType" +
  ct_defaultStore :: "('d, pmsg) ValueStoreT"
  ct_activeStore :: "('s, pmsg) ValueStoreT"

definition NewDefaultingConfigTracker ::
  "('d, pmsg) ValueStoreT \<Rightarrow> ('s, pmsg) ValueStoreT \<Rightarrow> ('t, 'v) ConfigType
     \<Rightarrow> ('t, 'v, 'd, 's) DefaultingConfigTracker" where
  "NewDefaultingConfigTracker defaultStore activeStore ty =
     ConfigType.extend ty (DefaultingConfigTracker.fields defaultStore activeStore)"

record 'v DryRunResults =
  dr_Current :: pmsg
  dr_Modified :: pmsg
  dr_ValidationErrors :: "'v option"

datatype Target = Target_Active | Target_Default | Target_Other int
datatype Action = Action_NoAction | Action_Set | Action_Reset | Action_Other int

record DryRunRequest =
  dq_Target :: Target
  dq_Action :: Action
  dq_Spec :: pmsg
  dq_Mask :: "mask option"
  dq_Patch :: pmsg
  dq_Revision :: "pmsg option"

definition ct_maskedFields :: "('t, 'v, 'd, 's) DefaultingConfigTracker \<Rightarrow> fdesc list" where
  "ct_maskedFields ct = MaskedFields (ct_New ct)"

definition newDefaultSpec :: "('t, 'v, 'd, 's) DefaultingConfigTracker \<Rightarrow> pmsg" where
  "newDefaultSpec ct = ct_defaultLoader ct (ct_New ct)"

section \<open>Reading\<close>

definition maybeWithRevision :: "pmsg option list \<Rightarrow> GetOpt list \<Rightarrow> GetOpt list" where
  "maybeWithRevision atRevision opts =
     (case atRevision of
        Some r # _ \<Rightarrow>
          (case Revision_number (Some r) of Some n \<Rightarrow> opts @ [Get_RevisionOpt n] | None \<Rightarrow> opts)
      | _ \<Rightarrow> opts)"

text \<open>\<open>var revision int64\<close>, which the store writes if it can.\<close>

definition revision_out :: "int64 option \<Rightarrow> int64" where
  "revision_out ro = (case ro of None \<Rightarrow> 0 | Some r \<Rightarrow> r)"

definition getDefaultConfigLocked ::
  "('t, 'v, 'd, 's) DefaultingConfigTracker \<Rightarrow> pmsg option list \<Rightarrow> 'd \<Rightarrow> (pmsg \<times> int64) result" where
  "getDefaultConfigLocked ct atRevision d =
     (case st_Get (ct_defaultStore ct) (maybeWithRevision atRevision [Get_RevisionOutOpt True]) d of
        Inl e \<Rightarrow>
          if \<not> IsNotFound (Some e) then Inl (errorf_w ''error looking up default config: %w'' e)
          else Inr (newDefaultSpec ct, 0)
      | Inr (def, ro) \<Rightarrow> Inr (def, revision_out ro))"

definition getConfigOrDefaultLocked ::
  "('t, 'v, 'd, 's) DefaultingConfigTracker \<Rightarrow> pmsg option list \<Rightarrow> 'd \<times> 's \<Rightarrow> (pmsg \<times> int64) result" where
  "getConfigOrDefaultLocked ct atRevision st =
     (let dflt = st_Get (ct_defaultStore ct) [] (fst st) in
      case st_Get (ct_activeStore ct) (maybeWithRevision atRevision [Get_RevisionOutOpt True]) (snd st) of
        Inl activeErr \<Rightarrow>
          if \<not> IsNotFound (Some activeErr) then Inl (errorf_w ''error looking up config: %w'' activeErr)
          else
            (case dflt of
               Inl defaultErr \<Rightarrow>
                 if \<not> IsNotFound (Some defaultErr)
                 then Inl (errorf_w ''error looking up default config: %w'' activeErr)
                 else Inr (newDefaultSpec ct, 0)
             | Inr (defaultValue, _) \<Rightarrow> Inr (defaultValue, 0))
      | Inr (activeValue, ro) \<Rightarrow> Inr (activeValue, revision_out ro))"

definition tracker_GetDefault ::
  "('t, 'v, 'd, 's) DefaultingConfigTracker \<Rightarrow> pmsg option list \<Rightarrow> 'd \<times> 's \<Rightarrow> pmsg result" where
  "tracker_GetDefault ct atRevision st =
     rbind (getDefaultConfigLocked ct atRevision (fst st)) (\<lambda>(def, r).
       SetRevision (ct_redact ct def) r [])"

definition tracker_Get ::
  "('t, 'v, 'd, 's) DefaultingConfigTracker \<Rightarrow> pmsg option list \<Rightarrow> 'd \<times> 's \<Rightarrow> pmsg result" where
  "tracker_Get ct atRevision st =
     (case st_Get (ct_activeStore ct) (maybeWithRevision atRevision [Get_RevisionOutOpt True]) (snd st) of
        Inl e \<Rightarrow> Inl (errorf_w ''error looking up config: %w'' e)
      | Inr (existing, ro) \<Rightarrow> SetRevision (ct_redact ct existing) (revision_out ro) [])"

definition GetActiveOrDefault ::
  "('t, 'v, 'd, 's) DefaultingConfigTracker \<Rightarrow> pmsg option list \<Rightarrow> 'd \<times> 's \<Rightarrow> pmsg result" where
  "GetActiveOrDefault ct atRevision st =
     rbind (getConfigOrDefaultLocked ct atRevision st) (\<lambda>(value', r).
       SetRevision (ct_redact ct value') r [])"

definition tracker_History ::
  "('t, 'v, 'd, 's) DefaultingConfigTracker \<Rightarrow> Target \<Rightarrow> HistoryOpt list \<Rightarrow> 'd \<times> 's
     \<Rightarrow> pmsg KeyRevisionImpl list result" where
  "tracker_History ct target opts st =
     rbind (case target of
              Target_Active \<Rightarrow> st_History (ct_activeStore ct) opts (snd st)
            | Target_Default \<Rightarrow> st_History (ct_defaultStore ct) opts (fst st)
            | Target_Other n \<Rightarrow> Inl (errorf ''invalid target: %s''))
       (\<lambda>revisions. Inr (map (\<lambda>k. k\<lparr>kr_V := ct_redact ct (kr_V k)\<rparr>) revisions))"

section \<open>Writing\<close>

text \<open>The result of a handler that writes, with the two stores after it.\<close>

type_synonym ('d, 's) write_result = "unit result \<times> 'd \<times> 's"

definition SetDefault ::
  "('t, 'v, 'd, 's) DefaultingConfigTracker \<Rightarrow> time \<Rightarrow> pmsg \<Rightarrow> 'd \<times> 's \<Rightarrow> ('d, 's) write_result" where
  "SetDefault ct now newDefault st =
     (let newDefaultRevision = Revision_GetRevision (GetRevision newDefault) in
      case rbind (getDefaultConfigLocked ct [] (fst st)) (\<lambda>(existing, _).
           rbind (ct_unredact ct newDefault existing) UnsetRevision) of
        Inl e \<Rightarrow> (Inl e, st)
      | Inr newDefault \<Rightarrow>
          (let (r, d) = st_Put (ct_defaultStore ct) now newDefault [Put_RevisionOpt newDefaultRevision] (fst st)
           in (err_only r, d, snd st)))"

definition ResetDefault ::
  "('t, 'v, 'd, 's) DefaultingConfigTracker \<Rightarrow> time \<Rightarrow> pmsg option list \<Rightarrow> 'd \<times> 's \<Rightarrow> ('d, 's) write_result" where
  "ResetDefault ct now atRevision st =
     (case (case atRevision of
              [] \<Rightarrow> Inr []
            | r # _ \<Rightarrow> (case Revision_number r of
                None \<Rightarrow> Inl (go_panic ''nil dereference'')
              | Some n \<Rightarrow> Inr [Delete_RevisionOpt n])) of
        Inl e \<Rightarrow> (Inl e, st)
      | Inr opts \<Rightarrow>
          (let (r, d) = st_Delete (ct_defaultStore ct) now opts (fst st)
           in (map_sum (errorf_w ''error resetting config: %w'') id r, d, snd st)))"

text \<open>
  What \<open>Reset\<close> and \<open>DryRunReset\<close> do to the configurations: the fields of the mask are kept in the active
  configuration and patched, and the result is merged onto the default.
\<close>

definition masked_reset ::
  "('t, 'v, 'd, 's) DefaultingConfigTracker \<Rightarrow> mask \<Rightarrow> pmsg \<Rightarrow> pmsg \<Rightarrow> pmsg \<Rightarrow> pmsg result" where
  "masked_reset ct paths patch activeConfig defaultConfig =
     (let activeConfig = ExclusiveKeep (ct_art ct) activeConfig (Some paths) in
      rbind (ct_unredact ct patch activeConfig) (\<lambda>patch.
      rbind (MergeWithReplace (ct_fast ct) activeConfig (ExclusiveKeep (ct_art ct) patch (Some paths)))
        (\<lambda>activeConfig. MergeWithReplace (ct_fast ct) defaultConfig activeConfig)))"

definition check_mask ::
  "('t, 'v, 'd, 's) DefaultingConfigTracker \<Rightarrow> err \<Rightarrow> mask \<Rightarrow> pmsg \<Rightarrow> mask result" where
  "check_mask ct invalid paths activeConfig =
     (let paths = ct_Normalize ct paths in
      if \<not> ct_IsValid ct paths activeConfig then Inl invalid
      else if list_ex (\<lambda>path. path = []) paths
      then Inl (status_error InvalidArgument ''field mask contains an empty path at index %d'')
      else Inr paths)"

definition tracker_Reset ::
  "('t, 'v, 'd, 's) DefaultingConfigTracker \<Rightarrow> time \<Rightarrow> mask option \<Rightarrow> pmsg \<Rightarrow> pmsg option list \<Rightarrow> 'd \<times> 's
     \<Rightarrow> ('d, 's) write_result" where
  "tracker_Reset ct now fm patch atRevision st =
     (case st_Get (ct_activeStore ct) (maybeWithRevision atRevision [Get_RevisionOutOpt True]) (snd st) of
        Inl e \<Rightarrow> (Inl (errorf_w ''error looking up config: %w'' e), st)
      | Inr (activeConfig, ro) \<Rightarrow>
          (case fm of
             None \<Rightarrow>
               (let (r, s) = st_Delete (ct_activeStore ct) now [Delete_RevisionOpt (revision_out ro)] (snd st)
                in (map_sum (errorf_w ''error deleting config: %w'') id r, fst st, s))
           | Some paths \<Rightarrow>
               (case rbind (getDefaultConfigLocked ct [] (fst st)) (\<lambda>(defaultConfig, _).
                     rbind (check_mask ct (status_error InvalidArgument ''invalid field mask: %v'') paths activeConfig)
                       (\<lambda>paths. masked_reset ct paths patch activeConfig defaultConfig)) of
                  Inl e \<Rightarrow> (Inl e, st)
                | Inr config \<Rightarrow>
                    (let (r, s) = st_Put (ct_activeStore ct) now config [Put_RevisionOpt (revision_out ro)] (snd st)
                     in (err_only r, fst st, s)))))"

definition Apply ::
  "('t, 'v, 'd, 's) DefaultingConfigTracker \<Rightarrow> time \<Rightarrow> pmsg \<Rightarrow> 'd \<times> 's \<Rightarrow> ('d, 's) write_result" where
  "Apply ct now newConfig st =
     (case getConfigOrDefaultLocked ct [GetRevision newConfig] st of
        Inl e \<Rightarrow> (Inl e, st)
      | Inr (existing, r) \<Rightarrow>
          (case rbind (ct_unredact ct newConfig existing) (\<lambda>newConfig.
                rbind (MergeWithReplace (ct_fast ct) existing newConfig) UnsetRevision) of
             Inl e \<Rightarrow> (Inl e, st)
           | Inr existing \<Rightarrow>
               (let (res, s) = st_Put (ct_activeStore ct) now existing [Put_RevisionOpt r] (snd st)
                in (err_only res, fst st, s))))"

section \<open>Dry runs\<close>

definition runValidation ::
  "('t, 'v, 'd, 's) DefaultingConfigTracker \<Rightarrow> pmsg \<Rightarrow> 'v option result" where
  "runValidation ct conf =
     (case ct_Validate ct conf of
        Valid \<Rightarrow> Inr None
      | Violation v \<Rightarrow> Inr (Some v)
      | ValidationFailed e \<Rightarrow> Inl (status_error Internal (err_msg e)))"

text \<open>The validation and the results, with which every dry run ends.\<close>

definition dry_run_results ::
  "('t, 'v, 'd, 's) DefaultingConfigTracker \<Rightarrow> pmsg \<Rightarrow> pmsg \<Rightarrow> 'v DryRunResults result" where
  "dry_run_results ct current modified =
     rbind (runValidation ct modified) (\<lambda>valErr.
       Inr \<lparr>dr_Current = current, dr_Modified = modified, dr_ValidationErrors = valErr\<rparr>)"

definition revision_mismatch :: "pmsg \<Rightarrow> int64 \<Rightarrow> bool" where
  "revision_mismatch conf r \<longleftrightarrow> GetRevision conf \<noteq> None \<and> Revision_GetRevision (GetRevision conf) \<noteq> r"

definition DryRunApply ::
  "('t, 'v, 'd, 's) DefaultingConfigTracker \<Rightarrow> pmsg \<Rightarrow> 'd \<times> 's \<Rightarrow> 'v DryRunResults result" where
  "DryRunApply ct newConfig st =
     rbind (getConfigOrDefaultLocked ct [] st) (\<lambda>(current, r).
       if revision_mismatch newConfig r then Inl ErrConflict
       else
         rbind (ct_unredact ct newConfig current) (\<lambda>newConfig.
         rbind (MergeWithReplace (ct_fast ct) current newConfig) (\<lambda>modified.
           let current = ct_redact ct current; modified = ct_redact ct modified in
           rbind (CopyRevision modified current) (\<lambda>modified. dry_run_results ct current modified))))"

definition DryRunSetDefault ::
  "('t, 'v, 'd, 's) DefaultingConfigTracker \<Rightarrow> pmsg \<Rightarrow> 'd \<times> 's \<Rightarrow> 'v DryRunResults result" where
  "DryRunSetDefault ct newDefault st =
     rbind (getDefaultConfigLocked ct [] (fst st)) (\<lambda>(current, r).
       if revision_mismatch newDefault r then Inl ErrConflict
       else
         rbind (ct_unredact ct newDefault current) (\<lambda>newDefault.
         rbind (SetRevision (ct_redact ct current) r []) (\<lambda>current.
         rbind (CopyRevision (ct_redact ct newDefault) current) (\<lambda>newDefault.
           dry_run_results ct current newDefault))))"

definition DryRunResetDefault ::
  "('t, 'v, 'd, 's) DefaultingConfigTracker \<Rightarrow> pmsg option list \<Rightarrow> 'd \<times> 's \<Rightarrow> 'v DryRunResults result" where
  "DryRunResetDefault ct atRevision st =
     rbind (st_Get (ct_defaultStore ct) (maybeWithRevision atRevision []) (fst st)) (\<lambda>(current, _).
       dry_run_results ct (ct_redact ct current) (ct_redact ct (newDefaultSpec ct)))"

definition DryRunReset ::
  "('t, 'v, 'd, 's) DefaultingConfigTracker \<Rightarrow> mask option \<Rightarrow> pmsg \<Rightarrow> pmsg option list \<Rightarrow> 'd \<times> 's
     \<Rightarrow> 'v DryRunResults result" where
  "DryRunReset ct fm patch atRevision st =
     rbind (st_Get (ct_activeStore ct) (maybeWithRevision atRevision []) (snd st)) (\<lambda>(activeConfig, _).
     rbind (getDefaultConfigLocked ct [] (fst st)) (\<lambda>(defaultConfig, _).
       case fm of
         None \<Rightarrow> dry_run_results ct (ct_redact ct activeConfig) (ct_redact ct defaultConfig)
       | Some paths \<Rightarrow>
           rbind (check_mask ct (errorf ''invalid field mask: %v'') paths activeConfig) (\<lambda>paths.
           rbind (masked_reset ct paths patch activeConfig defaultConfig) (\<lambda>config.
             dry_run_results ct (ct_redact ct activeConfig) (ct_redact ct config)))))"

definition DryRun ::
  "('t, 'v, 'd, 's) DefaultingConfigTracker \<Rightarrow> DryRunRequest \<Rightarrow> 'd \<times> 's \<Rightarrow> 'v DryRunResults result" where
  "DryRun ct req st =
     (case dq_Target req of
        Target_Active \<Rightarrow>
          (case dq_Action req of
             Action_Set \<Rightarrow> DryRunApply ct (dq_Spec req) st
           | Action_Reset \<Rightarrow> DryRunReset ct (dq_Mask req) (dq_Patch req) [dq_Revision req] st
           | _ \<Rightarrow> Inl (errorf ''invalid action: %s''))
      | Target_Default \<Rightarrow>
          (case dq_Action req of
             Action_Set \<Rightarrow> DryRunSetDefault ct (dq_Spec req) st
           | Action_Reset \<Rightarrow> DryRunResetDefault ct [dq_Revision req] st
           | _ \<Rightarrow> Inl (errorf ''invalid action: %s''))
      | Target_Other n \<Rightarrow> Inl (errorf ''invalid target: %s''))"

end
