(* ===== verification/Server.thy ===== *)
theory Server
  imports Tracker
begin

text \<open>
  \<open>server/server.go\<close>: the request handlers of the base config server over its tracker, and the server
  whose requests carry the key of their active configuration (\<open>contextKeyedValueStore\<close> and
  \<open>contextWithKey\<close> of \<open>server/config.go\<close>). The key a context carries is optional; reading a missing one
  panics.
\<close>

section \<open>Requests\<close>

record ResetRequest =
  rq_Mask :: "mask option"
  rq_Patch :: pmsg
  rq_Revision :: "pmsg option"

record ServerHistoryRequest =
  hq_Target :: Target
  hq_Revision :: "pmsg option"
  hq_IncludeValues :: bool

section \<open>BaseConfigServer\<close>

definition clearMaskedFields :: "('t, 'v, 'd, 's) DefaultingConfigTracker \<Rightarrow> pmsg \<Rightarrow> pmsg" where
  "clearMaskedFields ct t =
     foldl (\<lambda>t field. if msg_Has (fd_Name field) t then msg_Clear (fd_Name field) t else t) t (ct_maskedFields ct)"

definition server_Get ::
  "('t, 'v, 'd, 's) DefaultingConfigTracker \<Rightarrow> pmsg option \<Rightarrow> 'd \<times> 's \<Rightarrow> pmsg result" where
  "server_Get ct r st = GetActiveOrDefault ct [r] st"

definition server_GetDefault ::
  "('t, 'v, 'd, 's) DefaultingConfigTracker \<Rightarrow> pmsg option \<Rightarrow> 'd \<times> 's \<Rightarrow> pmsg result" where
  "server_GetDefault ct r st = tracker_GetDefault ct [r] st"

definition server_ResetDefault ::
  "('t, 'v, 'd, 's) DefaultingConfigTracker \<Rightarrow> time \<Rightarrow> 'd \<times> 's \<Rightarrow> ('d, 's) write_result" where
  "server_ResetDefault ct now st = ResetDefault ct now [] st"

definition server_Set ::
  "('t, 'v, 'd, 's) DefaultingConfigTracker \<Rightarrow> time \<Rightarrow> pmsg \<Rightarrow> 'd \<times> 's \<Rightarrow> ('d, 's) write_result" where
  "server_Set ct now spec st = Apply ct now (clearMaskedFields ct spec) st"

definition server_SetDefault ::
  "('t, 'v, 'd, 's) DefaultingConfigTracker \<Rightarrow> time \<Rightarrow> pmsg \<Rightarrow> 'd \<times> 's \<Rightarrow> ('d, 's) write_result" where
  "server_SetDefault ct now spec st = SetDefault ct now (clearMaskedFields ct spec) st"

text \<open>The loop that appends the masked fields to the mask, and stops at the first that is invalid.\<close>

fun append_masked :: "(mask \<Rightarrow> string \<Rightarrow> mask result) \<Rightarrow> mask \<Rightarrow> fdesc list \<Rightarrow> mask result" where
  "append_masked appendf paths [] = Inr paths"
| "append_masked appendf paths (field # fs) =
     (case appendf paths (fd_Name field) of
        Inl e \<Rightarrow> Inl (status_error InvalidArgument ''invalid mask: %s'')
      | Inr paths \<Rightarrow> append_masked appendf paths fs)"

definition server_Reset ::
  "('t, 'v, 'd, 's) DefaultingConfigTracker \<Rightarrow> time \<Rightarrow> ResetRequest \<Rightarrow> 'd \<times> 's \<Rightarrow> ('d, 's) write_result" where
  "server_Reset ct now req st =
     (if ct_maskedFields ct \<noteq> [] then
        (let paths = (case rq_Mask req of None \<Rightarrow> [] | Some paths \<Rightarrow> paths) in
         case append_masked (ct_Append ct) paths (ct_maskedFields ct) of
           Inl e \<Rightarrow> (Inl e, st)
         | Inr paths \<Rightarrow> tracker_Reset ct now (Some paths) (clearMaskedFields ct (rq_Patch req)) [] st)
      else tracker_Reset ct now (rq_Mask req) (rq_Patch req) [] st)"

text \<open>An entry of the history: the value if it was asked for, else an empty message, with its revision.\<close>

definition history_entry ::
  "('t, 'v, 'd, 's) DefaultingConfigTracker \<Rightarrow> bool \<Rightarrow> pmsg KeyRevisionImpl \<Rightarrow> pmsg result" where
  "history_entry ct includeValues k =
     (if includeValues then SetRevision (kr_V k) (kr_Rev k) [kr_Time k]
      else SetRevision (ct_New ct) (kr_Rev k) [kr_Time k])"

fun history_entries ::
  "('t, 'v, 'd, 's) DefaultingConfigTracker \<Rightarrow> bool \<Rightarrow> pmsg KeyRevisionImpl list \<Rightarrow> pmsg list result" where
  "history_entries ct includeValues [] = Inr []"
| "history_entries ct includeValues (k # ks) =
     rbind (history_entry ct includeValues k) (\<lambda>entry.
       rbind (history_entries ct includeValues ks) (\<lambda>entries. Inr (entry # entries)))"

definition server_History ::
  "('t, 'v, 'd, 's) DefaultingConfigTracker \<Rightarrow> ServerHistoryRequest \<Rightarrow> 'd \<times> 's \<Rightarrow> pmsg list result" where
  "server_History ct req st =
     (let options = [History_IncludeValuesOpt (hq_IncludeValues req)]
            @ (if hq_Revision req \<noteq> None
               then [History_RevisionOpt (Revision_GetRevision (hq_Revision req))] else []) in
      rbind (tracker_History ct (hq_Target req) options st) (\<lambda>revisions.
        history_entries ct (hq_IncludeValues req) revisions))"

definition ServerDryRun ::
  "('t, 'v, 'd, 's) DefaultingConfigTracker \<Rightarrow> DryRunRequest \<Rightarrow> 'd \<times> 's \<Rightarrow> 'v DryRunResults result" where
  "ServerDryRun ct req st = DryRun ct req st"

section \<open>Active configurations by key\<close>

text \<open>
  \<open>contextWithKey\<close>: the key is the string in the request's key field, or the id of the reference in it.
\<close>

definition contextWithKey :: "fdesc \<Rightarrow> pmsg \<Rightarrow> string result" where
  "contextWithKey field req =
     (if fd_Kind field = MessageKind \<and> fd_Message field = ''core.Reference'' then
        Inr (case msg_get (fd_Name field) req of
               Some (VMsg ref) \<Rightarrow> (case msg_get ''id'' ref of Some (VScalar (SString key)) \<Rightarrow> key | _ \<Rightarrow> [])
             | _ \<Rightarrow> [])
      else if fd_Kind field = StringKind then
        Inr (case msg_get (fd_Name field) req of Some (VScalar (SString key)) \<Rightarrow> key | _ \<Rightarrow> [])
      else Inl (go_panic ''invalid context key type: %s''))"

definition keyFromContext :: "string option \<Rightarrow> string result" where
  "keyFromContext ctx = (case ctx of None \<Rightarrow> Inl (go_panic ''interface conversion'') | Some key \<Rightarrow> Inr key)"

definition contextKeyedValueStore ::
  "('s, 'a) KeyValueStoreT \<Rightarrow> string option \<Rightarrow> ('s, 'a) ValueStoreT" where
  "contextKeyedValueStore base ctx =
     \<lparr>st_Put = (\<lambda>now value' opts s.
        case keyFromContext ctx of Inl e \<Rightarrow> (Inl e, s) | Inr key \<Rightarrow> kv_Put base now key value' opts s),
      st_Get = (\<lambda>opts s. rbind (keyFromContext ctx) (\<lambda>key. kv_Get base key opts s)),
      st_Delete = (\<lambda>now opts s.
        case keyFromContext ctx of Inl e \<Rightarrow> (Inl e, s) | Inr key \<Rightarrow> kv_Delete base now key opts s),
      st_History = (\<lambda>opts s. rbind (keyFromContext ctx) (\<lambda>key. kv_History base key opts s))\<rparr>"

definition NewDefaultingActiveKeyedConfigTracker ::
  "('d, pmsg) ValueStoreT \<Rightarrow> ('s, pmsg) KeyValueStoreT \<Rightarrow> ('t, 'v) ConfigType \<Rightarrow> string option
     \<Rightarrow> ('t, 'v, 'd, 's) DefaultingConfigTracker" where
  "NewDefaultingActiveKeyedConfigTracker defaultStore activeStore ty ctx =
     NewDefaultingConfigTracker defaultStore (contextKeyedValueStore activeStore ctx) ty"

text \<open>
  \<open>ContextKeyableConfigServer\<close>: each handler puts the key of its request into the context and calls
  the base server; the handlers of the default configuration leave the context as it is.
\<close>

definition keyed_read ::
  "(string option \<Rightarrow> ('t, 'v, 'd, 's) DefaultingConfigTracker) \<Rightarrow> fdesc \<Rightarrow> pmsg
     \<Rightarrow> (('t, 'v, 'd, 's) DefaultingConfigTracker \<Rightarrow> 'd \<times> 's \<Rightarrow> 'r result) \<Rightarrow> 'd \<times> 's \<Rightarrow> 'r result" where
  "keyed_read tracker_of field req h st =
     rbind (contextWithKey field req) (\<lambda>key. h (tracker_of (Some key)) st)"

definition keyed_write ::
  "(string option \<Rightarrow> ('t, 'v, 'd, 's) DefaultingConfigTracker) \<Rightarrow> fdesc \<Rightarrow> pmsg
     \<Rightarrow> (('t, 'v, 'd, 's) DefaultingConfigTracker \<Rightarrow> 'd \<times> 's \<Rightarrow> ('d, 's) write_result) \<Rightarrow> 'd \<times> 's
     \<Rightarrow> ('d, 's) write_result" where
  "keyed_write tracker_of field req h st =
     (case contextWithKey field req of
        Inl e \<Rightarrow> (Inl e, st)
      | Inr key \<Rightarrow> h (tracker_of (Some key)) st)"

definition keyed_Set ::
  "(string option \<Rightarrow> ('t, 'v, 'd, 's) DefaultingConfigTracker) \<Rightarrow> fdesc \<Rightarrow> pmsg \<Rightarrow> time \<Rightarrow> pmsg \<Rightarrow> 'd \<times> 's
     \<Rightarrow> ('d, 's) write_result" where
  "keyed_Set tracker_of field req now spec = keyed_write tracker_of field req (\<lambda>ct. server_Set ct now spec)"

definition keyed_Reset ::
  "(string option \<Rightarrow> ('t, 'v, 'd, 's) DefaultingConfigTracker) \<Rightarrow> fdesc \<Rightarrow> pmsg \<Rightarrow> time \<Rightarrow> ResetRequest \<Rightarrow> 'd \<times> 's
     \<Rightarrow> ('d, 's) write_result" where
  "keyed_Reset tracker_of field req now r = keyed_write tracker_of field req (\<lambda>ct. server_Reset ct now r)"

definition keyed_Get ::
  "(string option \<Rightarrow> ('t, 'v, 'd, 's) DefaultingConfigTracker) \<Rightarrow> fdesc \<Rightarrow> pmsg \<Rightarrow> pmsg option \<Rightarrow> 'd \<times> 's
     \<Rightarrow> pmsg result" where
  "keyed_Get tracker_of field req r = keyed_read tracker_of field req (\<lambda>ct. server_Get ct r)"

definition keyed_History ::
  "(string option \<Rightarrow> ('t, 'v, 'd, 's) DefaultingConfigTracker) \<Rightarrow> fdesc \<Rightarrow> pmsg \<Rightarrow> ServerHistoryRequest
     \<Rightarrow> 'd \<times> 's \<Rightarrow> pmsg list result" where
  "keyed_History tracker_of field req h = keyed_read tracker_of field req (\<lambda>ct. server_History ct h)"

definition keyed_ServerDryRun ::
  "(string option \<Rightarrow> ('t, 'v, 'd, 's) DefaultingConfigTracker) \<Rightarrow> fdesc \<Rightarrow> pmsg \<Rightarrow> DryRunRequest \<Rightarrow> 'd \<times> 's
     \<Rightarrow> 'v DryRunResults result" where
  "keyed_ServerDryRun tracker_of field req r = keyed_read tracker_of field req (\<lambda>ct. ServerDryRun ct r)"

end
