(* ===== verification/TrackerLemmas.thy ===== *)
theory TrackerLemmas
  imports Tracker ValueIface
begin

text \<open>
  The tracker over any two stores that keep the promises of the \<open>value_store\<close> interface: the locale
  \<open>tracker\<close> has one such store for the default and one for the active configuration, and proves what
  each handler returns and leaves in the stores in terms of their current values alone. It is
  interpreted on the in-memory stores.
\<close>

section \<open>Current configurations\<close>

text \<open>The configuration a change is merged onto, and the revision it is conditioned on.\<close>

definition base_config ::
  "('t, 'v, 'd, 's) DefaultingConfigTracker \<Rightarrow> (pmsg \<times> int64) option \<Rightarrow> (pmsg \<times> int64) option \<Rightarrow> pmsg \<times> int64" where
  "base_config ct def act =
     (case act of Some (v, r) \<Rightarrow> (v, r)
      | None \<Rightarrow> (case def of Some (v, _) \<Rightarrow> (v, 0) | None \<Rightarrow> (newDefaultSpec ct, 0)))"

definition default_config ::
  "('t, 'v, 'd, 's) DefaultingConfigTracker \<Rightarrow> (pmsg \<times> int64) option \<Rightarrow> pmsg \<times> int64" where
  "default_config ct def = (case def of Some x \<Rightarrow> x | None \<Rightarrow> (newDefaultSpec ct, 0))"

text \<open>What \<open>Apply\<close>, \<open>SetDefault\<close> and \<open>Reset\<close> store.\<close>

definition applied :: "('t, 'v, 'd, 's) DefaultingConfigTracker \<Rightarrow> pmsg \<Rightarrow> pmsg \<Rightarrow> pmsg result" where
  "applied ct existing newConfig =
     rbind (ct_unredact ct newConfig existing) (\<lambda>newConfig.
       rbind (MergeWithReplace (ct_fast ct) existing newConfig) UnsetRevision)"

definition new_default :: "('t, 'v, 'd, 's) DefaultingConfigTracker \<Rightarrow> pmsg \<Rightarrow> pmsg \<Rightarrow> pmsg result" where
  "new_default ct existing newDefault = rbind (ct_unredact ct newDefault existing) UnsetRevision"

definition reset_config ::
  "('t, 'v, 'd, 's) DefaultingConfigTracker \<Rightarrow> mask \<Rightarrow> pmsg \<Rightarrow> pmsg \<Rightarrow> pmsg \<Rightarrow> pmsg result" where
  "reset_config ct paths patch activeConfig defaultConfig =
     rbind (check_mask ct (status_error InvalidArgument ''invalid field mask: %v'') paths activeConfig)
       (\<lambda>paths. masked_reset ct paths patch activeConfig defaultConfig)"

lemma maybeWithRevision_simps [tracker_simps, simp]:
  "maybeWithRevision [] os = os" "maybeWithRevision [None] os = os"
  "maybeWithRevision [r] os = (case Revision_number r of Some n \<Rightarrow> os @ [Get_RevisionOpt n] | None \<Rightarrow> os)"
  by (auto simp: maybeWithRevision_def Revision_number_def split: option.splits)

lemma Revision_number_None [simp]: "Revision_number None = None"
  by (simp add: Revision_number_def)

lemma tracker_Reset_no_revision: "tracker_Reset ct now fm patch [] st = tracker_Reset ct now fm patch [None] st"
  by (simp add: tracker_Reset_def)

lemma revision_out_simps [tracker_simps, simp]: "revision_out None = 0" "revision_out (Some r) = r"
  by (simp_all add: revision_out_def)

section \<open>Sequences of requests\<close>

datatype tracker_op =
    Op_Apply pmsg
  | Op_SetDefault pmsg
  | Op_Reset "mask option" pmsg "pmsg option list"
  | Op_ResetDefault "pmsg option list"

fun tracker_step ::
  "('t, 'v, 'd, 's) DefaultingConfigTracker \<Rightarrow> time \<times> tracker_op \<Rightarrow> 'd \<times> 's \<Rightarrow> ('d, 's) write_result" where
  "tracker_step ct (now, Op_Apply c) st = Apply ct now c st"
| "tracker_step ct (now, Op_SetDefault c) st = SetDefault ct now c st"
| "tracker_step ct (now, Op_Reset fm patch r) st = tracker_Reset ct now fm patch r st"
| "tracker_step ct (now, Op_ResetDefault r) st = ResetDefault ct now r st"

fun is_default_op :: "tracker_op \<Rightarrow> bool" where
  "is_default_op (Op_SetDefault c) \<longleftrightarrow> True"
| "is_default_op (Op_ResetDefault r) \<longleftrightarrow> True"
| "is_default_op (Op_Apply c) \<longleftrightarrow> False"
| "is_default_op (Op_Reset fm patch r) \<longleftrightarrow> False"

fun tracker_run ::
  "('t, 'v, 'd, 's) DefaultingConfigTracker \<Rightarrow> (time \<times> tracker_op) list \<Rightarrow> 'd \<times> 's \<Rightarrow> 'd \<times> 's" where
  "tracker_run ct [] st = st"
| "tracker_run ct (op # ops) st = tracker_run ct ops (snd (tracker_step ct op st))"

section \<open>The tracker over two value stores\<close>

locale tracker = d: value_store "ct_defaultStore ct" dinv dcur dsame
    + a: value_store "ct_activeStore ct" ainv acur asame
  for ct :: "('t, 'v, 'd, 's) DefaultingConfigTracker"
    and dinv :: "'d \<Rightarrow> bool" and dcur :: "'d \<Rightarrow> (pmsg \<times> int64) option" and dsame :: "'d \<Rightarrow> 'd \<Rightarrow> bool"
    and ainv :: "'s \<Rightarrow> bool" and acur :: "'s \<Rightarrow> (pmsg \<times> int64) option" and asame :: "'s \<Rightarrow> 's \<Rightarrow> bool"
begin

lemma default_get:
  "dinv d \<Longrightarrow> getDefaultConfigLocked ct [] d = Inr (default_config ct (dcur d))"
  by (auto simp: getDefaultConfigLocked_def default_config_def d.get_cur split: option.splits)

lemma active_or_default_get:
  assumes "dinv d" "ainv s"
  shows "getConfigOrDefaultLocked ct [] (d, s) = Inr (base_config ct (dcur d) (acur s))"
  using assms by (auto simp: getConfigOrDefaultLocked_def base_config_def d.get_cur a.get_cur split: option.splits)

lemma active_or_default_get_at:
  assumes "dinv d" "ainv s"
    and "case Revision_number r of None \<Rightarrow> True | Some n \<Rightarrow> \<exists>v. acur s = Some (v, n)"
  shows "getConfigOrDefaultLocked ct [r] (d, s) = Inr (base_config ct (dcur d) (acur s))"
proof (cases "Revision_number r")
  case None
  with active_or_default_get [OF assms(1,2)] show ?thesis by (simp add: getConfigOrDefaultLocked_def)
next
  case (Some n)
  with assms obtain v where "acur s = Some (v, n)" by auto
  with Some assms(2) show ?thesis
    by (simp add: getConfigOrDefaultLocked_def base_config_def a.get_at_cur)
qed

text \<open>A write to a store at the revision the base has succeeds.\<close>

lemma active_put_base:
  assumes "ainv s" "base_config ct def (acur s) = (v, r)"
  shows "\<exists>ro s' r'. st_Put (ct_activeStore ct) now c [Put_RevisionOpt r] s = (Inr ro, s') \<and> ainv s'
    \<and> acur s' = Some (c, r') \<and> r < r'"
proof (cases "acur s")
  case None
  with assms(2) have "r = 0" by (auto simp: base_config_def split: option.splits)
  with a.create_put_ok [OF assms(1) None] show ?thesis by simp
next
  case (Some x)
  with assms(2) have "acur s = Some (v, r)" by (cases x) (simp add: base_config_def)
  with a.cas_put_ok [OF assms(1)] show ?thesis by simp
qed

lemma Apply_on_base:
  assumes "ainv s" "getConfigOrDefaultLocked ct [GetRevision newConfig] (d, s) = Inr (base_config ct (dcur d) (acur s))"
  shows "case applied ct (fst (base_config ct (dcur d) (acur s))) newConfig of
      Inl e \<Rightarrow> Apply ct now newConfig (d, s) = (Inl e, d, s)
    | Inr c \<Rightarrow> \<exists>s' r. Apply ct now newConfig (d, s) = (Inr (), d, s') \<and> ainv s'
        \<and> acur s' = Some (c, r) \<and> snd (base_config ct (dcur d) (acur s)) < r"
proof -
  obtain v r where b: "base_config ct (dcur d) (acur s) = (v, r)" by (cases "base_config ct (dcur d) (acur s)")
  note get = assms(2) [unfolded b]
  show ?thesis
  proof (cases "applied ct v newConfig")
    case (Inl e)
    with get b show ?thesis by (simp add: Apply_def applied_def)
  next
    case (Inr c)
    from active_put_base [OF assms(1) b, of now c] obtain ro s' r'
      where "st_Put (ct_activeStore ct) now c [Put_RevisionOpt r] s = (Inr ro, s')" "ainv s'"
        "acur s' = Some (c, r')" "r < r'" by blast
    with get b Inr show ?thesis by (simp add: Apply_def applied_def)
  qed
qed

lemma Apply_current:
  assumes "dinv d" "ainv s"
    and "case Revision_number (GetRevision newConfig) of None \<Rightarrow> True | Some n \<Rightarrow> \<exists>v. acur s = Some (v, n)"
  shows "case applied ct (fst (base_config ct (dcur d) (acur s))) newConfig of
      Inl e \<Rightarrow> Apply ct now newConfig (d, s) = (Inl e, d, s)
    | Inr c \<Rightarrow> \<exists>s' r. Apply ct now newConfig (d, s) = (Inr (), d, s') \<and> ainv s'
        \<and> acur s' = Some (c, r) \<and> snd (base_config ct (dcur d) (acur s)) < r"
  by (rule Apply_on_base [OF assms(2) active_or_default_get_at [OF assms]])

text \<open>A merge onto another revision than the current one is refused.\<close>

lemma Apply_other_base:
  assumes "dinv d" "ainv s" "acur s = Some (v, r)"
    and base: "\<And>c r'. getConfigOrDefaultLocked ct [GetRevision newConfig] (d, s) = Inr (c, r') \<Longrightarrow> r' \<noteq> r"
  shows "\<exists>e s'. Apply ct now newConfig (d, s) = (Inl e, d, s') \<and> asame s s'"
proof (cases "getConfigOrDefaultLocked ct [GetRevision newConfig] (d, s)")
  case (Inl e)
  then show ?thesis by (simp add: Apply_def a.same_refl)
next
  case (Inr x)
  then obtain c r' where x: "x = (c, r')" by (cases x)
  with base Inr have "r' \<noteq> r" by simp
  show ?thesis
  proof (cases "applied ct c newConfig")
    case (Inl e)
    with Inr x show ?thesis by (simp add: Apply_def applied_def a.same_refl)
  next
    case app: (Inr c')
    from a.stale_put_conflict [OF assms(2,3) \<open>r' \<noteq> r\<close>, of now c'] obtain e s'
      where "st_Put (ct_activeStore ct) now c' [Put_RevisionOpt r'] s = (Inl e, s')" "asame s s'" by blast
    with Inr x app show ?thesis by (simp add: Apply_def applied_def)
  qed
qed

lemma base_revision_at:
  assumes "Revision_number r = Some n" "getConfigOrDefaultLocked ct [r] (d, s) = Inr (c, r')"
  shows "r' = 0 \<or> (\<exists>ro. st_Get (ct_activeStore ct) [Get_RevisionOutOpt True, Get_RevisionOpt n] s = Inr (c, ro)
    \<and> r' = revision_out ro)"
  using assms by (auto simp: getConfigOrDefaultLocked_def Let_def split: if_splits sum.splits)

lemma Apply_older:
  assumes "dinv d" "ainv s" "acur s = Some (v, r)"
    and "Revision_number (GetRevision newConfig) = Some n" "0 < n" "n < r"
  shows "\<exists>e s'. Apply ct now newConfig (d, s) = (Inl e, d, s') \<and> asame s s'"
proof (rule Apply_other_base [OF assms(1-3)])
  fix c r' assume "getConfigOrDefaultLocked ct [GetRevision newConfig] (d, s) = Inr (c, r')"
  from base_revision_at [OF assms(4) this] a.cur_pos [OF assms(2,3)] assms(5,6)
    a.get_at [OF assms(2), of "[Get_RevisionOutOpt True, Get_RevisionOpt n]" n]
  show "r' \<noteq> r" by fastforce
qed

lemma SetDefault_cases:
  fixes newDefault :: pmsg
  assumes "dinv d"
  defines "n \<equiv> Revision_GetRevision (GetRevision newDefault)"
  shows "case new_default ct (fst (default_config ct (dcur d))) newDefault of
      Inl e \<Rightarrow> SetDefault ct now newDefault (d, s) = (Inl e, d, s)
    | Inr c \<Rightarrow>
        if n = snd (default_config ct (dcur d))
        then \<exists>d' r. SetDefault ct now newDefault (d, s) = (Inr (), d', s) \<and> dinv d' \<and> dcur d' = Some (c, r) \<and> n < r
        else dcur d \<noteq> None \<longrightarrow> (\<exists>e d'. SetDefault ct now newDefault (d, s) = (Inl e, d', s) \<and> dsame d d' \<and> IsConflict (Some e))"
proof (cases "new_default ct (fst (default_config ct (dcur d))) newDefault")
  case (Inl e)
  then show ?thesis using default_get [OF assms(1)]
    by (simp add: SetDefault_def new_default_def split_def)
next
  case (Inr c)
  then have run: "SetDefault ct now newDefault (d, s) =
      (let (r, d') = st_Put (ct_defaultStore ct) now c [Put_RevisionOpt n] d in (err_only r, d', s))"
    using default_get [OF assms(1)] by (simp add: SetDefault_def new_default_def split_def n_def)
  show ?thesis
  proof (cases "dcur d")
    case None
    with Inr run d.create_put_ok [OF assms(1) None, of now c] show ?thesis
      by (auto simp: default_config_def)
  next
    case (Some x)
    then obtain v r where x: "dcur d = Some (v, r)" by (cases x) simp
    show ?thesis
    proof (cases "n = r")
      case True
      from d.cas_put_ok [OF assms(1) x, of now c] Inr run x True show ?thesis
        by (auto simp: default_config_def)
    next
      case False
      from d.stale_put_conflict [OF assms(1) x False, of now c] obtain e d'
        where "st_Put (ct_defaultStore ct) now c [Put_RevisionOpt n] d = (Inl e, d')" "dsame d d'" "IsConflict (Some e)" by blast
      with Inr run x False show ?thesis by (simp add: default_config_def)
    qed
  qed
qed

lemma Reset_mask:
  assumes "dinv d" "ainv s" "acur s = Some (v, r)"
    and "case Revision_number q of None \<Rightarrow> True | Some n \<Rightarrow> n = r"
  shows "case reset_config ct paths patch v (fst (default_config ct (dcur d))) of
      Inl e \<Rightarrow> tracker_Reset ct now (Some paths) patch [q] (d, s) = (Inl e, d, s)
    | Inr c \<Rightarrow> \<exists>s' r'. tracker_Reset ct now (Some paths) patch [q] (d, s) = (Inr (), d, s') \<and> ainv s'
        \<and> acur s' = Some (c, r') \<and> r < r'"
proof -
  have get: "st_Get (ct_activeStore ct) (maybeWithRevision [q] [Get_RevisionOutOpt True]) s = Inr (v, Some r)"
    using assms(2,3,4) a.get_cur a.get_at_cur by (auto split: option.splits)
  show ?thesis
  proof (cases "reset_config ct paths patch v (fst (default_config ct (dcur d)))")
    case (Inl e)
    with get default_get [OF assms(1)] show ?thesis
      by (simp add: tracker_Reset_def reset_config_def split_def)
  next
    case (Inr c)
    from a.cas_put_ok [OF assms(2,3), of now c] obtain ro s' r'
      where "st_Put (ct_activeStore ct) now c [Put_RevisionOpt r] s = (Inr ro, s')" "ainv s'"
        "acur s' = Some (c, r')" "r < r'" by blast
    with get Inr default_get [OF assms(1)] show ?thesis
      by (simp add: tracker_Reset_def reset_config_def split_def)
  qed
qed

lemma Reset_delete:
  assumes "ainv s" "acur s = Some (v, r)"
    and "case Revision_number q of None \<Rightarrow> True | Some n \<Rightarrow> n = r"
  shows "\<exists>s'. tracker_Reset ct now None patch [q] (d, s) = (Inr (), d, s') \<and> ainv s' \<and> acur s' = None"
proof -
  have get: "st_Get (ct_activeStore ct) (maybeWithRevision [q] [Get_RevisionOutOpt True]) s = Inr (v, Some r)"
    using assms a.get_cur a.get_at_cur by (auto split: option.splits)
  from a.delete_cas [OF assms(1,2), of "[Delete_RevisionOpt r]" now] obtain u
    where u: "fst (st_Delete (ct_activeStore ct) now [Delete_RevisionOpt r] s) = Inr u"
    by (auto simp: delete_options_def)
  with get a.delete_ok [OF assms(1) u] a.delete_inv [OF assms(1), of now "[Delete_RevisionOpt r]"] show ?thesis
    by (simp add: tracker_Reset_def split_def)
qed

lemma Reset_unset:
  assumes "ainv s" "acur s = None" "Revision_number q = None"
  shows "tracker_Reset ct now fm patch [q] (d, s) =
    (Inl (errorf_w ''error looking up config: %w'' ErrNotFound), d, s)"
  using assms by (simp add: tracker_Reset_def a.get_cur)

text \<open>Every handler preserves both stores' invariants, and one that fails leaves both the same.\<close>

lemma put_step:
  assumes "ainv s" "st_Put (ct_activeStore ct) now c os s = (r, s')"
  shows "ainv s'" "r = Inl e \<Longrightarrow> asame s s'"
  using a.put_inv [OF assms(1), of now c os] a.put_fail [OF assms(1), of now c os] assms(2) by auto

lemma put_default_step:
  assumes "dinv s" "st_Put (ct_defaultStore ct) now c os s = (r, s')"
  shows "dinv s'" "r = Inl e \<Longrightarrow> dsame s s'"
  using d.put_inv [OF assms(1), of now c os] d.put_fail [OF assms(1), of now c os] assms(2) by auto

lemma delete_step:
  assumes "ainv s" "st_Delete (ct_activeStore ct) now os s = (r, s')"
  shows "ainv s'" "r = Inl e \<Longrightarrow> asame s s'"
  using a.delete_inv [OF assms(1), of now os] a.delete_fail [OF assms(1), of now os] assms(2) by auto

lemma delete_default_step:
  assumes "dinv s" "st_Delete (ct_defaultStore ct) now os s = (r, s')"
  shows "dinv s'" "r = Inl e \<Longrightarrow> dsame s s'"
  using d.delete_inv [OF assms(1), of now os] d.delete_fail [OF assms(1), of now os] assms(2) by auto

lemmas store_steps = put_step put_default_step delete_step delete_default_step

lemma active_put_effect:
  assumes "ainv s" "(let (x, s') = st_Put (ct_activeStore ct) now c os s in (err_only x, d, s')) = (r, d', s')"
  shows "ainv s' \<and> (r = Inl e \<longrightarrow> asame s s') \<and> d' = d"
  using assms put_step [of s now c os] by (cases "st_Put (ct_activeStore ct) now c os s") auto

lemma default_put_effect:
  assumes "dinv d" "(let (x, d') = st_Put (ct_defaultStore ct) now c os d in (err_only x, d', s)) = (r, d', s')"
  shows "dinv d' \<and> (r = Inl e \<longrightarrow> dsame d d') \<and> s' = s"
  using assms put_default_step [of d now c os] by (cases "st_Put (ct_defaultStore ct) now c os d") auto

lemma map_sum_Inl: "map_sum f g x = Inl e \<Longrightarrow> \<exists>e'. x = Inl e'"
  by (cases x) auto

lemma active_delete_effect:
  assumes "ainv s" "(let (x, s') = st_Delete (ct_activeStore ct) now os s in (map_sum f id x, d, s')) = (r, d', s')"
  shows "ainv s' \<and> (r = Inl e \<longrightarrow> asame s s') \<and> d' = d"
  using assms delete_step [of s now os]
  by (cases "st_Delete (ct_activeStore ct) now os s") (auto dest: map_sum_Inl)

lemma default_delete_effect:
  assumes "dinv d" "(let (x, d') = st_Delete (ct_defaultStore ct) now os d in (map_sum f id x, d', s)) = (r, d', s')"
  shows "dinv d' \<and> (r = Inl e \<longrightarrow> dsame d d') \<and> s' = s"
  using assms delete_default_step [of d now os]
  by (cases "st_Delete (ct_defaultStore ct) now os d") (auto dest: map_sum_Inl)

lemma Apply_effect:
  assumes "dinv d" "ainv s" "Apply ct now c (d, s) = (r, d', s')"
  shows "ainv s' \<and> (r = Inl e \<longrightarrow> asame s s') \<and> d' = d"
proof (cases "getConfigOrDefaultLocked ct [GetRevision c] (d, s)")
  case (Inr x)
  then obtain v n where x: "x = (v, n)" by (cases x)
  show ?thesis
  proof (cases "applied ct v c")
    case app: (Inr c')
    with assms(3) Inr x have "(let (x, s') = st_Put (ct_activeStore ct) now c' [Put_RevisionOpt n] s
        in (err_only x, d, s')) = (r, d', s')" by (simp add: Apply_def applied_def)
    then show ?thesis by (rule active_put_effect [OF assms(2)])
  qed (use assms Inr x in \<open>auto simp add: Apply_def applied_def a.same_refl\<close>)
qed (use assms in \<open>auto simp add: Apply_def a.same_refl\<close>)

lemma SetDefault_effect:
  assumes "dinv d" "ainv s" "SetDefault ct now c (d, s) = (r, d', s')"
  shows "dinv d' \<and> (r = Inl e \<longrightarrow> dsame d d') \<and> s' = s"
proof (cases "new_default ct (fst (default_config ct (dcur d))) c")
  case (Inr c')
  then have "(let (x, d') = st_Put (ct_defaultStore ct) now c'
      [Put_RevisionOpt (Revision_GetRevision (GetRevision c))] d in (err_only x, d', s)) = (r, d', s')"
    using default_get [OF assms(1)] assms(3) by (simp add: SetDefault_def new_default_def split_def)
  then show ?thesis by (rule default_put_effect [OF assms(1)])
qed (use assms default_get [OF assms(1)] in \<open>auto simp add: SetDefault_def new_default_def split_def d.same_refl\<close>)

lemma Reset_effect:
  assumes "dinv d" "ainv s" "tracker_Reset ct now fm patch q (d, s) = (r, d', s')"
  shows "ainv s' \<and> (r = Inl e \<longrightarrow> asame s s') \<and> d' = d"
proof (cases "st_Get (ct_activeStore ct) (maybeWithRevision q [Get_RevisionOutOpt True]) s")
  case (Inr x)
  then obtain v ro where x: "x = (v, ro)" by (cases x)
  show ?thesis
  proof (cases fm)
    case None
    with assms(3) Inr x have "(let (x, s') = st_Delete (ct_activeStore ct) now
        [Delete_RevisionOpt (revision_out ro)] s in (map_sum (errorf_w ''error deleting config: %w'') id x, d, s'))
        = (r, d', s')" by (simp add: tracker_Reset_def)
    then show ?thesis by (rule active_delete_effect [OF assms(2)])
  next
    case (Some paths)
    show ?thesis
    proof (cases "reset_config ct paths patch v (fst (default_config ct (dcur d)))")
      case (Inr c)
      with assms(3) \<open>st_Get _ _ _ = _\<close> x Some default_get [OF assms(1)]
      have "(let (x, s') = st_Put (ct_activeStore ct) now c [Put_RevisionOpt (revision_out ro)] s
          in (err_only x, d, s')) = (r, d', s')" by (simp add: tracker_Reset_def reset_config_def split_def)
      then show ?thesis by (rule active_put_effect [OF assms(2)])
    qed (use assms Inr x Some default_get [OF assms(1)] in
        \<open>auto simp add: tracker_Reset_def reset_config_def split_def a.same_refl\<close>)
  qed
qed (use assms in \<open>auto simp add: tracker_Reset_def a.same_refl\<close>)

lemma ResetDefault_effect:
  assumes "dinv d" "ainv s" "ResetDefault ct now q (d, s) = (r, d', s')"
  shows "dinv d' \<and> (r = Inl e \<longrightarrow> dsame d d') \<and> s' = s"
proof (cases "case q of [] \<Rightarrow> Inr [] | r # _ \<Rightarrow> (case Revision_number r of
      None \<Rightarrow> Inl (go_panic ''nil dereference'') | Some n \<Rightarrow> Inr [Delete_RevisionOpt n])")
  case (Inr os)
  with assms(3) have "(let (x, d') = st_Delete (ct_defaultStore ct) now os d
      in (map_sum (errorf_w ''error resetting config: %w'') id x, d', s)) = (r, d', s')"
    unfolding ResetDefault_def by simp
  then show ?thesis by (rule default_delete_effect [OF assms(1)])
qed (use assms in \<open>auto simp add: ResetDefault_def d.same_refl\<close>)

lemma step_effect:
  assumes "dinv d" "ainv s" "tracker_step ct op (d, s) = (r, d', s')"
  shows "dinv d'" "ainv s'" "r = Inl e \<Longrightarrow> dsame d d' \<and> asame s s'"
    "if is_default_op (snd op) then s' = s else d' = d"
proof -
  obtain now o' where op: "op = (now, o')" by (cases op)
  note run = assms(3) [unfolded op]
  have "dinv d' \<and> ainv s' \<and> (r = Inl e \<longrightarrow> dsame d d' \<and> asame s s')
      \<and> (if is_default_op o' then s' = s else d' = d)" for e
  proof (cases o')
    case (Op_Apply c)
    with run have "Apply ct now c (d, s) = (r, d', s')" by simp
    from Apply_effect [OF assms(1,2) this, of e] assms(1,2) d.same_refl a.same_refl Op_Apply show ?thesis by auto
  next
    case (Op_SetDefault c)
    with run have "SetDefault ct now c (d, s) = (r, d', s')" by simp
    from SetDefault_effect [OF assms(1,2) this, of e] assms(1,2) d.same_refl a.same_refl Op_SetDefault show ?thesis by auto
  next
    case (Op_Reset fm patch q)
    with run have "tracker_Reset ct now fm patch q (d, s) = (r, d', s')" by simp
    from Reset_effect [OF assms(1,2) this, of e] assms(1,2) d.same_refl a.same_refl Op_Reset show ?thesis by auto
  next
    case (Op_ResetDefault q)
    with run have "ResetDefault ct now q (d, s) = (r, d', s')" by simp
    from ResetDefault_effect [OF assms(1,2) this, of e] assms(1,2) d.same_refl a.same_refl Op_ResetDefault show ?thesis by auto
  qed
  with op show "dinv d'" "ainv s'" "r = Inl e \<Longrightarrow> dsame d d' \<and> asame s s'"
    "if is_default_op (snd op) then s' = s else d' = d" by auto
qed

lemma run_inv:
  "dinv (fst st) \<Longrightarrow> ainv (snd st) \<Longrightarrow> dinv (fst (tracker_run ct ops st)) \<and> ainv (snd (tracker_run ct ops st))"
proof (induction ops arbitrary: st)
  case (Cons op ops)
  obtain r d' s' where "tracker_step ct op (fst st, snd st) = (r, d', s')"
    by (cases "tracker_step ct op (fst st, snd st)")
  with step_effect(1,2) [OF Cons.prems this] Cons.IH [of "(d', s')"] show ?case by simp
qed simp

end

text \<open>An exact active store also refuses a revision that never was the current one.\<close>

locale exact_tracker = tracker + exact: exact_store "ct_activeStore ct" ainv acur asame
begin

lemma Apply_stale:
  assumes "dinv d" "ainv s" "acur s = Some (v, r)"
    and "Revision_number (GetRevision newConfig) = Some n" "n \<noteq> r"
  shows "\<exists>e s'. Apply ct now newConfig (d, s) = (Inl e, d, s') \<and> asame s s'"
proof (rule Apply_other_base [OF assms(1-3)])
  fix c r' assume "getConfigOrDefaultLocked ct [GetRevision newConfig] (d, s) = Inr (c, r')"
  from base_revision_at [OF assms(4) this] a.cur_pos [OF assms(2,3)] assms(5)
    exact.get_exact [OF assms(2), of "[Get_RevisionOutOpt True, Get_RevisionOpt n]" n]
  show "r' \<noteq> r" by fastforce
qed

end

end
