(* ===== verification/TrackerProps.thy ===== *)
theory TrackerProps
  imports TrackerLemmas FieldMaskProps
begin

text \<open>
  The properties of the config tracker on the in-memory stores: the laws of the stores come from the
  interpretation of the \<open>value_store\<close> interface, the behaviour of the handlers from the \<open>tracker\<close>
  locale.
\<close>

section \<open>The tracker on in-memory stores\<close>

abbreviation inMemory_tracker ::
  "('t, 'v) ConfigType \<Rightarrow> ('t, 'v, pmsg inMemoryValueStore, pmsg inMemoryValueStore) DefaultingConfigTracker" where
  "inMemory_tracker ty \<equiv> NewDefaultingConfigTracker inMemory_ops inMemory_ops ty"

lemma NewDefaultingConfigTracker_sel [simp]:
  "ct_defaultStore (NewDefaultingConfigTracker ds as ty) = ds"
  "ct_activeStore (NewDefaultingConfigTracker ds as ty) = as"
  "ct_New (NewDefaultingConfigTracker ds as ty) = ct_New ty"
  "ct_defaultLoader (NewDefaultingConfigTracker ds as ty) = ct_defaultLoader ty"
  "ct_redact (NewDefaultingConfigTracker ds as ty) = ct_redact ty"
  "ct_fast (NewDefaultingConfigTracker ds as ty) = ct_fast ty"
  "ct_unredact (NewDefaultingConfigTracker ds as ty) = ct_unredact ty"
  "ct_Validate (NewDefaultingConfigTracker ds as ty) = ct_Validate ty"
  "ct_Normalize (NewDefaultingConfigTracker ds as ty) = ct_Normalize ty"
  "ct_IsValid (NewDefaultingConfigTracker ds as ty) = ct_IsValid ty"
  "ct_Append (NewDefaultingConfigTracker ds as ty) = ct_Append ty"
  "ct_art (NewDefaultingConfigTracker ds as ty) = ct_art ty"
  "ct_fast (NewDefaultingConfigTracker ds as ty) = ct_fast ty"
  by (simp_all add: NewDefaultingConfigTracker_def ConfigType.defs DefaultingConfigTracker.defs)

interpretation inmem_tracker:
  exact_tracker "inMemory_tracker ty" inMemory_inv inMemory_cur "(=)" inMemory_inv inMemory_cur "(=)"
  for ty :: "('t, 'v) ConfigType"
  by (simp add: exact_tracker_def tracker_def inmem.value_store_axioms inmem.exact_store_axioms)

lemma inMemory_New [simp]:
  "inMemory_inv (NewValueStore (\<lambda>x. x) z)" "inMemory_cur (NewValueStore (\<lambda>x. x) z) = None"
proof -
  have "refines (NewValueStore (\<lambda>x. x) z) []" by blast
  then show "inMemory_inv (NewValueStore (\<lambda>x. x) z)" "inMemory_cur (NewValueStore (\<lambda>x. x) z) = None"
    by (auto simp: inMemory_inv_def inMemory_cur_log log_current_def log_at_def NewValueStore_def)
qed

section \<open>An example type\<close>

definition ex_cfg :: "string option \<Rightarrow> bool option \<Rightarrow> int64 option \<Rightarrow> pmsg" where
  "ex_cfg name enabled r = Msg ''ex.Config''
     [(ex_revision_fd, map_option (\<lambda>n. VMsg (revision_msg (Some n) None)) r),
      (\<lparr>fd_Name = ''name'', fd_Kind = StringKind, fd_IsList = False, fd_IsMap = False, fd_Message = [], fd_Masked = False, fd_Oneof = []\<rparr>,
       map_option (VScalar \<circ> SString) name),
      (\<lparr>fd_Name = ''enabled'', fd_Kind = BoolKind, fd_IsList = False, fd_IsMap = False, fd_Message = [], fd_Masked = True, fd_Oneof = []\<rparr>,
       map_option (VScalar \<circ> SBool) enabled)] []"

definition ex_type :: "(unit alist_tree, unit) ConfigType" where
  "ex_type = \<lparr>ct_New = ex_cfg None None None, ct_defaultLoader = (\<lambda>_. ex_cfg (Some ''def'') (Some True) None),
     ct_redact = (\<lambda>m. m), ct_unredact = (\<lambda>m _. Inr m), ct_Validate = (\<lambda>_. Valid), ct_Normalize = ex_nrm,
     ct_IsValid = (\<lambda>_ _. True), ct_Append = (\<lambda>ps p. Inr (ps @ [p])), ct_art = alist_art,
     ct_fast = (\<lambda>_ _. None)\<rparr>"

abbreviation ex_store :: "pmsg inMemoryValueStore" where
  "ex_store \<equiv> NewValueStore (\<lambda>x. x) (ex_cfg None None None)"

definition ex_active :: "pmsg inMemoryValueStore" where
  "ex_active = snd (st_Put inMemory_ops 1 (ex_cfg (Some ''a'') (Some False) None) [] ex_store)"

lemma ex_active_cur: "inMemory_inv ex_active"
  "inMemory_cur ex_active = Some (ex_cfg (Some ''a'') (Some False) None, 1)"
proof -
  show "inMemory_inv ex_active" unfolding ex_active_def by (rule inmem.put_inv) simp
  show "inMemory_cur ex_active = Some (ex_cfg (Some ''a'') (Some False) None, 1)" by code_simp
qed

section \<open>Properties\<close>

text \<open>
  C9. Writes to a config tracker are all or nothing: after any sequence of \<open>Apply\<close>, \<open>SetDefault\<close>,
  \<open>Reset\<close> and \<open>ResetDefault\<close> requests on fresh in-memory stores, a request that returns an error has
  changed neither store, and one that succeeds has changed at most the store it is about. The stores'
  invariants hold throughout.
\<close>

theorem tracker_atomic:
  "case tracker_run (inMemory_tracker ty) ops (NewValueStore (\<lambda>x. x) z, NewValueStore (\<lambda>x. x) z) of (d, s) \<Rightarrow>
     (case tracker_step (inMemory_tracker ty) op (d, s) of (r, d', s') \<Rightarrow>
        inMemory_inv d' \<and> inMemory_inv s'
        \<and> (case r of Inl e \<Rightarrow> d' = d \<and> s' = s
           | Inr _ \<Rightarrow> if is_default_op (snd op) then s' = s else d' = d))"
proof -
  let ?st = "(NewValueStore (\<lambda>x. x) z, NewValueStore (\<lambda>x. x) z)"
  obtain d s where run: "tracker_run (inMemory_tracker ty) ops ?st = (d, s)"
    by (cases "tracker_run (inMemory_tracker ty) ops ?st")
  obtain r d' s' where step: "tracker_step (inMemory_tracker ty) op (d, s) = (r, d', s')"
    by (cases "tracker_step (inMemory_tracker ty) op (d, s)")
  from inmem_tracker.run_inv [of ?st ty ops] run have inv: "inMemory_inv d" "inMemory_inv s" by simp_all
  show ?thesis
  proof (cases r)
    case (Inl e)
    with inmem_tracker.step_effect(1,2) [OF inv step] inmem_tracker.step_effect(3) [OF inv step Inl]
    have "inMemory_inv d'" "inMemory_inv s'" "d' = d" "s' = s" by auto
    with Inl show ?thesis by (simp add: run step)
  next
    case (Inr u)
    with inmem_tracker.step_effect(1,2,4) [OF inv step] show ?thesis by (simp add: run step)
  qed
qed

text \<open>
  C11. \<open>Apply\<close> without a revision, or with the revision of the active configuration, merges the new
  configuration (its secrets restored) onto the active one, or onto the default if there is none, and
  stores the result, without a revision field, as the active configuration at a later revision. If the
  merge fails nothing is stored. The default configuration is unchanged either way.
\<close>

theorem apply_merges:
  assumes "inMemory_inv d" "inMemory_inv s"
    and "case Revision_number (GetRevision newConfig) of
           None \<Rightarrow> True | Some n \<Rightarrow> map_option snd (inMemory_cur s) = Some n"
  shows "case applied (inMemory_tracker ty) (fst (base_config (inMemory_tracker ty) (inMemory_cur d) (inMemory_cur s))) newConfig of
      Inl e \<Rightarrow> Apply (inMemory_tracker ty) now newConfig (d, s) = (Inl e, d, s)
    | Inr c \<Rightarrow> \<exists>s' r. Apply (inMemory_tracker ty) now newConfig (d, s) = (Inr (), d, s')
        \<and> inMemory_cur s' = Some (c, r)
        \<and> snd (base_config (inMemory_tracker ty) (inMemory_cur d) (inMemory_cur s)) < r"
proof -
  have "case Revision_number (GetRevision newConfig) of None \<Rightarrow> True | Some n \<Rightarrow> \<exists>v. inMemory_cur s = Some (v, n)"
    using assms(3) by (auto split: option.splits)
  from inmem_tracker.Apply_current [OF assms(1,2) this, of ty now] show ?thesis
    by (auto split: sum.splits)
qed

lemma apply_merges_witness:
  "\<exists>s' r. Apply (inMemory_tracker ex_type) 2 (ex_cfg (Some ''b'') None (Some 1)) (ex_store, ex_active) = (Inr (), ex_store, s')
     \<and> inMemory_cur s' = Some (ex_cfg (Some ''b'') (Some False) None, r) \<and> 1 < r"
proof -
  let ?c = "ex_cfg (Some ''b'') None (Some 1)"
  have "Revision_number (GetRevision ?c) = Some 1" by code_simp
  moreover have "applied (inMemory_tracker ex_type) (ex_cfg (Some ''a'') (Some False) None) ?c =
      Inr (ex_cfg (Some ''b'') (Some False) None)"
    unfolding applied_def by (simp add: ex_type_def) code_simp
  ultimately show ?thesis
    using apply_merges [of ex_store ex_active ?c ex_type 2] ex_active_cur by (simp add: base_config_def)
qed

text \<open>
  C12. \<open>Apply\<close> with a revision other than that of the active configuration fails and changes nothing,
  whatever the store answers to the lookup at that revision; in particular of two updates made from the
  same revision only one succeeds.
\<close>

theorem apply_stale_revision:
  assumes "inMemory_inv d" "inMemory_inv s" "inMemory_cur s = Some (v, r)"
    and "Revision_number (GetRevision newConfig) = Some n" "n \<noteq> r"
  shows "\<exists>e. Apply (inMemory_tracker ty) now newConfig (d, s) = (Inl e, d, s)"
  using inmem_tracker.Apply_stale [OF assms] by auto

lemma apply_stale_revision_witness:
  "\<exists>e. Apply (inMemory_tracker ex_type) 2 (ex_cfg (Some ''b'') None (Some 0)) (ex_store, ex_active) = (Inl e, ex_store, ex_active)"
proof -
  have "Revision_number (GetRevision (ex_cfg (Some ''b'') None (Some 0))) = Some 0" by code_simp
  then show ?thesis
    using apply_stale_revision [of ex_store ex_active "ex_cfg (Some ''a'') (Some False) None" 1
        "ex_cfg (Some ''b'') None (Some 0)" 0 ex_type 2] ex_active_cur by simp
qed

text \<open>
  \<open>SetDefault\<close> stores the given default, its secrets restored and its revision field cleared,
  without merging, exactly when the revision it carries (0 if none) is the one of the stored default (0
  if none is stored); with a stored default and another revision it fails with a conflict. The active
  configuration never changes.
\<close>

theorem set_default_cas:
  assumes "inMemory_inv d"
  shows "case new_default (inMemory_tracker ty) (fst (default_config (inMemory_tracker ty) (inMemory_cur d))) newDefault of
      Inl e \<Rightarrow> SetDefault (inMemory_tracker ty) now newDefault (d, s) = (Inl e, d, s)
    | Inr c \<Rightarrow>
        if Revision_GetRevision (GetRevision newDefault) = snd (default_config (inMemory_tracker ty) (inMemory_cur d))
        then \<exists>d' r. SetDefault (inMemory_tracker ty) now newDefault (d, s) = (Inr (), d', s)
          \<and> inMemory_cur d' = Some (c, r) \<and> Revision_GetRevision (GetRevision newDefault) < r
        else inMemory_cur d = None
          \<or> (\<exists>e. SetDefault (inMemory_tracker ty) now newDefault (d, s) = (Inl e, d, s) \<and> IsConflict (Some e))"
  using inmem_tracker.SetDefault_cases [OF assms, where ty = ty and newDefault = newDefault and now = now and s = s]
  by (auto simp del: err_preds split: sum.splits if_splits)

lemma set_default_cas_witness:
  "\<exists>d' r. SetDefault (inMemory_tracker ex_type) 2 (ex_cfg (Some ''b'') None (Some 1)) (ex_active, ex_store) = (Inr (), d', ex_store)
     \<and> inMemory_cur d' = Some (ex_cfg (Some ''b'') None None, r) \<and> 1 < r"
proof -
  let ?c = "ex_cfg (Some ''b'') None (Some 1)"
  have "Revision_GetRevision (GetRevision ?c) = 1" by code_simp
  moreover have "new_default (inMemory_tracker ex_type) (ex_cfg (Some ''a'') (Some False) None) ?c =
      Inr (ex_cfg (Some ''b'') None None)"
    unfolding new_default_def by (simp add: ex_type_def) code_simp
  ultimately show ?thesis
    using set_default_cas [where d = ex_active and ty = ex_type and newDefault = ?c and now = 2 and s = ex_store] ex_active_cur by (simp add: default_config_def)
qed

text \<open>
  \<open>Reset\<close> at the current revision: without a mask the active configuration is deleted; with one it
  is replaced by the default with the masked fields taken over from the active configuration and the
  patch. A mask that is invalid or has an empty path is an error, and without an active configuration
  there is nothing to reset.
\<close>

theorem reset_active:
  assumes "inMemory_inv d" "inMemory_inv s" "inMemory_cur s = Some (v, r)"
    and "case Revision_number q of None \<Rightarrow> True | Some n \<Rightarrow> n = r"
  shows "(\<exists>s'. tracker_Reset (inMemory_tracker ty) now None patch [q] (d, s) = (Inr (), d, s')
        \<and> inMemory_cur s' = None)
    \<and> (case reset_config (inMemory_tracker ty) paths patch v (fst (default_config (inMemory_tracker ty) (inMemory_cur d))) of
         Inl e \<Rightarrow> tracker_Reset (inMemory_tracker ty) now (Some paths) patch [q] (d, s) = (Inl e, d, s)
       | Inr c \<Rightarrow> \<exists>s' r'. tracker_Reset (inMemory_tracker ty) now (Some paths) patch [q] (d, s) = (Inr (), d, s')
           \<and> inMemory_cur s' = Some (c, r') \<and> r < r')"
  using inmem_tracker.Reset_delete [OF assms(2-4), where ty = ty and now = now and patch = patch and d = d]
    inmem_tracker.Reset_mask [OF assms, where ty = ty and now = now and patch = patch and paths = paths]
  by (auto split: sum.splits)

section \<open>Scalar fields through a reset\<close>

definition scalar_or_unset :: "pval option \<Rightarrow> bool" where
  "scalar_or_unset v = (case v of None \<Rightarrow> True | Some x \<Rightarrow> (case x of VScalar s \<Rightarrow> True | _ \<Rightarrow> False))"

lemma scalar_or_unset_simps [simp]: "scalar_or_unset None" "scalar_or_unset (Some (VScalar x))"
  by (simp_all add: scalar_or_unset_def)

lemma scalar_or_unset_cases: "scalar_or_unset v \<Longrightarrow> v = None \<or> (\<exists>x. v = Some (VScalar x))"
  by (auto simp: scalar_or_unset_def split: option.splits pval.splits)

declare keep_fields [simp]

lemma ExclusiveKeep_same [simp]: "same_descriptor (ExclusiveKeep A m fm) m' = same_descriptor m m'"
  by (cases m; cases fm) (simp_all add: ExclusiveKeep_def same_descriptor_def msg_fields_def split_def Let_def)

lemma keep_slot_get:
  "scalar_or_unset (slot_get n ss) \<Longrightarrow> slot_get n (fst (keep_slots A t pre ss)) =
     (if maskHasFieldOrPrefix A t (pre @ n) then slot_get n ss else None)"
proof (induction ss)
  case (Cons x ss)
  obtain fd w where x: "x = (fd, w)" by (cases x)
  show ?case
  proof (cases w)
    case None
    with Cons x show ?thesis by (auto simp: Let_def split_def)
  next
    case (Some v)
    with Cons x show ?thesis by (cases v) (auto simp: Let_def split_def scalar_or_unset_def)
  qed
qed simp

lemma ExclusiveKeep_get:
  assumes "art_laws A" "scalar_or_unset (msg_get n m)"
  shows "msg_get n (ExclusiveKeep A m (Some ps)) = (if \<exists>q \<in> set ps. prefix n q then msg_get n m else None)"
  using assms keep_slot_get [of n "msg_slots m" A "AsTree A ps" "[]"] AsTree_mask [OF assms(1), of ps]
  by (cases m) (simp add: ExclusiveKeep_def msg_get_def split_def Let_def mask_tree_def)

lemma ExclusiveKeep_exact:
  assumes "art_laws A" "n \<in> set ps"
  shows "msg_get n (ExclusiveKeep A m (Some ps)) = msg_get n m"
proof -
  have found: "maskHasFieldOrPrefix A (AsTree A ps) n" "maskHasExactField A (AsTree A ps) n"
    using AsTree_mask [OF assms(1), of ps] assms(2) by (auto simp: mask_tree_def)
  have "slot_get n (fst (keep_slots A (AsTree A ps) [] ss)) = slot_get n ss" for ss
  proof (induction ss)
    case (Cons x ss)
    obtain fd w where "x = (fd, w)" by (cases x)
    with Cons found show ?case by (cases w) (auto simp: Let_def split_def)
  qed simp
  then show ?thesis by (cases m) (simp add: ExclusiveKeep_def msg_get_def split_def Let_def)
qed

lemma merge_get_scalar:
  assumes "MergeWithReplace f dst src = Inr r" "\<not> is_time_message (msg_name src)" "scalar_or_unset (msg_get n src)"
    and "outside_oneofs n dst"
  shows "msg_get n r = (case msg_get n src of None \<Rightarrow> msg_get n dst | Some v \<Rightarrow> Some v)"
    and "same_descriptor r m = same_descriptor dst m"
  using merge_get [OF assms(1,2)] assms(3,4) scalar_or_unset_cases [OF assms(3)] by auto

text \<open>The two merges of a masked reset: their headers.\<close>

lemma masked_reset_merges:
  assumes "masked_reset ct ps patch active dflt = Inr c" "\<not> is_time_message (msg_name dflt)"
    and "ct_unredact ct patch (ExclusiveKeep (ct_art ct) active (Some ps)) = Inr patch'"
  obtains a where "MergeWithReplace (ct_fast ct) (ExclusiveKeep (ct_art ct) active (Some ps))
        (ExclusiveKeep (ct_art ct) patch' (Some ps)) = Inr a" "MergeWithReplace (ct_fast ct) dflt a = Inr c"
    "\<not> is_time_message (msg_name (ExclusiveKeep (ct_art ct) patch' (Some ps)))" "\<not> is_time_message (msg_name a)"
    "outside_oneofs n (ExclusiveKeep (ct_art ct) active (Some ps)) = outside_oneofs n dflt"
proof -
  let ?a = "ExclusiveKeep (ct_art ct) active (Some ps)" and ?p = "ExclusiveKeep (ct_art ct) patch' (Some ps)"
  from assms(1,3) obtain a where a: "MergeWithReplace (ct_fast ct) ?a ?p = Inr a" "MergeWithReplace (ct_fast ct) dflt a = Inr c"
    by (auto simp: masked_reset_def rbind_Inr)
  then have same: "same_descriptor ?a ?p" "same_descriptor a ?a" "same_descriptor dflt a"
    by (auto simp: MergeWithReplace_def MergeOptions_Merge_def split: if_splits)
  then have "same_descriptor ?a dflt" by (simp add: same_descriptor_def)
  from that [OF a] same assms(2) outside_oneofs_same [OF this, of n] show ?thesis by (simp add: same_descriptor_def)
qed

lemma masked_reset_get:
  assumes "art_laws (ct_art ct)" "\<not> is_time_message (msg_name dflt)"
    and "masked_reset ct ps patch active dflt = Inr c"
    and "ct_unredact ct patch (ExclusiveKeep (ct_art ct) active (Some ps)) = Inr patch'"
    and "scalar_or_unset (msg_get n active)" "scalar_or_unset (msg_get n patch')" "outside_oneofs n dflt"
  shows "msg_get n c =
    (if \<exists>q \<in> set ps. prefix n q
     then (case msg_get n patch' of Some x \<Rightarrow> Some x
           | None \<Rightarrow> (case msg_get n active of Some x \<Rightarrow> Some x | None \<Rightarrow> msg_get n dflt))
     else msg_get n dflt)"
proof -
  let ?a = "ExclusiveKeep (ct_art ct) active (Some ps)" and ?p = "ExclusiveKeep (ct_art ct) patch' (Some ps)"
  obtain a' where a': "MergeWithReplace (ct_fast ct) ?a ?p = Inr a'" "MergeWithReplace (ct_fast ct) dflt a' = Inr c"
    "\<not> is_time_message (msg_name ?p)" "\<not> is_time_message (msg_name a')" "outside_oneofs n ?a"
    using masked_reset_merges [OF assms(3,2,4), of n] assms(7) by blast
  note A = ExclusiveKeep_get [OF assms(1,5), of ps] and P = ExclusiveKeep_get [OF assms(1,6), of ps]
  have "scalar_or_unset (msg_get n ?p)" using P assms(6) by (simp add: scalar_or_unset_def)
  with merge_get_scalar(1) [OF a'(1,3) _ a'(5)]
  have g: "msg_get n a' = (case msg_get n ?p of None \<Rightarrow> msg_get n ?a | Some v \<Rightarrow> Some v)" by simp
  then have "scalar_or_unset (msg_get n a')"
    using A P assms(5,6) by (auto simp: scalar_or_unset_def split: option.splits)
  from merge_get_scalar(1) [OF a'(2,4) this assms(7)] g A P show ?thesis
    by (auto split: option.splits)
qed

text \<open>A field the mask names itself and the patch does not set: the active value, merged over the default.\<close>

lemma masked_reset_kept:
  assumes "art_laws (ct_art ct)" "\<not> is_time_message (msg_name dflt)"
    and "masked_reset ct ps patch active dflt = Inr c"
    and "ct_unredact ct patch (ExclusiveKeep (ct_art ct) active (Some ps)) = Inr patch'"
    and "n \<in> set ps" "msg_get n patch' = None" "outside_oneofs n dflt"
  shows "msg_get n c = (case msg_get n active of None \<Rightarrow> msg_get n dflt
      | Some x \<Rightarrow> Some (merge_field (ct_fast ct) replace_options (msg_get n dflt) x))"
proof -
  obtain a' where a': "MergeWithReplace (ct_fast ct) (ExclusiveKeep (ct_art ct) active (Some ps))
      (ExclusiveKeep (ct_art ct) patch' (Some ps)) = Inr a'" "MergeWithReplace (ct_fast ct) dflt a' = Inr c"
    "\<not> is_time_message (msg_name (ExclusiveKeep (ct_art ct) patch' (Some ps)))" "\<not> is_time_message (msg_name a')"
    "outside_oneofs n (ExclusiveKeep (ct_art ct) active (Some ps))"
    using masked_reset_merges [OF assms(3,2,4), of n] assms(7) by blast
  note K = ExclusiveKeep_exact [OF assms(1,5)]
  have "msg_get n a' = msg_get n active" using merge_get(1) [OF a'(1,3), of n] a'(5) K assms(6) by simp
  with merge_get(1) [OF a'(2,4), of n] assms(7) show ?thesis by simp
qed

lemma reset_config_layers:
  assumes "art_laws (ct_art ct)" "\<not> is_time_message (msg_name dflt)"
    and "reset_config ct paths patch active dflt = Inr c"
    and "ct_unredact ct patch (ExclusiveKeep (ct_art ct) active (Some (ct_Normalize ct paths))) = Inr patch'"
    and "scalar_or_unset (msg_get n active)" "scalar_or_unset (msg_get n patch')" "outside_oneofs n dflt"
  shows "msg_get n c =
    (if \<exists>q \<in> set (ct_Normalize ct paths). prefix n q
     then (case msg_get n patch' of Some x \<Rightarrow> Some x
           | None \<Rightarrow> (case msg_get n active of Some x \<Rightarrow> Some x | None \<Rightarrow> msg_get n dflt))
     else msg_get n dflt)"
proof -
  from assms(3) have "masked_reset ct (ct_Normalize ct paths) patch active dflt = Inr c"
    by (auto simp: reset_config_def check_mask_def Let_def rbind_Inr split: if_splits)
  from masked_reset_get [OF assms(1,2) this assms(4-7)] show ?thesis .
qed

text \<open>The result of a reset, read off its success.\<close>

lemma reset_stores:
  assumes "inMemory_inv d" "inMemory_inv s" "inMemory_cur s = Some (v, r)"
    and "tracker_Reset (inMemory_tracker ty) now (Some paths) patch [] (d, s) = (Inr (), d', s')"
  shows "\<exists>c r'. reset_config (inMemory_tracker ty) paths patch v
      (fst (default_config (inMemory_tracker ty) (inMemory_cur d))) = Inr c \<and> inMemory_cur s' = Some (c, r') \<and> d' = d"
proof -
  have "tracker_Reset (inMemory_tracker ty) now (Some paths) patch [None] (d, s) = (Inr (), d', s')"
    using assms(4) by (simp add: tracker_Reset_no_revision)
  with inmem_tracker.Reset_mask [OF assms(1,2,3), where q = None and ty = ty and now = now and patch = patch and paths = paths]
  show ?thesis by (auto split: sum.splits)
qed

section \<open>Properties of resets and dry runs\<close>

text \<open>
  C13. A successful \<open>Reset\<close> with a mask layers three configurations, scalar field by scalar field (those
  outside of oneofs, whose members exclude each other): outside the mask the default, inside it the patch, else the active configuration, else the default. (Inside
  the mask means that the field's name is a prefix of a normalised path.)
\<close>

theorem reset_layers:
  assumes "inMemory_inv d" "inMemory_inv s" "inMemory_cur s = Some (v, r)" "art_laws (ct_art ty)"
    and "tracker_Reset (inMemory_tracker ty) now (Some paths) patch [] (d, s) = (Inr (), d', s')"
    and "ct_unredact ty patch (ExclusiveKeep (ct_art ty) v (Some (ct_Normalize ty paths))) = Inr patch'"
    and "fst (default_config (inMemory_tracker ty) (inMemory_cur d)) = dflt" "\<not> is_time_message (msg_name dflt)"
    and "scalar_or_unset (msg_get n v)" "scalar_or_unset (msg_get n patch')" "outside_oneofs n dflt"
  shows "\<exists>c r'. inMemory_cur s' = Some (c, r') \<and>
    msg_get n c =
      (if \<exists>q \<in> set (ct_Normalize ty paths). prefix n q
       then (case msg_get n patch' of Some x \<Rightarrow> Some x
             | None \<Rightarrow> (case msg_get n v of Some x \<Rightarrow> Some x | None \<Rightarrow> msg_get n dflt))
       else msg_get n dflt)"
proof -
  from reset_stores [OF assms(1-3,5)] assms(7) obtain c r'
    where "reset_config (inMemory_tracker ty) paths patch v dflt = Inr c" "inMemory_cur s' = Some (c, r')" by auto
  with reset_config_layers [where ct = "inMemory_tracker ty" and n = n and paths = paths and patch' = patch'
      and patch = patch and active = v and dflt = dflt and c = c] assms
  show ?thesis by auto
qed

lemma ex_norm_wf: "ct_Normalize ex_type = ex_nrm" "ct_art ex_type = alist_art" "ct_unredact ex_type m x = Inr m"
  "ct_IsValid ex_type ps m" "ct_fast ex_type = (\<lambda>_ _. None)"
  by (simp_all add: ex_type_def)

lemma ex_reset_ok: "reset_config (inMemory_tracker ex_type) [''enabled''] (ex_cfg None None None)
    (ex_cfg (Some ''a'') (Some False) None) (ex_cfg (Some ''def'') (Some True) None) =
    Inr (ex_cfg (Some ''def'') (Some False) None)"
proof -
  have tree: "mask_tree alist_art (AsTree alist_art [''enabled'']) {''enabled''}"
    using AsTree_mask [OF ex_keep_laws, of "[''enabled'']"] by simp
  have keep: "ExclusiveKeep alist_art (ex_cfg name enabled None) (Some [''enabled'']) = ex_cfg None enabled None"
    for name enabled
    using tree by (cases name; cases enabled)
      (simp_all add: ExclusiveKeep_def ex_cfg_def mask_tree_def ex_revision_fd_def is_msg_field_def)
  have "ex_nrm [''enabled''] = [''enabled'']" by (simp add: ex_nrm_def)
  then show ?thesis
    by (simp add: reset_config_def check_mask_def masked_reset_def ex_norm_wf keep) code_simp
qed

lemma ex_default: "fst (default_config (inMemory_tracker ex_type) (inMemory_cur ex_store)) = ex_cfg (Some ''def'') (Some True) None"
  by (simp add: default_config_def newDefaultSpec_def ex_type_def)

lemma ex_reset_run: "\<exists>s'. tracker_Reset (inMemory_tracker ex_type) 2 (Some [''enabled'']) (ex_cfg None None None) []
    (ex_store, ex_active) = (Inr (), ex_store, s')"
proof -
  from inmem_tracker.Reset_mask [of ex_store ex_active, OF _ ex_active_cur, where q = None and ty = ex_type
      and now = 2 and patch = "ex_cfg None None None" and paths = "[''enabled'']"]
  show ?thesis unfolding ex_default by (auto simp: ex_reset_ok tracker_Reset_no_revision)
qed

lemma reset_active_witness:
  "\<exists>s'. tracker_Reset (inMemory_tracker ex_type) 2 None (ex_cfg None None None) [None] (ex_store, ex_active)
     = (Inr (), ex_store, s') \<and> inMemory_cur s' = None"
  using reset_active [of ex_store ex_active, OF _ ex_active_cur, where q = None and ty = ex_type and now = 2
      and patch = "ex_cfg None None None" and paths = "[]"] by simp

lemma reset_layers_witness:
  "\<exists>s' c r. tracker_Reset (inMemory_tracker ex_type) 2 (Some [''enabled'']) (ex_cfg None None None) []
     (ex_store, ex_active) = (Inr (), ex_store, s') \<and> inMemory_cur s' = Some (c, r)
     \<and> msg_get ''enabled'' c = Some (VScalar (SBool False))"
proof -
  from ex_reset_run obtain s' where run: "tracker_Reset (inMemory_tracker ex_type) 2 (Some [''enabled''])
      (ex_cfg None None None) [] (ex_store, ex_active) = (Inr (), ex_store, s')" by blast
  have "scalar_or_unset (msg_get ''enabled'' (ex_cfg (Some ''a'') (Some False) None))"
    "scalar_or_unset (msg_get ''enabled'' (ex_cfg None None None))"
    "msg_get ''enabled'' (ex_cfg (Some ''a'') (Some False) None) = Some (VScalar (SBool False))"
    "msg_get ''enabled'' (ex_cfg None None None) = None"
    "\<not> is_time_message (msg_name (ex_cfg (Some ''def'') (Some True) None))"
    "outside_oneofs ''enabled'' (ex_cfg (Some ''def'') (Some True) None)"
    "ex_nrm [''enabled''] = [''enabled'']" by code_simp+
  with reset_layers [OF _ ex_active_cur _ run, where n = "''enabled''" and patch' = "ex_cfg None None None"
      and dflt = "ex_cfg (Some ''def'') (Some True) None"] run
  show ?thesis unfolding ex_default by (auto simp: ex_norm_wf ex_keep_laws)
qed

end
