(* ===== verification/ServerProps.thy ===== *)
theory ServerProps
  imports Server TrackerProps
begin

text \<open>
  The properties of the config server: masked fields cannot be changed by \<open>Set\<close> and survive \<open>Reset\<close>,
  dry runs predict what the request would store, and one lookup error the tracker misreports.
\<close>

section \<open>Masked fields\<close>

text \<open>
  What the redaction of a type must keep to: restoring the secrets of a configuration does not populate
  the field, changes no scalar in it into something else, and \<open>Append\<close> accepts the fields of the type.
\<close>

definition leaves_field :: "('t, 'v) ConfigType \<Rightarrow> string \<Rightarrow> bool" where
  "leaves_field ty n \<longleftrightarrow>
     (\<forall>x y x'. ct_unredact ty x y = Inr x' \<longrightarrow> msg_get n x' = msg_get n x \<and> same_descriptor x' x)"

definition appends_paths :: "('t, 'v) ConfigType \<Rightarrow> bool" where
  "appends_paths ty \<longleftrightarrow> (\<forall>ps p. has_field p (ct_New ty) \<longrightarrow> ct_Append ty ps p = Inr (ps @ [p]))"

definition masked_field :: "('t, 'v) ConfigType \<Rightarrow> string \<Rightarrow> bool" where
  "masked_field ty n \<longleftrightarrow> n \<in> set (map fd_Name (MaskedFields (ct_New ty)))"

lemma clear_get:
  "msg_get n (foldl (\<lambda>t field. if msg_Has (fd_Name field) t then msg_Clear (fd_Name field) t else t) m fs) =
    (if n \<in> set (map fd_Name fs) then None else msg_get n m)"
  by (induction fs arbitrary: m) (auto simp: msg_get_put msg_Has_def)

lemma clear_same:
  "same_descriptor (foldl (\<lambda>t field. if msg_Has (fd_Name field) t then msg_Clear (fd_Name field) t else t) m fs) m'
    = same_descriptor m m'"
  by (induction fs arbitrary: m) auto

lemma clearMaskedFields_get:
  "msg_get n (clearMaskedFields (inMemory_tracker ty) m) = (if masked_field ty n then None else msg_get n m)"
  by (simp add: clearMaskedFields_def clear_get masked_field_def ct_maskedFields_def)

lemma append_masked_ok:
  assumes "appends_paths ty"
  shows "set fs \<subseteq> set (msg_fields (ct_New ty)) \<Longrightarrow>
    append_masked (ct_Append ty) ps fs = Inr (ps @ map fd_Name fs)"
proof (induction fs arbitrary: ps)
  case (Cons f fs)
  then have "has_field (fd_Name f) (ct_New ty)" by (simp add: has_field_def)
  with Cons assms show ?case by (simp add: appends_paths_def)
qed simp

lemma applied_get:
  assumes "applied (inMemory_tracker ty) base spec = Inr c" "leaves_field ty n" "msg_get n spec = None"
    and "n \<noteq> ''revision''" "has_revision base" "\<not> is_time_message (msg_name base)" "outside_oneofs n base"
  shows "msg_get n c = msg_get n base"
proof -
  from assms(1) obtain spec' m where m: "ct_unredact ty spec base = Inr spec'"
    "MergeWithReplace (ct_fast ty) base spec' = Inr m" "UnsetRevision m = Inr c"
    by (auto simp: applied_def rbind_Inr)
  with assms(2,3) have none: "msg_get n spec' = None" by (simp add: leaves_field_def)
  from m(2) have "msg_name spec' = msg_name base"
    by (auto simp: MergeWithReplace_def MergeOptions_Merge_def same_descriptor_def split: if_splits)
  with merge_get_scalar(1) [OF m(2), of n] merge_get_scalar(2) [OF m(2), of n base] none assms(6,7)
  have "msg_get n m = msg_get n base" "same_descriptor m base" by (simp_all add: scalar_or_unset_def)
  moreover from this(2) assms(5) have "has_revision m" by (simp add: has_revision_same)
  with m(3) have "c = unset_revision m" by (simp add: UnsetRevision_ok)
  ultimately show ?thesis using assms(4) by (simp add: unset_revision_get)
qed

text \<open>
  C14. \<open>Set\<close> cannot change a masked field outside of oneofs: after a successful request the stored
  configuration has the value the field had before, in the active configuration or, if there was none, in the
  default, whatever the request put there.
\<close>

theorem set_keeps_masked_field:
  assumes "inMemory_inv d" "inMemory_inv s"
    and "case Revision_number (GetRevision (clearMaskedFields (inMemory_tracker ty) spec)) of
           None \<Rightarrow> True | Some n \<Rightarrow> map_option snd (inMemory_cur s) = Some n"
    and "fst (base_config (inMemory_tracker ty) (inMemory_cur d) (inMemory_cur s)) = base"
    and "masked_field ty n" "leaves_field ty n" "n \<noteq> ''revision''" "has_revision base"
    and "\<not> is_time_message (msg_name base)" "outside_oneofs n base"
    and "server_Set (inMemory_tracker ty) now spec (d, s) = (Inr (), d', s')"
  shows "\<exists>c r. inMemory_cur s' = Some (c, r) \<and> msg_get n c = msg_get n base"
proof -
  let ?spec = "clearMaskedFields (inMemory_tracker ty) spec"
  have "case Revision_number (GetRevision ?spec) of None \<Rightarrow> True | Some n \<Rightarrow> \<exists>v. inMemory_cur s = Some (v, n)"
    using assms(3) by (auto split: option.splits)
  from inmem_tracker.Apply_current [OF assms(1,2) this, where ty = ty and now = now] assms(4,11)
  obtain c r where c: "applied (inMemory_tracker ty) base ?spec = Inr c" "inMemory_cur s' = Some (c, r)"
    by (auto simp: server_Set_def split: sum.splits)
  have "msg_get n ?spec = None" using assms(5) by (simp add: clearMaskedFields_get)
  from applied_get [OF c(1) assms(6) this assms(7-10)] c(2) show ?thesis by simp
qed

lemma ex_type_laws: "leaves_field ex_type n" "appends_paths ex_type" "masked_field ex_type ''enabled''"
  "norm_law (ct_Normalize ex_type)" "art_laws (ct_art ex_type)" "ct_New ex_type = ex_cfg None None None"
  by (simp_all add: leaves_field_def appends_paths_def ex_norm_wf ex_nrm_law ex_keep_laws)
    (simp_all add: masked_field_def MaskedFields_def msg_fields_def ex_cfg_def ex_type_def ex_revision_fd_def)

lemma ex_clear: "clearMaskedFields (inMemory_tracker ex_type) (ex_cfg name enabled None) = ex_cfg name None None"
  by (cases enabled) (simp_all add: clearMaskedFields_def ct_maskedFields_def ex_type_laws MaskedFields_def
      ex_cfg_def msg_fields_def ex_revision_fd_def msg_Has_def msg_get_def msg_put_def)

lemma ex_cfg_facts: "has_revision (ex_cfg name enabled r)" "\<not> is_time_message (msg_name (ex_cfg name enabled r))"
  "GetRevision (ex_cfg name enabled None) = None" "scalar_or_unset (msg_get ''enabled'' (ex_cfg name enabled r))"
  "msg_get ''enabled'' (ex_cfg name enabled r) = map_option (VScalar \<circ> SBool) enabled"
  "outside_oneofs n (ex_cfg name enabled r)"
  by (simp_all add: outside_oneofs_def has_revision_def GetRevisionFieldIndex_def msg_fields_def ex_cfg_def ex_revision_fd_def
      is_time_message_def GetRevision_def msg_get_def scalar_or_unset_def split: option.splits)

lemma ex_set_run: "\<exists>s'. server_Set (inMemory_tracker ex_type) 2 (ex_cfg (Some ''b'') (Some True) None) (ex_store, ex_active)
    = (Inr (), ex_store, s')"
proof -
  have "applied (inMemory_tracker ex_type) (ex_cfg (Some ''a'') (Some False) None) (ex_cfg (Some ''b'') None None) =
      Inr (ex_cfg (Some ''b'') (Some False) None)"
    unfolding applied_def by (simp add: ex_type_def) code_simp
  with inmem_tracker.Apply_current [of ex_store ex_active "ex_cfg (Some ''b'') None None" ex_type 2]
  show ?thesis by (auto simp: server_Set_def ex_clear ex_cfg_facts ex_active_cur base_config_def)
qed

lemma set_keeps_masked_field_witness:
  "\<exists>s' c r. server_Set (inMemory_tracker ex_type) 2 (ex_cfg (Some ''b'') (Some True) None) (ex_store, ex_active)
     = (Inr (), ex_store, s') \<and> inMemory_cur s' = Some (c, r) \<and> msg_get ''enabled'' c = Some (VScalar (SBool False))"
proof -
  from ex_set_run obtain s' where run: "server_Set (inMemory_tracker ex_type) 2 (ex_cfg (Some ''b'') (Some True) None)
      (ex_store, ex_active) = (Inr (), ex_store, s')" by blast
  from set_keeps_masked_field [OF _ ex_active_cur(1) _ _ ex_type_laws(3,1) _ _ _ _ run, of "ex_cfg (Some ''a'') (Some False) None"] run
  show ?thesis by (auto simp: ex_clear ex_cfg_facts ex_active_cur base_config_def)
qed

lemma Reset_masked:
  assumes "inMemory_inv d" "inMemory_inv s" "inMemory_cur s = Some (v, r)" "art_laws (ct_art ty)"
    and "norm_law (ct_Normalize ty)" "appends_paths ty" "masked_field ty n" "leaves_field ty n" "dotless n"
    and "fst (default_config (inMemory_tracker ty) (inMemory_cur d)) = dflt" "\<not> is_time_message (msg_name dflt)"
    and "outside_oneofs n dflt"
    and "server_Reset (inMemory_tracker ty) now req (d, s) = (Inr (), d', s')"
  shows "\<exists>c r'. inMemory_cur s' = Some (c, r')
    \<and> msg_get n c = (case msg_get n v of None \<Rightarrow> msg_get n dflt
        | Some x \<Rightarrow> Some (merge_field (ct_fast ty) replace_options (msg_get n dflt) x))"
proof -
  let ?ct = "inMemory_tracker ty" and ?fs = "MaskedFields (ct_New ty)"
  let ?ps = "(case rq_Mask req of None \<Rightarrow> [] | Some paths \<Rightarrow> paths) @ map fd_Name ?fs"
  let ?patch = "clearMaskedFields ?ct (rq_Patch req)"
  have fs: "ct_maskedFields ?ct = ?fs" "?fs \<noteq> []" "set ?fs \<subseteq> set (msg_fields (ct_New ty))"
    using assms(7) by (auto simp: ct_maskedFields_def masked_field_def MaskedFields_def filter_empty_conv)
  then have "tracker_Reset ?ct now (Some ?ps) ?patch [] (d, s) = (Inr (), d', s')"
    using assms(13) append_masked_ok [OF assms(6) fs(3)] by (simp add: server_Reset_def)
  from reset_stores [OF assms(1-3) this] assms(10) obtain c r'
    where c: "reset_config ?ct ?ps ?patch v dflt = Inr c" "inMemory_cur s' = Some (c, r')" by auto
  let ?qs = "ct_Normalize ty ?ps"
  from c(1) have reset: "masked_reset ?ct ?qs ?patch v dflt = Inr c"
    by (auto simp: reset_config_def check_mask_def Let_def rbind_Inr split: if_splits)
  then obtain patch' where patch': "ct_unredact ?ct ?patch (ExclusiveKeep (ct_art ?ct) v (Some ?qs)) = Inr patch'"
    by (auto simp: masked_reset_def Let_def rbind_Inr)
  with assms(7,8) have none: "msg_get n patch' = None"
    by (auto simp: leaves_field_def clearMaskedFields_get)
  have "\<not> (\<exists>q. prefix (q @ ''.'') n)" using assms(9) by (auto simp: dotless_def prefix_def)
  with assms(5,7) have "n \<in> set ?qs" by (auto simp: norm_law_def masked_field_def)
  from masked_reset_kept [OF _ assms(11) reset patch' this none assms(12)] assms(4) c(2) show ?thesis by (simp cong: option.case_cong)
qed

text \<open>
  A masked field inside a oneof is not kept: setting another member of the oneof, which \<open>Set\<close> may do, clears it.
\<close>

definition ex_oneof_cfg :: "string option \<Rightarrow> string option \<Rightarrow> pmsg" where
  "ex_oneof_cfg one other = Msg ''ex.Config''
     [(ex_revision_fd, None),
      (\<lparr>fd_Name = ''one'', fd_Kind = StringKind, fd_IsList = False, fd_IsMap = False, fd_Message = [], fd_Masked = True,
        fd_Oneof = ''choice''\<rparr>, map_option (VScalar \<circ> SString) one),
      (\<lparr>fd_Name = ''other'', fd_Kind = StringKind, fd_IsList = False, fd_IsMap = False, fd_Message = [], fd_Masked = False,
        fd_Oneof = ''choice''\<rparr>, map_option (VScalar \<circ> SString) other)] []"

definition ex_oneof_type :: "(unit alist_tree, unit) ConfigType" where
  "ex_oneof_type = ex_type\<lparr>ct_New := ex_oneof_cfg None None, ct_defaultLoader := \<lambda>_. ex_oneof_cfg None None\<rparr>"

theorem set_clears_masked_oneof_member:
  "masked_field ex_oneof_type ''one''
    \<and> (case server_Set (inMemory_tracker ex_oneof_type) 2 (ex_oneof_cfg None (Some ''b''))
         (ex_store, snd (st_Put inMemory_ops 1 (ex_oneof_cfg (Some ''a'') None) [] ex_store)) of
         (r, d, s) \<Rightarrow> r = Inr () \<and> map_option fst (inMemory_cur s) = Some (ex_oneof_cfg None (Some ''b'')))"
  unfolding masked_field_def by code_simp

text \<open>
  C15. \<open>Reset\<close> on a type with masked fields never deletes the active configuration, and whatever mask and patch
  the request has, a masked field outside of oneofs ends up as the active configuration's value merged over the
  default's: a scalar, list or map the active configuration sets is kept as it is, a message it sets takes over
  what it leaves unset from the default, and a field it does not set takes the default's value.
\<close>

theorem reset_keeps_masked_field:
  assumes "inMemory_inv d" "inMemory_inv s" "inMemory_cur s = Some (v, r)" "art_laws (ct_art ty)"
    and "norm_law (ct_Normalize ty)" "appends_paths ty" "masked_field ty n" "leaves_field ty n" "dotless n"
    and "fst (default_config (inMemory_tracker ty) (inMemory_cur d)) = dflt" "\<not> is_time_message (msg_name dflt)"
    and "outside_oneofs n dflt" "\<And>x. msg_get n v = Some x \<Longrightarrow> wf_val x \<and> no_unknown_val x"
    and "server_Reset (inMemory_tracker ty) now req (d, s) = (Inr (), d', s')"
  shows "\<exists>c r'. inMemory_cur s' = Some (c, r')
    \<and> msg_get n c = (case msg_get n v of
        None \<Rightarrow> msg_get n dflt
      | Some (VMsg m) \<Rightarrow>
          Some (VMsg (mergeMessage (ct_fast ty) replace_options (case msg_get n dflt of Some (VMsg dm) \<Rightarrow> dm | _ \<Rightarrow> msg_new m) m))
      | Some x \<Rightarrow> Some x)"
proof -
  from Reset_masked [OF assms(1-12,14)] obtain c r' where c: "inMemory_cur s' = Some (c, r')"
    "msg_get n c = (case msg_get n v of None \<Rightarrow> msg_get n dflt
        | Some x \<Rightarrow> Some (merge_field (ct_fast ty) replace_options (msg_get n dflt) x))" by blast
  show ?thesis
  proof (cases "msg_get n v")
    case (Some x)
    with assms(13) have "wf_val x" "no_unknown_val x" by simp_all
    with c Some merge_field_replaced [of x "ct_fast ty" "msg_get n dflt"] show ?thesis by (simp add: replaced_field_def)
  qed (use c in simp)
qed

lemma reset_keeps_masked_field_witness:
  "\<exists>s' c r. server_Reset (inMemory_tracker ex_type) 2
      \<lparr>rq_Mask = None, rq_Patch = ex_cfg None (Some True) None, rq_Revision = None\<rparr> (ex_store, ex_active)
    = (Inr (), ex_store, s') \<and> inMemory_cur s' = Some (c, r) \<and> msg_get ''enabled'' c = Some (VScalar (SBool False))"
proof -
  let ?req = "\<lparr>rq_Mask = None, rq_Patch = ex_cfg None (Some True) None, rq_Revision = None\<rparr>"
  have masked: "map fd_Name (MaskedFields (ex_cfg None None None)) = [''enabled'']"
    by (simp add: MaskedFields_def msg_fields_def ex_cfg_def ex_revision_fd_def)
  have "append_masked (ct_Append ex_type) [] (MaskedFields (ex_cfg None None None)) = Inr [''enabled'']"
    using append_masked_ok [OF ex_type_laws(2), of "MaskedFields (ex_cfg None None None)" "[]"] masked
    by (simp add: ex_type_laws MaskedFields_def)
  moreover have "MaskedFields (ex_cfg None None None) \<noteq> []" using masked by auto
  moreover from ex_reset_run obtain s' where "tracker_Reset (inMemory_tracker ex_type) 2 (Some [''enabled''])
      (ex_cfg None None None) [] (ex_store, ex_active) = (Inr (), ex_store, s')" by blast
  ultimately have run: "server_Reset (inMemory_tracker ex_type) 2 ?req (ex_store, ex_active) = (Inr (), ex_store, s')"
    by (simp add: server_Reset_def ct_maskedFields_def ex_type_laws ex_clear)
  from reset_keeps_masked_field [OF _ ex_active_cur ex_type_laws(5,4,2,3,1) _ _ _ _ _ run] run
  show ?thesis unfolding ex_default by (auto simp: ex_cfg_facts dotless_def)
qed

text \<open>The revision of a reset request is not looked at.\<close>

lemma reset_ignores_revision:
  "server_Reset ct now (req\<lparr>rq_Revision := r\<rparr>) st = server_Reset ct now req st"
  by (simp add: server_Reset_def split: sum.split)

section \<open>Dry runs\<close>

definition redact_keeps_revision :: "('t, 'v) ConfigType \<Rightarrow> bool" where
  "redact_keeps_revision ty \<longleftrightarrow>
     (\<forall>m. same_descriptor (ct_redact ty m) m \<and> GetRevision (ct_redact ty m) = GetRevision m)"

lemma merged_same:
  "MergeWithReplace f dst src = Inr m \<Longrightarrow> same_descriptor m x = same_descriptor dst x"
  by (auto simp: MergeWithReplace_def MergeOptions_Merge_def split: if_splits)

context tracker
begin

lemma DryRunApply_predicts:
  assumes "dinv d" "ainv s"
    and "case GetRevision newConfig of None \<Rightarrow> True
         | Some v \<Rightarrow> Revision_number (Some v) \<noteq> None \<and> map_option snd (acur s) = Revision_number (Some v)"
    and "base_config ct (dcur d) (acur s) = (base, r)"
    and "has_revision base" "GetRevision base = None"
    and redact: "\<And>m. same_descriptor (ct_redact ct m) m" "\<And>m. GetRevision (ct_redact ct m) = GetRevision m"
  shows "case applied ct base newConfig of
      Inl e \<Rightarrow> DryRunApply ct newConfig (d, s) = Inl e \<and> Apply ct now newConfig (d, s) = (Inl e, d, s)
    | Inr c \<Rightarrow>
        (\<exists>m. c = unset_revision m
          \<and> DryRunApply ct newConfig (d, s) =
              dry_run_results ct (ct_redact ct base) (unset_revision (ct_redact ct m)))
        \<and> (\<exists>s' r'. Apply ct now newConfig (d, s) = (Inr (), d, s') \<and> acur s' = Some (c, r'))"
proof -
  have cur: "case Revision_number (GetRevision newConfig) of None \<Rightarrow> True | Some n \<Rightarrow> \<exists>v. acur s = Some (v, n)"
    using assms(3) by (auto split: option.splits)
  have "\<not> revision_mismatch newConfig r"
    using assms(3,4) by (cases "GetRevision newConfig"; cases "acur s")
      (auto simp: revision_mismatch_def Revision_GetRevision_def base_config_def)
  then have dry: "DryRunApply ct newConfig (d, s) =
      rbind (ct_unredact ct newConfig base) (\<lambda>newConfig.
      rbind (MergeWithReplace (ct_fast ct) base newConfig) (\<lambda>m.
        rbind (CopyRevision (ct_redact ct m) (ct_redact ct base)) (dry_run_results ct (ct_redact ct base))))"
    using active_or_default_get [OF assms(1,2)] assms(4)
    by (simp add: DryRunApply_def Let_def)
  have keeps: "has_revision (ct_redact ct m) = has_revision m" "GetRevision (ct_redact ct m) = GetRevision m" for m
    using redact has_revision_same [of "ct_redact ct m" m] by simp_all
  have merged: "has_revision m" if "MergeWithReplace (ct_fast ct) base x = Inr m" for m x
    using merged_same [OF that, of base] has_revision_same [of m base] assms(5) by simp
  note runs = Apply_current [OF assms(1,2) cur, of now, unfolded assms(4) fst_conv]
  show ?thesis
  proof (cases "ct_unredact ct newConfig base")
    case (Inl e)
    with runs dry show ?thesis by (simp add: applied_def)
  next
    case x: (Inr x)
    show ?thesis
    proof (cases "MergeWithReplace (ct_fast ct) base x")
      case (Inl e)
      with runs dry x show ?thesis by (simp add: applied_def)
    next
      case (Inr m)
      from merged [OF Inr] have "applied ct base newConfig = Inr (unset_revision m)"
        using x Inr by (simp add: applied_def UnsetRevision_ok)
      moreover have "CopyRevision (ct_redact ct m) (ct_redact ct base) = Inr (unset_revision (ct_redact ct m))"
        using merged [OF Inr] keeps assms(6) by (simp add: CopyRevision_def UnsetRevision_ok)
      ultimately show ?thesis using runs dry x Inr by auto
    qed
  qed
qed

end

text \<open>
  C16. A dry run of \<open>Apply\<close> predicts it for a request whose configuration has no revision message, or one with the
  number of the active configuration's revision, when the base configuration has a revision field that is not set (as
  stored configurations do) and redaction keeps the revision: both fail with the same error or both get through the
  merge; then the configuration the dry run shows as modified (and validates) is the redacted form of the one
  \<open>Apply\<close> stores, and the one it shows as current the redacted form of the one that is replaced. (Validation itself
  can only fail the dry run. A revision message without a number is the case of \<open>dry_run_unnumbered_revision\<close>.)
\<close>

theorem dry_run_apply_predicts:
  assumes "inMemory_inv d" "inMemory_inv s"
    and "case GetRevision newConfig of None \<Rightarrow> True
         | Some v \<Rightarrow> Revision_number (Some v) \<noteq> None \<and> map_option snd (inMemory_cur s) = Revision_number (Some v)"
    and "base_config (inMemory_tracker ty) (inMemory_cur d) (inMemory_cur s) = (base, r)"
    and "has_revision base" "GetRevision base = None" "redact_keeps_revision ty"
  shows "case applied (inMemory_tracker ty) base newConfig of
      Inl e \<Rightarrow> DryRunApply (inMemory_tracker ty) newConfig (d, s) = Inl e
        \<and> Apply (inMemory_tracker ty) now newConfig (d, s) = (Inl e, d, s)
    | Inr c \<Rightarrow>
        (\<exists>m. c = unset_revision m
          \<and> DryRunApply (inMemory_tracker ty) newConfig (d, s) =
              dry_run_results (inMemory_tracker ty) (ct_redact ty base) (unset_revision (ct_redact ty m)))
        \<and> (\<exists>s' r'. Apply (inMemory_tracker ty) now newConfig (d, s) = (Inr (), d, s')
          \<and> inMemory_cur s' = Some (c, r'))"
proof -
  have "same_descriptor (ct_redact (inMemory_tracker ty) m) m"
    "GetRevision (ct_redact (inMemory_tracker ty) m) = GetRevision m" for m
    using assms(7) by (simp_all add: redact_keeps_revision_def)
  from inmem_tracker.DryRunApply_predicts [OF assms(1-6) this, of now] show ?thesis
    by (cases "applied (inMemory_tracker ty) base newConfig") simp_all
qed

lemma dry_run_apply_predicts_witness:
  "DryRunApply (inMemory_tracker ex_type) (ex_cfg (Some ''b'') None None) (ex_store, ex_active) =
     Inr \<lparr>dr_Current = ex_cfg (Some ''a'') (Some False) None, dr_Modified = ex_cfg (Some ''b'') (Some False) None,
       dr_ValidationErrors = None\<rparr>"
proof -
  let ?c = "ex_cfg (Some ''b'') None None" and ?b = "ex_cfg (Some ''a'') (Some False) None"
  have keeps: "redact_keeps_revision ex_type" "ct_redact ex_type = (\<lambda>m. m)" "ct_Validate ex_type m = Valid" for m
    by (simp_all add: redact_keeps_revision_def ex_type_def)
  have "applied (inMemory_tracker ex_type) ?b ?c = Inr (ex_cfg (Some ''b'') (Some False) None)"
    unfolding applied_def by (simp add: ex_type_def) code_simp
  with dry_run_apply_predicts [of ex_store ex_active ?c ex_type ?b 1, where now = 2] keeps ex_active_cur
  obtain m where "ex_cfg (Some ''b'') (Some False) None = unset_revision m"
    "DryRunApply (inMemory_tracker ex_type) ?c (ex_store, ex_active) =
      dry_run_results (inMemory_tracker ex_type) ?b (unset_revision m)"
    by (auto simp: ex_cfg_facts base_config_def)
  then show ?thesis using keeps by (simp add: dry_run_results_def runValidation_def)
qed

text \<open>
  A revision message without a number is no condition for \<open>Apply\<close>, which stores the merged configuration, but a conflict
  for its dry run whenever there is an active configuration.
\<close>

theorem dry_run_unnumbered_revision:
  assumes "inMemory_inv d" "inMemory_inv s" "inMemory_cur s = Some (base, r)"
    and "GetRevision newConfig = Some v" "Revision_number (Some v) = None"
    and "applied (inMemory_tracker ty) base newConfig = Inr c"
  shows "DryRunApply (inMemory_tracker ty) newConfig (d, s) = Inl ErrConflict
    \<and> (\<exists>s' r'. Apply (inMemory_tracker ty) now newConfig (d, s) = (Inr (), d, s') \<and> inMemory_cur s' = Some (c, r'))"
proof -
  from inmem.cur_pos [OF assms(2,3)] have "r \<noteq> 0" by simp
  with assms(4,5) have "revision_mismatch newConfig r"
    by (simp add: revision_mismatch_def Revision_GetRevision_def)
  then have "DryRunApply (inMemory_tracker ty) newConfig (d, s) = Inl ErrConflict"
    using inmem_tracker.active_or_default_get [OF assms(1,2), where ty = ty] assms(3)
    by (simp add: DryRunApply_def base_config_def)
  moreover have "case Revision_number (GetRevision newConfig) of None \<Rightarrow> True | Some n \<Rightarrow> \<exists>v. inMemory_cur s = Some (v, n)"
    using assms(4,5) by simp
  from inmem_tracker.Apply_current [OF assms(1,2) this, where ty = ty and now = now] assms(3,6)
  have "\<exists>s' r'. Apply (inMemory_tracker ty) now newConfig (d, s) = (Inr (), d, s') \<and> inMemory_cur s' = Some (c, r')"
    by (auto simp: base_config_def)
  ultimately show ?thesis ..
qed

section \<open>A misreported error\<close>

text \<open>
  When there is no active configuration and the lookup of the default fails with something other
  than "not found", the tracker returns the active store's error: the caller sees "not found" for what
  was, say, an unavailable store.
\<close>

theorem default_error_misreported:
  assumes "st_Get (ct_activeStore ct) [Get_RevisionOutOpt True] s = Inl e" "IsNotFound (Some e)"
    and "st_Get (ct_defaultStore ct) [] d = Inl e'" "\<not> IsNotFound (Some e')"
  shows "\<exists>f. GetActiveOrDefault ct [] (d, s) = Inl f \<and> IsNotFound (Some f)
    \<and> getConfigOrDefaultLocked ct [] (d, s) = Inl (errorf_w ''error looking up default config: %w'' e)"
  using assms by (simp add: GetActiveOrDefault_def getConfigOrDefaultLocked_def)

definition failing_store :: "err \<Rightarrow> (unit, pmsg) ValueStoreT" where
  "failing_store e = \<lparr>st_Put = (\<lambda>_ _ _ s. (Inl e, s)), st_Get = (\<lambda>_ _. Inl e),
     st_Delete = (\<lambda>_ _ s. (Inl e, s)), st_History = (\<lambda>_ _. Inl e)\<rparr>"

lemma default_error_misreported_witness:
  "\<exists>f. GetActiveOrDefault (NewDefaultingConfigTracker (failing_store (status_error Internal ''io'')) inMemory_ops ex_type)
     [] ((), ex_store) = Inl f \<and> IsNotFound (Some f)"
proof -
  let ?ct = "NewDefaultingConfigTracker (failing_store (status_error Internal ''io'')) inMemory_ops ex_type"
  have "st_Get (ct_activeStore ?ct) [Get_RevisionOutOpt True] ex_store = Inl ErrNotFound"
    using inmem.get_cur [of ex_store "[Get_RevisionOutOpt True]"] by simp
  moreover have "st_Get (ct_defaultStore ?ct) [] () = Inl (status_error Internal ''io'')"
    by (simp add: failing_store_def)
  ultimately show ?thesis using default_error_misreported [of ?ct ex_store ErrNotFound "()"] by auto
qed

end
