(* ===== verification/KVStore.thy ===== *)
theory KVStore
  imports ValueStore Art
begin

text \<open>
  \<open>storage/inmemory/kv_store.go\<close>: the in-memory key-value store, a radix tree of value stores. The tree
  holds pointers to the value stores and nothing shares them, so a leaf holds the value store itself
  here, and a write to it puts the changed store back. The tree's operations are the parameter \<open>A\<close>.

  An active watch is its key, whether it is for a prefix, the revision it passes to the watches of the
  value stores, the keys it has such a watch on, and what was handed to it so far: the replay of
  each store when it was added, then every event of its stores. The forwarding goroutines preserve the
  order of the events of one key. A watch of a value store that finds its channel full gives up, and the active
  watch no longer has a watch on that key; when that happens is up to the scheduler (\<open>watch_gives_up\<close>). How the
  events get through the channels of one watch is the subject of \<open>ValueWatch\<close>. Where the code ranges over a Go map, whose order is unspecified, the
  order of the list here stands for whatever order that was.
\<close>

section \<open>State\<close>

record 'a activeWatch =
  aw_key :: string
  aw_Prefix :: bool
  aw_Revision :: "int64 option"
  aw_watchedStores :: "string list"
  aw_ch :: "'a WatchEvent list"

record ('t, 'a) inMemoryKeyValueStore =
  ks_newValueStore :: "string \<Rightarrow> 'a inMemoryValueStore"
  ks_keys :: 't
  ks_watches :: "'a activeWatch list"

type_synonym ('t, 'a) kv_art = "('t, 'a inMemoryValueStore) art_ops"

definition NewCustomKeyValueStore ::
  "('t, 'a) kv_art \<Rightarrow> (string \<Rightarrow> 'a inMemoryValueStore) \<Rightarrow> ('t, 'a) inMemoryKeyValueStore" where
  "NewCustomKeyValueStore A newValueStore =
     \<lparr>ks_newValueStore = newValueStore, ks_keys = art_New A, ks_watches = []\<rparr>"

definition NewKeyValueStore ::
  "('t, 'a) kv_art \<Rightarrow> ('a \<Rightarrow> 'a) \<Rightarrow> 'a \<Rightarrow> ('t, 'a) inMemoryKeyValueStore" where
  "NewKeyValueStore A cloneFunc zero = NewCustomKeyValueStore A (\<lambda>_. NewValueStore cloneFunc zero)"

definition validateKey :: "string \<Rightarrow> err option" where
  "validateKey key = (if key = [] then Some (status_error InvalidArgument ''key cannot be empty'') else None)"

section \<open>Watches\<close>

definition matchesKey :: "'a activeWatch \<Rightarrow> string \<Rightarrow> bool" where
  "matchesKey w k = (if aw_Prefix w then prefix (aw_key w) k else k = aw_key w)"

text \<open>The options a watch passes on: the revision, if it has one.\<close>

definition vsOpts :: "int64 option \<Rightarrow> WatchOpt list" where
  "vsOpts r = (case r of None \<Rightarrow> [] | Some n \<Rightarrow> [Watch_RevisionOpt n])"

definition with_key :: "string \<Rightarrow> 'a WatchEvent \<Rightarrow> 'a WatchEvent" where
  "with_key key = map_event_revisions (SetKey key)"

definition addWatch ::
  "string \<Rightarrow> 'a inMemoryValueStore \<Rightarrow> 'a activeWatch \<Rightarrow> 'a activeWatch result" where
  "addWatch key vs w =
     (case vs_Watch (vsOpts (aw_Revision w)) vs of
        Inl e \<Rightarrow> Inl e
      | Inr events \<Rightarrow>
          Inr (w\<lparr>aw_watchedStores := aw_watchedStores w @ [key], aw_ch := aw_ch w @ map (with_key key) events\<rparr>))"

text \<open>The loop of \<open>Watch\<close> over the matching stores: the watch, and the errors.\<close>

fun add_matching ::
  "(string \<times> 'a inMemoryValueStore) list \<Rightarrow> 'a activeWatch \<Rightarrow> 'a activeWatch \<times> err list" where
  "add_matching [] w = (w, [])"
| "add_matching ((key, vs) # stores) w =
     (case addWatch key vs w of
        Inl e \<Rightarrow> (let (w', errs) = add_matching stores w in (w', e # errs))
      | Inr w' \<Rightarrow> add_matching stores w')"

text \<open>
  \<open>errors.Join\<close>: of its errors, the status package finds the first that carries a status.
\<close>

definition errors_Join :: "err list \<Rightarrow> err" where
  "errors_Join errs = hd errs"

definition kv_Watch ::
  "('t, 'a) kv_art \<Rightarrow> string \<Rightarrow> WatchOpt list \<Rightarrow> ('t, 'a) inMemoryKeyValueStore
     \<Rightarrow> 'a WatchEvent list result \<times> ('t, 'a) inMemoryKeyValueStore" where
  "kv_Watch A key opts s =
     (case validateKey key of
        Some e \<Rightarrow> (Inl e, s)
      | None \<Rightarrow>
          let options = watch_options opts;
              matchingStores =
                (if watch_Prefix options then art_leaves (art_ForEachPrefix A (ks_keys s) key)
                 else (case art_Search A (ks_keys s) key of None \<Rightarrow> [] | Some vs \<Rightarrow> [(key, vs)]));
              (watch, errs) = add_matching matchingStores
                \<lparr>aw_key = key, aw_Prefix = watch_Prefix options, aw_Revision = watch_Revision options,
                 aw_watchedStores = [], aw_ch = []\<rparr>
          in if length matchingStores > 0 \<and> length errs = length matchingStores
             then (Inl (errors_Join errs), s)
             else (Inr (aw_ch watch), s\<lparr>ks_watches := ks_watches s @ [watch]\<rparr>))"

text \<open>When the context of a watch is done, the watch is removed; \<open>i\<close> is its position.\<close>

definition kv_Watch_done :: "nat \<Rightarrow> ('t, 'a) inMemoryKeyValueStore \<Rightarrow> ('t, 'a) inMemoryKeyValueStore" where
  "kv_Watch_done i s = s\<lparr>ks_watches := take i (ks_watches s) @ drop (Suc i) (ks_watches s)\<rparr>"

text \<open>
  The watch on the store of a key gives up: its goroutine returns, and the store no longer calls it. \<open>i\<close> is the
  position of the active watch.
\<close>

definition watch_gives_up :: "nat \<Rightarrow> string \<Rightarrow> ('t, 'a) inMemoryKeyValueStore \<Rightarrow> ('t, 'a) inMemoryKeyValueStore" where
  "watch_gives_up i key s =
     s\<lparr>ks_watches := (ks_watches s)
        [i := (ks_watches s ! i)\<lparr>aw_watchedStores := removeAll key (aw_watchedStores (ks_watches s ! i))\<rparr>]\<rparr>"

text \<open>What a store sends to its listeners is handed to every watch that has a watch on it.\<close>

definition notify :: "string \<Rightarrow> 'a WatchEvent option \<Rightarrow> 'a activeWatch list \<Rightarrow> 'a activeWatch list" where
  "notify key ev ws =
     (case ev of None \<Rightarrow> ws
      | Some e \<Rightarrow> map (\<lambda>w. if key \<in> set (aw_watchedStores w) then w\<lparr>aw_ch := aw_ch w @ [with_key key e]\<rparr> else w) ws)"

section \<open>Reads\<close>

definition kvs_Get ::
  "('t, 'a) kv_art \<Rightarrow> string \<Rightarrow> GetOpt list \<Rightarrow> ('t, 'a) inMemoryKeyValueStore \<Rightarrow> ('a \<times> int64 option) result" where
  "kvs_Get A key opts s =
     (case validateKey key of
        Some e \<Rightarrow> Inl e
      | None \<Rightarrow>
          (case art_Search A (ks_keys s) key of
             None \<Rightarrow> Inl ErrNotFound
           | Some vs \<Rightarrow> vs_Get opts vs))"

definition kvs_History ::
  "('t, 'a) kv_art \<Rightarrow> string \<Rightarrow> HistoryOpt list \<Rightarrow> ('t, 'a) inMemoryKeyValueStore
     \<Rightarrow> 'a KeyRevisionImpl list result" where
  "kvs_History A key opts s =
     (case validateKey key of
        Some e \<Rightarrow> Inl e
      | None \<Rightarrow>
          (case art_Search A (ks_keys s) key of
             None \<Rightarrow> Inl ErrNotFound
           | Some vs \<Rightarrow>
               (case vs_History opts vs of
                  Inl e \<Rightarrow> Inl e
                | Inr elems \<Rightarrow> Inr (map (\<lambda>k. k\<lparr>kr_K := key\<rparr>) elems))))"

text \<open>
  The callback of \<open>ListKeys\<close> over the visited nodes: a store without a current value is passed over, and
  the visit stops when the limit is reached.
\<close>

fun list_keys ::
  "int64 option \<Rightarrow> string list \<Rightarrow> 'a inMemoryValueStore art_node list \<Rightarrow> string list" where
  "list_keys limit ks [] = ks"
| "list_keys limit ks (art_Leaf k vs # nodes) =
     (case vs_Get [] vs of
        Inl e \<Rightarrow> list_keys limit ks nodes
      | Inr v \<Rightarrow>
          (let ks' = ks @ [k] in
           if limit = None \<or> int (length ks') < the limit then list_keys limit ks' nodes else ks'))"
| "list_keys limit ks (art_Inner # nodes) =
     (if limit = None \<or> int (length ks) < the limit then list_keys limit ks nodes else ks)"

definition kvs_ListKeys ::
  "('t, 'a) kv_art \<Rightarrow> string \<Rightarrow> ListOpt list \<Rightarrow> ('t, 'a) inMemoryKeyValueStore \<Rightarrow> string list result" where
  "kvs_ListKeys A pre opts s =
     (let options = list_options opts in
      Inr (list_keys (list_Limit options) [] (art_ForEachPrefix A (ks_keys s) pre)))"

section \<open>Writes\<close>

text \<open>The loop of \<open>Put\<close> that adds a new key's store to the watches it matches; it stops at an error.\<close>

fun watch_new_key ::
  "string \<Rightarrow> 'a inMemoryValueStore \<Rightarrow> 'a activeWatch list \<Rightarrow> err option \<times> 'a activeWatch list" where
  "watch_new_key key vst [] = (None, [])"
| "watch_new_key key vst (w # ws) =
     (if matchesKey w key then
        (case addWatch key vst w of
           Inl e \<Rightarrow> (Some e, w # ws)
         | Inr w' \<Rightarrow> (let (e, ws') = watch_new_key key vst ws in (e, w' # ws')))
      else (let (e, ws') = watch_new_key key vst ws in (e, w # ws')))"

definition put_store ::
  "('t, 'a) kv_art \<Rightarrow> time \<Rightarrow> string \<Rightarrow> 'a \<Rightarrow> PutOpt list \<Rightarrow> 'a inMemoryValueStore
     \<Rightarrow> ('t, 'a) inMemoryKeyValueStore \<Rightarrow> int64 option result \<times> ('t, 'a) inMemoryKeyValueStore" where
  "put_store A now key value' opts vst s =
     (let (r, vst', ev) = vs_Put now value' opts vst in
      (r, s\<lparr>ks_keys := art_Insert A key vst' (ks_keys s), ks_watches := notify key ev (ks_watches s)\<rparr>))"

definition kvs_Put ::
  "('t, 'a) kv_art \<Rightarrow> time \<Rightarrow> string \<Rightarrow> 'a \<Rightarrow> PutOpt list \<Rightarrow> ('t, 'a) inMemoryKeyValueStore
     \<Rightarrow> int64 option result \<times> ('t, 'a) inMemoryKeyValueStore" where
  "kvs_Put A now key value' opts s =
     (case validateKey key of
        Some e \<Rightarrow> (Inl e, s)
      | None \<Rightarrow>
          (case art_Search A (ks_keys s) key of
             None \<Rightarrow>
               let vst = ks_newValueStore s key;
                   s' = s\<lparr>ks_keys := art_Insert A key vst (ks_keys s)\<rparr>
               in (case watch_new_key key vst (ks_watches s') of
                     (Some e, ws) \<Rightarrow> (Inl e, s'\<lparr>ks_watches := ws\<rparr>)
                   | (None, ws) \<Rightarrow> put_store A now key value' opts vst (s'\<lparr>ks_watches := ws\<rparr>))
           | Some vst \<Rightarrow> put_store A now key value' opts vst s))"

definition kvs_Delete ::
  "('t, 'a) kv_art \<Rightarrow> time \<Rightarrow> string \<Rightarrow> DeleteOpt list \<Rightarrow> ('t, 'a) inMemoryKeyValueStore
     \<Rightarrow> unit result \<times> ('t, 'a) inMemoryKeyValueStore" where
  "kvs_Delete A now key opts s =
     (case validateKey key of
        Some e \<Rightarrow> (Inl e, s)
      | None \<Rightarrow>
          (case art_Search A (ks_keys s) key of
             None \<Rightarrow> (Inl ErrNotFound, s)
           | Some vs \<Rightarrow>
               (let (r, vs', ev) = vs_Delete now opts vs in
                (r, s\<lparr>ks_keys := art_Insert A key vs' (ks_keys s), ks_watches := notify key ev (ks_watches s)\<rparr>))))"

section \<open>Runs\<close>

text \<open>The writes, and the ways the set of watches changes; each is one critical section of the store.\<close>

datatype 'a kv_op =
    KV_Put time string 'a "PutOpt list"
  | KV_Delete time string "DeleteOpt list"
  | KV_Watch string "WatchOpt list"
  | KV_Watch_done nat
  | KV_Watch_gives_up nat string

fun kv_step :: "('t, 'a) kv_art \<Rightarrow> ('t, 'a) inMemoryKeyValueStore \<Rightarrow> 'a kv_op \<Rightarrow> ('t, 'a) inMemoryKeyValueStore" where
  "kv_step A s (KV_Put now key v os) = snd (kvs_Put A now key v os s)"
| "kv_step A s (KV_Delete now key os) = snd (kvs_Delete A now key os s)"
| "kv_step A s (KV_Watch key os) = snd (kv_Watch A key os s)"
| "kv_step A s (KV_Watch_done i) = kv_Watch_done i s"
| "kv_step A s (KV_Watch_gives_up i key) = watch_gives_up i key s"

definition kv_run :: "('t, 'a) kv_art \<Rightarrow> 'a kv_op list \<Rightarrow> ('t, 'a) inMemoryKeyValueStore \<Rightarrow> ('t, 'a) inMemoryKeyValueStore" where
  "kv_run A ops s = foldl (kv_step A) s ops"

text \<open>The store as a value of the interface type \<open>KeyValueStoreT\<close>.\<close>

definition inMemory_kv_ops :: "('t, 'a) kv_art \<Rightarrow> (('t, 'a) inMemoryKeyValueStore, 'a) KeyValueStoreT" where
  "inMemory_kv_ops A =
     \<lparr>kv_Put = kvs_Put A, kv_Get = kvs_Get A, kv_Delete = kvs_Delete A, kv_ListKeys = kvs_ListKeys A,
      kv_History = kvs_History A\<rparr>"

end
