(* ===== verification/KVUtil.thy ===== *)
theory KVUtil
  imports Stores "HOL-Library.Sublist"
begin

text \<open>
  \<open>storage/kvutil/kvutil.go\<close>: stores made from stores. \<open>WithKey\<close> is one key of a key-value store as a
  value store, \<open>WithPrefix\<close> the keys under a prefix as a key-value store, and \<open>WithMessageCodec\<close> a store
  of messages over a store of bytes. Of the goroutines that copy a watch channel, the model is the
  change each event goes through. The lockers only add a mutex.
\<close>

section \<open>Strings\<close>

text \<open>\<open>strings.TrimPrefix\<close>, \<open>strings.Contains\<close>, \<open>strings.ReplaceAll(s, "/", "")\<close> and \<open>path.Base\<close>.\<close>

definition TrimPrefix :: "string \<Rightarrow> string \<Rightarrow> string" where
  "TrimPrefix s p = (if prefix p s then drop (length p) s else s)"

definition strings_Contains :: "string \<Rightarrow> string \<Rightarrow> bool" where
  "strings_Contains s sub = sublist sub s"

definition remove_slashes :: "string \<Rightarrow> string" where
  "remove_slashes s = filter (\<lambda>c. c \<noteq> CHR ''/'') s"

definition path_Base :: "string \<Rightarrow> string" where
  "path_Base p =
     (if p = [] then ''.''
      else
        (let stripped = rev (dropWhile (\<lambda>c. c = CHR ''/'') (rev p));
             base = rev (takeWhile (\<lambda>c. c \<noteq> CHR ''/'') (rev stripped))
         in if base = [] then ''/'' else base))"

section \<open>One key as a value store\<close>

definition WithKey :: "('s, 'a) KeyValueStoreT \<Rightarrow> string \<Rightarrow> ('s, 'a) ValueStoreT" where
  "WithKey base key =
     \<lparr>st_Put = (\<lambda>now value' opts s. kv_Put base now key value' opts s),
      st_Get = (\<lambda>opts s. kv_Get base key opts s),
      st_Delete = (\<lambda>now opts s. kv_Delete base now key opts s),
      st_History = (\<lambda>opts s. kv_History base key opts s)\<rparr>"

definition singleValueStore_event :: "string \<Rightarrow> 'a WatchEvent \<Rightarrow> 'a WatchEvent" where
  "singleValueStore_event key e = map_event_revisions (SetKey (path_Base key)) e"

section \<open>A prefix as a key-value store\<close>

definition unprefix_key :: "string \<Rightarrow> string \<Rightarrow> string" where
  "unprefix_key pre key =
     (if strings_Contains key pre then TrimPrefix key pre else TrimPrefix key (remove_slashes pre))"

definition WithPrefix :: "('s, 'a) KeyValueStoreT \<Rightarrow> string \<Rightarrow> ('s, 'a) KeyValueStoreT" where
  "WithPrefix base pre =
     \<lparr>kv_Put = (\<lambda>now key value' opts s. kv_Put base now (pre @ key) value' opts s),
      kv_Get = (\<lambda>key opts s. kv_Get base (pre @ key) opts s),
      kv_Delete = (\<lambda>now key opts s. kv_Delete base now (pre @ key) opts s),
      kv_ListKeys = (\<lambda>p opts s. map_sum id (map (unprefix_key pre)) (kv_ListKeys base (pre @ p) opts s)),
      kv_History = (\<lambda>key opts s. kv_History base (pre @ key) opts s)\<rparr>"

definition kvStorePrefix_event :: "string \<Rightarrow> 'a WatchEvent \<Rightarrow> 'a WatchEvent" where
  "kvStorePrefix_event pre e = map_event_revisions (\<lambda>k. SetKey (TrimPrefix (''/'' @ kr_K k) pre) k) e"

section \<open>Messages over bytes\<close>

text \<open>
  \<open>proto.Marshal\<close> and \<open>proto.Unmarshal\<close> are parameters; \<open>nilMsg\<close> is \<open>lo.Empty[T]()\<close>. A revision that does
  not decode has the empty value.
\<close>

definition decodeKeyRevision :: "('b \<Rightarrow> 'a result) \<Rightarrow> 'a \<Rightarrow> 'b KeyRevisionImpl \<Rightarrow> 'a KeyRevisionImpl" where
  "decodeKeyRevision unmarshal nilMsg kr =
     \<lparr>kr_K = kr_K kr, kr_V = (case unmarshal (kr_V kr) of Inl _ \<Rightarrow> nilMsg | Inr m \<Rightarrow> m), kr_Rev = kr_Rev kr,
      kr_Time = kr_Time kr\<rparr>"

definition WithMessageCodec ::
  "('a \<Rightarrow> 'b result) \<Rightarrow> ('b \<Rightarrow> 'a result) \<Rightarrow> 'a \<Rightarrow> ('s, 'b) ValueStoreT \<Rightarrow> ('s, 'a) ValueStoreT" where
  "WithMessageCodec marshal unmarshal nilMsg base =
     \<lparr>st_Put = (\<lambda>now value' opts s.
        case marshal value' of Inl e \<Rightarrow> (Inl e, s) | Inr bytes \<Rightarrow> st_Put base now bytes opts s),
      st_Get = (\<lambda>opts s.
        case st_Get base opts s of
          Inl e \<Rightarrow> Inl e
        | Inr (bytes, ro) \<Rightarrow> (case unmarshal bytes of Inl e \<Rightarrow> Inl e | Inr msg \<Rightarrow> Inr (msg, ro))),
      st_Delete = (\<lambda>now opts s. st_Delete base now opts s),
      st_History = (\<lambda>opts s. map_sum id (map (decodeKeyRevision unmarshal nilMsg)) (st_History base opts s))\<rparr>"

definition codec_event :: "('b \<Rightarrow> 'a result) \<Rightarrow> 'a \<Rightarrow> 'b WatchEvent \<Rightarrow> 'a WatchEvent" where
  "codec_event unmarshal nilMsg e = map_event_revisions (decodeKeyRevision unmarshal nilMsg) e"

lemma WithKey_sel [simp]:
  "st_Put (WithKey kv key) now v os s = kv_Put kv now key v os s"
  "st_Get (WithKey kv key) gs s = kv_Get kv key gs s"
  "st_Delete (WithKey kv key) now ds s = kv_Delete kv now key ds s"
  "st_History (WithKey kv key) hs s = kv_History kv key hs s"
  by (simp_all add: WithKey_def)

lemma WithPrefix_sel [simp]:
  "kv_Put (WithPrefix kv pre) now key v os s = kv_Put kv now (pre @ key) v os s"
  "kv_Get (WithPrefix kv pre) key gs s = kv_Get kv (pre @ key) gs s"
  "kv_Delete (WithPrefix kv pre) now key ds s = kv_Delete kv now (pre @ key) ds s"
  "kv_History (WithPrefix kv pre) key hs s = kv_History kv (pre @ key) hs s"
  "kv_ListKeys (WithPrefix kv pre) p ls s = map_sum id (map (unprefix_key pre)) (kv_ListKeys kv (pre @ p) ls s)"
  by (simp_all add: WithPrefix_def)

lemma WithKey_WithPrefix: "WithKey (WithPrefix kv pre) key = WithKey kv (pre @ key)"
  by (simp add: WithKey_def WithPrefix_def)

lemma unprefix_prefixed [simp]: "unprefix_key pre (pre @ k) = k"
  by (simp add: unprefix_key_def strings_Contains_def TrimPrefix_def)

section \<open>The key-value store interface\<close>

text \<open>
  What a key-value store promises: every valid key is a value store, and writes to a key leave the other
  valid keys as they are. A store whose keys are all non-empty strings and that can list them promises
  more: the keys listed under a prefix are those that have a value.
\<close>

locale keyed_values =
  fixes kv :: "('s, 'a) KeyValueStoreT"
    and inv :: "'s \<Rightarrow> bool"
    and cur :: "'s \<Rightarrow> string \<Rightarrow> ('a \<times> int64) option"
    and same :: "'s \<Rightarrow> 's \<Rightarrow> bool"
    and valid :: "string \<Rightarrow> bool"
  assumes key_store: "valid key \<Longrightarrow> value_store (WithKey kv key) inv (\<lambda>s. cur s key) same"
    and put_other: "inv s \<Longrightarrow> valid key \<Longrightarrow> valid k \<Longrightarrow> k \<noteq> key \<Longrightarrow> cur (snd (kv_Put kv now key v os s)) k = cur s k"
    and delete_other: "inv s \<Longrightarrow> valid key \<Longrightarrow> valid k \<Longrightarrow> k \<noteq> key \<Longrightarrow> cur (snd (kv_Delete kv now key ds s)) k = cur s k"

locale key_value_store = keyed_values kv inv cur same "\<lambda>k. k \<noteq> []"
  for kv :: "('s, 'a) KeyValueStoreT" and inv cur same +
  assumes list_keys: "inv s \<Longrightarrow> p \<noteq> [] \<Longrightarrow> list_Limit (list_options ls) = None \<Longrightarrow>
      \<exists>ks. kv_ListKeys kv p ls s = Inr ks \<and> distinct ks \<and> set ks = {k. prefix p k \<and> cur s k \<noteq> None}"

text \<open>
  A value store of bytes is a value store of messages, as long as every message can be marshalled and
  the current bytes can be unmarshalled.
\<close>

definition codec_laws :: "('a \<Rightarrow> 'b result) \<Rightarrow> ('b \<Rightarrow> 'a result) \<Rightarrow> bool" where
  "codec_laws marshal unmarshal \<longleftrightarrow> (\<forall>v. \<exists>b. marshal v = Inr b \<and> unmarshal b = Inr v)"

definition codec_inv ::
  "('b \<Rightarrow> 'a result) \<Rightarrow> ('s \<Rightarrow> bool) \<Rightarrow> ('s \<Rightarrow> ('b \<times> int64) option) \<Rightarrow> 's \<Rightarrow> bool" where
  "codec_inv unmarshal ok cur s \<longleftrightarrow> ok s \<and> (\<forall>b r. cur s = Some (b, r) \<longrightarrow> (\<exists>v. unmarshal b = Inr v))"

definition codec_cur ::
  "('b \<Rightarrow> 'a result) \<Rightarrow> ('s \<Rightarrow> ('b \<times> int64) option) \<Rightarrow> 's \<Rightarrow> ('a \<times> int64) option" where
  "codec_cur unmarshal cur s = map_option (\<lambda>(b, r). (projr (unmarshal b), r)) (cur s)"

lemma codec_sel [simp]:
  "st_Put (WithMessageCodec marshal unmarshal nilMsg st) now v os s =
     (case marshal v of Inl e \<Rightarrow> (Inl e, s) | Inr b \<Rightarrow> st_Put st now b os s)"
  "st_Get (WithMessageCodec marshal unmarshal nilMsg st) gs s =
     (case st_Get st gs s of Inl e \<Rightarrow> Inl e
      | Inr (b, ro) \<Rightarrow> (case unmarshal b of Inl e \<Rightarrow> Inl e | Inr v \<Rightarrow> Inr (v, ro)))"
  "st_Delete (WithMessageCodec marshal unmarshal nilMsg st) now ds s = st_Delete st now ds s"
  by (simp_all add: WithMessageCodec_def)

lemma codec_put:
  assumes "codec_laws marshal unmarshal"
  obtains b where "unmarshal b = Inr v"
    "\<And>now os s. st_Put (WithMessageCodec marshal unmarshal nilMsg st) now v os s = st_Put st now b os s"
proof -
  from assms obtain b where "marshal v = Inr b" "unmarshal b = Inr v" by (auto simp: codec_laws_def)
  with that show thesis by simp
qed

lemma codec_cur_Some:
  assumes "codec_inv unmarshal ok cur s" "codec_cur unmarshal cur s = Some (v, r)"
  obtains b where "cur s = Some (b, r)" "unmarshal b = Inr v"
  using assms by (fastforce simp: codec_inv_def codec_cur_def)

lemma codec_value_store:
  fixes st :: "('s, 'b) ValueStoreT" and marshal :: "'a \<Rightarrow> 'b result" and inv :: "'s \<Rightarrow> bool"
  assumes base: "value_store st inv cur same" and codec: "codec_laws marshal unmarshal"
  shows "value_store (WithMessageCodec marshal unmarshal nilMsg st) (codec_inv unmarshal inv cur) (codec_cur unmarshal cur) same"
proof (unfold_locales, goal_cases)
  case (1 s) show ?case by (rule value_store.same_refl [OF base])
next
  case (2 s s') then show ?case using value_store.same_cur [OF base 2] by (simp add: codec_cur_def)
next
  case (3 s os)
  then show ?case using value_store.get_cur [OF base, of s os]
    by (fastforce simp: codec_inv_def codec_cur_def split: option.splits)
next
  case (4 s now v ps)
  from codec_put [OF codec, of v nilMsg st] obtain b where b: "unmarshal b = Inr v"
    "\<And>now os s. st_Put (WithMessageCodec marshal unmarshal nilMsg st) now v os s = st_Put st now b os s" by blast
  have inv: "inv s" using 4 by (simp add: codec_inv_def)
  show ?case
  proof (cases "fst (st_Put st now b ps s)")
    case (Inl e)
    with 4 b(2) value_store.put_inv [OF base inv] value_store.same_cur [OF base value_store.put_fail [OF base inv Inl]]
    show ?thesis by (simp add: codec_inv_def)
  next
    case (Inr ro)
    with b value_store.put_inv [OF base inv] value_store.put_ok [OF base inv Inr] show ?thesis
      by (auto simp: codec_inv_def)
  qed
next
  case (5 s now ds)
  then have inv: "inv s" by (simp add: codec_inv_def)
  show ?case
  proof (cases "fst (st_Delete st now ds s)")
    case (Inl e)
    with 5 value_store.delete_inv [OF base inv] value_store.same_cur [OF base value_store.delete_fail [OF base inv Inl]]
    show ?thesis by (simp add: codec_inv_def)
  next
    case (Inr u)
    with value_store.delete_inv [OF base inv] value_store.delete_ok [OF base inv Inr] show ?thesis
      by (simp add: codec_inv_def)
  qed
next
  case (6 s now v ps ro)
  from codec_put [OF codec, of v nilMsg st] obtain b where b: "unmarshal b = Inr v"
    "\<And>now os s. st_Put (WithMessageCodec marshal unmarshal nilMsg st) now v os s = st_Put st now b os s" by blast
  from 6 value_store.put_ok [OF base, of s now b ps ro] b show ?case
    by (fastforce simp: codec_inv_def codec_cur_def)
next
  case (7 s now v ps e)
  from codec_put [OF codec, of v nilMsg st] obtain b where "unmarshal b = Inr v"
    and b: "\<And>now os s. st_Put (WithMessageCodec marshal unmarshal nilMsg st) now v os s = st_Put st now b os s" by blast
  from 7 value_store.put_fail [OF base, of s now b ps e] b show ?case by (simp add: codec_inv_def)
next
  case (8 s ps r now v)
  from codec_put [OF codec, of v nilMsg st] obtain b where "unmarshal b = Inr v"
    and b: "\<And>now os s. st_Put (WithMessageCodec marshal unmarshal nilMsg st) now v os s = st_Put st now b os s" by blast
  have "inv s" using 8 by (simp add: codec_inv_def)
  note cas = value_store.put_cas [OF base this 8(2), of now b]
  show ?case
  proof (cases "cur s")
    case None
    with cas show ?thesis unfolding b by (simp add: codec_cur_def)
  next
    case (Some x)
    with cas show ?thesis unfolding b by (cases x) (simp add: codec_cur_def del: err_preds)
  qed
next
  case (9 s now ds u)
  then show ?case using value_store.delete_ok [OF base, of s now ds u] by (simp add: codec_inv_def codec_cur_def)
next
  case (10 s now ds e)
  then show ?case using value_store.delete_fail [OF base, of s now ds e] by (simp add: codec_inv_def)
next
  case (11 s v r ds now)
  from codec_cur_Some [OF 11] obtain b where "cur s = Some (b, r)" by blast
  with 11(1) value_store.delete_cas [OF base, of s b r ds now] show ?case by (simp add: codec_inv_def)
next
  case (12 s v r os)
  from codec_cur_Some [OF 12(1,2)] obtain b where "cur s = Some (b, r)" "unmarshal b = Inr v" by blast
  with 12 value_store.get_at_cur [OF base, of s b r os] show ?case by (simp add: codec_inv_def)
next
  case (13 s os r v ro)
  then show ?case using value_store.get_at [OF base, of s os r]
    by (auto simp: codec_inv_def split: sum.splits)
next
  case (14 s v r)
  from codec_cur_Some [OF 14] obtain b where "cur s = Some (b, r)" by blast
  with 14(1) value_store.cur_pos [OF base, of s b r] show ?case by (simp add: codec_inv_def)
qed

text \<open>One key of it, and a part of it under a prefix, keep the same promises.\<close>

locale keyed_store = keyed_values +
  fixes key :: string
  assumes key_valid: "valid key"

sublocale keyed_store \<subseteq> at_key: value_store "WithKey kv key" inv "\<lambda>s. cur s key" same
  by (rule key_store [OF key_valid])

locale prefixed_store = key_value_store +
  fixes pre :: string
  assumes pre_nonempty: "pre \<noteq> []"

sublocale prefixed_store \<subseteq> under: key_value_store "WithPrefix kv pre" inv "\<lambda>s k. cur s (pre @ k)" same
proof (rule key_value_store.intro [OF keyed_values.intro key_value_store_axioms.intro], goal_cases)
  case (1 key)
  then show ?case using key_store [of "pre @ key"] by (simp add: WithKey_WithPrefix)
next
  case (2 s key k now v os)
  then show ?case using put_other [of s "pre @ key" "pre @ k"] by simp
next
  case (3 s key k now ds)
  then show ?case using delete_other [of s "pre @ key" "pre @ k"] by simp
next
  case (4 s p ls)
  from list_keys [of s "pre @ p" ls] 4 obtain ks where ks: "kv_ListKeys kv (pre @ p) ls s = Inr ks" "distinct ks"
    "set ks = {k. prefix (pre @ p) k \<and> cur s k \<noteq> None}" by auto
  have "ks = map (\<lambda>k. pre @ unprefix_key pre k) ks"
    using ks(3) by (intro map_idI [THEN sym]) (auto simp: prefix_def)
  then have "distinct (map (unprefix_key pre) ks)"
    using ks(2) by (metis (mono_tags, lifting) distinct_map inj_on_def list.map_comp)
  moreover have "set (map (unprefix_key pre) ks) = {k. prefix p k \<and> cur s (pre @ k) \<noteq> None}"
    using ks(3) by (auto simp: prefix_def image_iff) (metis append_assoc unprefix_prefixed)+
  ultimately show ?case using ks(1) by simp
qed

end
