(* ===== verification/KVIface.thy ===== *)
theory KVIface
  imports KVStore KVUtil ValueIface
begin

text \<open>
  The in-memory key-value store as a provider of the \<open>key_value_store\<close> interface, for any radix tree
  that obeys its laws. The invariant asks of the active watches that none starts at a revision: with
  one that does, the first write of a new key fails.
\<close>

section \<open>Invariant and current values\<close>

definition store_of :: "('t, 'a) kv_art \<Rightarrow> ('t, 'a) inMemoryKeyValueStore \<Rightarrow> string \<Rightarrow> 'a inMemoryValueStore" where
  "store_of A s k = (case art_Search A (ks_keys s) k of None \<Rightarrow> ks_newValueStore s k | Some vs \<Rightarrow> vs)"

definition kv_cur :: "('t, 'a) kv_art \<Rightarrow> ('t, 'a) inMemoryKeyValueStore \<Rightarrow> string \<Rightarrow> ('a \<times> int64) option" where
  "kv_cur A s k = (case art_Search A (ks_keys s) k of None \<Rightarrow> None | Some vs \<Rightarrow> inMemory_cur vs)"

definition watch_from_now :: "'a activeWatch \<Rightarrow> bool" where
  "watch_from_now w \<longleftrightarrow> (case aw_Revision w of None \<Rightarrow> True | Some r \<Rightarrow> r \<le> 0)"

definition kv_inv :: "('t, 'a) kv_art \<Rightarrow> ('t, 'a) inMemoryKeyValueStore \<Rightarrow> bool" where
  "kv_inv A s \<longleftrightarrow>
     (\<forall>k vs. art_Search A (ks_keys s) k = Some vs \<longrightarrow> inMemory_inv vs)
     \<and> (\<forall>k. inMemory_inv (ks_newValueStore s k) \<and> inMemory_cur (ks_newValueStore s k) = None)
     \<and> (\<forall>w \<in> set (ks_watches s). watch_from_now w)"

definition kv_same :: "('t, 'a) kv_art \<Rightarrow> ('t, 'a) inMemoryKeyValueStore \<Rightarrow> ('t, 'a) inMemoryKeyValueStore \<Rightarrow> bool" where
  "kv_same A s s' \<longleftrightarrow> (\<forall>k. kv_cur A s' k = kv_cur A s k)"

lemma kv_inv_store: "kv_inv A s \<Longrightarrow> inMemory_inv (store_of A s k)"
  by (auto simp: kv_inv_def store_of_def split: option.splits)

lemma kv_cur_store: "kv_inv A s \<Longrightarrow> kv_cur A s k = inMemory_cur (store_of A s k)"
  by (auto simp: kv_inv_def store_of_def kv_cur_def split: option.splits)

lemma watch_ok: "watch_from_now w \<Longrightarrow> \<exists>events. vs_Watch (vsOpts (aw_Revision w)) vs = Inr events"
  by (auto simp: watch_from_now_def vsOpts_def vs_Watch_def Let_def split: option.splits)

lemma addWatch_ok:
  assumes "watch_from_now w"
  shows "\<exists>w'. addWatch key vs w = Inr w' \<and> watch_from_now w'"
  using watch_ok [OF assms, of vs] assms by (auto simp: addWatch_def watch_from_now_def)

lemma watch_new_key_ok:
  "\<forall>w \<in> set ws. watch_from_now w \<Longrightarrow>
     \<exists>ws'. watch_new_key key vst ws = (None, ws') \<and> (\<forall>w \<in> set ws'. watch_from_now w)"
proof (induction ws)
  case (Cons w ws)
  then obtain ws' where "watch_new_key key vst ws = (None, ws')" "\<forall>w \<in> set ws'. watch_from_now w" by auto
  with Cons.prems addWatch_ok [of w key vst] show ?case by auto
qed simp

lemma notify_from_now: "\<forall>w \<in> set ws. watch_from_now w \<Longrightarrow> \<forall>w \<in> set (notify key ev ws). watch_from_now w"
  by (auto simp: notify_def watch_from_now_def split: option.splits)

section \<open>Writes\<close>

lemma put_store_effect:
  assumes A: "art_laws A" and "kv_inv A s" "art_Search A (ks_keys s) key = Some vst"
    and "put_store A now key v os vst s = (r, s')"
  shows "r = fst (st_Put inMemory_ops now v os vst)
    \<and> store_of A s' key = snd (st_Put inMemory_ops now v os vst)
    \<and> (\<forall>k. k \<noteq> key \<longrightarrow> store_of A s' k = store_of A s k) \<and> kv_inv A s'"
proof -
  obtain x vst' ev where put: "vs_Put now v os vst = (x, vst', ev)" by (cases "vs_Put now v os vst")
  then have vst': "snd (st_Put inMemory_ops now v os vst) = vst'" "fst (st_Put inMemory_ops now v os vst) = x"
    by (simp_all add: store_simps)
  with inmem.put_inv [of vst now v os] assms(2,3) have "inMemory_inv vst'" by (auto simp: kv_inv_def)
  moreover have "\<forall>w \<in> set (notify key ev (ks_watches s)). watch_from_now w"
    using assms(2) by (intro notify_from_now) (simp add: kv_inv_def)
  moreover have s': "s' = s\<lparr>ks_keys := art_Insert A key vst' (ks_keys s), ks_watches := notify key ev (ks_watches s)\<rparr>"
    "r = x" using assms(4) put by (simp_all add: put_store_def)
  ultimately have "kv_inv A s'" using assms(2) by (auto simp: kv_inv_def art_simps(2) [OF A] split: if_splits)
  then show ?thesis using s' vst' by (simp add: store_of_def art_simps(2) [OF A] split: option.split)
qed

lemma kvs_Put_effect:
  assumes A: "art_laws A" and "kv_inv A s" "key \<noteq> []" "kvs_Put A now key v os s = (r, s')"
  shows "r = fst (st_Put inMemory_ops now v os (store_of A s key))
    \<and> store_of A s' key = snd (st_Put inMemory_ops now v os (store_of A s key))
    \<and> (\<forall>k. k \<noteq> key \<longrightarrow> store_of A s' k = store_of A s k) \<and> kv_inv A s'"
proof (cases "art_Search A (ks_keys s) key")
  case (Some vst)
  with put_store_effect [OF A assms(2) Some, of now v os r s'] assms(3,4) show ?thesis
    by (simp add: kvs_Put_def validateKey_def store_of_def)
next
  case None
  let ?vst = "ks_newValueStore s key"
  from assms(2) obtain ws where ws: "watch_new_key key ?vst (ks_watches s) = (None, ws)"
    "\<forall>w \<in> set ws. watch_from_now w" using watch_new_key_ok [of "ks_watches s" key ?vst]
    by (auto simp: kv_inv_def)
  let ?s1 = "s\<lparr>ks_keys := art_Insert A key ?vst (ks_keys s), ks_watches := ws\<rparr>"
  have "put_store A now key v os ?vst ?s1 = (r, s')"
    using assms(3,4) None ws by (simp add: kvs_Put_def validateKey_def Let_def)
  moreover have "kv_inv A ?s1" using assms(2) ws
    by (auto simp: kv_inv_def art_simps(2) [OF A] split: if_splits)
  moreover have "art_Search A (ks_keys ?s1) key = Some ?vst" by (simp add: art_simps(2) [OF A])
  moreover have "store_of A ?s1 k = store_of A s k" "store_of A s key = ?vst" for k
    using None by (auto simp: store_of_def art_simps(2) [OF A] split: option.split)
  ultimately show ?thesis using put_store_effect [OF A, of ?s1 key ?vst now v os r s'] by simp
qed

lemma kvs_Delete_effect:
  assumes A: "art_laws A" and "kv_inv A s" "key \<noteq> []" "kvs_Delete A now key os s = (r, s')"
  shows "(case art_Search A (ks_keys s) key of None \<Rightarrow> r = Inl ErrNotFound \<and> s' = s
     | Some vs \<Rightarrow> r = fst (st_Delete inMemory_ops now os vs) \<and> store_of A s' key = snd (st_Delete inMemory_ops now os vs))
    \<and> (\<forall>k. k \<noteq> key \<longrightarrow> store_of A s' k = store_of A s k) \<and> kv_inv A s'"
proof (cases "art_Search A (ks_keys s) key")
  case None
  with assms show ?thesis by (simp add: kvs_Delete_def validateKey_def)
next
  case (Some vs)
  obtain x vs' ev where del: "vs_Delete now os vs = (x, vs', ev)" by (cases "vs_Delete now os vs")
  then have vs': "snd (st_Delete inMemory_ops now os vs) = vs'" "fst (st_Delete inMemory_ops now os vs) = x"
    by (simp_all add: store_simps)
  with inmem.delete_inv [of vs now os] assms(2) Some have "inMemory_inv vs'" by (auto simp: kv_inv_def)
  moreover have "\<forall>w \<in> set (notify key ev (ks_watches s)). watch_from_now w"
    using assms(2) by (intro notify_from_now) (simp add: kv_inv_def)
  moreover have s': "s' = s\<lparr>ks_keys := art_Insert A key vs' (ks_keys s), ks_watches := notify key ev (ks_watches s)\<rparr>"
    "r = x" using assms(3,4) del Some by (simp_all add: kvs_Delete_def validateKey_def)
  ultimately have "kv_inv A s'" using assms(2) by (auto simp: kv_inv_def art_simps(2) [OF A] split: if_splits)
  then show ?thesis using s' vs' Some by (simp add: store_of_def art_simps(2) [OF A] split: option.split)
qed

lemma kv_get:
  assumes "kv_inv A s" "key \<noteq> []"
  shows "kvs_Get A key os s =
    (case art_Search A (ks_keys s) key of None \<Rightarrow> Inl ErrNotFound | Some vs \<Rightarrow> st_Get inMemory_ops os vs)"
  using assms by (simp add: kvs_Get_def validateKey_def store_simps split: option.split)

lemma inMemory_kv_sel [simp]:
  "kv_Put (inMemory_kv_ops A) = kvs_Put A" "kv_Get (inMemory_kv_ops A) = kvs_Get A"
  "kv_Delete (inMemory_kv_ops A) = kvs_Delete A" "kv_ListKeys (inMemory_kv_ops A) = kvs_ListKeys A"
  "kv_History (inMemory_kv_ops A) = kvs_History A"
  by (simp_all add: inMemory_kv_ops_def)

section \<open>The interface\<close>

lemma kv_put_snd:
  assumes "art_laws A" "kv_inv A s" "key \<noteq> []"
  shows "fst (kvs_Put A now key v os s) = fst (st_Put inMemory_ops now v os (store_of A s key))"
    "kv_inv A (snd (kvs_Put A now key v os s))"
    "kv_cur A (snd (kvs_Put A now key v os s)) k =
      (if k = key then inMemory_cur (snd (st_Put inMemory_ops now v os (store_of A s key))) else kv_cur A s k)"
  using kvs_Put_effect [OF assms, of now v os "fst (kvs_Put A now key v os s)" "snd (kvs_Put A now key v os s)"] assms(2)
  by (auto simp: kv_cur_store)

lemma kv_delete_snd:
  assumes "art_laws A" "kv_inv A s" "key \<noteq> []"
  shows "kv_inv A (snd (kvs_Delete A now key os s))"
    "k \<noteq> key \<Longrightarrow> kv_cur A (snd (kvs_Delete A now key os s)) k = kv_cur A s k"
    "fst (kvs_Delete A now key os s) = (case art_Search A (ks_keys s) key of None \<Rightarrow> Inl ErrNotFound
       | Some vs \<Rightarrow> fst (st_Delete inMemory_ops now os vs))"
    "kv_cur A (snd (kvs_Delete A now key os s)) key = (case art_Search A (ks_keys s) key of None \<Rightarrow> kv_cur A s key
       | Some vs \<Rightarrow> inMemory_cur (snd (st_Delete inMemory_ops now os vs)))"
  using kvs_Delete_effect [OF assms, of now os "fst (kvs_Delete A now key os s)" "snd (kvs_Delete A now key os s)"] assms(2)
  by (auto simp: kv_cur_store split: option.splits)

lemma inMemory_key_store:
  assumes A: "art_laws A" and key: "key \<noteq> []"
  shows "value_store (WithKey (inMemory_kv_ops A) key) (kv_inv A) (\<lambda>s. kv_cur A s key) (kv_same A)"
proof (unfold_locales, goal_cases)
  case (1 s) then show ?case by (simp add: kv_same_def)
next
  case (2 s s') then show ?case by (simp add: kv_same_def)
next
  case (3 s os)
  then show ?case using kv_get [OF 3(1) key, of os]
    by (auto simp: kv_cur_def kv_inv_def inmem.get_cur split: option.splits)
next
  case (4 s now v ps) then show ?case by (simp add: kv_put_snd [OF A _ key])
next
  case (5 s now ds) then show ?case by (simp add: kv_delete_snd [OF A _ key])
next
  case (6 s now v ps ro)
  then show ?case using inmem.put_ok [OF kv_inv_store, of A s now v ps key ro]
    by (auto simp: kv_put_snd [OF A _ key] kv_cur_store [of A s])
next
  case (7 s now v ps e)
  then show ?case using inmem.put_fail [OF kv_inv_store, of A s now v ps key e]
    by (auto simp: kv_put_snd [OF A _ key] kv_same_def kv_cur_store [of A s key])
next
  case (8 s ps r now v)
  then show ?case using inmem.put_cas [OF kv_inv_store, of A s ps r key now v]
    by (simp add: kv_put_snd [OF A _ key] kv_cur_store del: err_preds)
next
  case (9 s now ds u)
  then show ?case using inmem.delete_ok [of "the (art_Search A (ks_keys s) key)" now ds u]
    by (auto simp: kv_delete_snd [OF A _ key] kv_inv_def split: option.splits)
next
  case (10 s now ds e)
  have "kv_cur A (snd (kvs_Delete A now key ds s)) k = kv_cur A s k" for k
  proof (cases "k = key")
    case True
    with 10 inmem.delete_fail [of "the (art_Search A (ks_keys s) key)" now ds e] show ?thesis
      by (auto simp: kv_delete_snd [OF A _ key] kv_inv_def kv_cur_def [of A s] split: option.splits)
  qed (use 10 in \<open>simp add: kv_delete_snd [OF A _ key]\<close>)
  then show ?case by (simp add: kv_same_def)
next
  case (11 s v r ds now)
  then show ?case using inmem.delete_cas [of "the (art_Search A (ks_keys s) key)" v r ds now]
    by (auto simp: kv_delete_snd [OF A _ key] kv_cur_def kv_inv_def split: option.splits)
next
  case (12 s v r os)
  then show ?case using kv_get [OF 12(1) key, of os] inmem.get_at_cur [of "the (art_Search A (ks_keys s) key)" v r os]
    by (auto simp: kv_cur_def kv_inv_def split: option.splits)
next
  case (13 s os r v ro)
  then show ?case using kv_get [OF 13(1) key, of os] inmem.get_at [of "the (art_Search A (ks_keys s) key)" os r v ro]
    by (auto simp: kv_inv_def split: option.splits)
next
  case (14 s v r)
  then show ?case using inmem.cur_pos [OF kv_inv_store, of A s key v r] by (simp add: kv_cur_store)
qed

lemma list_keys_unlimited:
  "list_keys None ks nodes = ks @ map fst (filter (\<lambda>(k, vs). \<exists>x. vs_Get [] vs = Inr x) (art_leaves nodes))"
  by (induction "None :: int64 option" ks nodes rule: list_keys.induct) (auto split: sum.splits)

lemma inMemory_list_keys:
  assumes A: "art_laws A" and "kv_inv A s" "list_Limit (list_options ls) = None"
  shows "\<exists>ks. kvs_ListKeys A p ls s = Inr ks \<and> distinct ks \<and> set ks = {k. prefix p k \<and> kv_cur A s k \<noteq> None}"
proof -
  let ?leaves = "art_leaves (art_ForEachPrefix A (ks_keys s) p)"
  have leaves: "distinct (map fst ?leaves)" "set ?leaves = {(k, v). art_Search A (ks_keys s) k = Some v \<and> prefix p k}"
    using A by (simp_all add: art_laws_def)
  have get: "(\<exists>x. vs_Get [] vs = Inr x) \<longleftrightarrow> inMemory_cur vs \<noteq> None" if "inMemory_inv vs" for vs :: "'b inMemoryValueStore"
    using inmem.get_cur [OF that, of "[]"] by (auto simp: store_simps split: option.splits)
  let ?ks = "map fst (filter (\<lambda>(k, vs). \<exists>x. vs_Get [] vs = Inr x) ?leaves)"
  have "distinct ?ks" using leaves(1) by (simp add: distinct_map_filter)
  moreover have mem: "k \<in> set ?ks \<longleftrightarrow> prefix p k \<and> kv_cur A s k \<noteq> None" for k
  proof (cases "art_Search A (ks_keys s) k")
    case None
    with leaves(2) show ?thesis by (auto simp: kv_cur_def)
  next
    case (Some vs)
    with assms(2) have "inMemory_inv vs" by (auto simp: kv_inv_def)
    from get [OF this] Some leaves(2) show ?thesis by (auto simp: kv_cur_def image_iff)
  qed
  moreover from mem have "set ?ks = {k. prefix p k \<and> kv_cur A s k \<noteq> None}" by blast
  ultimately show ?thesis using assms(3) unfolding kvs_ListKeys_def Let_def by (simp only: list_keys_unlimited append_Nil) blast
qed

lemma inMemory_key_value_store:
  assumes A: "art_laws A"
  shows "key_value_store (inMemory_kv_ops A) (kv_inv A) (kv_cur A) (kv_same A)"
proof (rule key_value_store.intro [OF keyed_values.intro key_value_store_axioms.intro], goal_cases)
  case (1 key) then show ?case by (rule inMemory_key_store [OF A])
next
  case (2 s key k now v os) then show ?case by (simp add: kv_put_snd [OF A])
next
  case (3 s key k now ds) then show ?case by (simp add: kv_delete_snd [OF A])
next
  case (4 s p ls) then show ?case using inMemory_list_keys [OF A] by simp
qed

interpretation inmem_kv:
  key_value_store "inMemory_kv_ops alist_art" "kv_inv alist_art" "kv_cur alist_art" "kv_same alist_art"
  by (rule inMemory_key_value_store [OF alist_art_laws])

interpretation inmem_at:
  keyed_store "inMemory_kv_ops alist_art" "kv_inv alist_art" "kv_cur alist_art" "kv_same alist_art"
    "\<lambda>k. k \<noteq> []" "c # cs"
  for c cs
  by (simp add: keyed_store_def keyed_store_axioms_def inmem_kv.keyed_values_axioms)

interpretation inmem_under:
  prefixed_store "inMemory_kv_ops alist_art" "kv_inv alist_art" "kv_cur alist_art" "kv_same alist_art" "c # cs"
  for c cs
  by (simp add: prefixed_store_def prefixed_store_axioms_def inmem_kv.key_value_store_axioms)

section \<open>Watches\<close>

text \<open>
  A watch has a watch only on stores that exist and whose key it matches, whatever revision it starts at and whatever
  it gave up. It follows a key when it matches it and either there is no store for the key yet or it still has a watch
  on it.
\<close>

definition watches_inv :: "('t, 'a) kv_art \<Rightarrow> ('t, 'a) inMemoryKeyValueStore \<Rightarrow> bool" where
  "watches_inv A s \<longleftrightarrow>
     (\<forall>k vs. art_Search A (ks_keys s) k = Some vs \<longrightarrow> inMemory_inv vs)
     \<and> (\<forall>k. refines (ks_newValueStore s k) [] \<and> inMemory_inv (ks_newValueStore s k))
     \<and> (\<forall>w \<in> set (ks_watches s). \<forall>k \<in> set (aw_watchedStores w). matchesKey w k \<and> art_Search A (ks_keys s) k \<noteq> None)"

definition follows :: "('t, 'a) kv_art \<Rightarrow> ('t, 'a) inMemoryKeyValueStore \<Rightarrow> string \<Rightarrow> 'a activeWatch \<Rightarrow> bool" where
  "follows A s key w \<longleftrightarrow>
     matchesKey w key \<and> (art_Search A (ks_keys s) key = None \<or> key \<in> set (aw_watchedStores w))"

lemma matchesKey_update [simp]:
  "matchesKey (w\<lparr>aw_watchedStores := ks\<rparr>) k = matchesKey w k" "matchesKey (w\<lparr>aw_ch := evs\<rparr>) k = matchesKey w k"
  "matchesKey (w\<lparr>aw_watchedStores := ks, aw_ch := evs\<rparr>) k = matchesKey w k"
  by (simp_all add: matchesKey_def)

lemma addWatch_fresh:
  assumes "refines vst []"
  shows "addWatch key vst w = (if \<exists>n > 0. aw_Revision w = Some n then Inl ErrNotFound
    else Inr (w\<lparr>aw_watchedStores := aw_watchedStores w @ [key]\<rparr>))"
  by (auto simp: addWatch_def Watch_refines [OF assms] vsOpts_def log_at63_def log_at_def split: option.splits)

text \<open>Adding a new key's store adds it to every watch that matches when no error stops the loop.\<close>

lemma watch_new_key_fresh:
  assumes "refines vst []" "watch_new_key key vst ws = (None, ws')"
  shows "ws' = map (\<lambda>w. if matchesKey w key then w\<lparr>aw_watchedStores := aw_watchedStores w @ [key]\<rparr> else w) ws"
  using assms(2)
proof (induction ws arbitrary: ws')
  case (Cons w ws)
  obtain e ws1 where "watch_new_key key vst ws = (e, ws1)" by (cases "watch_new_key key vst ws")
  with Cons show ?case
    by (auto simp: addWatch_fresh [OF assms(1)] split: if_splits)
qed simp

lemma watch_new_key_sound:
  assumes "refines vst []" "watch_new_key key vst ws = (e, ws')"
    and "\<forall>w \<in> set ws. \<forall>k \<in> set (aw_watchedStores w). matchesKey w k \<and> P k" "P key"
  shows "\<forall>w \<in> set ws'. \<forall>k \<in> set (aw_watchedStores w). matchesKey w k \<and> P k"
  using assms(2,3)
proof (induction ws arbitrary: e ws')
  case (Cons w ws)
  obtain e1 ws1 where ws1: "watch_new_key key vst ws = (e1, ws1)" by (cases "watch_new_key key vst ws")
  with Cons.IH [OF ws1] Cons.prems assms(4) show ?case
    by (auto simp: addWatch_fresh [OF assms(1)] split: if_splits)
qed simp

text \<open>What a successful write sends to a channel.\<close>

definition put_event :: "time \<Rightarrow> string \<Rightarrow> 'a \<Rightarrow> int64 \<Rightarrow> 'a valueStoreElement option \<Rightarrow> 'a WatchEvent" where
  "put_event now key v r prev =
     \<lparr>ev_EventType = WatchEventPut,
      ev_Current = Some \<lparr>kr_K = key, kr_V = v, kr_Rev = r, kr_Time = now\<rparr>,
      ev_Previous = map_option (\<lambda>e. \<lparr>kr_K = key, kr_V = el_value e, kr_Rev = el_revision e, kr_Time = el_timestamp e\<rparr>) prev\<rparr>"

text \<open>The current element, unless it is deleted.\<close>

definition live_element :: "'a inMemoryValueStore \<Rightarrow> 'a valueStoreElement option" where
  "live_element vs = (case vs_current vs of None \<Rightarrow> None | Some p \<Rightarrow> if \<not> el_deleted p then Some p else None)"

lemma live_element_cur: "inMemory_cur vs = map_option (\<lambda>e. (el_value e, el_revision e)) (live_element vs)"
  by (auto simp: live_element_def inMemory_cur_def split: option.splits)

lemma vs_Put_event:
  assumes "inMemory_inv vs" "vs_Put now v os vs = (Inr ro, vs', ev)"
  shows "\<exists>r. inMemory_cur vs' = Some (v, r) \<and> map_option (with_key key) ev = Some (put_event now key v r (live_element vs))"
proof -
  have clone: "vs_cloneFunc vs x = x" for x using assms(1) by (simp add: inMemory_inv_def)
  from assms(2) have "vs_Put_check (put_options os) vs = None" by (auto simp: vs_Put_def Let_def split: option.splits)
  with assms(2) show ?thesis
    by (auto simp: vs_Put_def Let_def inMemory_cur_def put_event_def live_element_def clone with_key_def
        map_event_revisions_def SetKey_def element_revision_def split: option.splits)
qed

lemma vs_Put_failed: "vs_Put now v os vs = (Inl e, vs', ev) \<Longrightarrow> ev = None"
  by (auto simp: vs_Put_def Let_def split: option.splits)

lemma notify_watched: "map aw_watchedStores (notify key ev ws) = map aw_watchedStores ws"
  by (auto simp: notify_def split: option.split)

lemma notify_sound:
  assumes "\<forall>w \<in> set ws. \<forall>k \<in> set (aw_watchedStores w). matchesKey w k \<and> P k"
  shows "\<forall>w \<in> set (notify key ev ws). \<forall>k \<in> set (aw_watchedStores w). matchesKey w k \<and> P k"
  using assms by (auto simp: notify_def split: option.splits)

lemma store_update_watches:
  assumes A: "art_laws A" and "watches_inv A s" "inMemory_inv vst'"
  shows "watches_inv A (s\<lparr>ks_keys := art_Insert A key vst' (ks_keys s), ks_watches := notify key ev (ks_watches s)\<rparr>)"
proof -
  let ?P = "\<lambda>k. art_Search A (art_Insert A key vst' (ks_keys s)) k \<noteq> None"
  have "\<forall>w \<in> set (ks_watches s). \<forall>k \<in> set (aw_watchedStores w). matchesKey w k \<and> ?P k"
    using assms(2) by (auto simp: watches_inv_def art_simps(2) [OF A])
  from notify_sound [OF this] assms(2,3) show ?thesis
    by (auto simp: watches_inv_def art_simps(2) [OF A])
qed

lemma put_store_watches:
  assumes A: "art_laws A" and "watches_inv A s" "art_Search A (ks_keys s) key = Some vst"
    and "put_store A now key v os vst s = (r, s')"
  shows "watches_inv A s'"
    and "r = Inr ro \<Longrightarrow> \<exists>r. kv_cur A s' key = Some (v, r)
      \<and> map aw_ch (ks_watches s') = map (\<lambda>w. aw_ch w @
          (if key \<in> set (aw_watchedStores w) then [put_event now key v r (live_element vst)] else [])) (ks_watches s)
      \<and> map aw_watchedStores (ks_watches s') = map aw_watchedStores (ks_watches s)"
proof -
  obtain x vst' ev where put: "vs_Put now v os vst = (x, vst', ev)" by (cases "vs_Put now v os vst")
  have s': "s' = s\<lparr>ks_keys := art_Insert A key vst' (ks_keys s), ks_watches := notify key ev (ks_watches s)\<rparr>" "r = x"
    using assms(4) put by (simp_all add: put_store_def)
  have inv: "inMemory_inv vst" using assms(2,3) by (auto simp: watches_inv_def)
  from inmem.put_inv [OF inv, of now v os] put have "inMemory_inv vst'" by (simp add: store_simps)
  from store_update_watches [OF A assms(2) this] show "watches_inv A s'" unfolding s'(1) .
  assume "r = Inr ro"
  with put s'(2) vs_Put_event [OF inv, of now v os ro vst' ev key] obtain e n where
    ev: "ev = Some e" "inMemory_cur vst' = Some (v, n)" "with_key key e = put_event now key v n (live_element vst)" by auto
  have "map aw_ch (ks_watches s') = map (\<lambda>w. aw_ch w @
      (if key \<in> set (aw_watchedStores w) then [put_event now key v n (live_element vst)] else [])) (ks_watches s)"
    using ev s' by (auto simp: notify_def)
  moreover have "kv_cur A s' key = Some (v, n)" using s' ev by (simp add: kv_cur_def art_simps(2) [OF A])
  ultimately show "\<exists>r. kv_cur A s' key = Some (v, r)
      \<and> map aw_ch (ks_watches s') = map (\<lambda>w. aw_ch w @
          (if key \<in> set (aw_watchedStores w) then [put_event now key v r (live_element vst)] else [])) (ks_watches s)
      \<and> map aw_watchedStores (ks_watches s') = map aw_watchedStores (ks_watches s)"
    using s' by (auto simp: notify_watched)
qed

text \<open>A \<open>Put\<close> inserts the store of a new key, and adds it to the watches, before it writes to it.\<close>

lemma new_key_watches:
  assumes A: "art_laws A" and "watches_inv A s" "art_Search A (ks_keys s) key = None"
    and "watch_new_key key (ks_newValueStore s key) (ks_watches s) = (e, ws)"
  shows "watches_inv A (s\<lparr>ks_keys := art_Insert A key (ks_newValueStore s key) (ks_keys s), ks_watches := ws\<rparr>)"
proof -
  let ?vst = "ks_newValueStore s key"
  let ?P = "\<lambda>k. art_Search A (art_Insert A key ?vst (ks_keys s)) k \<noteq> None"
  have "\<forall>w \<in> set (ks_watches s). \<forall>k \<in> set (aw_watchedStores w). matchesKey w k \<and> ?P k" "?P key"
    using assms(2) by (auto simp: watches_inv_def art_simps(2) [OF A])
  from watch_new_key_sound [OF _ assms(4) this] assms(2) show ?thesis
    by (auto simp: watches_inv_def art_simps(2) [OF A])
qed

lemma kvs_Put_watches_inv:
  assumes A: "art_laws A" and "watches_inv A s"
  shows "watches_inv A (snd (kvs_Put A now key v os s))"
proof (cases "key = [] \<or> art_Search A (ks_keys s) key \<noteq> None")
  case True
  then show ?thesis
    using put_store_watches(1) [OF A assms(2) _ prod.collapse [symmetric], of key] assms(2)
    by (auto simp: kvs_Put_def validateKey_def)
next
  case False
  let ?vst = "ks_newValueStore s key"
  obtain e ws where ws: "watch_new_key key ?vst (ks_watches s) = (e, ws)" by (cases "watch_new_key key ?vst (ks_watches s)")
  let ?s1 = "s\<lparr>ks_keys := art_Insert A key ?vst (ks_keys s), ks_watches := ws\<rparr>"
  from False new_key_watches [OF A assms(2) _ ws] have inv: "watches_inv A ?s1" by simp
  have "art_Search A (ks_keys ?s1) key = Some ?vst" by (simp add: art_simps(2) [OF A])
  from put_store_watches(1) [OF A inv this prod.collapse [symmetric]] inv False ws show ?thesis
    by (auto simp: kvs_Put_def validateKey_def Let_def split: option.split)
qed

lemma kvs_Put_watches:
  assumes A: "art_laws A" and "watches_inv A s" "key \<noteq> []"
    and "kvs_Put A now key v os s = (Inr ro, s')"
  shows "\<exists>r. kv_cur A s' key = Some (v, r)
    \<and> map aw_ch (ks_watches s') = map (\<lambda>w. aw_ch w @
        (if follows A s key w then [put_event now key v r (live_element (store_of A s key))] else [])) (ks_watches s)
    \<and> map (\<lambda>w. key \<in> set (aw_watchedStores w)) (ks_watches s') = map (follows A s key) (ks_watches s)"
proof (cases "art_Search A (ks_keys s) key")
  case (Some vst)
  have f: "follows A s key w \<longleftrightarrow> key \<in> set (aw_watchedStores w)" if "w \<in> set (ks_watches s)" for w
    using assms(2) that Some by (auto simp: follows_def watches_inv_def)
  have vst: "store_of A s key = vst" using Some by (simp add: store_of_def)
  have "put_store A now key v os vst s = (Inr ro, s')"
    using assms(3,4) Some by (simp add: kvs_Put_def validateKey_def)
  from put_store_watches(2) [OF A assms(2) Some this refl] obtain r where r: "kv_cur A s' key = Some (v, r)"
    "map aw_ch (ks_watches s') = map (\<lambda>w. aw_ch w @
        (if key \<in> set (aw_watchedStores w) then [put_event now key v r (live_element vst)] else [])) (ks_watches s)"
    "map aw_watchedStores (ks_watches s') = map aw_watchedStores (ks_watches s)" by blast
  from arg_cong [OF r(3), of "map (\<lambda>ks. key \<in> set ks)"] r(1,2) f show ?thesis
    unfolding vst by (intro exI [of _ r]) (simp add: comp_def cong: map_cong)
next
  case None
  let ?vst = "ks_newValueStore s key"
  let ?ws = "map (\<lambda>w. if matchesKey w key then w\<lparr>aw_watchedStores := aw_watchedStores w @ [key]\<rparr> else w) (ks_watches s)"
  let ?s1 = "s\<lparr>ks_keys := art_Insert A key ?vst (ks_keys s), ks_watches := ?ws\<rparr>"
  have fresh: "refines ?vst []" using assms(2) by (auto simp: watches_inv_def)
  obtain e ws where ws: "watch_new_key key ?vst (ks_watches s) = (e, ws)" by (cases "watch_new_key key ?vst (ks_watches s)")
  with assms(3,4) None have "e = None" by (auto simp: kvs_Put_def validateKey_def Let_def split: option.splits)
  with watch_new_key_fresh [OF fresh, of key "ks_watches s" ws] ws have wsq: "watch_new_key key ?vst (ks_watches s) = (None, ?ws)"
    by simp
  have put: "put_store A now key v os ?vst ?s1 = (Inr ro, s')"
    using assms(3,4) None wsq by (simp add: kvs_Put_def validateKey_def Let_def)
  have "art_Search A (ks_keys ?s1) key = Some ?vst" by (simp add: art_simps(2) [OF A])
  from put_store_watches(2) [OF A new_key_watches [OF A assms(2) None wsq] this put refl] obtain r where
    r: "kv_cur A s' key = Some (v, r)"
    "map aw_ch (ks_watches s') = map (\<lambda>w. aw_ch w @
        (if key \<in> set (aw_watchedStores w) then [put_event now key v r (live_element ?vst)] else [])) ?ws"
    "map aw_watchedStores (ks_watches s') = map aw_watchedStores ?ws" by auto
  have f: "follows A s key w \<longleftrightarrow> matchesKey w key" "\<not> matchesKey w key \<Longrightarrow> key \<notin> set (aw_watchedStores w)"
    if "w \<in> set (ks_watches s)" for w
    using assms(2) that None by (auto simp: follows_def watches_inv_def)
  have vst: "store_of A s key = ?vst" using None by (simp add: store_of_def)
  from arg_cong [OF r(3), of "map (\<lambda>ks. key \<in> set ks)"] r(1,2) f show ?thesis
    unfolding vst by (intro exI [of _ r]) (auto simp: comp_def)
qed

text \<open>Every operation keeps the invariant.\<close>

lemma add_matching_sound:
  assumes "add_matching stores w = (w', errs)" "\<forall>k \<in> set (aw_watchedStores w) \<union> fst ` set stores. matchesKey w k \<and> P k"
  shows "aw_key w' = aw_key w \<and> aw_Prefix w' = aw_Prefix w \<and> (\<forall>k \<in> set (aw_watchedStores w'). matchesKey w' k \<and> P k)"
  using assms
proof (induction stores w arbitrary: w' errs rule: add_matching.induct)
  case (2 key vs stores w)
  show ?case
  proof (cases "addWatch key vs w")
    case (Inl e)
    obtain w2 es where w2: "add_matching stores w = (w2, es)" by (cases "add_matching stores w")
    have "\<forall>k \<in> set (aw_watchedStores w) \<union> fst ` set stores. matchesKey w k \<and> P k" using 2(4) by simp
    with 2(1) [OF Inl w2] 2(3) Inl w2 show ?thesis by simp
  next
    case (Inr w1)
    then have w1: "aw_key w1 = aw_key w" "aw_Prefix w1 = aw_Prefix w" "aw_watchedStores w1 = aw_watchedStores w @ [key]"
      by (auto simp: addWatch_def split: sum.splits)
    have m: "matchesKey w1 k = matchesKey w k" for k by (simp add: matchesKey_def w1(1,2))
    have run: "add_matching stores w1 = (w', errs)" using 2(3) Inr by simp
    have "\<forall>k \<in> set (aw_watchedStores w1) \<union> fst ` set stores. matchesKey w1 k \<and> P k"
      unfolding m w1(3) using 2(4) by simp
    from 2(2) [OF Inr run this] show ?thesis unfolding w1(1,2) .
  qed
qed auto

lemma kv_Watch_watches_inv:
  assumes A: "art_laws A" and inv: "watches_inv A s"
  shows "watches_inv A (snd (kv_Watch A key os s))"
proof -
  let ?o = "watch_options os"
  let ?stores = "if watch_Prefix ?o then art_leaves (art_ForEachPrefix A (ks_keys s) key)
     else (case art_Search A (ks_keys s) key of None \<Rightarrow> [] | Some vs \<Rightarrow> [(key, vs)])"
  let ?w = "\<lparr>aw_key = key, aw_Prefix = watch_Prefix ?o, aw_Revision = watch_Revision ?o, aw_watchedStores = [], aw_ch = []\<rparr>"
  obtain w errs where w: "add_matching ?stores ?w = (w, errs)" by (cases "add_matching ?stores ?w")
  have "set (art_leaves (art_ForEachPrefix A (ks_keys s) key)) = {(k, v). art_Search A (ks_keys s) k = Some v \<and> prefix key k}"
    using A by (simp add: art_laws_def)
  then have "\<forall>k \<in> set (aw_watchedStores ?w) \<union> fst ` set ?stores. matchesKey ?w k \<and> art_Search A (ks_keys s) k \<noteq> None"
    by (cases "art_Search A (ks_keys s) key") (auto simp: matchesKey_def)
  from add_matching_sound [OF w this] inv w show ?thesis
    by (auto simp: kv_Watch_def validateKey_def Let_def watches_inv_def)
qed

lemma kvs_Delete_watches_inv:
  assumes A: "art_laws A" and "watches_inv A s"
  shows "watches_inv A (snd (kvs_Delete A now key os s))"
proof (cases "key = [] \<or> art_Search A (ks_keys s) key = None")
  case True
  then show ?thesis using assms(2) by (auto simp: kvs_Delete_def validateKey_def)
next
  case False
  then obtain vs where vs: "art_Search A (ks_keys s) key = Some vs" "key \<noteq> []" by auto
  with assms(2) have "inMemory_inv vs" by (auto simp: watches_inv_def)
  then have inv: "inMemory_inv (snd (st_Delete inMemory_ops now os vs))" by (rule inmem.delete_inv)
  obtain x vs' ev where del: "vs_Delete now os vs = (x, vs', ev)" by (cases "vs_Delete now os vs")
  with inv have "inMemory_inv vs'" by (simp add: store_simps)
  from store_update_watches [OF A assms(2) this, of key ev] vs del show ?thesis by (simp add: kvs_Delete_def validateKey_def)
qed

lemma kv_step_inv: "art_laws A \<Longrightarrow> watches_inv A s \<Longrightarrow> watches_inv A (kv_step A s op)"
proof (cases op)
  case (KV_Watch_done i)
  moreover assume "watches_inv A s"
  ultimately show ?thesis by (auto simp: watches_inv_def kv_Watch_done_def dest: in_set_takeD in_set_dropD)
next
  case (KV_Watch_gives_up i key)
  moreover assume inv: "watches_inv A s"
  moreover have "watch_gives_up i key s = s" if "\<not> i < length (ks_watches s)"
    using that by (simp add: watch_gives_up_def list_update_beyond)
  ultimately show ?thesis
    by (cases "i < length (ks_watches s)")
      (auto simp: watches_inv_def watch_gives_up_def dest!: set_update_subset_insert [THEN subsetD] nth_mem)
qed (simp_all add: kvs_Put_watches_inv kvs_Delete_watches_inv kv_Watch_watches_inv)

lemma kv_run_inv: "art_laws A \<Longrightarrow> watches_inv A s \<Longrightarrow> watches_inv A (kv_run A ops s)"
  unfolding kv_run_def by (induction ops arbitrary: s) (simp_all add: kv_step_inv)

text \<open>
  Where no watch begins at a positive revision and none gives up, the watches that follow a key are those that
  match it.
\<close>

fun keeps_watching :: "'a kv_op \<Rightarrow> bool" where
  "keeps_watching (KV_Watch key os) \<longleftrightarrow> (case watch_Revision (watch_options os) of None \<Rightarrow> True | Some r \<Rightarrow> r \<le> 0)"
| "keeps_watching (KV_Watch_gives_up i key) \<longleftrightarrow> False"
| "keeps_watching _ \<longleftrightarrow> True"

definition watch_complete :: "('t, 'a) kv_art \<Rightarrow> 't \<Rightarrow> 'a activeWatch \<Rightarrow> bool" where
  "watch_complete A t w \<longleftrightarrow> watch_from_now w
     \<and> (\<forall>k. k \<in> set (aw_watchedStores w) \<longleftrightarrow> matchesKey w k \<and> art_Search A t k \<noteq> None)"

lemma complete_notify:
  "\<forall>w \<in> set ws. watch_complete A t w \<Longrightarrow> \<forall>w \<in> set (notify key ev ws). watch_complete A t w"
  by (auto simp: notify_def watch_complete_def watch_from_now_def split: option.splits)

lemma complete_update:
  assumes A: "art_laws A" and "art_Search A t key \<noteq> None" "watch_complete A t w"
  shows "watch_complete A (art_Insert A key vs t) w"
  using assms(2,3) by (auto simp: watch_complete_def art_simps(2) [OF A])

lemma complete_new_key:
  assumes A: "art_laws A" and vst: "refines vst []" and None: "art_Search A t key = None"
  shows "\<forall>w \<in> set ws. watch_complete A t w \<Longrightarrow>
    \<exists>ws'. watch_new_key key vst ws = (None, ws') \<and> (\<forall>w \<in> set ws'. watch_complete A (art_Insert A key vst t) w)"
proof (induction ws)
  case (Cons w ws)
  then obtain ws' where ws': "watch_new_key key vst ws = (None, ws')"
    "\<forall>w \<in> set ws'. watch_complete A (art_Insert A key vst t) w" by auto
  have "\<not> (\<exists>n > 0. aw_Revision w = Some n)" using Cons.prems by (auto simp: watch_complete_def watch_from_now_def)
  with ws' Cons.prems None show ?case
    by (auto simp: addWatch_fresh [OF vst] watch_complete_def watch_from_now_def art_simps(2) [OF A])
qed simp

lemma complete_put_store:
  assumes A: "art_laws A" and "art_Search A (ks_keys s) key \<noteq> None" "\<forall>w \<in> set (ks_watches s). watch_complete A (ks_keys s) w"
  shows "let s' = snd (put_store A now key v os vst s) in \<forall>w \<in> set (ks_watches s'). watch_complete A (ks_keys s') w"
proof -
  obtain x vst' ev where put: "vs_Put now v os vst = (x, vst', ev)" by (cases "vs_Put now v os vst")
  have "\<forall>w \<in> set (ks_watches s). watch_complete A (art_Insert A key vst' (ks_keys s)) w"
    using assms(3) complete_update [OF A assms(2)] by blast
  from complete_notify [OF this] put show ?thesis by (simp add: put_store_def)
qed

lemma add_matching_all:
  assumes "watch_from_now w" "add_matching stores w = (w', errs)"
  shows "errs = [] \<and> aw_key w' = aw_key w \<and> aw_Prefix w' = aw_Prefix w \<and> aw_Revision w' = aw_Revision w
    \<and> aw_watchedStores w' = aw_watchedStores w @ map fst stores"
  using assms
proof (induction stores w arbitrary: w' errs rule: add_matching.induct)
  case (2 key vs stores w)
  from watch_ok [OF 2(3)] obtain events where "vs_Watch (vsOpts (aw_Revision w)) vs = Inr events" by blast
  then have add: "addWatch key vs w = Inr (w\<lparr>aw_watchedStores := aw_watchedStores w @ [key], aw_ch := aw_ch w @ map (with_key key) events\<rparr>)"
    by (simp add: addWatch_def)
  from 2(2) [OF add, of w' errs] 2(3,4) add show ?case by (simp add: watch_from_now_def)
qed auto

lemma complete_Watch:
  assumes A: "art_laws A" and "keeps_watching (KV_Watch key os)" "\<forall>w \<in> set (ks_watches s). watch_complete A (ks_keys s) w"
  shows "let s' = snd (kv_Watch A key os s) in \<forall>w \<in> set (ks_watches s'). watch_complete A (ks_keys s') w"
proof -
  let ?o = "watch_options os"
  let ?stores = "if watch_Prefix ?o then art_leaves (art_ForEachPrefix A (ks_keys s) key)
     else (case art_Search A (ks_keys s) key of None \<Rightarrow> [] | Some vs \<Rightarrow> [(key, vs)])"
  let ?w = "\<lparr>aw_key = key, aw_Prefix = watch_Prefix ?o, aw_Revision = watch_Revision ?o, aw_watchedStores = [], aw_ch = []\<rparr>"
  obtain w errs where w: "add_matching ?stores ?w = (w, errs)" by (cases "add_matching ?stores ?w")
  have now: "watch_from_now ?w" using assms(2) by (simp add: watch_from_now_def)
  note add = add_matching_all [OF now w]
  have "set (art_leaves (art_ForEachPrefix A (ks_keys s) key)) = {(k, v). art_Search A (ks_keys s) k = Some v \<and> prefix key k}"
    using A by (simp add: art_laws_def)
  then have "k \<in> fst ` set ?stores \<longleftrightarrow> matchesKey w k \<and> art_Search A (ks_keys s) k \<noteq> None" for k
    using add by (cases "art_Search A (ks_keys s) key") (auto simp: matchesKey_def image_iff)
  with add now have "watch_complete A (ks_keys s) w" by (simp add: watch_complete_def watch_from_now_def)
  with w assms(3) show ?thesis by (auto simp: kv_Watch_def validateKey_def Let_def)
qed

lemma complete_step:
  assumes A: "art_laws A" and inv: "watches_inv A s" and "keeps_watching op"
    and all: "\<forall>w \<in> set (ks_watches s). watch_complete A (ks_keys s) w"
  shows "\<forall>w \<in> set (ks_watches (kv_step A s op)). watch_complete A (ks_keys (kv_step A s op)) w"
proof (cases op)
  case (KV_Put now key v os)
  show ?thesis
  proof (cases "art_Search A (ks_keys s) key")
    case None
    let ?vst = "ks_newValueStore s key"
    from inv have "refines ?vst []" by (simp add: watches_inv_def)
    from complete_new_key [OF A this None all] obtain ws where ws: "watch_new_key key ?vst (ks_watches s) = (None, ws)"
      "\<forall>w \<in> set ws. watch_complete A (art_Insert A key ?vst (ks_keys s)) w" by blast
    with complete_put_store [OF A, of "s\<lparr>ks_keys := art_Insert A key ?vst (ks_keys s), ks_watches := ws\<rparr>" key now v os ?vst]
      KV_Put None all show ?thesis
      by (simp add: kvs_Put_def validateKey_def Let_def art_simps(2) [OF A])
  next
    case (Some vst)
    with complete_put_store [OF A _ all, of key now v os vst] KV_Put all show ?thesis
      by (simp add: kvs_Put_def validateKey_def Let_def)
  qed
next
  case (KV_Delete now key os)
  show ?thesis
  proof (cases "art_Search A (ks_keys s) key")
    case (Some vs)
    obtain x vs' ev where del: "vs_Delete now os vs = (x, vs', ev)" by (cases "vs_Delete now os vs")
    have "\<forall>w \<in> set (ks_watches s). watch_complete A (art_Insert A key vs' (ks_keys s)) w"
      using all complete_update [OF A, of "ks_keys s" key] Some by simp
    from complete_notify [OF this] KV_Delete Some del all show ?thesis by (simp add: kvs_Delete_def validateKey_def)
  qed (use KV_Delete all in \<open>simp add: kvs_Delete_def validateKey_def\<close>)
next
  case (KV_Watch key os)
  with complete_Watch [OF A _ all] assms(3) show ?thesis by (simp add: Let_def)
next
  case (KV_Watch_done i)
  with all show ?thesis by (auto simp: kv_Watch_done_def dest: in_set_takeD in_set_dropD)
qed (use assms(3) in simp)

lemma matching_watches_follow:
  assumes "art_laws A" "\<forall>op \<in> set ops. keeps_watching op"
    and "watches_inv A s" "ks_watches s = []" "w \<in> set (ks_watches (kv_run A ops s))"
  shows "follows A (kv_run A ops s) key w = matchesKey w key"
proof -
  have "watches_inv A (kv_run A ops s) \<and> (\<forall>w \<in> set (ks_watches (kv_run A ops s)). watch_complete A (ks_keys (kv_run A ops s)) w)"
    using assms(2)
  proof (induction ops rule: rev_induct)
    case (snoc op ops)
    with complete_step [OF assms(1), of "kv_run A ops s" op] kv_step_inv [OF assms(1)] show ?case
      by (simp add: kv_run_def)
  qed (use assms(3,4) in \<open>simp add: kv_run_def\<close>)
  with assms(5) show ?thesis by (auto simp: follows_def watch_complete_def)
qed

end
