(* ===== verification/KVProps.thy ===== *)
theory KVProps
  imports KVIface ServerProps
begin

text \<open>
  The properties of the in-memory key-value store, of the stores derived from it, and of the config
  server that keeps one active configuration per key in it.
\<close>

section \<open>An example store\<close>

definition ex_kv :: "(nat inMemoryValueStore alist_tree, nat) inMemoryKeyValueStore" where
  "ex_kv = NewKeyValueStore alist_art (\<lambda>x. x) 0"

lemma art_leaves_empty:
  assumes "art_laws A" "art_Search A t = Map.empty"
  shows "art_leaves (art_ForEachPrefix A t p) = []"
proof -
  have "set (art_leaves (art_ForEachPrefix A t p)) = {(k, v). art_Search A t k = Some v \<and> prefix p k}"
    using assms(1) by (simp add: art_laws_def)
  then show ?thesis using assms(2) by simp
qed

lemma New_refines: "refines (NewValueStore c z) []"
  by blast

lemma kv_New:
  assumes "art_laws A"
  shows "kv_inv A (NewKeyValueStore A (\<lambda>x. x) z)" "watches_inv A (NewKeyValueStore A (\<lambda>x. x) z)"
    "kv_cur A (NewKeyValueStore A (\<lambda>x. x) z) k = None"
  using art_simps(1) [OF assms] New_refines inMemory_New(1)
  by (simp_all add: kv_inv_def watches_inv_def kv_cur_def NewKeyValueStore_def NewCustomKeyValueStore_def)

lemma fresh_put_ok: "\<exists>ro. fst (st_Put inMemory_ops now v [] (NewValueStore (\<lambda>x. x) z)) = Inr ro"
  by (simp add: store_simps vs_Put_def Let_def vs_Put_check_def)

lemma ex_kv_put: "\<exists>ro s'. kvs_Put alist_art 1 ''k'' 5 [] ex_kv = (Inr ro, s')"
proof -
  have "store_of alist_art ex_kv ''k'' = NewValueStore (\<lambda>x. x) 0"
    by (simp add: art_simps(1) [OF alist_art_laws] store_of_def ex_kv_def NewKeyValueStore_def NewCustomKeyValueStore_def)
  with kv_put_snd(1) [OF alist_art_laws kv_New(1) [OF alist_art_laws], of "''k''" 1 5 "[]" 0] fresh_put_ok [of 1 5 0]
  show ?thesis by (metis ex_kv_def list.distinct(1) prod.collapse)
qed

section \<open>Reading and writing\<close>

text \<open>
  A successful \<open>Put\<close> of the in-memory key-value store is what the next \<open>Get\<close> of the key returns, at
  a positive revision, and changes what no other key's \<open>Get\<close> returns; the store's invariant is kept.
\<close>

theorem kv_put_get:
  assumes "art_laws A" "kv_inv A s" "key \<noteq> []" "k \<noteq> []" "k \<noteq> key"
    and "kvs_Put A now key v os s = (Inr ro, s')"
  shows "kv_inv A s' \<and> (\<exists>r > 0. kvs_Get A key [Get_RevisionOutOpt True] s' = Inr (v, Some r))
    \<and> kvs_Get A k [Get_RevisionOutOpt True] s' = kvs_Get A k [Get_RevisionOutOpt True] s"
proof -
  note K = inMemory_key_store [OF assms(1,3)] and L = inMemory_key_store [OF assms(1,4)]
  have s': "s' = snd (kvs_Put A now key v os s)" "fst (kvs_Put A now key v os s) = Inr ro" using assms(6) by simp_all
  have inv: "kv_inv A s'" unfolding s'(1) by (rule kv_put_snd(2) [OF assms(1-3)])
  from value_store.put_ok [OF K assms(2), of now v os ro] s' obtain r where r: "kv_cur A s' key = Some (v, r)" "0 < r"
    by auto
  have "kv_cur A s' k = kv_cur A s k" unfolding s'(1) by (simp add: kv_put_snd(3) [OF assms(1-3)] assms(5))
  then have "kvs_Get A k [Get_RevisionOutOpt True] s' = kvs_Get A k [Get_RevisionOutOpt True] s"
    using value_store.get_cur [OF L inv, of "[Get_RevisionOutOpt True]"]
      value_store.get_cur [OF L assms(2), of "[Get_RevisionOutOpt True]"] by simp
  moreover have "kvs_Get A key [Get_RevisionOutOpt True] s' = Inr (v, Some r)"
    using value_store.get_cur [OF K inv, of "[Get_RevisionOutOpt True]"] r by simp
  ultimately show ?thesis using inv r(2) by auto
qed

lemma kv_put_get_witness:
  "\<exists>s' ro r. kvs_Put alist_art 1 ''k'' 5 [] ex_kv = (Inr ro, s')
     \<and> kvs_Get alist_art ''k'' [Get_RevisionOutOpt True] s' = Inr (5, Some r)"
proof -
  from ex_kv_put obtain ro s' where "kvs_Put alist_art 1 ''k'' 5 [] ex_kv = (Inr ro, s')" by blast
  with kv_put_get [OF alist_art_laws kv_New(1) [OF alist_art_laws], of "''k''" "''l''" 1 5 "[]" 0 ro s']
  show ?thesis by (auto simp: ex_kv_def)
qed

section \<open>Watching\<close>

text \<open>
  C20. After any writes and deletes, watches that begin (at whatever revision) or end, and watches of single keys
  that give up on a full channel, a successful \<open>Put\<close> hands exactly one event to every active watch that
  follows the key, and nothing to the others. A watch follows a key it matches when the key is new, which is the case
  also for keys created after the watch began, or when it still has a watch on it; and it has one afterwards. The event
  is a put event with the key, the value and its new revision, and the value it replaced, if there was one. How the
  watch passes it on to the client is the subject of C5 and C6; where no watch begins at a positive revision and none
  gives up, the watches that follow a key are all those that match it (\<open>matching_watches_follow\<close>).
\<close>

theorem kv_watch_sees_puts:
  assumes "art_laws A" "key \<noteq> []" "s = kv_run A ops (NewKeyValueStore A (\<lambda>x. x) z)"
    and "kvs_Put A now key v os s = (Inr ro, s')"
  shows "\<exists>r. kv_cur A s' key = Some (v, r)
    \<and> map aw_ch (ks_watches s') = map (\<lambda>w. aw_ch w @
        (if follows A s key w then [put_event now key v r (live_element (store_of A s key))] else [])) (ks_watches s)
    \<and> map (\<lambda>w. key \<in> set (aw_watchedStores w)) (ks_watches s') = map (follows A s key) (ks_watches s)"
  unfolding assms(3)
  by (rule kvs_Put_watches [OF assms(1) kv_run_inv [OF assms(1) kv_New(2) [OF assms(1)]] assms(2) assms(4) [unfolded assms(3)]])

text \<open>Two watches for a prefix and a later one at a revision; the first gives up on the key.\<close>

definition ex_kv_ops :: "nat kv_op list" where
  "ex_kv_ops =
     [KV_Watch ''k'' [Watch_PrefixOpt True], KV_Watch ''k'' [Watch_PrefixOpt True], KV_Watch ''m'' [], KV_Put 1 ''kx'' 4 [],
      KV_Watch ''kx'' [Watch_RevisionOpt 1], KV_Watch_gives_up 0 ''kx'']"

theorem kv_watch_sees_puts_witness:
  "\<exists>s' ro r. kvs_Put alist_art 2 ''kx'' 5 [] (kv_run alist_art ex_kv_ops ex_kv) = (Inr ro, s')
     \<and> kv_cur alist_art s' ''kx'' = Some (5, r)
     \<and> map (length \<circ> aw_ch) (ks_watches s') = [1, 2, 0, 2]
     \<and> map (\<lambda>w. ''kx'' \<in> set (aw_watchedStores w)) (ks_watches s') = [False, True, False, True]"
proof -
  let ?s = "kv_run alist_art ex_kv_ops ex_kv"
  have put: "fst (kvs_Put alist_art 2 ''kx'' 5 [] ?s) = Inr None" by code_simp
  then obtain s' where s': "kvs_Put alist_art 2 ''kx'' 5 [] ?s = (Inr None, s')" by (cases "kvs_Put alist_art 2 ''kx'' 5 [] ?s") auto
  have f: "map (\<lambda>w. (length (aw_ch w), follows alist_art ?s ''kx'' w)) (ks_watches ?s) =
      [(1, False), (1, True), (0, False), (1, True)]" by code_simp
  from kv_watch_sees_puts [OF alist_art_laws _ _ s', of ex_kv_ops 0] obtain r where
    r: "kv_cur alist_art s' ''kx'' = Some (5, r)"
    "map aw_ch (ks_watches s') = map (\<lambda>w. aw_ch w @ (if follows alist_art ?s ''kx'' w
        then [put_event 2 ''kx'' 5 r (live_element (store_of alist_art ?s ''kx''))] else [])) (ks_watches ?s)"
    "map (\<lambda>w. ''kx'' \<in> set (aw_watchedStores w)) (ks_watches s') = map (follows alist_art ?s ''kx'') (ks_watches ?s)"
    by (auto simp: ex_kv_def)
  have "map (length \<circ> aw_ch) (ks_watches s') = map (\<lambda>(n, b). if b then Suc n else n)
      (map (\<lambda>w. (length (aw_ch w), follows alist_art ?s ''kx'' w)) (ks_watches ?s))"
    using arg_cong [OF r(2), of "map length"] by (simp add: comp_def case_prod_beta)
  moreover have "map (\<lambda>w. ''kx'' \<in> set (aw_watchedStores w)) (ks_watches s') =
      map snd (map (\<lambda>w. (length (aw_ch w), follows alist_art ?s ''kx'' w)) (ks_watches ?s))"
    using r(3) by (simp add: comp_def)
  ultimately show ?thesis using s' r(1) unfolding f by (intro exI [of _ s'] exI [of _ "None :: int64 option"] exI [of _ r]) simp
qed

text \<open>
  While a watch from a positive revision is active, the first \<open>Put\<close> of a new key it matches fails
  with "not found" and stores nothing: the new key's empty store has no such revision to start from.
\<close>

theorem watch_revision_blocks_put:
  assumes "art_laws A" "art_Search A (ks_keys s) key = None" "key \<noteq> []" "refines (ks_newValueStore s key) []"
    and "w \<in> set (ks_watches s)" "matchesKey w key" "aw_Revision w = Some r" "0 < r"
  shows "\<exists>s'. kvs_Put A now key v os s = (Inl ErrNotFound, s') \<and> kv_cur A s' key = None"
proof -
  let ?vst = "ks_newValueStore s key"
  have fails: "vs_Watch (vsOpts (aw_Revision w)) ?vst =
      (if \<exists>r. aw_Revision w = Some r \<and> 0 < r then Inl ErrNotFound else Inr [])" for w :: "'b activeWatch"
    by (auto simp: Watch_refines [OF assms(4)] vsOpts_def log_at63_def log_at_def split: option.splits)
  have "w \<in> set ws \<Longrightarrow> \<exists>ws'. watch_new_key key ?vst ws = (Some ErrNotFound, ws')" for ws
  proof (induction ws)
    case (Cons x ws)
    show ?case
    proof (cases "matchesKey x key \<and> (\<exists>r. aw_Revision x = Some r \<and> 0 < r)")
      case True
      then show ?thesis by (simp add: addWatch_def fails)
    next
      case False
      then have "w \<noteq> x" using assms(6-8) by auto
      with Cons obtain ws' where "watch_new_key key ?vst ws = (Some ErrNotFound, ws')" by auto
      with False show ?thesis by (auto simp: addWatch_def fails)
    qed
  qed simp
  from this [OF assms(5)] obtain ws' where "watch_new_key key ?vst (ks_watches s) = (Some ErrNotFound, ws')" by blast
  moreover have "inMemory_cur ?vst = None"
    by (simp add: inMemory_cur_log [OF assms(4)] log_current_def log_at_def)
  ultimately show ?thesis
    using assms(2,3) by (simp add: kvs_Put_def validateKey_def Let_def kv_cur_def art_simps(2) [OF assms(1)])
qed

lemma watch_revision_blocks_put_witness:
  "\<exists>s'. kvs_Put alist_art 1 ''k'' 5 []
     (ex_kv\<lparr>ks_watches := [\<lparr>aw_key = ''k'', aw_Prefix = False, aw_Revision = Some 1, aw_watchedStores = [], aw_ch = []\<rparr>]\<rparr>)
     = (Inl ErrNotFound, s')"
proof -
  let ?w = "\<lparr>aw_key = ''k'', aw_Prefix = False, aw_Revision = Some 1, aw_watchedStores = [], aw_ch = []\<rparr> :: nat activeWatch"
  have "art_Search alist_art (ks_keys (ex_kv\<lparr>ks_watches := [?w]\<rparr>)) ''k'' = None"
    "refines (ks_newValueStore (ex_kv\<lparr>ks_watches := [?w]\<rparr>) ''k'') []"
    by (simp_all add: art_simps(1) [OF alist_art_laws] New_refines ex_kv_def NewKeyValueStore_def NewCustomKeyValueStore_def)
  from watch_revision_blocks_put [OF alist_art_laws this(1) _ this(2), of ?w 1 1 5 "[]"] show ?thesis
    by (auto simp: matchesKey_def)
qed

text \<open>
  The keys of the events of a \<open>WithPrefix\<close> store are never the keys its clients use: over a store that
  reports an event under the key it has there (as the in-memory store does), the event for the client's
  key \<open>k\<close> is reported under another key, because a slash is put in front before the prefix is cut off.
\<close>

theorem prefix_event_key_wrong:
  "map_option kr_K (ev_Current (kvStorePrefix_event pre
     \<lparr>ev_EventType = WatchEventPut, ev_Current = Some \<lparr>kr_K = pre @ k, kr_V = v, kr_Rev = r, kr_Time = t\<rparr>,
      ev_Previous = p\<rparr>)) \<noteq> Some k"
proof -
  have "length (TrimPrefix (''/'' @ pre @ k) pre) > length k"
    by (auto simp: TrimPrefix_def)
  then show ?thesis by (auto simp: kvStorePrefix_event_def map_event_revisions_def SetKey_def)
qed

section \<open>Configurations by key\<close>

lemma contextKeyed_WithKey: "contextKeyedValueStore kv (Some key) = WithKey kv key"
  by (simp add: contextKeyedValueStore_def WithKey_def keyFromContext_def)

abbreviation keyed_tracker ::
  "('k, pmsg) kv_art \<Rightarrow> ('t, 'v) ConfigType \<Rightarrow> string option
     \<Rightarrow> ('t, 'v, pmsg inMemoryValueStore, ('k, pmsg) inMemoryKeyValueStore) DefaultingConfigTracker" where
  "keyed_tracker A ty \<equiv> NewDefaultingActiveKeyedConfigTracker inMemory_ops (inMemory_kv_ops A) ty"

text \<open>A handler leaves the active store as it is, or writes to it once.\<close>

lemma Apply_active:
  "Apply ct now c (d, s) = (r, d', s') \<Longrightarrow>
     s' = s \<or> (\<exists>now v os. s' = snd (st_Put (ct_activeStore ct) now v os s))"
  unfolding Apply_def by (auto split: sum.splits prod.splits) (metis snd_conv)

lemma Reset_active:
  "tracker_Reset ct now fm patch q (d, s) = (r, d', s') \<Longrightarrow>
     s' = s \<or> (\<exists>now v os. s' = snd (st_Put (ct_activeStore ct) now v os s))
     \<or> (\<exists>now os. s' = snd (st_Delete (ct_activeStore ct) now os s))"
  unfolding tracker_Reset_def by (auto split: sum.splits prod.splits option.splits) (metis snd_conv)+

text \<open>
  C21. Configurations under different keys do not affect each other: a \<open>Set\<close> or \<open>Reset\<close> request of the
  keyed server, whatever its outcome, leaves the active configuration of every other key as it is.
\<close>

theorem keyed_configs_isolated:
  assumes "art_laws A" "kv_inv A s" "contextWithKey field req = Inr key" "key \<noteq> []" "k \<noteq> key"
  shows "kv_cur A (snd (snd (keyed_Set (keyed_tracker A ty) field req now spec (d, s)))) k = kv_cur A s k
    \<and> kv_cur A (snd (snd (keyed_Reset (keyed_tracker A ty) field req now rq (d, s)))) k = kv_cur A s k"
proof -
  let ?ct = "keyed_tracker A ty (Some key)"
  have active: "ct_activeStore ?ct = WithKey (inMemory_kv_ops A) key"
    by (simp add: NewDefaultingActiveKeyedConfigTracker_def contextKeyed_WithKey)
  have put: "kv_cur A (snd (st_Put (ct_activeStore ?ct) now v os s)) k = kv_cur A s k" for now v os
    using assms(5) by (simp add: active kv_put_snd(3) [OF assms(1,2,4)])
  have delete: "kv_cur A (snd (st_Delete (ct_activeStore ?ct) now os s)) k = kv_cur A s k" for now os
    using assms(5) by (simp add: active kv_delete_snd(2) [OF assms(1,2,4)])
  have "kv_cur A s' k = kv_cur A s k" if "Apply ?ct now c (d, s) = (r, d', s')" for c r d' s'
    using Apply_active [OF that] put by auto
  moreover have "kv_cur A s' k = kv_cur A s k" if "tracker_Reset ?ct now fm patch q (d, s) = (r, d', s')" for fm patch q r d' s'
    using Reset_active [OF that] put delete by auto
  moreover have "snd (snd (server_Reset ?ct now rq (d, s))) = s
      \<or> (\<exists>fm patch q. server_Reset ?ct now rq (d, s) = tracker_Reset ?ct now fm patch q (d, s))"
    by (auto simp: server_Reset_def Let_def split: sum.splits)
  ultimately show ?thesis using assms(3)
    by (auto simp: keyed_Set_def keyed_Reset_def keyed_write_def server_Set_def) (metis prod.collapse)+
qed

definition ex_key_field :: fdesc where
  "ex_key_field = \<lparr>fd_Name = ''key'', fd_Kind = StringKind, fd_IsList = False, fd_IsMap = False,
     fd_Message = [], fd_Masked = False, fd_Oneof = []\<rparr>"

definition ex_keyed_req :: pmsg where
  "ex_keyed_req = Msg ''ext.SetRequest'' [(ex_key_field, Some (VScalar (SString ''a'')))] []"

definition ex_keyed_store :: "(pmsg inMemoryValueStore alist_tree, pmsg) inMemoryKeyValueStore" where
  "ex_keyed_store = snd (kvs_Put alist_art 1 ''b'' (ex_cfg (Some ''b'') None None) []
     (NewKeyValueStore alist_art (\<lambda>x. x) (ex_cfg None None None)))"

lemma ex_keyed_store_inv: "kv_inv alist_art ex_keyed_store"
  unfolding ex_keyed_store_def
  by (rule kv_put_snd(2) [OF alist_art_laws kv_New(1) [OF alist_art_laws]]) simp

lemma keyed_configs_isolated_witness:
  "kv_cur alist_art (snd (snd (keyed_Set (keyed_tracker alist_art ex_type) ex_key_field ex_keyed_req 2
      (ex_cfg (Some ''x'') None None) (ex_store, ex_keyed_store)))) ''b'' = kv_cur alist_art ex_keyed_store ''b''"
proof -
  have key: "contextWithKey ex_key_field ex_keyed_req = Inr ''a''" by code_simp
  show ?thesis
    by (rule keyed_configs_isolated [OF alist_art_laws ex_keyed_store_inv key, THEN conjunct1]) simp_all
qed

end
