(* ===== verification/CoreValue.thy ===== *)
theory CoreValue
  imports Errors Msg "HOL-Library.AList"
begin

text \<open>
  \<open>apis/core/v1/value.go\<close>: the message type \<open>core.Value\<close>, which carries any value of the protobuf
  reflection API, and the conversions both ways. \<open>anypb.New\<close> and \<open>Any.UnmarshalNew\<close> are parameters.
  The code's panics are errors with the code \<open>GoPanic\<close>. Where the code ranges over a Go map, the order
  of the list here stands for the unspecified order.
\<close>

section \<open>The two kinds of values\<close>

text \<open>
  \<open>protoreflect.Value\<close>: invalid (the zero value), or a scalar, a message, a list or a map. Unlike the
  values in a message's fields, those inside a list or a map may be invalid too.
\<close>

datatype pr_value = PInvalid | PScalar scalar | PMessage pmsg | PList "pr_value list"
  | PMap "(scalar \<times> pr_value) list"

text \<open>
  \<open>core.Value\<close>, by its oneof \<open>data\<close> (\<open>CV_Unset\<close>: none is set, also for a nil message), and the oneof of
  \<open>core.Value.MapKey\<close>.
\<close>

datatype map_key = MapKey_Unset | MapKey_Bool bool | MapKey_Int32 "32 word" | MapKey_Int64 "64 word"
  | MapKey_Uint32 "32 word" | MapKey_Uint64 "64 word" | MapKey_String string

datatype 'y core_value = CV_Unset | CV_BoolValue bool | CV_Int32Value "32 word" | CV_Int64Value "64 word"
  | CV_Uint32Value "32 word" | CV_Uint64Value "64 word" | CV_Float32Value "32 word"
  | CV_Float64Value "64 word" | CV_StringValue string | CV_BytesValue bytes | CV_Enum "32 word"
  | CV_Message 'y | CV_List "'y core_value list" | CV_Map "(map_key \<times> 'y core_value) list"

section \<open>From reflection values\<close>

fun scalar_value :: "scalar \<Rightarrow> 'y core_value" where
  "scalar_value (SBool b) = CV_BoolValue b"
| "scalar_value (SInt32 w) = CV_Int32Value w"
| "scalar_value (SInt64 w) = CV_Int64Value w"
| "scalar_value (SUint32 w) = CV_Uint32Value w"
| "scalar_value (SUint64 w) = CV_Uint64Value w"
| "scalar_value (SFloat32 w) = CV_Float32Value w"
| "scalar_value (SFloat64 w) = CV_Float64Value w"
| "scalar_value (SString s) = CV_StringValue s"
| "scalar_value (SBytes b) = CV_BytesValue b"
| "scalar_value (SEnum w) = CV_Enum w"

fun NewMapKey :: "scalar \<Rightarrow> map_key result" where
  "NewMapKey (SBool b) = Inr (MapKey_Bool b)"
| "NewMapKey (SInt32 w) = Inr (MapKey_Int32 w)"
| "NewMapKey (SInt64 w) = Inr (MapKey_Int64 w)"
| "NewMapKey (SUint32 w) = Inr (MapKey_Uint32 w)"
| "NewMapKey (SUint64 w) = Inr (MapKey_Uint64 w)"
| "NewMapKey (SString s) = Inr (MapKey_String s)"
| "NewMapKey _ = Inl (go_panic ''bug: invalid map key type: %T'')"

definition panic_err :: "err \<Rightarrow> err" where
  "panic_err e = go_panic (err_msg e)"

fun NewValue :: "(pmsg \<Rightarrow> 'y result) \<Rightarrow> pr_value \<Rightarrow> 'y core_value result"
  and new_values :: "(pmsg \<Rightarrow> 'y result) \<Rightarrow> pr_value list \<Rightarrow> 'y core_value list result"
  and new_entries :: "(pmsg \<Rightarrow> 'y result) \<Rightarrow> (scalar \<times> pr_value) list \<Rightarrow> (map_key \<times> 'y core_value) list result" where
  "NewValue any_new PInvalid = Inr CV_Unset"
| "NewValue any_new (PScalar s) = Inr (scalar_value s)"
| "NewValue any_new (PMessage m) =
     (case any_new m of Inl e \<Rightarrow> Inl (panic_err e) | Inr a \<Rightarrow> Inr (CV_Message a))"
| "NewValue any_new (PList vs) = map_sum id CV_List (new_values any_new vs)"
| "NewValue any_new (PMap kvs) = map_sum id CV_Map (new_entries any_new kvs)"
| "new_values any_new [] = Inr []"
| "new_values any_new (v # vs) =
     rbind (NewValue any_new v) (\<lambda>x. rbind (new_values any_new vs) (\<lambda>xs. Inr (x # xs)))"
| "new_entries any_new [] = Inr []"
| "new_entries any_new ((k, v) # kvs) =
     rbind (NewMapKey k) (\<lambda>key. rbind (NewValue any_new v) (\<lambda>x.
       rbind (new_entries any_new kvs) (\<lambda>xs. Inr ((key, x) # xs))))"

section \<open>To reflection values\<close>

fun ToMapKey :: "map_key \<Rightarrow> scalar result" where
  "ToMapKey (MapKey_Bool b) = Inr (SBool b)"
| "ToMapKey (MapKey_Int32 w) = Inr (SInt32 w)"
| "ToMapKey (MapKey_Int64 w) = Inr (SInt64 w)"
| "ToMapKey (MapKey_Uint32 w) = Inr (SUint32 w)"
| "ToMapKey (MapKey_Uint64 w) = Inr (SUint64 w)"
| "ToMapKey (MapKey_String s) = Inr (SString s)"
| "ToMapKey MapKey_Unset = Inl (go_panic ''bug: invalid map key type: %T'')"

text \<open>\<open>listValue\<close> and \<open>mapValue\<close>: the list and the map behind the result; a Go map has distinct keys.\<close>

definition listValue_Append :: "pr_value \<Rightarrow> pr_value list \<Rightarrow> pr_value list" where
  "listValue_Append v l = l @ [v]"

definition mapValue_Set :: "scalar \<Rightarrow> pr_value \<Rightarrow> (scalar \<times> pr_value) list \<Rightarrow> (scalar \<times> pr_value) list" where
  "mapValue_Set k v m = AList.update k v m"

fun ToValue :: "('y \<Rightarrow> pmsg result) \<Rightarrow> 'y core_value \<Rightarrow> pr_value result"
  and append_values :: "('y \<Rightarrow> pmsg result) \<Rightarrow> 'y core_value list \<Rightarrow> pr_value list \<Rightarrow> pr_value list result"
  and set_entries :: "('y \<Rightarrow> pmsg result) \<Rightarrow> (map_key \<times> 'y core_value) list \<Rightarrow> (scalar \<times> pr_value) list
     \<Rightarrow> (scalar \<times> pr_value) list result" where
  "ToValue unmarshal CV_Unset = Inr PInvalid"
| "ToValue unmarshal (CV_BoolValue b) = Inr (PScalar (SBool b))"
| "ToValue unmarshal (CV_Int32Value w) = Inr (PScalar (SInt32 w))"
| "ToValue unmarshal (CV_Int64Value w) = Inr (PScalar (SInt64 w))"
| "ToValue unmarshal (CV_Uint32Value w) = Inr (PScalar (SUint32 w))"
| "ToValue unmarshal (CV_Uint64Value w) = Inr (PScalar (SUint64 w))"
| "ToValue unmarshal (CV_Float32Value w) = Inr (PScalar (SFloat32 w))"
| "ToValue unmarshal (CV_Float64Value w) = Inr (PScalar (SFloat64 w))"
| "ToValue unmarshal (CV_StringValue s) = Inr (PScalar (SString s))"
| "ToValue unmarshal (CV_BytesValue b) = Inr (PScalar (SBytes b))"
| "ToValue unmarshal (CV_Enum w) = Inr (PScalar (SEnum w))"
| "ToValue unmarshal (CV_Message a) =
     (case unmarshal a of Inl e \<Rightarrow> Inl (panic_err e) | Inr m \<Rightarrow> Inr (PMessage m))"
| "ToValue unmarshal (CV_List vs) = map_sum id PList (append_values unmarshal vs [])"
| "ToValue unmarshal (CV_Map es) = map_sum id PMap (set_entries unmarshal es [])"
| "append_values unmarshal [] l = Inr l"
| "append_values unmarshal (v # vs) l =
     rbind (ToValue unmarshal v) (\<lambda>x. append_values unmarshal vs (listValue_Append x l))"
| "set_entries unmarshal [] m = Inr m"
| "set_entries unmarshal ((k, v) # es) m =
     rbind (ToMapKey k) (\<lambda>key. rbind (ToValue unmarshal v) (\<lambda>x. set_entries unmarshal es (mapValue_Set key x m)))"

section \<open>The methods of the list and the map\<close>

definition listValue_Len :: "pr_value list \<Rightarrow> nat" where
  "listValue_Len l = length l"

definition index_panic :: err where
  "index_panic = go_panic ''runtime error: index out of range''"

definition listValue_Get :: "int \<Rightarrow> pr_value list \<Rightarrow> pr_value result" where
  "listValue_Get i l = (if 0 \<le> i \<and> i < int (length l) then Inr (l ! nat i) else Inl index_panic)"

definition listValue_Set :: "int \<Rightarrow> pr_value \<Rightarrow> pr_value list \<Rightarrow> pr_value list result" where
  "listValue_Set i v l = (if 0 \<le> i \<and> i < int (length l) then Inr (l[nat i := v]) else Inl index_panic)"

definition listValue_AppendMutable :: "pr_value list \<Rightarrow> pr_value result" where
  "listValue_AppendMutable l = Inl (go_panic ''AppendMutable not supported'')"

definition listValue_NewElement :: "pr_value list \<Rightarrow> pr_value result" where
  "listValue_NewElement l = Inl (go_panic ''NewElement not supported'')"

definition mapValue_Clear :: "scalar \<Rightarrow> (scalar \<times> pr_value) list \<Rightarrow> (scalar \<times> pr_value) list" where
  "mapValue_Clear k m = AList.delete k m"

definition mapValue_Get :: "scalar \<Rightarrow> (scalar \<times> pr_value) list \<Rightarrow> pr_value" where
  "mapValue_Get k m = (case map_of m k of None \<Rightarrow> PInvalid | Some v \<Rightarrow> v)"

definition mapValue_Has :: "scalar \<Rightarrow> (scalar \<times> pr_value) list \<Rightarrow> bool" where
  "mapValue_Has k m \<longleftrightarrow> mapValue_Get k m \<noteq> PInvalid"

definition mapValue_Len :: "(scalar \<times> pr_value) list \<Rightarrow> nat" where
  "mapValue_Len m = length m"

definition mapValue_Mutable :: "scalar \<Rightarrow> (scalar \<times> pr_value) list \<Rightarrow> pr_value result" where
  "mapValue_Mutable k m = Inl (go_panic ''Mutable not supported'')"

definition mapValue_NewValue :: "(scalar \<times> pr_value) list \<Rightarrow> pr_value result" where
  "mapValue_NewValue m = Inl (go_panic ''NewValue not supported'')"

text \<open>\<open>Range\<close> until the callback returns false; the callback's effects are the state \<open>s\<close>.\<close>

fun mapValue_Range :: "(scalar \<Rightarrow> pr_value \<Rightarrow> 's \<Rightarrow> bool \<times> 's) \<Rightarrow> (scalar \<times> pr_value) list \<Rightarrow> 's \<Rightarrow> 's" where
  "mapValue_Range f [] s = s"
| "mapValue_Range f ((k, v) # m) s =
     (let (continue, s') = f k v s in if continue then mapValue_Range f m s' else s')"

section \<open>Round trips\<close>

text \<open>
  The values that occur: the keys of a map are of a key type and distinct, and the messages can be
  packed in an \<open>Any\<close>.
\<close>

fun valid_value :: "(pmsg \<Rightarrow> 'y result) \<Rightarrow> pr_value \<Rightarrow> bool"
  and valid_values :: "(pmsg \<Rightarrow> 'y result) \<Rightarrow> pr_value list \<Rightarrow> bool"
  and valid_entries :: "(pmsg \<Rightarrow> 'y result) \<Rightarrow> (scalar \<times> pr_value) list \<Rightarrow> bool" where
  "valid_value any_new PInvalid \<longleftrightarrow> True"
| "valid_value any_new (PScalar s) \<longleftrightarrow> True"
| "valid_value any_new (PMessage m) \<longleftrightarrow> \<not> isl (any_new m)"
| "valid_value any_new (PList vs) \<longleftrightarrow> valid_values any_new vs"
| "valid_value any_new (PMap kvs) \<longleftrightarrow> distinct (map fst kvs) \<and> valid_entries any_new kvs"
| "valid_values any_new [] \<longleftrightarrow> True"
| "valid_values any_new (v # vs) \<longleftrightarrow> valid_value any_new v \<and> valid_values any_new vs"
| "valid_entries any_new [] \<longleftrightarrow> True"
| "valid_entries any_new ((k, v) # kvs) \<longleftrightarrow> \<not> isl (NewMapKey k) \<and> valid_value any_new v \<and> valid_entries any_new kvs"

lemma ToValue_scalar [simp]: "ToValue unmarshal (scalar_value s) = Inr (PScalar s)"
  by (cases s) simp_all

lemma map_key_roundtrip: "\<not> isl (NewMapKey k) \<Longrightarrow> \<exists>key. NewMapKey k = Inr key \<and> ToMapKey key = Inr k"
  by (cases k) simp_all

lemma update_new_key: "k \<notin> fst ` set m \<Longrightarrow> AList.update k v m = m @ [(k, v)]"
  by (induction m) auto

definition any_roundtrip :: "(pmsg \<Rightarrow> 'y result) \<Rightarrow> ('y \<Rightarrow> pmsg result) \<Rightarrow> bool" where
  "any_roundtrip any_new unmarshal \<longleftrightarrow> (\<forall>m a. any_new m = Inr a \<longrightarrow> unmarshal a = Inr m)"

lemma value_roundtrip_aux:
  "any_roundtrip any_new unmarshal \<Longrightarrow> valid_value any_new v \<Longrightarrow>
     \<exists>x. NewValue any_new v = Inr x \<and> ToValue unmarshal x = Inr v"
  "any_roundtrip any_new unmarshal \<Longrightarrow> valid_values any_new vs \<Longrightarrow>
     \<exists>xs. new_values any_new vs = Inr xs \<and> (\<forall>l. append_values unmarshal xs l = Inr (l @ vs))"
  "any_roundtrip any_new unmarshal \<Longrightarrow> valid_entries any_new kvs \<Longrightarrow>
     \<exists>xs. new_entries any_new kvs = Inr xs
       \<and> (\<forall>m. distinct (map fst (m @ kvs)) \<longrightarrow> set_entries unmarshal xs m = Inr (m @ kvs))"
proof (induction any_new v and any_new vs and any_new kvs rule: valid_value_valid_values_valid_entries.induct)
  case (3 any_new m)
  then obtain a where "any_new m = Inr a" by (cases "any_new m") auto
  with 3 show ?case by (auto simp: any_roundtrip_def)
next
  case (9 any_new k v kvs)
  then obtain key x xs where "NewMapKey k = Inr key" "ToMapKey key = Inr k" "NewValue any_new v = Inr x"
    "ToValue unmarshal x = Inr v" "new_entries any_new kvs = Inr xs"
    "\<forall>m. distinct (map fst (m @ kvs)) \<longrightarrow> set_entries unmarshal xs m = Inr (m @ kvs)"
    using map_key_roundtrip [of k] by auto
  then show ?case by (auto simp: mapValue_Set_def update_new_key)
qed (auto simp: listValue_Append_def)

section \<open>Property\<close>

text \<open>
  C22. A reflection value survives the way through the message \<open>core.Value\<close>: for a value whose map keys
  are of a key type and distinct and whose messages can be packed, \<open>NewValue\<close> and then \<open>ToValue\<close> give the
  value back without a panic, whatever its nesting.
\<close>

theorem value_roundtrip:
  assumes "\<And>m a. any_new m = Inr a \<Longrightarrow> unmarshal a = Inr m" and "valid_value any_new v"
  shows "rbind (NewValue any_new v) (ToValue unmarshal) = Inr v"
  using value_roundtrip_aux(1) [of any_new unmarshal v] assms by (auto simp: any_roundtrip_def)

lemma value_roundtrip_witness:
  "rbind (NewValue Inr (PMap [(SString ''a'', PList [PScalar (SInt32 1), PInvalid]), (SBool True, PMessage (Msg ''m'' [] []))]))
     (ToValue Inr) =
   Inr (PMap [(SString ''a'', PList [PScalar (SInt32 1), PInvalid]), (SBool True, PMessage (Msg ''m'' [] []))])"
  by (rule value_roundtrip) simp_all

end
