(* ===== verification/Paths.thy ===== *)
theory Paths
  imports FieldMaskLemmas
begin

text \<open>
  Paths of fields: the string the code makes of one (\<open>protopath.Path.String\<close> without the root and the
  leading dot), the value at one, and that \<open>fieldmask.Diff\<close> lists exactly the paths whose values differ,
  at every depth.
\<close>

text \<open>\<open>path[1:].String()[1:]\<close>: the names of the fields, with dots between.\<close>

fun path_string :: "string list \<Rightarrow> string" where
  "path_string [] = []"
| "path_string [n] = n"
| "path_string (n # ns) = n @ ''.'' @ path_string ns"

text \<open>The value at a path, as far as the messages on the way are set.\<close>

fun path_get :: "string list \<Rightarrow> pmsg \<Rightarrow> pval option" where
  "path_get [] m = None"
| "path_get (n # ps) m =
     (case msg_get n m of
        None \<Rightarrow> None
      | Some v \<Rightarrow> if ps = [] then Some v else case v of VMsg m' \<Rightarrow> path_get ps m' | _ \<Rightarrow> None)"

definition value_below :: "string list \<Rightarrow> pval option \<Rightarrow> pval option" where
  "value_below ps x = (if ps = [] then x else case x of Some (VMsg m) \<Rightarrow> path_get ps m | _ \<Rightarrow> None)"

lemma path_get_below: "path_get (n # ps) m = value_below ps (msg_get n m)"
  by (auto simp: value_below_def split: option.splits pval.splits)

lemma path_string_Cons: "path_string (n # ps) = (if ps = [] then n else sub_path n (path_string ps))"
  by (cases ps) (simp_all add: sub_path_def)

lemma path_get_new [simp]: "path_get ps (msg_new m) = None"
  by (cases ps) simp_all

section \<open>Messages that can be compared\<close>

definition good_msg :: "schema \<Rightarrow> pmsg \<Rightarrow> bool" where
  "good_msg sch m \<longleftrightarrow> conforms sch m \<and> wf_msg m \<and> no_unknown m \<and> names_ok m"

definition good_slots :: "schema \<Rightarrow> slots \<Rightarrow> bool" where
  "good_slots sch ss \<longleftrightarrow> conforms_slots sch ss \<and> wf_slots ss \<and> no_unknown_slots ss \<and> names_ok_slots ss
     \<and> distinct (map (fd_Name \<circ> fst) ss)"

lemma good_msg_slots: "good_msg sch (Msg n ss u) \<Longrightarrow> good_slots sch ss"
  by (simp add: good_msg_def good_slots_def)

lemma good_slots_ConsD:
  "good_slots sch ((fd, x) # ss) \<Longrightarrow> good_slots sch ss \<and> dotless (fd_Name fd) \<and> fd_Name fd \<notin> set (map (fd_Name \<circ> fst) ss)
     \<and> (\<forall>m. x = Some (VMsg m) \<longrightarrow> good_msg sch m \<and> msg_name m = fd_Message fd)
     \<and> (\<forall>v. x = Some v \<longrightarrow> val_fits fd v)"
  by (cases x) (auto simp: good_slots_def good_msg_def)

lemma good_new: "good_msg sch m \<Longrightarrow> good_msg sch (msg_new m)"
proof (cases m)
  case (Msg n ss u)
  have "conforms_slots sch (map (\<lambda>s. (fst s, None)) ss)" "wf_slots (map (\<lambda>s. (fst s, None)) ss)"
    "no_unknown_slots (map (\<lambda>s. (fst s, None)) ss)" for ss :: slots
    by (induction ss) auto
  moreover have "names_ok_slots ss \<Longrightarrow> names_ok_slots (map (\<lambda>s. (fst s, None)) ss)" for ss :: slots
    by (induction ss rule: names_ok_names_ok_slots_names_ok_val.induct(2) [where P = "\<lambda>_. True" and R = "\<lambda>_. True"]) auto
  ultimately show "good_msg sch m \<Longrightarrow> good_msg sch (msg_new m)"
    using Msg by (simp add: good_msg_def msg_new_def comp_def)
qed

lemma good_same: "good_msg sch a \<Longrightarrow> good_msg sch b \<Longrightarrow> msg_name a = msg_name b \<Longrightarrow> same_descriptor a b"
  unfolding good_msg_def using conforms_header by blast

section \<open>Diff\<close>

lemma diff_same:
  assumes "good_msg sch a" "good_msg sch b" "msg_name a = msg_name b" "\<And>v w. veq v w = (v = w)"
  shows "diffFields veq a b pre = [] \<longleftrightarrow> a = b"
  using assms good_same [OF assms(1-3)] by (intro diff_none(1) [of sch]) (auto simp: good_msg_def)

text \<open>What the paths below a field look like.\<close>

lemma below_field:
  assumes "dotless n" "dotless f" "n \<noteq> f"
  shows "pre @ path_string (n # ps) \<noteq> pre @ f" "\<not> prefix (pre @ sub_path f []) (pre @ path_string (n # ps))"
  using assms
  by (auto simp: path_string_Cons sub_path_def dotless_def prefix_def append_eq_append_conv2 append_eq_Cons_conv
      Cons_eq_append_conv split: if_splits)

lemma diff_field_paths:
  assumes "dotless n" "n \<noteq> f" "dotless f"
  shows "pre @ path_string (n # ps) \<noteq> pre @ f"
    "pre @ path_string (n # ps) \<notin> set (diffFields veq a b (pre @ f @ ''.''))"
  using below_field [OF assms(1,3,2), of pre ps] diff_slots_paths(1) [of "pre @ path_string (n # ps)" veq a b "pre @ f @ ''.''"]
  by (auto simp: sub_path_def)

lemma path_string_at:
  "path_string (n # ps) = n \<longleftrightarrow> ps = []"
  "ps \<noteq> [] \<Longrightarrow> pre @ path_string (n # ps) = (pre @ n @ ''.'') @ path_string ps"
  by (auto simp: path_string_Cons sub_path_def)

lemma diff_own_path: "pre @ f \<notin> set (diffFields veq a b (pre @ f @ ''.''))"
  using diff_slots_paths(1) [of "pre @ f" veq a b "pre @ f @ ''.''"] by (auto simp: prefix_def)

text \<open>The paths a field adds, against the values below it.\<close>

definition slot_diff :: "(pval \<Rightarrow> pval \<Rightarrow> bool) \<Rightarrow> fdesc \<Rightarrow> pval option \<Rightarrow> pval option \<Rightarrow> string \<Rightarrow> string list" where
  "slot_diff veq fd x y pre = diff_slots veq [(fd, x)] [(fd, y)] pre"

lemma diff_slots_Cons:
  "diff_slots veq ((fd, x) # os) ((fd', y) # ns) pre = slot_diff veq fd x y pre @ diff_slots veq os ns pre"
  by (cases x; cases y) (simp_all add: slot_diff_def)

lemma slot_diff_other:
  assumes "dotless n" "n \<noteq> fd_Name fd" "dotless (fd_Name fd)"
  shows "pre @ path_string (n # ps) \<notin> set (slot_diff veq fd x y pre)"
  using diff_field_paths [OF assms, of pre ps] by (cases x; cases y) (auto simp: slot_diff_def Let_def)

lemma slots_diff_other:
  assumes "dotless n" "\<forall>f \<in> set (map (fd_Name \<circ> fst) os). dotless f \<and> f \<noteq> n"
  shows "pre @ path_string (n # ps) \<notin> set (diff_slots veq os ns pre)"
proof
  assume "pre @ path_string (n # ps) \<in> set (diff_slots veq os ns pre)"
  from diff_slots_paths(2) [OF this] assms(2) obtain f where f: "dotless f" "f \<noteq> n"
    "pre @ path_string (n # ps) = pre @ f \<or> prefix (pre @ sub_path f []) (pre @ path_string (n # ps))" by auto
  with below_field [OF assms(1) f(1), of pre ps] show False by auto
qed

lemma good_slots_names: "good_slots sch ss \<Longrightarrow> \<forall>f \<in> set (map (fd_Name \<circ> fst) ss). dotless f"
proof (induction ss)
  case (Cons s ss)
  obtain fd x where s: "s = (fd, x)" by (cases s)
  with good_slots_ConsD [of sch fd x ss] Cons show ?case by auto
qed simp

lemma slot_diff_own:
  assumes veq: "\<And>v w. veq v w = (v = w)"
    and x: "\<forall>m. x = Some (VMsg m) \<longrightarrow> good_msg sch m \<and> msg_name m = fd_Message fd" "\<forall>v. x = Some v \<longrightarrow> val_fits fd v"
    and y: "\<forall>m. y = Some (VMsg m) \<longrightarrow> good_msg sch m \<and> msg_name m = fd_Message fd" "\<forall>v. y = Some v \<longrightarrow> val_fits fd v"
    and below: "\<And>a b. good_msg sch a \<Longrightarrow> good_msg sch b \<Longrightarrow> msg_name a = msg_name b \<Longrightarrow> ps \<noteq> [] \<Longrightarrow>
      (pre @ fd_Name fd @ ''.'') @ path_string ps \<in> set (diffFields veq a b (pre @ fd_Name fd @ ''.''))
        \<longleftrightarrow> path_get ps a \<noteq> path_get ps b"
  shows "pre @ path_string (fd_Name fd # ps) \<in> set (slot_diff veq fd x y pre) \<longleftrightarrow> value_below ps x \<noteq> value_below ps y"
proof (cases "is_msg_field fd")
  case False
  then have "value_below ps (Some v) = None" if "ps \<noteq> []" "val_fits fd v" for v
    using that by (cases v) (auto simp: value_below_def val_fits_def)
  with False x(2) y(2) show ?thesis
    by (cases x; cases y; cases "ps = []") (auto simp: slot_diff_def value_below_def path_string_at(1) veq)
next
  case True
  have msg: "\<exists>m. v = VMsg m" if "val_fits fd v" for v
    using True that by (cases v) (auto simp: val_fits_def is_msg_field_def)
  show ?thesis
  proof (cases x)
    case None
    note x' = this
    show ?thesis
    proof (cases y)
      case None
      with x' show ?thesis by (simp add: slot_diff_def)
    next
      case (Some w)
      with y(2) msg obtain b where b: "w = VMsg b" by blast
      with Some y(1) have g: "good_msg sch b" by auto
      show ?thesis
      proof (cases "ps = []")
        case True
        with x' Some show ?thesis by (simp add: slot_diff_def value_below_def)
      next
        case ps: False
        with below [OF good_new [OF g] g] x' Some b \<open>is_msg_field fd\<close> show ?thesis
          by (auto simp: slot_diff_def value_below_def val_msg_def path_string_at)
      qed
    qed
  next
    case (Some v)
    note x' = this
    with x(2) msg obtain a where a: "v = VMsg a" by blast
    with x' x(1) have ga: "good_msg sch a" "msg_name a = fd_Message fd" by auto
    show ?thesis
    proof (cases y)
      case None
      show ?thesis
      proof (cases "ps = []")
        case True
        with x' None show ?thesis by (simp add: slot_diff_def value_below_def)
      next
        case ps: False
        with below [OF ga(1) good_new [OF ga(1)]] x' None a \<open>is_msg_field fd\<close> show ?thesis
          by (auto simp: slot_diff_def value_below_def val_msg_def path_string_at)
      qed
    next
      case (Some w)
      with y(2) msg obtain b where b: "w = VMsg b" by blast
      with Some y(1) have gb: "good_msg sch b" "msg_name a = msg_name b" using ga by auto
      note same = diff_same [OF ga(1) gb veq, of "pre @ fd_Name fd @ ''.''"]
      show ?thesis
      proof (cases "ps = []")
        case True
        with x' Some a b same \<open>is_msg_field fd\<close> diff_own_path [of pre "fd_Name fd" veq a b] show ?thesis
          by (auto simp: slot_diff_def value_below_def val_msg_def Let_def)
      next
        case ps: False
        with below [OF ga(1) gb] same x' Some a b \<open>is_msg_field fd\<close> show ?thesis
          by (auto simp: slot_diff_def value_below_def val_msg_def path_string_at Let_def)
      qed
    qed
  qed
qed

lemma slots_diff_own:
  assumes veq: "\<And>v w. veq v w = (v = w)" and n: "dotless n"
    and below: "\<And>a b. good_msg sch a \<Longrightarrow> good_msg sch b \<Longrightarrow> msg_name a = msg_name b \<Longrightarrow> ps \<noteq> [] \<Longrightarrow>
      (pre @ n @ ''.'') @ path_string ps \<in> set (diffFields veq a b (pre @ n @ ''.'')) \<longleftrightarrow> path_get ps a \<noteq> path_get ps b"
  shows "good_slots sch os \<Longrightarrow> good_slots sch ns \<Longrightarrow> map fst os = map fst ns \<Longrightarrow>
    pre @ path_string (n # ps) \<in> set (diff_slots veq os ns pre) \<longleftrightarrow>
      value_below ps (slot_get n os) \<noteq> value_below ps (slot_get n ns)"
proof (induction os arbitrary: ns)
  case (Cons o' os)
  then obtain fd x y ns' where o': "o' = (fd, x)" "ns = (fd, y) # ns'" by (cases o'; cases ns) auto
  note O = good_slots_ConsD [OF Cons.prems(1) [unfolded o'(1)]] and N = good_slots_ConsD [OF Cons.prems(2) [unfolded o'(2)]]
  show ?case
  proof (cases "fd_Name fd = n")
    case True
    have "pre @ path_string (n # ps) \<notin> set (diff_slots veq os ns' pre)"
      using O good_slots_names [of sch os] True by (intro slots_diff_other [OF n]) fastforce
    moreover have "pre @ path_string (n # ps) \<in> set (slot_diff veq fd x y pre) \<longleftrightarrow> value_below ps x \<noteq> value_below ps y"
      using slot_diff_own [of veq x sch fd y ps pre] O N veq below True by auto
    ultimately show ?thesis using o' True by (simp add: diff_slots_Cons)
  next
    case False
    with slot_diff_other [OF n, of fd pre ps veq x y] O Cons.IH [of ns'] N Cons.prems(3) o' show ?thesis
      by (auto simp: diff_slots_Cons)
  qed
qed simp

lemma diff_paths:
  assumes veq: "\<And>v w. veq v w = (v = w)"
  shows "good_msg sch a \<Longrightarrow> good_msg sch b \<Longrightarrow> msg_name a = msg_name b \<Longrightarrow> ps \<noteq> [] \<Longrightarrow> list_all dotless ps \<Longrightarrow>
    pre @ path_string ps \<in> set (diffFields veq a b pre) \<longleftrightarrow> path_get ps a \<noteq> path_get ps b"
proof (induction ps arbitrary: a b pre)
  case (Cons n ps)
  obtain k os u k' ns u' where m: "a = Msg k os u" "b = Msg k' ns u'" by (cases a; cases b)
  have "map fst os = map fst ns"
    using good_same [OF Cons.prems(1-3)] m by (simp add: same_descriptor_def msg_fields_def)
  moreover have "(pre @ n @ ''.'') @ path_string ps \<in> set (diffFields veq a b (pre @ n @ ''.'')) \<longleftrightarrow> path_get ps a \<noteq> path_get ps b"
    if "good_msg sch a" "good_msg sch b" "msg_name a = msg_name b" "ps \<noteq> []" for a b
    using Cons.IH [OF that, of "pre @ n @ ''.''"] Cons.prems(5) unfolding list.pred_inject(2) by blast
  ultimately have "pre @ path_string (n # ps) \<in> set (diff_slots veq os ns pre) \<longleftrightarrow>
      value_below ps (slot_get n os) \<noteq> value_below ps (slot_get n ns)"
    using Cons.prems(5) good_msg_slots [OF Cons.prems(1) [unfolded m(1)]] good_msg_slots [OF Cons.prems(2) [unfolded m(2)]]
    by (intro slots_diff_own [OF veq, of n sch]) auto
  then show ?case unfolding m path_get_below msg_get_def by simp
qed simp

end
