(* ===== verification/Reactive.thy ===== *)
theory Reactive
  imports Paths Stores
begin

text \<open>
  \<open>reactive/controller.go\<close>, \<open>reactive/value.go\<close>, \<open>reactive/bind.go\<close>: a controller watches the active
  configuration and keeps, in a tree with one node per field path of the configuration type, the current
  value at the path; the clients of a value are sent its changes, and \<open>Bind\<close> groups those of several.

  A reflection value is \<^typ>\<open>pval option\<close>, \<^term>\<open>None\<close> when invalid. Values are immutable; what is sent
  to a channel is kept as a list, and a call of a watch function is an entry of the list of calls an
  update returns. Where the code ranges over a Go map the order of the list stands for the
  unspecified order.
\<close>

section \<open>Reactive values\<close>

text \<open>Watch functions are known by an identifier of type \<open>'f\<close>; channels by their position.\<close>

record 'f reactiveValue =
  rv_rev :: int64
  rv_pendingInit :: bool
  rv_value :: "pval option"
  rv_watchChannels :: "pval option list list"
  rv_watchFuncs :: "'f list"

record 'f call =
  call_func :: 'f
  call_rev :: int64
  call_value :: "pval option"

definition newReactiveValue :: "'f reactiveValue" where
  "newReactiveValue = \<lparr>rv_rev = 0, rv_pendingInit = True, rv_value = None, rv_watchChannels = [], rv_watchFuncs = []\<rparr>"

text \<open>The calls of the watch functions are made in the order of the list.\<close>

definition Update :: "int64 \<Rightarrow> pval option \<Rightarrow> bool \<Rightarrow> 'f reactiveValue \<Rightarrow> 'f reactiveValue \<times> 'f call list" where
  "Update rev' v notify r =
     (let r' = r\<lparr>rv_rev := rev', rv_value := v\<rparr> in
      if \<not> rv_pendingInit r \<and> \<not> notify then (r', [])
      else (r'\<lparr>rv_pendingInit := False, rv_watchChannels := map (\<lambda>ch. ch @ [v]) (rv_watchChannels r)\<rparr>,
            map (\<lambda>f. \<lparr>call_func = f, call_rev = rev', call_value = v\<rparr>) (rv_watchFuncs r)))"

definition rv_Watch :: "'f reactiveValue \<Rightarrow> 'f reactiveValue" where
  "rv_Watch r = r\<lparr>rv_watchChannels := rv_watchChannels r @ [if \<not> rv_pendingInit r then [rv_value r] else []]\<rparr>"

definition watchFuncInternal :: "'f \<Rightarrow> 'f reactiveValue \<Rightarrow> 'f reactiveValue \<times> 'f call list" where
  "watchFuncInternal f r =
     (r\<lparr>rv_watchFuncs := rv_watchFuncs r @ [f]\<rparr>,
      if \<not> rv_pendingInit r then [\<lparr>call_func = f, call_rev = rv_rev r, call_value = rv_value r\<rparr>] else [])"

section \<open>The tree of paths\<close>

datatype 'v pathTrieNode =
  TrieNode (tn_Path: "string list") (tn_value: 'v) (tn_nodes: "(fdesc \<times> 'v pathTrieNode) list")

text \<open>
  \<open>buildNode\<close> recurses into the type of every singular message field. For a type that contains itself
  this never ends, so the model has fuel, the depth of the recursion it allows.
\<close>

fun buildNode :: "nat \<Rightarrow> schema \<Rightarrow> 'v \<Rightarrow> string list \<Rightarrow> string \<Rightarrow> 'v pathTrieNode option"
  and build_fields :: "nat \<Rightarrow> schema \<Rightarrow> 'v \<Rightarrow> string list \<Rightarrow> fdesc list \<Rightarrow> (fdesc \<times> 'v pathTrieNode) list option" where
  "buildNode 0 sch newV path desc = None"
| "buildNode (Suc fuel) sch newV path desc =
     map_option (TrieNode path newV) (build_fields fuel sch newV path (sch desc))"
| "build_fields fuel sch newV path [] = Some []"
| "build_fields fuel sch newV path (field # fds) =
     (let path' = path @ [fd_Name field];
          newNode = (if is_msg_field field then buildNode fuel sch newV path' (fd_Message field)
                     else Some (TrieNode path' newV []))
      in case newNode of
           None \<Rightarrow> None
         | Some node \<Rightarrow> map_option (\<lambda>nodes. (field, node) # nodes) (build_fields fuel sch newV path fds))"

definition newPathTrie :: "nat \<Rightarrow> schema \<Rightarrow> 'v \<Rightarrow> string \<Rightarrow> 'v pathTrieNode option" where
  "newPathTrie fuel sch newV desc = buildNode fuel sch newV [] desc"

text \<open>\<open>Walk\<close>: the nodes in post-order.\<close>

fun Walk :: "'v pathTrieNode \<Rightarrow> 'v pathTrieNode list"
  and walk_nodes :: "(fdesc \<times> 'v pathTrieNode) list \<Rightarrow> 'v pathTrieNode list" where
  "Walk (TrieNode p v nodes) = walk_nodes nodes @ [TrieNode p v nodes]"
| "walk_nodes [] = []"
| "walk_nodes ((fd, n) # ns) = Walk n @ walk_nodes ns"

text \<open>The index of the tree, which leaves the root out; \<open>FindString\<close> and \<open>Find\<close> look a path up in it.\<close>

definition trie_index :: "'v pathTrieNode \<Rightarrow> (string \<times> 'v pathTrieNode) list" where
  "trie_index t = map (\<lambda>n. (path_string (tn_Path n), n)) (filter (\<lambda>n. tn_Path n \<noteq> []) (Walk t))"

definition FindString :: "'v pathTrieNode \<Rightarrow> string \<Rightarrow> 'v pathTrieNode option" where
  "FindString t s = map_of (rev (trie_index t)) s"

definition Find :: "'v pathTrieNode \<Rightarrow> string list \<Rightarrow> 'v pathTrieNode option" where
  "Find t path = FindString t (path_string path)"

text \<open>
  \<open>msg.Get(field)\<close> of an unset field is its default: \<open>dflt\<close> for a scalar, else an empty message, list or
  map.
\<close>

definition empty_msg :: "schema \<Rightarrow> string \<Rightarrow> pmsg" where
  "empty_msg sch n = Msg n (map (\<lambda>fd. (fd, None)) (sch n)) []"

definition msg_Get :: "schema \<Rightarrow> (fdesc \<Rightarrow> scalar) \<Rightarrow> fdesc \<Rightarrow> pmsg \<Rightarrow> pval" where
  "msg_Get sch dflt fd m =
     (case msg_get (fd_Name fd) m of
        Some v \<Rightarrow> v
      | None \<Rightarrow>
          if fd_IsMap fd then VMap []
          else if fd_IsList fd then VList []
          else if fd_Kind fd = MessageKind then VMsg (empty_msg sch (fd_Message fd))
          else VScalar (dflt fd))"

text \<open>
  \<open>WalkValues\<close> with a callback that replaces the value in the node and makes calls: \<open>f\<close> gets the path, the
  reflection value there and the value in the node.
\<close>

fun WalkValues ::
  "(string list \<Rightarrow> pval option \<Rightarrow> 'v \<Rightarrow> 'v \<times> 'c list) \<Rightarrow> schema \<Rightarrow> (fdesc \<Rightarrow> scalar)
     \<Rightarrow> 'v pathTrieNode \<Rightarrow> pval option \<Rightarrow> 'v pathTrieNode \<times> 'c list"
  and walk_children ::
  "(string list \<Rightarrow> pval option \<Rightarrow> 'v \<Rightarrow> 'v \<times> 'c list) \<Rightarrow> schema \<Rightarrow> (fdesc \<Rightarrow> scalar)
     \<Rightarrow> (fdesc \<times> 'v pathTrieNode) list \<Rightarrow> pval option \<Rightarrow> (fdesc \<times> 'v pathTrieNode) list \<times> 'c list" where
  "WalkValues f sch dflt (TrieNode p v nodes) value' =
     (let (nodes', cs) = walk_children f sch dflt nodes value'; (v', c) = f p value' v
      in (TrieNode p v' nodes', cs @ c))"
| "walk_children f sch dflt [] value' = ([], [])"
| "walk_children f sch dflt ((fd, child) # ns) value' =
     (let (child', cs) = WalkValues f sch dflt child
            (case value' of None \<Rightarrow> None | Some pv \<Rightarrow> Some (msg_Get sch dflt fd (val_msg pv)));
          (ns', cs') = walk_children f sch dflt ns value'
      in ((fd, child') # ns', cs @ cs'))"

section \<open>The controller\<close>

record 'f Controller =
  co_reactiveMessages :: "'f reactiveValue pathTrieNode"
  co_currentRev :: int64

definition NewController :: "nat \<Rightarrow> schema \<Rightarrow> string \<Rightarrow> 'f Controller option" where
  "NewController fuel sch desc =
     map_option (\<lambda>t. \<lparr>co_reactiveMessages = t, co_currentRev = 0\<rparr>) (newPathTrie fuel sch newReactiveValue desc)"

text \<open>\<open>Reactive\<close>: the value at a path; an unknown path is a panic.\<close>

definition Reactive :: "string list \<Rightarrow> 'f Controller \<Rightarrow> 'f reactiveValue result" where
  "Reactive path s =
     (if path = [] then Inl (go_panic ''invalid reactive message path: %s'')
      else case Find (co_reactiveMessages s) path of
             None \<Rightarrow> Inl (go_panic ''bug: reactive message not found: %s'')
           | Some n \<Rightarrow> Inr (tn_value n))"

text \<open>
  What an event sets: the revision, the value of the root, and the paths that changed. Without a previous
  revision the value before is the nil configuration, which reflects as an empty message. A deletion
  without a previous revision, or a put without a current one, dereferences nil.
\<close>

definition event_update ::
  "(pval \<Rightarrow> pval \<Rightarrow> bool) \<Rightarrow> pmsg WatchEvent \<Rightarrow> (int64 \<times> pval option \<times> mask) result" where
  "event_update veq cfg =
     (case ev_EventType cfg of
        WatchEventDelete \<Rightarrow>
          (case ev_Previous cfg of
             None \<Rightarrow> Inl (go_panic ''nil pointer dereference'')
           | Some previous \<Rightarrow>
               rbind (Diff veq (kr_V previous) (msg_new (kr_V previous))) (\<lambda>diffMask.
                 Inr (kr_Rev previous, None, diffMask)))
      | WatchEventPut \<Rightarrow>
          (case ev_Current cfg of
             None \<Rightarrow> Inl (go_panic ''nil pointer dereference'')
           | Some current \<Rightarrow>
               let prevValue = (case ev_Previous cfg of None \<Rightarrow> msg_new (kr_V current) | Some p \<Rightarrow> kr_V p)
               in rbind (Diff veq prevValue (kr_V current)) (\<lambda>diffMask.
                    Inr (kr_Rev current, Some (VMsg (kr_V current)), diffMask))))"

definition shouldNotify :: "mask \<Rightarrow> string list \<Rightarrow> bool" where
  "shouldNotify diffMask path \<longleftrightarrow> path = [] \<or> path_string path \<in> set diffMask"

definition handleWatchEvent ::
  "(pval \<Rightarrow> pval \<Rightarrow> bool) \<Rightarrow> schema \<Rightarrow> (fdesc \<Rightarrow> scalar) \<Rightarrow> pmsg WatchEvent \<Rightarrow> 'f Controller
     \<Rightarrow> ('f Controller \<times> 'f call list) result" where
  "handleWatchEvent veq sch dflt cfg s =
     rbind (event_update veq cfg) (\<lambda>(currentRev, currentVal, diffMask).
       let (t, calls) = WalkValues (\<lambda>path value' r. Update currentRev value' (shouldNotify diffMask path) r)
             sch dflt (co_reactiveMessages s) currentVal
       in Inr (s\<lparr>co_reactiveMessages := t, co_currentRev := currentRev\<rparr>, calls))"

text \<open>
  \<open>Start\<close>: the options of the watch it opens on the active store, from what \<open>Get\<close> returned; then every
  event of the watch is handled in turn.
\<close>

definition Start_watch :: "('a \<times> int64 option) result \<Rightarrow> WatchOpt list result" where
  "Start_watch get =
     (case get of
        Inl e \<Rightarrow> if \<not> IsNotFound (Some e) then Inl e else Inr [Watch_RevisionOpt 0]
      | Inr (_, ro) \<Rightarrow> Inr [Watch_RevisionOpt (case ro of None \<Rightarrow> 0 | Some r \<Rightarrow> r)])"

fun handle_events ::
  "(pval \<Rightarrow> pval \<Rightarrow> bool) \<Rightarrow> schema \<Rightarrow> (fdesc \<Rightarrow> scalar) \<Rightarrow> pmsg WatchEvent list \<Rightarrow> 'f Controller
     \<Rightarrow> ('f Controller \<times> 'f call list) result" where
  "handle_events veq sch dflt [] s = Inr (s, [])"
| "handle_events veq sch dflt (e # es) s =
     rbind (handleWatchEvent veq sch dflt e s) (\<lambda>(s', calls).
       rbind (handle_events veq sch dflt es s') (\<lambda>(s'', calls'). Inr (s'', calls @ calls')))"

end
