(* ===== verification/Bind.thy ===== *)
theory Bind
  imports Reactive
begin

text \<open>
  \<open>reactive/bind.go\<close>, \<open>reactive/typed.go\<close> and \<open>reactive/server.go\<close>: groups of reactive values with one
  callback, values of a Go type, and the server that streams values to its clients.

  The LRU cache of \<open>Bind\<close> is a third-party package: its \<open>PeekOrAdd\<close> is the parameter \<open>P\<close>. The queued
  updates are pointers that the cache and the goroutines share, so they live in a heap, a list, and the
  cache holds positions in it.
\<close>

section \<open>Bind\<close>

record queuedUpdate =
  q_values :: "pval option list"
  q_resolved :: bool \<comment> \<open>the \<open>sync.Once\<close> was used\<close>

text \<open>
  \<open>bd_len\<close> is the number of reactive values; \<open>bd_waiting\<close> are the goroutines that wait for the group of the event the
  controller is handling to be closed, \<open>bd_runnable\<close> those that have nothing to wait for any more, each for its queued
  update; \<open>bd_calls\<close> is what the callback was called with, and for which queued update.
\<close>

record 'c value_group =
  bd_len :: nat
  bd_queues :: 'c
  bd_heap :: "queuedUpdate list"
  bd_waiting :: "nat list"
  bd_runnable :: "nat list"
  bd_calls :: "(nat \<times> pval option list) list"

definition new_group :: "nat \<Rightarrow> 'c \<Rightarrow> 'c value_group" where
  "new_group n queues = \<lparr>bd_len = n, bd_queues = queues, bd_heap = [], bd_waiting = [], bd_runnable = [], bd_calls = []\<rparr>"

text \<open>\<open>P rev q cache\<close>: the entry of \<open>rev\<close>, if there is one, else \<open>q\<close> is added.\<close>

type_synonym 'c peek_or_add = "int64 \<Rightarrow> nat \<Rightarrow> 'c \<Rightarrow> nat option \<times> 'c"

text \<open>\<open>waits\<close> says whether there is a group to wait for.\<close>

definition onUpdate :: "'c peek_or_add \<Rightarrow> bool \<Rightarrow> nat \<Rightarrow> int64 \<Rightarrow> pval option \<Rightarrow> 'c value_group \<Rightarrow> 'c value_group" where
  "onUpdate P waits i rev' v b =
     (let fresh = length (bd_heap b);
          (prev, queues) = P rev' fresh (bd_queues b);
          heap = bd_heap b @ [\<lparr>q_values = replicate (bd_len b) None, q_resolved = False\<rparr>];
          q = (case prev of None \<Rightarrow> fresh | Some p \<Rightarrow> p)
      in b\<lparr>bd_queues := queues,
           bd_heap := heap[q := (heap ! q)\<lparr>q_values := (q_values (heap ! q))[i := v]\<rparr>],
           bd_waiting := (if waits then bd_waiting b @ [q] else bd_waiting b),
           bd_runnable := (if waits then bd_runnable b else bd_runnable b @ [q])\<rparr>)"

text \<open>
  \<open>q.resolve.Do(\<dots>)\<close> with \<open>doResolve\<close>: \<open>current i\<close> is what \<open>Value()\<close> of the \<open>i\<close>th reactive value returns when the
  loop gets to it.
\<close>

definition fill_values :: "(nat \<Rightarrow> pval option) \<Rightarrow> pval option list \<Rightarrow> pval option list" where
  "fill_values current vs = map (\<lambda>(i, v). case v of None \<Rightarrow> current i | Some x \<Rightarrow> Some x) (zip [0 ..< length vs] vs)"

definition doResolve :: "(nat \<Rightarrow> pval option) \<Rightarrow> nat \<Rightarrow> 'c value_group \<Rightarrow> 'c value_group" where
  "doResolve current q b =
     (let u = bd_heap b ! q in
      if q_resolved u then b
      else
        let values = fill_values current (q_values u) in
        b\<lparr>bd_heap := (bd_heap b)[q := u\<lparr>q_values := values, q_resolved := True\<rparr>],
          bd_calls := bd_calls b @ [(q, values)]\<rparr>)"

text \<open>
  What happens to a group: the controller calls one of its watch functions (known by the index of its value) while it
  handles an event; \<open>Bind\<close> itself calls one, for a value that is set already; the controller closes the group of the
  event; a goroutine runs, with the values \<open>Value()\<close> returns then. Goroutines run in any order and at any time after
  their group is closed, also during later events; other updates of the values can come between the reads of one
  goroutine, as \<open>current\<close> need not be of one time.
\<close>

datatype bind_label =
    Group_Call "nat call"
  | Bind_Call "nat call"
  | Group_Close
  | Resolve nat "nat \<Rightarrow> pval option"

fun bind_act :: "'c peek_or_add \<Rightarrow> 'c value_group \<Rightarrow> bind_label \<Rightarrow> 'c value_group" where
  "bind_act P b (Group_Call c) = onUpdate P True (call_func c) (call_rev c) (call_value c) b"
| "bind_act P b (Bind_Call c) = onUpdate P False (call_func c) (call_rev c) (call_value c) b"
| "bind_act P b Group_Close = b\<lparr>bd_waiting := [], bd_runnable := bd_runnable b @ bd_waiting b\<rparr>"
| "bind_act P b (Resolve q current) =
     (if q \<in> set (bd_runnable b) then doResolve current q (b\<lparr>bd_runnable := remove1 q (bd_runnable b)\<rparr>) else b)"

definition bind_run :: "'c peek_or_add \<Rightarrow> 'c value_group \<Rightarrow> bind_label list \<Rightarrow> 'c value_group" where
  "bind_run P b ls = foldl (bind_act P) b ls"

section \<open>The loop of Bind and the first goroutine\<close>

text \<open>
  \<open>Bind\<close> on \<open>n\<close> values that are set already: its loop takes the lock of each value, and under it calls
  \<open>onUpdate\<close> with the value, which takes the lock of the queued update for a moment and starts a goroutine
  that, without a group to wait for, resolves the update at once: it holds the update's lock while it reads
  the values that are missing, which takes their locks. The further goroutines find the \<open>sync.Once\<close> used.
\<close>

datatype bind_loop = Loop_Lock nat | Loop_Locked nat
datatype resolver = Resolver_None | Resolver_Start | Resolver_Value nat | Resolver_Done

record bind_state =
  bs_loop :: bind_loop
  bs_resolver :: resolver
  bs_set :: "nat set" \<comment> \<open>the values set in the queued update\<close>

definition values_locked :: "bind_state \<Rightarrow> bool" where
  "values_locked s \<longleftrightarrow> (case bs_resolver s of Resolver_Value _ \<Rightarrow> True | _ \<Rightarrow> False)"

inductive bind_step :: "nat \<Rightarrow> bind_state \<Rightarrow> bind_state \<Rightarrow> bool" for n where
  lock: "bs_loop s = Loop_Lock i \<Longrightarrow> i < n \<Longrightarrow> bind_step n s (s\<lparr>bs_loop := Loop_Locked i\<rparr>)"
| update: "bs_loop s = Loop_Locked i \<Longrightarrow> \<not> values_locked s \<Longrightarrow>
     bind_step n s (s\<lparr>bs_loop := Loop_Lock (Suc i), bs_set := insert i (bs_set s),
       bs_resolver := (if bs_resolver s = Resolver_None then Resolver_Start else bs_resolver s)\<rparr>)"
| resolve: "bs_resolver s = Resolver_Start \<Longrightarrow> bind_step n s (s\<lparr>bs_resolver := Resolver_Value 0\<rparr>)"
| skip: "bs_resolver s = Resolver_Value k \<Longrightarrow> k < n \<Longrightarrow> k \<in> bs_set s \<Longrightarrow>
     bind_step n s (s\<lparr>bs_resolver := Resolver_Value (Suc k)\<rparr>)"
| read: "bs_resolver s = Resolver_Value k \<Longrightarrow> k < n \<Longrightarrow> k \<notin> bs_set s \<Longrightarrow> bs_loop s \<noteq> Loop_Locked k \<Longrightarrow>
     bind_step n s (s\<lparr>bs_resolver := Resolver_Value (Suc k)\<rparr>)"
| finish: "bs_resolver s = Resolver_Value n \<Longrightarrow> bind_step n s (s\<lparr>bs_resolver := Resolver_Done\<rparr>)"

definition bind_initial :: bind_state where
  "bind_initial = \<lparr>bs_loop = Loop_Lock 0, bs_resolver = Resolver_None, bs_set = {}\<rparr>"

section \<open>Typed values\<close>

text \<open>\<open>Message[T]\<close> and \<open>Scalar[T]\<close>: an invalid value, or one of another kind, is a panic.\<close>

definition message_FromValue :: "pval option \<Rightarrow> pmsg result" where
  "message_FromValue v =
     (case v of Some (VMsg m) \<Rightarrow> Inr m | _ \<Rightarrow> Inl (go_panic ''type mismatch: cannot convert to message''))"

definition scalar_FromValue :: "(scalar \<Rightarrow> 'a option) \<Rightarrow> pval option \<Rightarrow> 'a result" where
  "scalar_FromValue as_T v =
     (case v of
        Some (VScalar s) \<Rightarrow> (case as_T s of Some x \<Rightarrow> Inr x | None \<Rightarrow> Inl (go_panic ''interface conversion''))
      | _ \<Rightarrow> Inl (go_panic ''interface conversion''))"

text \<open>\<open>typedReactive\<close>: its value, and the calls of a typed watch function, made while the value is updated.\<close>

definition typed_Value :: "(pval option \<Rightarrow> 'a result) \<Rightarrow> 'f reactiveValue \<Rightarrow> 'a result" where
  "typed_Value FromValue rv = FromValue (rv_value rv)"

fun typed_calls :: "(pval option \<Rightarrow> 'a result) \<Rightarrow> 'f call list \<Rightarrow> ('f \<times> int64 \<times> 'a) list result" where
  "typed_calls FromValue [] = Inr []"
| "typed_calls FromValue (c # cs) =
     rbind (FromValue (call_value c)) (\<lambda>x. rbind (typed_calls FromValue cs) (\<lambda>xs. Inr ((call_func c, call_rev c, x) # xs)))"

section \<open>The server\<close>

text \<open>The loop of \<open>WatchReactive\<close> that finds the values of the requested paths.\<close>

fun watch_paths :: "'f reactiveValue pathTrieNode \<Rightarrow> string list \<Rightarrow> 'f reactiveValue list result" where
  "watch_paths p [] = Inr []"
| "watch_paths p (path # paths) =
     (if path = ''.'' then rbind (watch_paths p paths) (\<lambda>rvs. Inr (tn_value p # rvs))
      else case FindString p path of
             Some v \<Rightarrow> rbind (watch_paths p paths) (\<lambda>rvs. Inr (tn_value v # rvs))
           | None \<Rightarrow> Inl (errorf ''no such path %s''))"

text \<open>The event sent for a call of the bound callback: every value with its index.\<close>

definition reactive_events :: "pval option list \<Rightarrow> (nat \<times> pval option) list" where
  "reactive_events vs = zip [0 ..< length vs] vs"

section \<open>An LRU cache\<close>

text \<open>
  What \<open>Bind\<close> relies on: an entry that was found or added is found again by the next call, and the entries of the
  other revisions stay as they are or are evicted.
\<close>

definition peek_laws :: "'c peek_or_add \<Rightarrow> bool" where
  "peek_laws P \<longleftrightarrow>
     (\<forall>r q q' c. fst (P r q' (snd (P r q c))) = Some (case fst (P r q c) of None \<Rightarrow> q | Some p \<Rightarrow> p)
        \<and> fst (P r q c) = fst (P r q' c)
        \<and> (fst (P r q c) \<noteq> None \<longrightarrow> snd (P r q c) = c))
     \<and> (\<forall>r r' q q' c. r' \<noteq> r \<longrightarrow> fst (P r' q' (snd (P r q c))) \<in> {None, fst (P r' q' c)})"

text \<open>A cache of the ten newest entries, to evaluate the model on examples.\<close>

definition list_cache :: "(int64 \<times> nat) list peek_or_add" where
  "list_cache r q c = (case map_of c r of Some p \<Rightarrow> (Some p, c) | None \<Rightarrow> (None, take 10 ((r, q) # c)))"

lemma map_of_take: "map_of (take k xs) x \<in> {None, map_of xs x}"
  by (induction xs arbitrary: k) (auto simp: take_Cons' split: if_splits)

lemma list_cache_laws: "peek_laws list_cache"
proof -
  have "fst (list_cache r' q' (snd (list_cache r q c))) \<in> {None, fst (list_cache r' q' c)}" if "r' \<noteq> r" for r r' q q' c
    using map_of_take [of 10 "(r, q) # c" r'] that by (auto simp: list_cache_def split: option.splits)
  then show ?thesis by (auto simp: peek_laws_def list_cache_def split: option.splits)
qed

end
