(* ===== verification/ReactiveLemmas.thy ===== *)
theory ReactiveLemmas
  imports Reactive
begin

text \<open>
  The shape of the controller's tree, what \<open>WalkValues\<close> does to each of its nodes, and how an event
  changes the values and makes calls.
\<close>

section \<open>Building the tree\<close>

text \<open>A message type \<open>d\<close> has a singular field of message type \<open>d'\<close>.\<close>

definition nests :: "schema \<Rightarrow> string \<Rightarrow> string \<Rightarrow> bool" where
  "nests sch d' d \<longleftrightarrow> (\<exists>fd \<in> set (sch d). is_msg_field fd \<and> fd_Message fd = d')"

lemma build_more_fuel:
  "buildNode fuel sch newV path d = Some t \<Longrightarrow> fuel \<le> fuel' \<Longrightarrow> buildNode fuel' sch newV path d = Some t"
  "build_fields fuel sch newV path fds = Some ns \<Longrightarrow> fuel \<le> fuel' \<Longrightarrow> build_fields fuel' sch newV path fds = Some ns"
proof (induction fuel sch newV path d and fuel sch newV path fds arbitrary: t fuel' and ns fuel'
    rule: buildNode_build_fields.induct)
  case (2 fuel sch newV path d)
  from 2(3) obtain k where k: "fuel' = Suc k" "fuel \<le> k" by (cases fuel') auto
  from 2(2) obtain ns where ns: "build_fields fuel sch newV path (sch d) = Some ns" "t = TrieNode path newV ns"
    by (auto simp: map_option_case split: option.splits)
  from 2(1) [OF ns(1) k(2)] ns(2) k(1) show ?case by simp
next
  case (4 fuel sch newV path field fds)
  show ?case
  proof (cases "is_msg_field field")
    case True
    with 4(3) obtain node ns' where n: "buildNode fuel sch newV (path @ [fd_Name field]) (fd_Message field) = Some node"
      "build_fields fuel sch newV path fds = Some ns'" "ns = (field, node) # ns'"
      by (auto simp: Let_def split: option.splits)
    from 4(2) [OF refl refl _ n(2) 4(4)] True n(1)
    have "build_fields fuel' sch newV path fds = Some ns'" by simp
    with 4(1) [OF refl True n(1) 4(4)] True n(3) show ?thesis by (simp add: Let_def)
  next
    case False
    with 4(3) obtain ns' where n: "build_fields fuel sch newV path fds = Some ns'"
      "ns = (field, TrieNode (path @ [fd_Name field]) newV []) # ns'"
      by (auto simp: Let_def)
    from 4(2) [OF refl refl _ n(1) 4(4)] False
    have "build_fields fuel' sch newV path fds = Some ns'" by simp
    with False n(2) show ?thesis by (simp add: Let_def)
  qed
qed auto

text \<open>Whether the fuel is enough depends on the type only.\<close>

primrec builds :: "schema \<Rightarrow> nat \<Rightarrow> string \<Rightarrow> bool" where
  "builds sch 0 d \<longleftrightarrow> False"
| "builds sch (Suc fuel) d \<longleftrightarrow> (\<forall>fd \<in> set (sch d). is_msg_field fd \<longrightarrow> builds sch fuel (fd_Message fd))"

lemma build_iff: "buildNode fuel sch newV path d \<noteq> None \<longleftrightarrow> builds sch fuel d"
proof (induction fuel arbitrary: path d)
  case (Suc fuel)
  have "build_fields fuel sch newV path fds \<noteq> None \<longleftrightarrow>
      (\<forall>fd \<in> set fds. is_msg_field fd \<longrightarrow> builds sch fuel (fd_Message fd))" for fds
  proof (induction fds)
    case (Cons fd fds)
    then show ?case using Suc.IH [of "path @ [fd_Name fd]" "fd_Message fd"] by (auto simp: Let_def split: option.splits)
  qed simp
  then show ?case by simp
qed simp

lemma builds_mono: "builds sch fuel d \<Longrightarrow> fuel \<le> fuel' \<Longrightarrow> builds sch fuel' d"
proof (induction fuel arbitrary: d fuel')
  case (Suc fuel)
  then show ?case by (cases fuel') auto
qed simp

lemma builds_accp: "(\<exists>fuel. builds sch fuel d) \<longleftrightarrow> Wellfounded.accp (nests sch) d"
proof
  have "builds sch fuel d \<Longrightarrow> Wellfounded.accp (nests sch) d" for fuel
  proof (induction fuel arbitrary: d)
    case (Suc fuel)
    show ?case
    proof (rule accp.accI)
      fix d'
      assume "nests sch d' d"
      then obtain fd where "fd \<in> set (sch d)" "is_msg_field fd" "fd_Message fd = d'" by (auto simp: nests_def)
      with Suc.prems Suc.IH [of d'] show "Wellfounded.accp (nests sch) d'" by auto
    qed
  qed simp
  then show "\<exists>fuel. builds sch fuel d \<Longrightarrow> Wellfounded.accp (nests sch) d" by blast
next
  show "Wellfounded.accp (nests sch) d \<Longrightarrow> \<exists>fuel. builds sch fuel d"
  proof (induction rule: accp.induct)
    case (accI d)
    have "\<exists>k. fd \<in> set (sch d) \<longrightarrow> is_msg_field fd \<longrightarrow> builds sch k (fd_Message fd)" for fd
      using accI(2) [of "fd_Message fd"] by (auto simp: nests_def)
    then obtain n where n: "fd \<in> set (sch d) \<Longrightarrow> is_msg_field fd \<Longrightarrow> builds sch (n fd) (fd_Message fd)" for fd
      by metis
    define m where "m = Max (insert 0 (n ` set (sch d)))"
    have "builds sch m (fd_Message fd)" if fd: "fd \<in> set (sch d)" "is_msg_field fd" for fd
      using builds_mono [OF n [OF fd], of m] fd(1) by (simp add: m_def)
    then have "builds sch (Suc m) d" by simp
    then show ?case by blast
  qed
qed

section \<open>The shape of the tree\<close>

fun shaped :: "schema \<Rightarrow> string list \<Rightarrow> string \<Rightarrow> 'v pathTrieNode \<Rightarrow> bool"
  and shaped_nodes :: "schema \<Rightarrow> string list \<Rightarrow> (fdesc \<times> 'v pathTrieNode) list \<Rightarrow> bool" where
  "shaped sch p d (TrieNode q v ns) \<longleftrightarrow> q = p \<and> map fst ns = sch d \<and> shaped_nodes sch p ns"
| "shaped_nodes sch p [] \<longleftrightarrow> True"
| "shaped_nodes sch p ((fd, n) # ns) \<longleftrightarrow>
     (if is_msg_field fd then shaped sch (p @ [fd_Name fd]) (fd_Message fd) n
      else tn_Path n = p @ [fd_Name fd] \<and> tn_nodes n = []) \<and> shaped_nodes sch p ns"

lemma build_shaped:
  "buildNode fuel sch newV path d = Some t \<Longrightarrow> shaped sch path d t"
  "build_fields fuel sch newV path fds = Some ns \<Longrightarrow> shaped_nodes sch path ns \<and> map fst ns = fds"
proof (induction fuel sch newV path d and fuel sch newV path fds arbitrary: t and ns rule: buildNode_build_fields.induct)
  case (2 fuel sch newV path d)
  then show ?case by auto
next
  case (4 fuel sch newV path field fds)
  then show ?case by (auto simp: Let_def split: option.splits if_splits)
qed auto

text \<open>The paths of the tree with the values in its nodes, in the order of \<open>Walk\<close>.\<close>

definition trie_values :: "'v pathTrieNode \<Rightarrow> (string list \<times> 'v) list" where
  "trie_values t = map (\<lambda>n. (tn_Path n, tn_value n)) (Walk t)"

definition nodes_values :: "(fdesc \<times> 'v pathTrieNode) list \<Rightarrow> (string list \<times> 'v) list" where
  "nodes_values ns = map (\<lambda>n. (tn_Path n, tn_value n)) (walk_nodes ns)"

lemma trie_values_simps [simp]:
  "trie_values (TrieNode p v ns) = nodes_values ns @ [(p, v)]"
  "nodes_values [] = []" "nodes_values ((fd, n) # ns) = trie_values n @ nodes_values ns"
  by (simp_all add: trie_values_def nodes_values_def)

text \<open>The reflection value at a path, from the value at the root.\<close>

definition child_value :: "schema \<Rightarrow> (fdesc \<Rightarrow> scalar) \<Rightarrow> fdesc \<Rightarrow> pval option \<Rightarrow> pval option" where
  "child_value sch dflt fd x = (case x of None \<Rightarrow> None | Some pv \<Rightarrow> Some (msg_Get sch dflt fd (val_msg pv)))"

fun value_at :: "schema \<Rightarrow> (fdesc \<Rightarrow> scalar) \<Rightarrow> string \<Rightarrow> pval option \<Rightarrow> string list \<Rightarrow> pval option" where
  "value_at sch dflt d x [] = x"
| "value_at sch dflt d x (n # ps) =
     (case find_first (\<lambda>fd. fd_Name fd = n) (sch d) of
        None \<Rightarrow> None
      | Some fd \<Rightarrow> value_at sch dflt (fd_Message fd) (child_value sch dflt fd x) ps)"

definition names_distinct :: "schema \<Rightarrow> bool" where
  "names_distinct sch \<longleftrightarrow> (\<forall>d. distinct (map fd_Name (sch d)))"

lemma find_field: "distinct (map fd_Name fds) \<Longrightarrow> fd \<in> set fds \<Longrightarrow> find_first (\<lambda>f. fd_Name f = fd_Name fd) fds = Some fd"
  by (induction fds) (auto intro: rev_image_eqI)

lemma shaped_paths:
  fixes t :: "'v pathTrieNode" and ns :: "(fdesc \<times> 'v pathTrieNode) list"
  shows "shaped sch p d t \<Longrightarrow> \<forall>x \<in> set (trie_values t). prefix p (fst x)"
  "shaped_nodes sch p ns \<Longrightarrow> \<forall>x \<in> set (nodes_values ns). \<exists>fd \<in> set (map fst ns). prefix (p @ [fd_Name fd]) (fst x)"
proof (induction sch p d t and sch p ns rule: shaped_shaped_nodes.induct)
  case (3 sch p fd n ns)
  then show ?case by (cases n) (auto split: if_splits)
qed (fastforce simp: prefix_def)+

lemma value_at_child:
  assumes "names_distinct sch" "fd \<in> set (sch d)" "prefix (p @ [fd_Name fd]) q"
  shows "value_at sch dflt d x (drop (length p) q) =
    value_at sch dflt (fd_Message fd) (child_value sch dflt fd x) (drop (length (p @ [fd_Name fd])) q)"
  using assms find_field [of "sch d" fd] by (auto simp: prefix_def names_distinct_def)

text \<open>The child's part of the walk.\<close>

lemma walk_child:
  assumes "names_distinct sch" "fd \<in> set (sch d)"
    and "if is_msg_field fd then shaped sch (p @ [fd_Name fd]) (fd_Message fd) n
         else tn_Path n = p @ [fd_Name fd] \<and> tn_nodes n = []"
    and IH: "is_msg_field fd \<Longrightarrow> shaped sch (p @ [fd_Name fd]) (fd_Message fd) n \<Longrightarrow>
      trie_values (fst (WalkValues f sch dflt n (child_value sch dflt fd x))) =
        map (\<lambda>(q, v). (q, fst (f q (value_at sch dflt (fd_Message fd) (child_value sch dflt fd x) (drop (length (p @ [fd_Name fd])) q)) v)))
          (trie_values n)
      \<and> snd (WalkValues f sch dflt n (child_value sch dflt fd x)) =
        concat (map (\<lambda>(q, v). snd (f q (value_at sch dflt (fd_Message fd) (child_value sch dflt fd x) (drop (length (p @ [fd_Name fd])) q)) v))
          (trie_values n))
      \<and> shaped sch (p @ [fd_Name fd]) (fd_Message fd) (fst (WalkValues f sch dflt n (child_value sch dflt fd x)))"
  shows "trie_values (fst (WalkValues f sch dflt n (child_value sch dflt fd x))) =
      map (\<lambda>(q, v). (q, fst (f q (value_at sch dflt d x (drop (length p) q)) v))) (trie_values n)
    \<and> snd (WalkValues f sch dflt n (child_value sch dflt fd x)) =
      concat (map (\<lambda>(q, v). snd (f q (value_at sch dflt d x (drop (length p) q)) v)) (trie_values n))
    \<and> (let n' = fst (WalkValues f sch dflt n (child_value sch dflt fd x)) in
        if is_msg_field fd then shaped sch (p @ [fd_Name fd]) (fd_Message fd) n'
        else tn_Path n' = p @ [fd_Name fd] \<and> tn_nodes n' = [])"
proof (cases "is_msg_field fd")
  case True
  with assms(3) have "\<forall>y \<in> set (trie_values n). prefix (p @ [fd_Name fd]) (fst y)" using shaped_paths(1) by fastforce
  then have "value_at sch dflt d x (drop (length p) (fst y)) =
      value_at sch dflt (fd_Message fd) (child_value sch dflt fd x) (drop (length (p @ [fd_Name fd])) (fst y))"
    if "y \<in> set (trie_values n)" for y
    using value_at_child [OF assms(1,2)] that by auto
  with IH True assms(3) show ?thesis by (auto simp: split_def intro!: arg_cong [where f = concat])
next
  case False
  with assms(3) obtain v where "n = TrieNode (p @ [fd_Name fd]) v []" by (cases n) auto
  with False value_at_child [OF assms(1,2), of p "p @ [fd_Name fd]" dflt x] show ?thesis by (simp add: split_def Let_def)
qed

text \<open>What the callback \<open>f\<close> of \<open>WalkValues\<close> gets at each node.\<close>

lemma WalkValues_values:
  fixes t :: "'v pathTrieNode" and ns :: "(fdesc \<times> 'v pathTrieNode) list"
  assumes "names_distinct sch"
  shows "shaped sch p d t \<Longrightarrow>
      trie_values (fst (WalkValues f sch dflt t x)) =
        map (\<lambda>(q, v). (q, fst (f q (value_at sch dflt d x (drop (length p) q)) v))) (trie_values t)
      \<and> snd (WalkValues f sch dflt t x) =
        concat (map (\<lambda>(q, v). snd (f q (value_at sch dflt d x (drop (length p) q)) v)) (trie_values t))
      \<and> shaped sch p d (fst (WalkValues f sch dflt t x))"
    and "shaped_nodes sch p ns \<Longrightarrow> set (map fst ns) \<subseteq> set (sch d) \<Longrightarrow>
      nodes_values (fst (walk_children f sch dflt ns x)) =
        map (\<lambda>(q, v). (q, fst (f q (value_at sch dflt d x (drop (length p) q)) v))) (nodes_values ns)
      \<and> snd (walk_children f sch dflt ns x) =
        concat (map (\<lambda>(q, v). snd (f q (value_at sch dflt d x (drop (length p) q)) v)) (nodes_values ns))
      \<and> shaped_nodes sch p (fst (walk_children f sch dflt ns x))
      \<and> map fst (fst (walk_children f sch dflt ns x)) = map fst ns"
  using assms
proof (induction sch p d t and sch p ns arbitrary: x and x d rule: shaped_shaped_nodes.induct)
  case (1 sch p d q v ns)
  then have "set (map fst ns) \<subseteq> set (sch d)" "shaped_nodes sch p ns" by auto
  from 1(1) [OF this(2,1) 1(3), of x] 1(2) show ?case by (simp add: split_def Let_def)
next
  case (3 sch p fd n ns)
  let ?c = "child_value sch dflt fd x"
  have child: "(case x of None \<Rightarrow> None | Some pv \<Rightarrow> Some (msg_Get sch dflt fd (val_msg pv))) = ?c"
    by (simp add: child_value_def)
  from "3.prems" have fd: "fd \<in> set (sch d)" "set (map fst ns) \<subseteq> set (sch d)" "shaped_nodes sch p ns"
    "if is_msg_field fd then shaped sch (p @ [fd_Name fd]) (fd_Message fd) n
     else tn_Path n = p @ [fd_Name fd] \<and> tn_nodes n = []" by auto
  note head = walk_child [OF "3.prems"(3) fd(1,4), of f dflt x]
  from "3.IH"(2) [OF fd(3,2) "3.prems"(3), of x] head [OF "3.IH"(1) [OF _ _ "3.prems"(3)]] show ?case
    by (simp add: child split_def Let_def)
qed (simp_all add: split_def)

end
