(* ===== verification/ReactiveProps.thy ===== *)
theory ReactiveProps
  imports ReactiveLemmas ValueWatchProps
begin

text \<open>
  Properties of the reactive controller: when its tree can be built, what its values show, who is
  notified, and that it follows the store it watches.
\<close>

section \<open>The tree\<close>

text \<open>
  C23. The tree of a configuration type is built in finitely many steps exactly when no chain of singular
  message fields from the type goes on forever. For a type that contains itself, \<open>buildNode\<close> recurses
  until the stack is exhausted.
\<close>

theorem path_trie_terminates:
  "(\<exists>fuel. newPathTrie fuel sch newV desc \<noteq> None) \<longleftrightarrow> Wellfounded.accp (nests sch) desc"
  unfolding newPathTrie_def build_iff builds_accp ..

lemma NewController_shaped:
  "NewController fuel sch desc = Some s \<Longrightarrow> shaped sch [] desc (co_reactiveMessages s)"
  by (auto simp: NewController_def newPathTrie_def build_shaped(1))

section \<open>What an event does\<close>

lemma Update_value:
  "rv_rev (fst (Update r' v n r)) = r'" "rv_value (fst (Update r' v n r)) = v"
  "\<not> rv_pendingInit (fst (Update r' v n r))"
  by (simp_all add: Update_def Let_def)

text \<open>The value of the root after an event.\<close>

definition event_value :: "pmsg WatchEvent \<Rightarrow> pval option" where
  "event_value e = (case ev_EventType e of WatchEventDelete \<Rightarrow> None | WatchEventPut \<Rightarrow> map_option (\<lambda>k. VMsg (kr_V k)) (ev_Current e))"

lemma event_update_value: "event_update veq e = Inr (r, v, m) \<Longrightarrow> v = event_value e"
  by (auto simp: event_update_def event_value_def rbind_def Let_def split: WatchEventType.splits option.splits sum.splits)

lemma handle_values:
  assumes "names_distinct sch" "shaped sch [] desc (co_reactiveMessages s)"
    and "handleWatchEvent veq sch dflt e s = Inr (s', calls)"
  shows "\<exists>r m. event_update veq e = Inr (r, event_value e, m) \<and> co_currentRev s' = r
    \<and> shaped sch [] desc (co_reactiveMessages s')
    \<and> trie_values (co_reactiveMessages s') =
        map (\<lambda>(q, v). (q, fst (Update r (value_at sch dflt desc (event_value e) q) (shouldNotify m q) v)))
          (trie_values (co_reactiveMessages s))
    \<and> calls = concat (map (\<lambda>(q, v). snd (Update r (value_at sch dflt desc (event_value e) q) (shouldNotify m q) v))
          (trie_values (co_reactiveMessages s)))"
proof -
  from assms(3) obtain r v m where u: "event_update veq e = Inr (r, v, m)"
    by (auto simp: handleWatchEvent_def rbind_Inr)
  with event_update_value have v: "v = event_value e" by blast
  from WalkValues_values(1) [OF assms(1,2), of "\<lambda>path value' r'. Update r value' (shouldNotify m path) r'" dflt v]
    assms(3) u v show ?thesis
    by (auto simp: handleWatchEvent_def split_def Let_def)
qed

text \<open>
  C24. After an event every reactive value is up to date: it has the revision of the event and shows what
  the new configuration has at its path (nested messages included, a field that is not set by its default),
  and nothing after a deletion. It no longer waits for its first value.
\<close>

theorem controller_shows_config:
  assumes "names_distinct sch" "shaped sch [] desc (co_reactiveMessages s)"
    and "handleWatchEvent veq sch dflt e s = Inr (s', calls)"
  shows "\<forall>(path, r) \<in> set (trie_values (co_reactiveMessages s')).
    rv_rev r = co_currentRev s' \<and> rv_value r = value_at sch dflt desc (event_value e) path \<and> \<not> rv_pendingInit r"
  using handle_values [OF assms] by (auto simp: Update_value)

text \<open>
  C25. The clients of a value are called exactly when it changed: for an update from one configuration to
  another, the calls are those of the watch functions of the root and of every path whose value differs
  between the two (at any depth, also by being set or not), each with the new revision and value.
\<close>

theorem watchers_called_for_changes:
  assumes "names_distinct sch" "shaped sch [] desc (co_reactiveMessages s)"
    and "\<forall>(path, r) \<in> set (trie_values (co_reactiveMessages s)). \<not> rv_pendingInit r \<and> list_all dotless path"
    and "good_msg sch (kr_V old)" "good_msg sch (kr_V new)" "msg_name (kr_V old) = msg_name (kr_V new)"
    and "\<And>v w. veq v w = (v = w)"
    and "handleWatchEvent veq sch dflt \<lparr>ev_EventType = WatchEventPut, ev_Current = Some new, ev_Previous = Some old\<rparr> s
      = Inr (s', calls)"
  shows "calls = concat (map (\<lambda>(path, r).
      if path = [] \<or> path_get path (kr_V old) \<noteq> path_get path (kr_V new)
      then map (\<lambda>f. \<lparr>call_func = f, call_rev = kr_Rev new,
        call_value = value_at sch dflt desc (Some (VMsg (kr_V new))) path\<rparr>) (rv_watchFuncs r)
      else []) (trie_values (co_reactiveMessages s)))"
proof -
  let ?e = "\<lparr>ev_EventType = WatchEventPut, ev_Current = Some new, ev_Previous = Some old\<rparr>"
  from handle_values [OF assms(1,2,8)] obtain r m where
    u: "event_update veq ?e = Inr (r, event_value ?e, m)"
    and calls: "calls = concat (map (\<lambda>(q, v). snd (Update r (value_at sch dflt desc (event_value ?e) q) (shouldNotify m q) v))
          (trie_values (co_reactiveMessages s)))" by blast
  from u good_same [OF assms(4,5,6)] have r: "r = kr_Rev new" "m = diffFields veq (kr_V old) (kr_V new) []"
    by (auto simp: event_update_def Diff_def)
  have notify: "shouldNotify m path \<longleftrightarrow> path = [] \<or> path_get path (kr_V old) \<noteq> path_get path (kr_V new)"
    if "list_all dotless path" for path
    using diff_paths [OF assms(7) assms(4-6) _ that, of "[]"] by (auto simp: shouldNotify_def r)
  have "snd (Update r (value_at sch dflt desc (event_value ?e) (fst x)) (shouldNotify m (fst x)) (snd x)) =
      (if fst x = [] \<or> path_get (fst x) (kr_V old) \<noteq> path_get (fst x) (kr_V new)
       then map (\<lambda>f. \<lparr>call_func = f, call_rev = kr_Rev new,
        call_value = value_at sch dflt desc (Some (VMsg (kr_V new))) (fst x)\<rparr>) (rv_watchFuncs (snd x)) else [])"
    if "x \<in> set (trie_values (co_reactiveMessages s))" for x
    using assms(3) that notify [of "fst x"] by (auto simp: Update_def r(1) event_value_def Let_def split_def)
  then show ?thesis unfolding calls split_def by (auto intro!: arg_cong [where f = concat])
qed

section \<open>Following the store\<close>

lemma handle_events_values:
  assumes "names_distinct sch"
  shows "shaped sch [] desc (co_reactiveMessages s) \<Longrightarrow> handle_events veq sch dflt es s = Inr (s', calls) \<Longrightarrow> es \<noteq> [] \<Longrightarrow>
    \<forall>(path, r) \<in> set (trie_values (co_reactiveMessages s')). rv_value r = value_at sch dflt desc (event_value (last es)) path"
proof (induction es arbitrary: s calls)
  case (Cons e es)
  then obtain t c c' where t: "handleWatchEvent veq sch dflt e s = Inr (t, c)" "handle_events veq sch dflt es t = Inr (s', c')"
    by (auto simp: rbind_Inr)
  note h = handle_values [OF assms Cons.prems(1) t(1)]
  show ?case
  proof (cases "es = []")
    case True
    with h t(2) show ?thesis by (auto simp: Update_value)
  next
    case False
    from h have "shaped sch [] desc (co_reactiveMessages t)" by blast
    from Cons.IH [OF this t(2) False] False show ?thesis by simp
  qed
qed simp

lemma watch_shows_store:
  assumes "reachable c z s" "w \<in> set (wst_watches s)" "registered w" "w_events w \<noteq> []"
  shows "event_value (last (w_events w)) =
    (case vs_Get [Get_RevisionOutOpt True] (wst_store s) of Inl _ \<Rightarrow> None | Inr (cfg, _) \<Rightarrow> Some (VMsg cfg))"
proof -
  from reachable_inv [OF assms(1)] obtain log where "watched_inv c s log" by blast
  with assms have f: "refines (wst_store s) log" "follows (vs_cloneFunc (wst_store s)) log (w_events w)"
    by (auto simp: watched_inv_def)
  then have "event_ok (last (w_events w))" "ev_Current (last (w_events w)) = shown (vs_cloneFunc (wst_store s)) log"
    using assms(4) by (auto simp: follows_def)
  with Get_shown [OF f(1)] show ?thesis
    by (auto simp: event_value_def event_ok_def split: WatchEventType.splits option.splits)
qed

text \<open>
  C26. The controller follows its store: under any interleaving of writes, watches and reads, once a
  controller has handled all events of its watch on the active store, each of its values is what the
  configuration that \<open>Get\<close> returns has at its path, and nothing if \<open>Get\<close> finds none.
\<close>

theorem controller_follows_store:
  assumes "names_distinct sch" "shaped sch [] desc (co_reactiveMessages ctrl)"
    and "reachable c z s" "w \<in> set (wst_watches s)" "registered w" "w_received w = w_events w" "w_events w \<noteq> []"
    and "handle_events veq sch dflt (w_received w) ctrl = Inr (ctrl', calls)"
  shows "\<forall>(path, r) \<in> set (trie_values (co_reactiveMessages ctrl')).
    rv_value r = value_at sch dflt desc
      (case vs_Get [Get_RevisionOutOpt True] (wst_store s) of Inl _ \<Rightarrow> None | Inr (cfg, _) \<Rightarrow> Some (VMsg cfg)) path"
  using handle_events_values [OF assms(1,2,8)] assms(6,7) watch_shows_store [OF assms(3,4,5,7)] by simp

section \<open>An example\<close>

definition ex_field :: "string \<Rightarrow> kind \<Rightarrow> string \<Rightarrow> fdesc" where
  "ex_field n k msg = \<lparr>fd_Name = n, fd_Kind = k, fd_IsList = False, fd_IsMap = False, fd_Message = msg, fd_Masked = False, fd_Oneof = []\<rparr>"

definition ex_sch :: schema where
  "ex_sch d =
     (if d = ''A'' then [ex_field ''x'' StringKind [], ex_field ''b'' MessageKind ''B'']
      else if d = ''B'' then [ex_field ''y'' StringKind []] else [])"

definition ex_A :: "string \<Rightarrow> string \<Rightarrow> pmsg" where
  "ex_A x y = Msg ''A'' [(ex_field ''x'' StringKind [], Some (VScalar (SString x))),
     (ex_field ''b'' MessageKind ''B'', Some (VMsg (Msg ''B'' [(ex_field ''y'' StringKind [], Some (VScalar (SString y)))] [])))] []"

definition ex_kr :: "pmsg \<Rightarrow> int64 \<Rightarrow> pmsg KeyRevisionImpl" where
  "ex_kr m r = \<lparr>kr_K = [], kr_V = m, kr_Rev = r, kr_Time = 0\<rparr>"

definition ex_put :: "pmsg WatchEvent" where
  "ex_put = \<lparr>ev_EventType = WatchEventPut, ev_Current = Some (ex_kr (ex_A ''1'' ''3'') 2), ev_Previous = Some (ex_kr (ex_A ''1'' ''2'') 1)\<rparr>"

text \<open>A controller of the type \<open>A\<close> at revision 1, with a watch function on every value.\<close>

definition ex_rv :: "nat \<Rightarrow> nat reactiveValue" where
  "ex_rv f = \<lparr>rv_rev = 1, rv_pendingInit = False, rv_value = None, rv_watchChannels = [], rv_watchFuncs = [f]\<rparr>"

definition ex_ctrl :: "nat Controller" where
  "ex_ctrl = \<lparr>co_reactiveMessages = TrieNode [] (ex_rv 0)
       [(ex_field ''x'' StringKind [], TrieNode [''x''] (ex_rv 1) []),
        (ex_field ''b'' MessageKind ''B'', TrieNode [''b''] (ex_rv 2)
           [(ex_field ''y'' StringKind [], TrieNode [''b'', ''y''] (ex_rv 3) [])])],
     co_currentRev = 1\<rparr>"

abbreviation ex_dflt :: "fdesc \<Rightarrow> scalar" where "ex_dflt \<equiv> \<lambda>_. SString []"

lemma ex_sch_names: "names_distinct ex_sch"
  by (simp add: names_distinct_def ex_sch_def ex_field_def)

lemma ex_ctrl_shaped: "shaped ex_sch [] ''A'' (co_reactiveMessages ex_ctrl)"
  by code_simp

lemma ex_good: "good_msg ex_sch (kr_V (ex_kr (ex_A x y) r))"
  by (simp add: good_msg_def ex_kr_def ex_A_def ex_sch_def ex_field_def is_time_message_def val_fits_def is_msg_field_def dotless_def)

lemma ex_handled: "\<exists>s' calls. handleWatchEvent (=) ex_sch ex_dflt ex_put ex_ctrl = Inr (s', calls)"
proof -
  have "\<not> isl (handleWatchEvent (=) ex_sch ex_dflt ex_put ex_ctrl)" by code_simp
  then show ?thesis by (cases "handleWatchEvent (=) ex_sch ex_dflt ex_put ex_ctrl") auto
qed

lemma controller_shows_config_witness:
  "\<exists>s' calls. handleWatchEvent (=) ex_sch ex_dflt ex_put ex_ctrl = Inr (s', calls)
    \<and> (\<forall>(path, r) \<in> set (trie_values (co_reactiveMessages s')).
        rv_value r = value_at ex_sch ex_dflt ''A'' (Some (VMsg (ex_A ''1'' ''3''))) path)"
proof -
  from ex_handled obtain s' calls where h: "handleWatchEvent (=) ex_sch ex_dflt ex_put ex_ctrl = Inr (s', calls)" by blast
  have "event_value ex_put = Some (VMsg (ex_A ''1'' ''3''))" by (simp add: event_value_def ex_put_def ex_kr_def)
  with controller_shows_config [OF ex_sch_names ex_ctrl_shaped h] h show ?thesis by fastforce
qed

lemma watchers_called_for_changes_witness:
  "\<exists>s' calls. handleWatchEvent (=) ex_sch ex_dflt ex_put ex_ctrl = Inr (s', calls) \<and> map call_func calls = [3, 2, 0]"
proof -
  from ex_handled obtain s' calls where h: "handleWatchEvent (=) ex_sch ex_dflt ex_put ex_ctrl = Inr (s', calls)" by blast
  have "\<forall>(path, r) \<in> set (trie_values (co_reactiveMessages ex_ctrl)). \<not> rv_pendingInit r \<and> list_all dotless path"
    by (simp add: ex_ctrl_def ex_rv_def dotless_def)
  from watchers_called_for_changes [OF ex_sch_names ex_ctrl_shaped this ex_good ex_good _ _ h [unfolded ex_put_def]]
  have "calls = concat (map (\<lambda>(path, r).
      if path = [] \<or> path_get path (kr_V (ex_kr (ex_A ''1'' ''2'') 1)) \<noteq> path_get path (kr_V (ex_kr (ex_A ''1'' ''3'') 2))
      then map (\<lambda>f. \<lparr>call_func = f, call_rev = kr_Rev (ex_kr (ex_A ''1'' ''3'') 2),
        call_value = value_at ex_sch ex_dflt ''A'' (Some (VMsg (kr_V (ex_kr (ex_A ''1'' ''3'') 2)))) path\<rparr>) (rv_watchFuncs r)
      else []) (trie_values (co_reactiveMessages ex_ctrl)))"
    by (simp add: ex_kr_def ex_A_def)
  then have "map call_func calls = [3, 2, 0]"
    by (simp add: ex_ctrl_def ex_rv_def ex_kr_def ex_A_def ex_field_def msg_get_def)
  with h show ?thesis by (intro exI conjI)
qed

lemma first_value_followed:
  "\<exists>s w. reachable id z s \<and> w \<in> set (wst_watches s) \<and> registered w \<and> w_received w = w_events w
     \<and> w_events w = [first_event id z]"
proof -
  let ?w = "new_watch [] :: 'a WatchEvent watch" and ?e = "first_event id z"
  have "single id z (?w\<lparr>w_listener := Some ?e, w_events := [?e]\<rparr>) 1" by (rule single_first_put)
  from single_forward [OF this forward.listen [of _ ?e]]
  have "single id z (?w\<lparr>w_buffer := [?e], w_events := [?e]\<rparr>) 1" by (simp add: new_watch_def buffer_cap_def)
  from single_forward [OF this forward.take_event [of _ ?e "[]"]]
  have "single id z (?w\<lparr>w_goroutine := Taken ?e, w_events := [?e]\<rparr>) 1" by (simp add: new_watch_def)
  from single_forward [OF this forward.send [of _ ?e]]
  have "single id z (?w\<lparr>w_updateC := [?e], w_events := [?e]\<rparr>) 1" by (simp add: new_watch_def updateC_cap_def)
  from single_read_all [OF this] have "single id z (?w\<lparr>w_received := [?e], w_events := [?e]\<rparr>) 1"
    by (simp add: new_watch_def)
  then obtain s where "reachable id z s" "wst_watches s = [?w\<lparr>w_received := [?e], w_events := [?e]\<rparr>]"
    by (auto simp: single_def)
  then show ?thesis by (intro exI [of _ s] exI) (auto simp: registered_def new_watch_def)
qed

lemma controller_follows_store_witness:
  "\<exists>ctrl' calls s. reachable id (ex_A ''1'' ''3'') s
    \<and> handle_events (=) ex_sch ex_dflt [first_event id (ex_A ''1'' ''3'')] ex_ctrl = Inr (ctrl', calls)
    \<and> (\<forall>(path, r) \<in> set (trie_values (co_reactiveMessages ctrl')).
        rv_value r = value_at ex_sch ex_dflt ''A''
          (case vs_Get [Get_RevisionOutOpt True] (wst_store s) of Inl _ \<Rightarrow> None | Inr (cfg, _) \<Rightarrow> Some (VMsg cfg)) path)"
proof -
  let ?z = "ex_A ''1'' ''3''"
  have "\<not> isl (handle_events (=) ex_sch ex_dflt [first_event id ?z] ex_ctrl)" by code_simp
  then obtain ctrl' calls where h: "handle_events (=) ex_sch ex_dflt [first_event id ?z] ex_ctrl = Inr (ctrl', calls)"
    by (cases "handle_events (=) ex_sch ex_dflt [first_event id ?z] ex_ctrl") auto
  from first_value_followed [of ?z] obtain s w where s: "reachable id ?z s" "w \<in> set (wst_watches s)" "registered w"
    "w_received w = w_events w" "w_events w = [first_event id ?z]" by blast
  from controller_follows_store [OF ex_sch_names ex_ctrl_shaped s(1-4), of "(=)" ex_dflt ctrl' calls] s h show ?thesis
    by (intro exI [of _ ctrl'] exI [of _ calls] exI [of _ s]) simp
qed

end
