(* ===== verification/BindProps.thy ===== *)
theory BindProps
  imports Bind ReactiveProps
begin

text \<open>
  Properties of \<open>Bind\<close>: one call of the callback for each new revision, none for a deletion, and the
  deadlock of its loop; and of typed values.
\<close>

section \<open>One queued update\<close>

text \<open>The calls the controller makes in a run, and the times a goroutine for the queued update \<open>q\<close> runs.\<close>

fun group_calls :: "bind_label list \<Rightarrow> nat call list" where
  "group_calls [] = []"
| "group_calls (Group_Call c # ls) = c # group_calls ls"
| "group_calls (_ # ls) = group_calls ls"

fun resolutions :: "nat \<Rightarrow> bind_label list \<Rightarrow> (nat \<Rightarrow> pval option) list" where
  "resolutions q [] = []"
| "resolutions q (Resolve q' v # ls) = (if q' = q then v # resolutions q ls else resolutions q ls)"
| "resolutions q (_ # ls) = resolutions q ls"

fun label_rev :: "bind_label \<Rightarrow> int64 option" where
  "label_rev (Group_Call c) = Some (call_rev c)"
| "label_rev (Bind_Call c) = Some (call_rev c)"
| "label_rev _ = None"

definition set_values :: "nat call list \<Rightarrow> pval option list \<Rightarrow> pval option list" where
  "set_values calls vs = fold (\<lambda>c vs. vs[call_func c := call_value c]) calls vs"

definition calls_for :: "nat \<Rightarrow> 'c value_group \<Rightarrow> (nat \<times> pval option list) list" where
  "calls_for q b = filter (\<lambda>c. fst c = q) (bd_calls b)"

lemma bind_run_simps [simp]:
  "bind_run P b [] = b" "bind_run P b (l # ls) = bind_run P (bind_act P b l) ls"
  "bind_run P b (ls @ ls') = bind_run P (bind_run P b ls) ls'"
  by (simp_all add: bind_run_def)

text \<open>The cache as a map; \<open>owner\<close> is the queued update a call at a revision goes to.\<close>

definition cached :: "'c peek_or_add \<Rightarrow> 'c \<Rightarrow> int64 \<Rightarrow> nat option" where
  "cached P c r = fst (P r 0 c)"

lemma cached_laws:
  assumes "peek_laws P"
  shows "fst (P r q c) = cached P c r"
    "cached P (snd (P r q c)) r = Some (case cached P c r of None \<Rightarrow> q | Some p \<Rightarrow> p)"
    "cached P c r \<noteq> None \<Longrightarrow> snd (P r q c) = c"
    "r' \<noteq> r \<Longrightarrow> cached P (snd (P r q c)) r' \<in> {None, cached P c r'}"
  using assms unfolding peek_laws_def cached_def by metis+

definition owner :: "'c peek_or_add \<Rightarrow> int64 \<Rightarrow> 'c value_group \<Rightarrow> nat" where
  "owner P r b = (case cached P (bd_queues b) r of None \<Rightarrow> length (bd_heap b) | Some p \<Rightarrow> p)"

lemma onUpdate_owner:
  assumes "peek_laws P"
  shows "onUpdate P g i r v b =
    (let q = owner P r b; heap = bd_heap b @ [\<lparr>q_values = replicate (bd_len b) None, q_resolved = False\<rparr>] in
     b\<lparr>bd_queues := snd (P r (length (bd_heap b)) (bd_queues b)),
       bd_heap := heap[q := (heap ! q)\<lparr>q_values := (q_values (heap ! q))[i := v]\<rparr>],
       bd_waiting := (if g then bd_waiting b @ [q] else bd_waiting b),
       bd_runnable := (if g then bd_runnable b else bd_runnable b @ [q])\<rparr>)"
  using cached_laws(1) [OF assms, of r "length (bd_heap b)" "bd_queues b"]
  by (simp add: onUpdate_def owner_def Let_def case_prod_beta)

text \<open>Everything a group knows of is in its heap.\<close>

definition bind_wf :: "'c peek_or_add \<Rightarrow> 'c value_group \<Rightarrow> bool" where
  "bind_wf P b \<longleftrightarrow> (\<forall>r p. cached P (bd_queues b) r = Some p \<longrightarrow> p < length (bd_heap b))
     \<and> (\<forall>q \<in> set (bd_waiting b) \<union> set (bd_runnable b) \<union> fst ` set (bd_calls b). q < length (bd_heap b))"

lemma owner_wf: "bind_wf P b \<Longrightarrow> owner P r b \<le> length (bd_heap b)"
  by (auto simp: owner_def bind_wf_def less_imp_le split: option.splits)

lemma onUpdate_wf:
  assumes P: "peek_laws P" and wf: "bind_wf P b"
  shows "bind_wf P (onUpdate P g i r v b)"
proof -
  let ?b = "onUpdate P g i r v b"
  have "p \<le> length (bd_heap b)" if "cached P (bd_queues ?b) r' = Some p" for r' p
  proof (cases "r' = r")
    case True
    with that wf cached_laws(2) [OF P, of r "length (bd_heap b)" "bd_queues b"] show ?thesis
      by (auto simp: onUpdate_owner [OF P] Let_def bind_wf_def less_imp_le split: option.splits)
  next
    case False
    with that wf cached_laws(4) [OF P False, of "length (bd_heap b)" "bd_queues b"] show ?thesis
      by (auto simp: onUpdate_owner [OF P] Let_def bind_wf_def less_imp_le)
  qed
  moreover have "length (bd_heap ?b) = Suc (length (bd_heap b))" by (simp add: onUpdate_owner [OF P] Let_def)
  moreover have "bd_calls ?b = bd_calls b" "set (bd_waiting ?b) \<union> set (bd_runnable ?b) = insert (owner P r b) (set (bd_waiting b) \<union> set (bd_runnable b))"
    by (auto simp: onUpdate_owner [OF P] Let_def)
  ultimately show ?thesis using wf owner_wf [OF wf, of r] by (auto simp: bind_wf_def less_Suc_eq_le less_imp_le)
qed

lemma bind_act_wf: "peek_laws P \<Longrightarrow> bind_wf P b \<Longrightarrow> bind_wf P (bind_act P b l)"
proof (cases l)
  case (Resolve q current)
  let ?b = "bind_act P b l"
  assume wf: "bind_wf P b"
  have b: "bd_queues ?b = bd_queues b" "length (bd_heap ?b) = length (bd_heap b)" "bd_waiting ?b = bd_waiting b"
    "set (bd_runnable ?b) \<subseteq> set (bd_runnable b)" "fst ` set (bd_calls ?b) \<subseteq> set (bd_runnable b) \<union> fst ` set (bd_calls b)"
    using set_remove1_subset [of q "bd_runnable b"] by (auto simp: Resolve doResolve_def Let_def)
  then have sub: "set (bd_waiting ?b) \<union> set (bd_runnable ?b) \<union> fst ` set (bd_calls ?b)
      \<subseteq> set (bd_waiting b) \<union> set (bd_runnable b) \<union> fst ` set (bd_calls b)" by (simp only: b(3)) blast
  from wf have "\<forall>q \<in> set (bd_waiting b) \<union> set (bd_runnable b) \<union> fst ` set (bd_calls b). q < length (bd_heap b)"
    unfolding bind_wf_def by (rule conjunct2)
  with sub wf show ?thesis unfolding bind_wf_def b(1,2) by (meson subsetD)
qed (auto simp: onUpdate_wf, auto simp: bind_wf_def)

lemma bind_run_wf: "peek_laws P \<Longrightarrow> bind_wf P b \<Longrightarrow> bind_wf P (bind_run P b ls)"
  by (induction ls arbitrary: b) (simp_all add: bind_act_wf)

lemma new_group_wf: "(\<And>r q. fst (P r q c) = None) \<Longrightarrow> bind_wf P (new_group n c)"
  by (simp add: bind_wf_def new_group_def cached_def)

text \<open>The number of values does not change.\<close>

lemma bind_run_len [simp]: "bd_len (bind_run P b ls) = bd_len b"
proof (induction ls arbitrary: b)
  case (Cons l ls)
  have "bd_len (bind_act P b l) = bd_len b"
    by (cases l) (simp_all add: onUpdate_def doResolve_def Let_def case_prod_beta)
  with Cons show ?case by simp
qed simp

text \<open>
  One queued update by itself: it, the goroutines waiting for it, those that can run, and the calls made for it. An
  action is its own or another queued update's.
\<close>

type_synonym update_view = "queuedUpdate \<times> nat \<times> nat \<times> (nat \<times> pval option list) list"

definition view :: "nat \<Rightarrow> 'c value_group \<Rightarrow> update_view" where
  "view q b = (bd_heap b ! q, count_list (bd_waiting b) q, count_list (bd_runnable b) q, calls_for q b)"

definition set_value :: "nat call \<Rightarrow> queuedUpdate \<Rightarrow> queuedUpdate" where
  "set_value c u = u\<lparr>q_values := (q_values u)[call_func c := call_value c]\<rparr>"

fun view_act :: "nat \<Rightarrow> bool \<Rightarrow> bind_label \<Rightarrow> update_view \<Rightarrow> update_view" where
  "view_act q own (Group_Call c) (u, w, k, cs) = (if own then (set_value c u, Suc w, k, cs) else (u, w, k, cs))"
| "view_act q own (Bind_Call c) (u, w, k, cs) = (if own then (set_value c u, w, Suc k, cs) else (u, w, k, cs))"
| "view_act q own Group_Close (u, w, k, cs) = (u, 0, k + w, cs)"
| "view_act q own (Resolve q' v) (u, w, k, cs) =
     (if q' \<noteq> q \<or> k = 0 then (u, w, k, cs)
      else if q_resolved u then (u, w, k - 1, cs)
      else (u\<lparr>q_values := fill_values v (q_values u), q_resolved := True\<rparr>, w, k - 1, cs @ [(q, fill_values v (q_values u))]))"

lemma count_list_remove1: "count_list (remove1 x xs) y = (if x = y then count_list xs y - 1 else count_list xs y)"
  by (induction xs) (auto simp: count_list_0_iff)

lemma onUpdate_view:
  assumes "peek_laws P" "q < length (bd_heap b)"
  shows "view q (onUpdate P g (call_func c) r (call_value c) b) =
    (if owner P r b = q then (set_value c (bd_heap b ! q), count_list (bd_waiting b) q + (if g then 1 else 0),
        count_list (bd_runnable b) q + (if g then 0 else 1), calls_for q b)
     else view q b)"
  using assms(2) by (auto simp: onUpdate_owner [OF assms(1)] view_def Let_def calls_for_def nth_append set_value_def)

lemma view_step:
  assumes "peek_laws P" "q < length (bd_heap b)"
  shows "view q (bind_act P b l) = view_act q (\<exists>r. label_rev l = Some r \<and> owner P r b = q) l (view q b)"
proof (cases l)
  case (Resolve q' v)
  show ?thesis
  proof (cases "q' = q")
    case True
    with assms(2) Resolve show ?thesis
      by (auto simp: view_def doResolve_def Let_def calls_for_def count_list_remove1 count_list_0_iff)
  next
    case False
    with assms(2) Resolve show ?thesis by (auto simp: view_def doResolve_def Let_def calls_for_def count_list_remove1)
  qed
qed (auto simp: onUpdate_view [OF assms], auto simp: view_def calls_for_def)

lemma bind_act_heap: "length (bd_heap b) \<le> length (bd_heap (bind_act P b l))"
  by (cases l) (auto simp: onUpdate_def doResolve_def Let_def case_prod_beta)

text \<open>No other revision's entry is the queued update of \<open>r\<close>.\<close>

definition only_for :: "'c peek_or_add \<Rightarrow> int64 \<Rightarrow> nat \<Rightarrow> 'c value_group \<Rightarrow> bool" where
  "only_for P r q b \<longleftrightarrow> q < length (bd_heap b) \<and> (\<forall>r'. r' \<noteq> r \<longrightarrow> cached P (bd_queues b) r' \<noteq> Some q)"

lemma only_for_owner: "only_for P r q b \<Longrightarrow> r' \<noteq> r \<Longrightarrow> owner P r' b \<noteq> q"
  by (auto simp: only_for_def owner_def split: option.splits)

lemma onUpdate_queues:
  assumes "peek_laws P"
  shows "cached P (bd_queues (onUpdate P g i r v b)) r = Some (owner P r b)"
    "r' \<noteq> r \<Longrightarrow> cached P (bd_queues (onUpdate P g i r v b)) r' \<in> {None, cached P (bd_queues b) r'}"
  using cached_laws(2,4) [OF assms] by (auto simp: onUpdate_owner [OF assms] Let_def owner_def split: option.split)

lemma only_for_act:
  assumes P: "peek_laws P" and q: "only_for P r q b"
  shows "only_for P r q (bind_act P b l)"
proof -
  have "only_for P r q (onUpdate P g i r1 v b)" for g i r1 v
  proof -
    have "cached P (bd_queues (onUpdate P g i r1 v b)) r' \<noteq> Some q" if "r' \<noteq> r" for r'
    proof (cases "r' = r1")
      case True
      then show ?thesis using onUpdate_queues(1) [OF P, of g i r1 v b] only_for_owner [OF q, of r1] that by simp
    next
      case False
      from onUpdate_queues(2) [OF P this, of g i v b] q that show ?thesis unfolding only_for_def by (metis empty_iff insert_iff option.distinct(1))
    qed
    moreover have "length (bd_heap b) \<le> length (bd_heap (onUpdate P g i r1 v b))" by (simp add: onUpdate_owner [OF P] Let_def)
    ultimately show ?thesis using q by (simp add: only_for_def)
  qed
  then show ?thesis using q by (cases l) (auto simp: only_for_def doResolve_def Let_def)
qed

text \<open>Calls at other revisions, and what other goroutines do, leave it alone.\<close>

lemma view_later:
  assumes P: "peek_laws P"
  shows "only_for P r q b \<Longrightarrow> \<forall>l \<in> set ls. label_rev l \<noteq> Some r
    \<Longrightarrow> view q (bind_run P b ls) = fold (view_act q False) ls (view q b)"
proof (induction ls arbitrary: b)
  case (Cons l ls)
  have "(\<exists>r. label_rev l = Some r \<and> owner P r b = q) = False" using Cons.prems(2) only_for_owner [OF Cons.prems(1)] by force
  then have "view q (bind_act P b l) = view_act q False l (view q b)"
    using view_step [OF P, of q b l] Cons.prems(1) by (simp only: only_for_def)
  with Cons.IH [OF only_for_act [OF P Cons.prems(1)]] Cons.prems(2) show ?case by simp
qed simp

lemma fold_resolved:
  "q_resolved u \<Longrightarrow> fold (view_act q False) ls (u, 0, k, cs) = (u, 0, k - length (resolutions q ls), cs)"
  by (induction q ls arbitrary: k rule: resolutions.induct) auto

lemma fold_unresolved:
  "\<not> q_resolved u \<Longrightarrow> 0 < k \<Longrightarrow> (case fold (view_act q False) ls (u, 0, k, cs) of (u', w, k', cs') \<Rightarrow>
     w = 0 \<and> k' = k - length (resolutions q ls) \<and> (q_resolved u' \<longleftrightarrow> resolutions q ls \<noteq> [])
     \<and> cs' = cs @ (case resolutions q ls of [] \<Rightarrow> [] | v # _ \<Rightarrow> [(q, fill_values v (q_values u))]))"
  by (induction q ls rule: resolutions.induct) (auto simp: fold_resolved)

text \<open>A queued update that was resolved is never called back for again.\<close>

lemma resolved_stays:
  assumes P: "peek_laws P"
  shows "q < length (bd_heap b) \<Longrightarrow> q_resolved (bd_heap b ! q) \<Longrightarrow>
    calls_for q (bind_run P b ls) = calls_for q b \<and> q_resolved (bd_heap (bind_run P b ls) ! q) \<and> q < length (bd_heap (bind_run P b ls))"
proof (induction ls arbitrary: b)
  case (Cons l ls)
  have "q_resolved (bd_heap (bind_act P b l) ! q) \<and> calls_for q (bind_act P b l) = calls_for q b"
    using view_step [OF P Cons.prems(1), of l] Cons.prems(2)
    by (cases l) (auto simp: view_def set_value_def split: if_splits)
  with Cons.IH [of "bind_act P b l"] bind_act_heap [of b P l] Cons.prems(1) show ?case by simp
qed simp

section \<open>The calls of one event\<close>

text \<open>
  While the calls of an event at \<open>r\<close> are made, whatever goroutines run in between: all of them go to one queued
  update, and it collects their values.
\<close>

definition collects :: "'c peek_or_add \<Rightarrow> int64 \<Rightarrow> nat \<Rightarrow> pval option list \<Rightarrow> nat \<Rightarrow> 'c value_group \<Rightarrow> bool" where
  "collects P r q vs n b \<longleftrightarrow> cached P (bd_queues b) r = Some q \<and> only_for P r q b
     \<and> view q b = (\<lparr>q_values = vs, q_resolved = False\<rparr>, n, 0, [])"

fun in_event :: "bind_label \<Rightarrow> bool" where
  "in_event (Group_Call c) \<longleftrightarrow> True" | "in_event (Resolve q v) \<longleftrightarrow> True" | "in_event _ \<longleftrightarrow> False"

lemma collects_run:
  assumes P: "peek_laws P"
  shows "collects P r q vs n b \<Longrightarrow> \<forall>l \<in> set ls. in_event l \<Longrightarrow> \<forall>c \<in> set (group_calls ls). call_rev c = r \<Longrightarrow>
    collects P r q (set_values (group_calls ls) vs) (n + length (group_calls ls)) (bind_run P b ls)"
proof (induction ls arbitrary: b vs n)
  case Nil
  then show ?case by (simp add: set_values_def)
next
  case (Cons l ls)
  have q: "cached P (bd_queues b) r = Some q" "only_for P r q b" "q < length (bd_heap b)"
    using Cons.prems(1) by (auto simp: collects_def only_for_def)
  have v: "view q b = (\<lparr>q_values = vs, q_resolved = False\<rparr>, n, 0, [])" using Cons.prems(1) by (simp add: collects_def)
  show ?case
  proof (cases l)
    case (Group_Call c)
    then have r: "call_rev c = r" using Cons.prems(3) by simp
    have own: "owner P r b = q" using q(1) by (simp add: owner_def)
    have "view q (bind_act P b l) = (\<lparr>q_values = vs[call_func c := call_value c], q_resolved = False\<rparr>, Suc n, 0, [])"
      using view_step [OF P q(3), of l] v own r by (simp add: Group_Call set_value_def)
    then have "collects P r q (vs[call_func c := call_value c]) (Suc n) (bind_act P b l)"
      using only_for_act [OF P q(2), of l] onUpdate_queues(1) [OF P, of True "call_func c" r "call_value c" b] own r
      by (simp add: collects_def Group_Call)
    from Cons.IH [OF this] Cons.prems(2,3) show ?thesis by (simp add: Group_Call set_values_def)
  next
    case (Resolve q' w)
    have "view q (bind_act P b l) = view q b" using view_step [OF P q(3), of l] v by (simp add: Resolve)
    moreover have "bd_queues (bind_act P b l) = bd_queues b" by (simp add: Resolve doResolve_def Let_def)
    ultimately have "collects P r q vs n (bind_act P b l)"
      using only_for_act [OF P q(2), of l] v q(1) by (simp add: collects_def)
    from Cons.IH [OF this] Cons.prems(2,3) show ?thesis by (simp add: Resolve)
  qed (use Cons.prems(2) in simp_all)
qed

lemma collects_new:
  assumes P: "peek_laws P" and wf: "bind_wf P b" and none: "cached P (bd_queues b) r = None"
    and "\<forall>l \<in> set ls. in_event l" "\<forall>c \<in> set (group_calls ls). call_rev c = r" "group_calls ls \<noteq> []"
  shows "collects P r (length (bd_heap b)) (set_values (group_calls ls) (replicate (bd_len b) None)) (length (group_calls ls))
    (bind_run P b ls)"
  using wf none assms(4-6)
proof (induction ls arbitrary: b)
  case (Cons l ls)
  let ?q = "length (bd_heap b)"
  show ?case
  proof (cases l)
    case (Group_Call c)
    then have r: "call_rev c = r" using Cons.prems(4) by simp
    have own: "owner P r b = ?q" using Cons.prems(2) by (simp add: owner_def)
    let ?b = "bind_act P b l" and ?new = "\<lparr>q_values = (replicate (bd_len b) None)[call_func c := call_value c], q_resolved = False\<rparr>"
    have b: "?b = b\<lparr>bd_queues := snd (P r ?q (bd_queues b)), bd_heap := bd_heap b @ [?new], bd_waiting := bd_waiting b @ [?q]\<rparr>"
      using r own by (simp add: Group_Call onUpdate_owner [OF P] Let_def)
    have absent: "?q \<notin> set (bd_waiting b)" "?q \<notin> set (bd_runnable b)" "?q \<notin> fst ` set (bd_calls b)"
      using Cons.prems(1) by (auto simp: bind_wf_def)
    then have uncalled: "\<forall>c \<in> set (bd_calls b). fst c \<noteq> ?q" by (metis imageI)
    have "view ?q ?b = (?new, 1, 0, [])"
      unfolding b using absent(1,2) uncalled by (auto simp: view_def calls_for_def count_list_0_iff filter_empty_conv)
    moreover have "cached P (bd_queues ?b) r = Some ?q"
      using onUpdate_queues(1) [OF P, of True "call_func c" r "call_value c" b] own r by (simp add: Group_Call)
    moreover have "only_for P r ?q ?b"
    proof -
      have "cached P (bd_queues ?b) r' \<noteq> Some ?q" if "r' \<noteq> r" for r'
      proof -
        have "cached P (bd_queues b) r' \<noteq> Some ?q" using Cons.prems(1) unfolding bind_wf_def by (meson less_irrefl)
        with onUpdate_queues(2) [OF P that, of True "call_func c" "call_value c" b] r show ?thesis by (auto simp: Group_Call)
      qed
      then show ?thesis by (simp add: only_for_def b)
    qed
    ultimately have "collects P r ?q (q_values ?new) 1 ?b" by (simp add: collects_def)
    from collects_run [OF P this, of ls] Cons.prems(3,4) show ?thesis by (simp add: Group_Call set_values_def)
  next
    case (Resolve q' w)
    have b: "bd_queues (bind_act P b l) = bd_queues b" "length (bd_heap (bind_act P b l)) = ?q" "bd_len (bind_act P b l) = bd_len b"
      by (simp_all add: Resolve doResolve_def Let_def)
    from Cons.IH [OF bind_act_wf [OF P Cons.prems(1), of l]] Cons.prems(2-5) show ?thesis
      unfolding b by (simp add: Resolve)
  qed (use Cons.prems(3) in simp_all)
qed simp

text \<open>The values the calls set, for the others what \<open>Value()\<close> returned.\<close>

definition called_values :: "nat call list \<Rightarrow> pval option list \<Rightarrow> (nat \<Rightarrow> pval option) \<Rightarrow> pval option list" where
  "called_values calls after current =
     map (\<lambda>i. if i \<in> call_func ` set calls \<and> after ! i \<noteq> None then after ! i else current i) [0 ..< length after]"

definition event_calls :: "int64 \<Rightarrow> pval option list \<Rightarrow> nat call list \<Rightarrow> bool" where
  "event_calls r after calls \<longleftrightarrow>
     (\<forall>c \<in> set calls. call_rev c = r \<and> call_func c < length after \<and> call_value c = after ! call_func c)"

lemma set_values_nth:
  "event_calls r after calls \<Longrightarrow> length vs = length after \<Longrightarrow> i < length after \<Longrightarrow>
    set_values calls vs ! i = (if i \<in> call_func ` set calls then after ! i else vs ! i)"
proof (induction calls arbitrary: vs)
  case (Cons c calls)
  from Cons.prems have "event_calls r after calls" by (simp add: event_calls_def)
  from Cons.IH [OF this, of "vs[call_func c := call_value c]"] Cons.prems show ?case
    by (auto simp: set_values_def event_calls_def nth_list_update)
qed (simp add: set_values_def)

lemma set_values_length [simp]: "length (set_values calls vs) = length vs"
  unfolding set_values_def by (induction calls arbitrary: vs) auto

lemma fill_called:
  assumes "event_calls r after calls"
  shows "fill_values current (set_values calls (replicate (length after) None)) = called_values calls after current"
  using set_values_nth [OF assms, of "replicate (length after) None"]
  by (intro nth_equalityI) (simp_all add: fill_values_def called_values_def split: option.split)

text \<open>The whole event, from the first call to any later time.\<close>

lemma bind_event_run:
  assumes P: "peek_laws P" and wf: "bind_wf P b" and none: "cached P (bd_queues b) r = None"
    and calls: "event_calls r after calls" "calls \<noteq> []" "bd_len b = length after"
    and ls: "\<forall>l \<in> set during. in_event l" "group_calls during = calls" "\<forall>l \<in> set later. label_rev l \<noteq> Some r"
  shows "let q = length (bd_heap b); b' = bind_run P b (during @ Group_Close # later); vs = resolutions q later in
      calls_for q b' = map (\<lambda>v. (q, called_values calls after v)) (take 1 vs)
      \<and> count_list (bd_runnable b') q = length calls - length vs
      \<and> q \<notin> set (bd_waiting b') \<and> (q_resolved (bd_heap b' ! q) \<longleftrightarrow> vs \<noteq> [])"
proof -
  let ?q = "length (bd_heap b)" and ?b1 = "bind_run P b during"
  have rev: "\<forall>c \<in> set (group_calls during). call_rev c = r" using calls(1) ls(2) by (auto simp: event_calls_def)
  from collects_new [OF P wf none ls(1) rev] calls(2) ls(2)
  have c: "collects P r ?q (set_values calls (replicate (bd_len b) None)) (length calls) ?b1" by simp
  let ?b2 = "bind_act P ?b1 Group_Close"
  have q: "?q < length (bd_heap ?b1)" "only_for P r ?q ?b1" using c by (auto simp: collects_def only_for_def)
  have "view ?q ?b2 = (\<lparr>q_values = set_values calls (replicate (bd_len b) None), q_resolved = False\<rparr>, 0, length calls, [])"
    using view_step [OF P q(1), of Group_Close] c by (simp add: collects_def)
  with view_later [OF P only_for_act [OF P q(2), of Group_Close] ls(3)]
  have "view ?q (bind_run P b (during @ Group_Close # later)) = fold (view_act ?q False) later
      (\<lparr>q_values = set_values calls (replicate (bd_len b) None), q_resolved = False\<rparr>, 0, length calls, [])" by simp
  moreover obtain u' w k cs where v: "fold (view_act ?q False) later
      (\<lparr>q_values = set_values calls (replicate (bd_len b) None), q_resolved = False\<rparr>, 0, length calls, []) = (u', w, k, cs)"
    by (metis prod_cases4)
  moreover have "w = 0 \<and> k = length calls - length (resolutions ?q later) \<and> (q_resolved u' \<longleftrightarrow> resolutions ?q later \<noteq> [])
      \<and> cs = (case resolutions ?q later of [] \<Rightarrow> [] | x # _ \<Rightarrow> [(?q, called_values calls after x)])"
    using fold_unresolved [of "\<lparr>q_values = set_values calls (replicate (bd_len b) None), q_resolved = False\<rparr>" "length calls" ?q later "[]"]
      calls fill_called [OF calls(1)] unfolding v by (simp cong: list.case_cong)
  ultimately show ?thesis
    by (cases "resolutions ?q later") (simp_all add: view_def Let_def count_list_0_iff)
qed

text \<open>Goroutines alone change neither the cache nor who waits; calls at a revision that has an entry wait for it.\<close>

lemma quiet_run:
  "\<forall>l \<in> set ls. label_rev l = None \<and> in_event l \<Longrightarrow> bd_queues (bind_run P b ls) = bd_queues b \<and> bd_waiting (bind_run P b ls) = bd_waiting b
     \<and> length (bd_heap (bind_run P b ls)) = length (bd_heap b)"
proof (induction ls arbitrary: b)
  case (Cons l ls)
  then show ?case by (cases l) (auto simp: doResolve_def Let_def)
qed simp

lemma owned_waiting:
  assumes P: "peek_laws P"
  shows "cached P (bd_queues b) r = Some q \<Longrightarrow> \<forall>l \<in> set ls. in_event l \<Longrightarrow> \<forall>c \<in> set (group_calls ls). call_rev c = r \<Longrightarrow>
    set (bd_waiting (bind_run P b ls)) \<subseteq> insert q (set (bd_waiting b))"
proof (induction ls arbitrary: b)
  case (Cons l ls)
  show ?case
  proof (cases l)
    case (Group_Call c)
    then have r: "call_rev c = r" "owner P r b = q" using Cons.prems by (simp_all add: owner_def)
    have "cached P (bd_queues (bind_act P b l)) r = Some q"
      using onUpdate_queues(1) [OF P, of True "call_func c" r "call_value c" b] r by (simp add: Group_Call)
    moreover have "set (bd_waiting (bind_act P b l)) = insert q (set (bd_waiting b))"
      using r by (simp add: Group_Call onUpdate_owner [OF P] Let_def)
    ultimately show ?thesis using Cons.IH [of "bind_act P b l"] Cons.prems(2,3) by (simp add: Group_Call)
  next
    case (Resolve q' v)
    have "bd_queues (bind_act P b l) = bd_queues b" "bd_waiting (bind_act P b l) = bd_waiting b"
      by (simp_all add: Resolve doResolve_def Let_def)
    then show ?thesis using Cons.IH [of "bind_act P b l"] Cons.prems by (simp add: Resolve)
  qed (use Cons.prems in simp_all)
qed auto

section \<open>With a controller\<close>

text \<open>The bound functions of a controller are numbered; \<open>current\<close> are the values they are bound to.\<close>

definition bound_to :: "nat Controller \<Rightarrow> pval option list \<Rightarrow> bool" where
  "bound_to s current \<longleftrightarrow> (\<forall>(path, r) \<in> set (trie_values (co_reactiveMessages s)).
     \<forall>f \<in> set (rv_watchFuncs r). f < length current \<and> current ! f = rv_value r)"

lemma controller_event_calls:
  assumes "names_distinct sch" "shaped sch [] desc (co_reactiveMessages s)"
    and "handleWatchEvent veq sch dflt e s = Inr (s', calls)" "bound_to s' current"
  shows "event_calls (co_currentRev s') current calls"
proof -
  from handle_values [OF assms(1-3)] obtain r m where
    h: "co_currentRev s' = r" "trie_values (co_reactiveMessages s') =
        map (\<lambda>(q, v). (q, fst (Update r (value_at sch dflt desc (event_value e) q) (shouldNotify m q) v)))
          (trie_values (co_reactiveMessages s))"
      "calls = concat (map (\<lambda>(q, v). snd (Update r (value_at sch dflt desc (event_value e) q) (shouldNotify m q) v))
          (trie_values (co_reactiveMessages s)))" by blast
  have "call_rev c = r \<and> call_func c < length current \<and> call_value c = current ! call_func c"
    if "c \<in> set calls" for c
  proof -
    from that h(3) obtain q v where qv: "(q, v) \<in> set (trie_values (co_reactiveMessages s))"
      "c \<in> set (snd (Update r (value_at sch dflt desc (event_value e) q) (shouldNotify m q) v))" by auto
    let ?v' = "fst (Update r (value_at sch dflt desc (event_value e) q) (shouldNotify m q) v)"
    have "(q, ?v') \<in> set (trie_values (co_reactiveMessages s'))" using qv(1) h(2) by force
    with assms(4) have "\<forall>f \<in> set (rv_watchFuncs ?v'). f < length current \<and> current ! f = rv_value ?v'"
      by (auto simp: bound_to_def)
    with qv(2) show ?thesis by (auto simp: Update_def Let_def split: if_splits)
  qed
  with h(1) show ?thesis by (simp add: event_calls_def)
qed

lemma value_at_None [simp]: "value_at sch dflt d None ps = None"
  by (induction ps arbitrary: d) (auto simp: child_value_def split: option.splits)


text \<open>
  \<open>Bind\<close> misses deletions: when the configuration of the event before is deleted, after the callback for that
  event was called, all bound values become invalid, but the callback is not called. The deletion comes with the
  revision of the value that was deleted, so its goroutines all wait for the queued update of that revision,
  for which the group has called back, and it is not called for again.
\<close>

theorem bind_misses_delete:
  assumes "peek_laws P" "\<And>r q. fst (P r q c0) = None"
    and "b = bind_run P (new_group n c0) past" "bd_waiting b = []"
    and "names_distinct sch" "shaped sch [] desc (co_reactiveMessages s)"
    and "handleWatchEvent veq sch dflt e s = Inr (s', calls)" "bound_to s' after" "calls \<noteq> []" "length after = n"
    and "fst (P (co_currentRev s') 0 (bd_queues b)) = None"
    and "\<forall>l \<in> set during. in_event l" "group_calls during = calls"
    and "\<forall>l \<in> set between. in_event l" "group_calls between = []" "resolutions (length (bd_heap b)) between \<noteq> []"
    and "ev_EventType e' = WatchEventDelete" "map_option kr_Rev (ev_Previous e') = Some (co_currentRev s')"
    and "handleWatchEvent veq sch dflt e' s' = Inr (s'', calls')"
    and "\<forall>l \<in> set during'. in_event l" "group_calls during' = calls'"
  shows "let q = length (bd_heap b); b1 = bind_run P b (during @ Group_Close # between); b2 = bind_run P b1 during' in
      calls_for q (bind_run P b2 later) = [(q, called_values calls after (hd (resolutions q between)))]
      \<and> set (bd_waiting b2) \<subseteq> {q}
      \<and> (\<forall>(path, r) \<in> set (trie_values (co_reactiveMessages s'')). rv_value r = None)"
proof -
  let ?r = "co_currentRev s'" and ?q = "length (bd_heap b)" and ?b1 = "bind_run P b (during @ Group_Close # between)"
  have wf: "bind_wf P b" unfolding assms(3) by (rule bind_run_wf [OF assms(1) new_group_wf]) (rule assms(2))
  have len: "bd_len b = length after" unfolding assms(3) using assms(10) by (simp add: new_group_def)
  note ev = controller_event_calls [OF assms(5-8)]
  have none: "cached P (bd_queues b) ?r = None" using assms(11) by (simp add: cached_def)
  have quiet: "\<forall>l \<in> set between. label_rev l = None \<and> in_event l"
    using assms(14,15) by (induction between rule: group_calls.induct) auto
  from bind_event_run [OF assms(1) wf none ev assms(9) len assms(12,13), of between] quiet assms(16)
  have q: "calls_for ?q ?b1 = [(?q, called_values calls after (hd (resolutions ?q between)))]"
    "q_resolved (bd_heap ?b1 ! ?q)"
    by (auto simp: Let_def neq_Nil_conv)
  have "\<forall>c \<in> set (group_calls during). call_rev c = ?r" using ev assms(13) by (auto simp: event_calls_def)
  from collects_new [OF assms(1) wf none assms(12) this] assms(9,13)
  have "collects P ?r ?q (set_values calls (replicate (bd_len b) None)) (length calls) (bind_run P b during)" by simp
  then have "cached P (bd_queues (bind_run P b during)) ?r = Some ?q" "?q < length (bd_heap (bind_run P b during))"
    by (auto simp: collects_def only_for_def)
  with quiet_run [OF quiet, where P = P and b = "bind_act P (bind_run P b during) Group_Close"]
  have b1: "cached P (bd_queues ?b1) ?r = Some ?q" "bd_waiting ?b1 = []" "?q < length (bd_heap ?b1)" using quiet assms(14) by auto
  from handle_values [OF assms(5-7)] have s': "shaped sch [] desc (co_reactiveMessages s')" by blast
  from handle_values [OF assms(5) s' assms(19)] obtain r m where
    r: "event_update veq e' = Inr (r, event_value e', m)" "co_currentRev s'' = r"
    "trie_values (co_reactiveMessages s'') = map (\<lambda>(p, v). (p, fst (Update r (value_at sch dflt desc (event_value e') p) (shouldNotify m p) v)))
      (trie_values (co_reactiveMessages s'))"
    "calls' = concat (map (\<lambda>(p, v). snd (Update r (value_at sch dflt desc (event_value e') p) (shouldNotify m p) v))
      (trie_values (co_reactiveMessages s')))" by blast
  have "r = ?r" using r(1) assms(17,18) by (auto simp: event_update_def rbind_Inr split: option.splits)
  then have "\<forall>c \<in> set calls'. call_rev c = ?r" using r(4) by (auto simp: Update_def Let_def split: if_splits)
  with owned_waiting [OF assms(1) b1(1), of during'] assms(20,21) b1(2)
  have "set (bd_waiting (bind_run P ?b1 during')) \<subseteq> {?q}" by auto
  moreover from resolved_stays [OF assms(1) b1(3) q(2), of "during' @ later"] q(1)
  have "calls_for ?q (bind_run P (bind_run P ?b1 during') later) = [(?q, called_values calls after (hd (resolutions ?q between)))]"
    by simp
  moreover have "event_value e' = None" using assms(17) by (simp add: event_value_def)
  ultimately show ?thesis using r(3) by (auto simp: Let_def Update_value value_at_None)
qed

section \<open>The deadlock\<close>

text \<open>
  C28. \<open>Bind\<close> can deadlock on two or more values that are set already: there is an interleaving after which
  its loop holds the lock of a value and waits for the lock of the queued update, while the goroutine of the
  first value holds that lock and waits for the value's; no step is possible, and \<open>Bind\<close> never returns.
\<close>

theorem bind_deadlock:
  "\<exists>s. (bind_step (n + 2))\<^sup>*\<^sup>* bind_initial s \<and> bs_loop s = Loop_Locked 1 \<and> bs_resolver s = Resolver_Value 1
     \<and> (\<nexists>s'. bind_step (n + 2) s s')"
proof -
  let ?s = "\<lambda>l r v. \<lparr>bs_loop = l, bs_resolver = r, bs_set = v\<rparr>"
  have "bind_step (n + 2) bind_initial (?s (Loop_Locked 0) Resolver_None {})"
    using bind_step.lock [of bind_initial 0 "n + 2"] by (simp add: bind_initial_def)
  moreover have "bind_step (n + 2) (?s (Loop_Locked 0) Resolver_None {}) (?s (Loop_Lock 1) Resolver_Start {0})"
    using bind_step.update [of "?s (Loop_Locked 0) Resolver_None {}" 0 "n + 2"] by (simp add: values_locked_def)
  moreover have "bind_step (n + 2) (?s (Loop_Lock 1) Resolver_Start {0}) (?s (Loop_Locked 1) Resolver_Start {0})"
    using bind_step.lock [of "?s (Loop_Lock 1) Resolver_Start {0}" 1 "n + 2"] by simp
  moreover have "bind_step (n + 2) (?s (Loop_Locked 1) Resolver_Start {0}) (?s (Loop_Locked 1) (Resolver_Value 0) {0})"
    using bind_step.resolve [of "?s (Loop_Locked 1) Resolver_Start {0}" "n + 2"] by simp
  moreover have "bind_step (n + 2) (?s (Loop_Locked 1) (Resolver_Value 0) {0}) (?s (Loop_Locked 1) (Resolver_Value 1) {0})"
    using bind_step.skip [of "?s (Loop_Locked 1) (Resolver_Value 0) {0}" 0 "n + 2"] by simp
  ultimately have "(bind_step (n + 2))\<^sup>*\<^sup>* bind_initial (?s (Loop_Locked 1) (Resolver_Value 1) {0})"
    by (meson rtranclp.rtrancl_into_rtrancl rtranclp.rtrancl_refl)
  moreover have "\<not> bind_step (n + 2) (?s (Loop_Locked 1) (Resolver_Value 1) {0}) s'" for s'
    by (auto elim!: bind_step.cases simp: values_locked_def)
  ultimately show ?thesis by (intro exI [of _ "?s (Loop_Locked 1) (Resolver_Value 1) {0}"]) auto
qed

section \<open>Typed values\<close>

text \<open>
  Typed values do not survive a deletion: once the controller has handled it, reading any typed value
  panics, and so do the typed watch functions that the deletion calls, in the controller's goroutine.
\<close>

theorem typed_values_panic_after_delete:
  assumes "names_distinct sch" "shaped sch [] desc (co_reactiveMessages s)"
    and "handleWatchEvent veq sch dflt e s = Inr (s', calls)" "ev_EventType e = WatchEventDelete" "calls \<noteq> []"
  shows "(\<forall>(path, r) \<in> set (trie_values (co_reactiveMessages s')).
      (\<exists>p. typed_Value message_FromValue r = Inl p \<and> err_code p = GoPanic)
      \<and> (\<exists>p. typed_Value (scalar_FromValue as_T) r = Inl p \<and> err_code p = GoPanic))
    \<and> (\<exists>p. typed_calls message_FromValue calls = Inl p \<and> err_code p = GoPanic)
    \<and> (\<exists>p. typed_calls (scalar_FromValue as_T) calls = Inl p \<and> err_code p = GoPanic)"
proof -
  have none: "event_value e = None" using assms(4) by (simp add: event_value_def)
  from handle_values [OF assms(1-3)] none obtain r m where
    h: "trie_values (co_reactiveMessages s') =
        map (\<lambda>(q, v). (q, fst (Update r None (shouldNotify m q) v))) (trie_values (co_reactiveMessages s))"
      "calls = concat (map (\<lambda>(q, v). snd (Update r None (shouldNotify m q) v)) (trie_values (co_reactiveMessages s)))"
    by auto
  from assms(5) obtain c cs where calls: "calls = c # cs" by (cases calls) auto
  then have "c \<in> set calls" by simp
  then have "call_value c = None" unfolding h(2) by (auto simp: Update_def Let_def split: if_splits)
  with h(1) calls show ?thesis
    by (auto simp: typed_Value_def Update_value message_FromValue_def scalar_FromValue_def go_panic_def)
qed

section \<open>An example\<close>

text \<open>The controller of the example, all of whose values are bound, and the deletion that follows.\<close>

definition ex_delete :: "pmsg WatchEvent" where
  "ex_delete = \<lparr>ev_EventType = WatchEventDelete, ev_Current = None, ev_Previous = Some (ex_kr (ex_A ''1'' ''3'') 2)\<rparr>"

definition ex_group :: "(int64 \<times> nat) list value_group" where
  "ex_group = new_group 4 []"

definition ex_after :: "nat Controller \<times> nat call list" where
  "ex_after = (case handleWatchEvent (=) ex_sch ex_dflt ex_put ex_ctrl of Inr x \<Rightarrow> x | Inl _ \<Rightarrow> (ex_ctrl, []))"

definition ex_deleted :: "nat Controller \<times> nat call list" where
  "ex_deleted = (case handleWatchEvent (=) ex_sch ex_dflt ex_delete (fst ex_after) of Inr x \<Rightarrow> x | Inl _ \<Rightarrow> (ex_ctrl, []))"

definition ex_current :: "pval option list" where
  "ex_current = [Some (VMsg (ex_A ''1'' ''3'')), Some (VScalar (SString ''1'')),
     Some (VMsg (Msg ''B'' [(ex_field ''y'' StringKind [], Some (VScalar (SString ''3'')))] [])), Some (VScalar (SString ''3''))]"

lemma ex_after: "handleWatchEvent (=) ex_sch ex_dflt ex_put ex_ctrl = Inr (fst ex_after, snd ex_after)"
  using ex_handled by (auto simp: ex_after_def)

lemma ex_deleted: "handleWatchEvent (=) ex_sch ex_dflt ex_delete (fst ex_after) = Inr (fst ex_deleted, snd ex_deleted)"
proof -
  have "\<not> isl (handleWatchEvent (=) ex_sch ex_dflt ex_delete (fst ex_after))" by code_simp
  then show ?thesis
    by (cases "handleWatchEvent (=) ex_sch ex_dflt ex_delete (fst ex_after)") (auto simp: ex_deleted_def)
qed

lemma ex_after_facts:
  "snd ex_after \<noteq> []" "co_currentRev (fst ex_after) = 2" "snd ex_deleted \<noteq> []"
  "shaped ex_sch [] ''A'' (co_reactiveMessages (fst ex_after))"
  by code_simp+

lemma ex_bound: "bound_to (fst ex_after) ex_current" "bound_to (fst ex_deleted) [None, None, None, None]"
  by code_simp+

lemma ex_cache: "fst (list_cache r q []) = None"
  by (simp add: list_cache_def)

abbreviation ex_during :: "bind_label list" where
  "ex_during \<equiv> map Group_Call (snd ex_after)"

lemma ex_labels: "\<forall>l \<in> set (map Group_Call cs). in_event l" "group_calls (map Group_Call cs) = cs"
  by (induction cs) auto

text \<open>The event changes three of the four values; the goroutines run when the fourth has a later value.\<close>

abbreviation ex_later :: "nat \<Rightarrow> pval option" where
  "ex_later \<equiv> \<lambda>_. Some (VScalar (SString ''9''))"

abbreviation ex_goroutines :: "bind_label list" where
  "ex_goroutines \<equiv> [Resolve 0 ex_later, Resolve 0 (\<lambda>_. None), Resolve 0 (\<lambda>_. None)]"

lemma ex_called: "called_values (snd ex_after) ex_current ex_later = ex_current[1 := Some (VScalar (SString ''9''))]"
  "length (snd ex_after) = 3" "resolutions 0 ex_goroutines = [ex_later, \<lambda>_. None, \<lambda>_. None]"
  "bd_heap ex_group = []" "bd_waiting ex_group = []"
  "length ex_current = 4" "cached list_cache (bd_queues ex_group) (co_currentRev (fst ex_after)) = None"
  by (code_simp, code_simp, simp, code_simp, code_simp, code_simp, code_simp)

lemma ex_group_run: "ex_group = bind_run list_cache (new_group 4 []) []"
  by (simp add: ex_group_def)


lemma bind_misses_delete_witness:
  "calls_for 0 (bind_run list_cache (bind_run list_cache
      (bind_run list_cache ex_group (ex_during @ Group_Close # [Resolve 0 ex_later]))
      (map Group_Call (snd ex_deleted))) (Group_Close # ex_goroutines)) = [(0, ex_current[1 := Some (VScalar (SString ''9''))])]"
proof -
  have "\<forall>l \<in> set [Resolve 0 ex_later]. in_event l" "group_calls [Resolve 0 ex_later] = []"
    "resolutions (length (bd_heap ex_group)) [Resolve 0 ex_later] \<noteq> []" by (simp_all add: ex_called(4))
  note between = this
  have delete: "ev_EventType ex_delete = WatchEventDelete" "map_option kr_Rev (ev_Previous ex_delete) = Some (co_currentRev (fst ex_after))"
    using ex_after_facts(2) by (simp_all add: ex_delete_def ex_kr_def)
  from bind_misses_delete [OF list_cache_laws ex_cache ex_group_run ex_called(5) ex_sch_names ex_ctrl_shaped ex_after ex_bound(1)
      ex_after_facts(1) ex_called(6) ex_called(7) [unfolded cached_def] ex_labels between delete ex_deleted ex_labels,
      of "Group_Close # ex_goroutines"]
  show ?thesis unfolding Let_def ex_called(4) list.size(3) by (simp add: ex_called(1) del: bind_run_simps)
qed

lemma typed_values_panic_after_delete_witness:
  "\<exists>p. typed_calls message_FromValue (snd ex_deleted) = Inl p \<and> err_code p = GoPanic"
  by (rule typed_values_panic_after_delete [OF ex_sch_names ex_after_facts(4) ex_deleted _ ex_after_facts(3),
        where as_T = "\<lambda>_. None :: unit option", THEN conjunct2, THEN conjunct1]) (simp add: ex_delete_def)

end
