(* ===== verification/DryRunClient.thy ===== *)
theory DryRunClient
  imports Server KVUtil
begin

text \<open>
  \<open>server/dryrun/builder.go\<close> and \<open>server/dryrun/dryrun.go\<close>: the client that turns every change into a dry
  run of it, the builder of its requests, and the connection that lets a generated client use it.

  A nil configuration behaves as an empty message; where the code tells them apart, a nil one is
  \<^term>\<open>None\<close>. The part of a request that holds its context key is a message of its own. The client
  that is wrapped is a record of the operations the wrapper calls; the generated clients return a nil
  response with an error.
\<close>

section \<open>Requests\<close>

record KeyedDryRunRequest = DryRunRequest +
  dq_Key :: pmsg

record SetRequest =
  sq_Spec :: "pmsg option"
  sq_Key :: pmsg

record KeyedResetRequest = ResetRequest +
  rq_Key :: pmsg

section \<open>The builder\<close>

text \<open>\<open>util.NewMessage[D]()\<close>, given the empty configuration and the empty request message.\<close>

definition NewDryRunRequest :: "pmsg \<Rightarrow> pmsg \<Rightarrow> KeyedDryRunRequest" where
  "NewDryRunRequest newT newD =
     \<lparr>dq_Target = Target_Active, dq_Action = Action_NoAction, dq_Spec = newT, dq_Mask = None,
      dq_Patch = newT, dq_Revision = None, dq_Key = newD\<rparr>"

definition builder_Mask :: "mask option \<Rightarrow> KeyedDryRunRequest \<Rightarrow> KeyedDryRunRequest" where
  "builder_Mask mask' b = (if mask' \<noteq> None then b\<lparr>dq_Mask := mask'\<rparr> else b)"

definition builder_Patch :: "pmsg option \<Rightarrow> KeyedDryRunRequest \<Rightarrow> KeyedDryRunRequest" where
  "builder_Patch patch b = (case patch of Some m \<Rightarrow> b\<lparr>dq_Patch := m\<rparr> | None \<Rightarrow> b)"

definition builder_Revision :: "pmsg option \<Rightarrow> KeyedDryRunRequest \<Rightarrow> KeyedDryRunRequest" where
  "builder_Revision r b = (if r \<noteq> None then b\<lparr>dq_Revision := r\<rparr> else b)"

definition builder_Set :: "KeyedDryRunRequest \<Rightarrow> KeyedDryRunRequest" where
  "builder_Set b = b\<lparr>dq_Action := Action_Set\<rparr>"

definition builder_Reset :: "KeyedDryRunRequest \<Rightarrow> KeyedDryRunRequest" where
  "builder_Reset b = b\<lparr>dq_Action := Action_Reset\<rparr>"

definition builder_Default :: "KeyedDryRunRequest \<Rightarrow> KeyedDryRunRequest" where
  "builder_Default b = b\<lparr>dq_Target := Target_Default\<rparr>"

definition builder_Active :: "KeyedDryRunRequest \<Rightarrow> KeyedDryRunRequest" where
  "builder_Active b = b\<lparr>dq_Target := Target_Active\<rparr>"

definition builder_Spec :: "pmsg option \<Rightarrow> KeyedDryRunRequest \<Rightarrow> KeyedDryRunRequest" where
  "builder_Spec spec b = (case spec of Some m \<Rightarrow> b\<lparr>dq_Spec := m\<rparr> | None \<Rightarrow> b)"

lemmas builder_defs = NewDryRunRequest_def builder_Mask_def builder_Patch_def builder_Revision_def
  builder_Set_def builder_Reset_def builder_Default_def builder_Active_def builder_Spec_def

section \<open>The client\<close>

record ('g, 's, 'v) ConfigClient =
  cl_Get :: "'g \<Rightarrow> 's \<Rightarrow> pmsg result"
  cl_GetDefault :: "'g \<Rightarrow> 's \<Rightarrow> pmsg result"
  cl_DryRun :: "KeyedDryRunRequest \<Rightarrow> 's \<Rightarrow> 'v DryRunResults result"

text \<open>
  \<open>dc_New\<close> is the empty configuration, \<open>dc_NewRequest\<close> the empty dry-run request. The fields that end in
  \<open>Key\<close> are what \<open>ContextKey\<close> returns for the dry-run, set and reset requests, if the type implements
  \<open>ContextKeyable\<close>; \<open>contextKeyable\<close> is that the first does.
\<close>

record ('g, 's, 'v) DryRunClient =
  dc_client :: "('g, 's, 'v) ConfigClient"
  dc_request :: "KeyedDryRunRequest option"
  dc_response :: "'v DryRunResults option"
  dc_maskedFields :: "fdesc list"
  dc_New :: pmsg
  dc_NewRequest :: pmsg
  dc_dryRunKey :: "fdesc option"
  dc_setKey :: "fdesc option"
  dc_resetKey :: "fdesc option"

definition NewDryRunClient ::
  "('g, 's, 'v) ConfigClient \<Rightarrow> pmsg \<Rightarrow> pmsg \<Rightarrow> fdesc option \<Rightarrow> fdesc option \<Rightarrow> fdesc option
     \<Rightarrow> ('g, 's, 'v) DryRunClient" where
  "NewDryRunClient client newT newD dryRunKey setKey resetKey =
     \<lparr>dc_client = client, dc_request = None, dc_response = None, dc_maskedFields = MaskedFields newT,
      dc_New = newT, dc_NewRequest = newD, dc_dryRunKey = dryRunKey, dc_setKey = setKey, dc_resetKey = resetKey\<rparr>"

text \<open>
  \<open>copyContextKey\<close>. The destination takes the value the source has for its key: an unpopulated string is
  the empty one, which does not populate the field; an unpopulated message is an invalid one, which \<open>Set\<close>
  does not take.
\<close>

definition copyContextKey :: "fdesc \<Rightarrow> fdesc option \<Rightarrow> pmsg \<Rightarrow> pmsg \<Rightarrow> pmsg result" where
  "copyContextKey dstKey srcKey dst src =
     (case srcKey of
        None \<Rightarrow> Inl (go_panic ''interface conversion'')
      | Some key \<Rightarrow>
          if fd_Kind dstKey \<noteq> fd_Kind key \<or> fd_Message dstKey \<noteq> fd_Message key
          then Inl (go_panic ''type mismatch'')
          else
            (case msg_get (fd_Name key) src of
               Some v \<Rightarrow> Inr (msg_Set (fd_Name dstKey) v dst)
             | None \<Rightarrow>
                 if is_msg_field key then Inl (go_panic ''invalid nil pointer'')
                 else Inr (msg_Clear (fd_Name dstKey) dst)))"

text \<open>\<open>if dc.contextKeyable { copyContextKey(dc.request, \<dots>) }\<close>\<close>

definition dc_copyKey ::
  "('g, 's, 'v) DryRunClient \<Rightarrow> fdesc option \<Rightarrow> pmsg \<Rightarrow> KeyedDryRunRequest \<Rightarrow> KeyedDryRunRequest result" where
  "dc_copyKey dc srcKey src r =
     (case dc_dryRunKey dc of
        None \<Rightarrow> Inr r
      | Some key \<Rightarrow> rbind (copyContextKey key srcKey (dq_Key r) src) (\<lambda>k. Inr (r\<lparr>dq_Key := k\<rparr>)))"

text \<open>\<open>dc.response, err = dc.client.DryRun(\<dots>)\<close> and the handling of the error.\<close>

definition dc_send ::
  "('g, 's, 'v) DryRunClient \<Rightarrow> 's \<Rightarrow> unit result \<times> ('g, 's, 'v) DryRunClient" where
  "dc_send dc s =
     (case dc_request dc of
        None \<Rightarrow> (Inl (go_panic ''nil dereference''), dc)
      | Some r \<Rightarrow>
          (case cl_DryRun (dc_client dc) r s of
             Inl e \<Rightarrow> (Inl (errorf_w ''[dry-run] error: %w'' e), dc\<lparr>dc_response := None\<rparr>)
           | Inr resp \<Rightarrow> (Inr (), dc\<lparr>dc_response := Some resp\<rparr>)))"

definition clear_spec :: "fdesc list \<Rightarrow> pmsg option \<Rightarrow> pmsg option" where
  "clear_spec maskedFields spec =
     (case spec of
        None \<Rightarrow> None
      | Some t \<Rightarrow> Some (foldl (\<lambda>t mf. msg_Clear (fd_Name mf) t) t maskedFields))"

definition dc_Reset ::
  "('g, 's, 'v) DryRunClient \<Rightarrow> KeyedResetRequest \<Rightarrow> 's \<Rightarrow> unit result \<times> ('g, 's, 'v) DryRunClient" where
  "dc_Reset dc req s =
     (let r = builder_Mask (rq_Mask req) (builder_Patch (Some (rq_Patch req)) (builder_Revision (rq_Revision req)
            (builder_Reset (builder_Active (NewDryRunRequest (dc_New dc) (dc_NewRequest dc)))))) in
      case dc_copyKey dc (dc_resetKey dc) (rq_Key req) r of
        Inl e \<Rightarrow> (Inl e, dc\<lparr>dc_request := Some r\<rparr>)
      | Inr r \<Rightarrow> dc_send (dc\<lparr>dc_request := Some r\<rparr>) s)"

definition dc_ResetDefault ::
  "('g, 's, 'v) DryRunClient \<Rightarrow> 's \<Rightarrow> unit result \<times> ('g, 's, 'v) DryRunClient" where
  "dc_ResetDefault dc s =
     dc_send (dc\<lparr>dc_request := Some (builder_Reset (builder_Default (NewDryRunRequest (dc_New dc) (dc_NewRequest dc))))\<rparr>) s"

definition dc_Set ::
  "('g, 's, 'v) DryRunClient \<Rightarrow> SetRequest \<Rightarrow> 's \<Rightarrow> unit result \<times> ('g, 's, 'v) DryRunClient" where
  "dc_Set dc req s =
     (let spec = clear_spec (dc_maskedFields dc) (sq_Spec req);
          r = builder_Spec spec (builder_Set (builder_Active (NewDryRunRequest (dc_New dc) (dc_NewRequest dc)))) in
      case dc_copyKey dc (dc_setKey dc) (sq_Key req) r of
        Inl e \<Rightarrow> (Inl e, dc\<lparr>dc_request := Some r\<rparr>)
      | Inr r \<Rightarrow> dc_send (dc\<lparr>dc_request := Some r\<rparr>) s)"

definition dc_SetDefault ::
  "('g, 's, 'v) DryRunClient \<Rightarrow> SetRequest \<Rightarrow> 's \<Rightarrow> unit result \<times> ('g, 's, 'v) DryRunClient" where
  "dc_SetDefault dc req s =
     (let spec = clear_spec (dc_maskedFields dc) (sq_Spec req);
          r = builder_Spec spec (builder_Set (builder_Default (NewDryRunRequest (dc_New dc) (dc_NewRequest dc)))) in
      dc_send (dc\<lparr>dc_request := Some r\<rparr>) s)"

definition dc_Get :: "('g, 's, 'v) DryRunClient \<Rightarrow> 'g \<Rightarrow> 's \<Rightarrow> pmsg result" where
  "dc_Get dc req s = cl_Get (dc_client dc) req s"

definition dc_GetDefault :: "('g, 's, 'v) DryRunClient \<Rightarrow> 'g \<Rightarrow> 's \<Rightarrow> pmsg result" where
  "dc_GetDefault dc req s = cl_GetDefault (dc_client dc) req s"

definition dc_DryRun :: "('g, 's, 'v) DryRunClient \<Rightarrow> KeyedDryRunRequest \<Rightarrow> 'v DryRunResults result" where
  "dc_DryRun dc req = Inl (status_error Unimplemented ''[dry-run] method DryRun not implemented'')"

definition dc_History :: "('g, 's, 'v) DryRunClient \<Rightarrow> ServerHistoryRequest \<Rightarrow> pmsg list result" where
  "dc_History dc req = Inl (status_error Unimplemented ''[dry-run] method History not implemented'')"

section \<open>The connection\<close>

text \<open>The arguments a generated client passes to \<open>Invoke\<close>, by their dynamic type.\<close>

datatype 'g invoke_args =
    Args_Get 'g
  | Args_Set SetRequest
  | Args_Reset KeyedResetRequest
  | Args_Empty
  | Args_Other pmsg

text \<open>
  \<open>DryRunClientShim.Invoke\<close>. \<open>merge\<close> is \<open>proto.Merge\<close> into the reply, \<open>invoke\<close> the underlying connection.
  The reply of a change is an empty message, which merges nothing.
\<close>

definition shim_read ::
  "(pmsg \<Rightarrow> pmsg \<Rightarrow> pmsg) \<Rightarrow> pmsg \<Rightarrow> ('g, 's, 'v) DryRunClient \<Rightarrow> pmsg result
     \<Rightarrow> pmsg result \<times> ('g, 's, 'v) DryRunClient" where
  "shim_read merge reply dc resp = (rbind resp (\<lambda>resp. Inr (merge reply resp)), dc)"

definition shim_write ::
  "pmsg \<Rightarrow> unit result \<times> ('g, 's, 'v) DryRunClient \<Rightarrow> pmsg result \<times> ('g, 's, 'v) DryRunClient" where
  "shim_write reply x = (rbind (fst x) (\<lambda>_. Inr reply), snd x)"

definition bad_args :: "('g, 's, 'v) DryRunClient \<Rightarrow> pmsg result \<times> ('g, 's, 'v) DryRunClient" where
  "bad_args dc = (Inl (go_panic ''interface conversion''), dc)"

definition shim_Invoke ::
  "(pmsg \<Rightarrow> pmsg \<Rightarrow> pmsg) \<Rightarrow> (string \<Rightarrow> 'g invoke_args \<Rightarrow> pmsg \<Rightarrow> 's \<Rightarrow> pmsg result \<times> 's)
     \<Rightarrow> ('g, 's, 'v) DryRunClient \<Rightarrow> string \<Rightarrow> 'g invoke_args \<Rightarrow> pmsg \<Rightarrow> 's
     \<Rightarrow> (pmsg result \<times> ('g, 's, 'v) DryRunClient) \<times> 's" where
  "shim_Invoke merge invoke dc method args reply s =
     (let base = path_Base method in
      if base = ''GetDefault'' then
        (case args of Args_Get req \<Rightarrow> shim_read merge reply dc (dc_GetDefault dc req s) | _ \<Rightarrow> bad_args dc, s)
      else if base = ''SetDefault'' then
        (case args of Args_Set req \<Rightarrow> shim_write reply (dc_SetDefault dc req s) | _ \<Rightarrow> bad_args dc, s)
      else if base = ''ResetDefault'' then
        (case args of Args_Empty \<Rightarrow> shim_write reply (dc_ResetDefault dc s) | _ \<Rightarrow> bad_args dc, s)
      else if base = ''Get'' then
        (case args of Args_Get req \<Rightarrow> shim_read merge reply dc (dc_Get dc req s) | _ \<Rightarrow> bad_args dc, s)
      else if base = ''Set'' then
        (case args of Args_Set req \<Rightarrow> shim_write reply (dc_Set dc req s) | _ \<Rightarrow> bad_args dc, s)
      else if base = ''Reset'' then
        (case args of Args_Reset req \<Rightarrow> shim_write reply (dc_Reset dc req s) | _ \<Rightarrow> bad_args dc, s)
      else if base = ''DryRun'' then
        ((Inl (status_error Unimplemented ''[dry-run] attempted to recursively invoke DryRun''), dc), s)
      else (let (r, s) = invoke method args reply s in ((r, dc), s)))"

section \<open>The command\<close>

text \<open>
  The names of the commands below the dry-run command: the word before the first space, which all names
  that have one must share, is cut off.
\<close>

definition first_word :: "string \<Rightarrow> string" where
  "first_word use = takeWhile (\<lambda>c. c \<noteq> CHR '' '') use @ '' ''"

fun maybeParentCommand :: "string \<Rightarrow> string list \<Rightarrow> string" where
  "maybeParentCommand parent [] = parent"
| "maybeParentCommand parent (use # uses) =
     (if CHR '' '' \<in> set use then
        if parent = [] \<or> parent = first_word use then maybeParentCommand (first_word use) uses else []
      else maybeParentCommand parent uses)"

definition dry_run_uses :: "string list \<Rightarrow> string list" where
  "dry_run_uses uses = map (\<lambda>use. TrimPrefix use (maybeParentCommand [] uses)) uses"

end
