(* ===== verification/DryRunProps.thy ===== *)
theory DryRunProps
  imports DryRunClient KVProps
begin

text \<open>
  The dry-run client against the config server: the dry run of a \<open>Set\<close> shows what the server would store
  under the key of the request, the dry run of a \<open>Reset\<close> does not.
\<close>

section \<open>Clients of the servers\<close>

definition base_client ::
  "('t, 'v, 'd, 's) DefaultingConfigTracker \<Rightarrow> (pmsg option, 'd \<times> 's, 'v) ConfigClient" where
  "base_client ct =
     \<lparr>cl_Get = server_Get ct, cl_GetDefault = server_GetDefault ct,
      cl_DryRun = (\<lambda>r. ServerDryRun ct (DryRunRequest.truncate r))\<rparr>"

definition keyed_client ::
  "(string option \<Rightarrow> ('t, 'v, 'd, 's) DefaultingConfigTracker) \<Rightarrow> fdesc \<Rightarrow> fdesc
     \<Rightarrow> (pmsg \<times> pmsg option, 'd \<times> 's, 'v) ConfigClient" where
  "keyed_client tracker_of getKey dryRunKey =
     \<lparr>cl_Get = (\<lambda>(req, r). keyed_Get tracker_of getKey req r),
      cl_GetDefault = (\<lambda>(req, r). server_GetDefault (tracker_of None) r),
      cl_DryRun = (\<lambda>r. keyed_ServerDryRun tracker_of dryRunKey (dq_Key r) (DryRunRequest.truncate r))\<rparr>"

section \<open>Requests\<close>

lemma clear_spec_masked:
  "clear_spec (MaskedFields (ct_New ty)) (Some t) = Some (clearMaskedFields (inMemory_tracker ty) t)"
proof -
  have "msg_Clear n t = (if msg_Has n t then msg_Clear n t else t)" for n t
    by (metis msg_Has_def msg_put_simps(5))
  then show ?thesis by (simp add: clear_spec_def clearMaskedFields_def ct_maskedFields_def)
qed

lemma copy_key:
  assumes "copyContextKey dk (Some sk) newD req = Inr k" "has_field (fd_Name dk) newD"
  shows "contextWithKey dk k = contextWithKey sk req"
  using assms by (auto simp: copyContextKey_def contextWithKey_def msg_get_put is_msg_field_def split: option.splits if_splits)

lemma dc_Set_send:
  assumes "dc_Set (NewDryRunClient client newT newD (Some dk) (Some sk) rk) \<lparr>sq_Spec = Some spec, sq_Key = req\<rparr> s = (Inr (), dc')"
    and "clear_spec (MaskedFields newT) (Some spec) = Some spec'"
  shows "\<exists>k resp. copyContextKey dk (Some sk) newD req = Inr k
    \<and> cl_DryRun client \<lparr>dq_Target = Target_Active, dq_Action = Action_Set, dq_Spec = spec', dq_Mask = None,
        dq_Patch = newT, dq_Revision = None, dq_Key = k\<rparr> s = Inr resp
    \<and> dc_response dc' = Some resp"
  using assms by (auto simp: dc_Set_def NewDryRunClient_def dc_copyKey_def rbind_def dc_send_def builder_defs Let_def
      split: sum.splits)

lemma dc_Reset_send:
  assumes "dc_Reset (NewDryRunClient client newT newD None sk rk) (req :: KeyedResetRequest) s = (Inr (), dc')"
  shows "\<exists>resp. cl_DryRun client \<lparr>dq_Target = Target_Active, dq_Action = Action_Reset, dq_Spec = newT, dq_Mask = rq_Mask req,
        dq_Patch = rq_Patch req, dq_Revision = rq_Revision req, dq_Key = newD\<rparr> s = Inr resp
    \<and> dc_response dc' = Some resp"
  using assms by (auto simp: dc_Reset_def NewDryRunClient_def dc_copyKey_def dc_send_def builder_defs Let_def
      split: sum.splits if_splits)

section \<open>Set\<close>

lemma keyed_tracker_at:
  assumes "art_laws A" "key \<noteq> []"
  shows "tracker (keyed_tracker A ty (Some key)) inMemory_inv inMemory_cur (=) (kv_inv A) (\<lambda>s. kv_cur A s key) (kv_same A)"
  using inMemory_key_store [OF assms] inmem.value_store_axioms
  by (simp add: tracker_def NewDefaultingActiveKeyedConfigTracker_def contextKeyed_WithKey)

text \<open>
  C31. The dry-run client predicts what a \<open>Set\<close> on the keyed server stores: if it accepts a request without
  a revision or with the current one, the server accepts the same request, stores the merged configuration
  under the key of the request, and the client's response shows that configuration redacted, next to the
  one it replaces. The context key the client copies into the dry run is the key of the request.
\<close>

theorem dry_run_client_predicts_set:
  assumes "art_laws A" "inMemory_inv d" "kv_inv A s" "contextWithKey setKey req = Inr key" "key \<noteq> []"
    and "has_field (fd_Name dryRunKey) newD"
    and "clearMaskedFields (keyed_tracker A ty (Some key)) spec = spec'"
    and "case GetRevision spec' of None \<Rightarrow> True
         | Some v \<Rightarrow> Revision_number (Some v) \<noteq> None \<and> map_option snd (kv_cur A s key) = Revision_number (Some v)"
    and "base_config (keyed_tracker A ty (Some key)) (inMemory_cur d) (kv_cur A s key) = (base, r)"
    and "has_revision base" "GetRevision base = None" "redact_keeps_revision ty"
    and "dc_Set (NewDryRunClient (keyed_client (keyed_tracker A ty) getKey dryRunKey) (ct_New ty) newD
           (Some dryRunKey) (Some setKey) resetKey) \<lparr>sq_Spec = Some spec, sq_Key = req\<rparr> (d, s) = (Inr (), dc')"
  shows "\<exists>s' m r' errs. keyed_Set (keyed_tracker A ty) setKey req now spec (d, s) = (Inr (), d, s')
    \<and> kv_cur A s' key = Some (unset_revision m, r')
    \<and> dc_response dc' = Some \<lparr>dr_Current = ct_redact ty base, dr_Modified = unset_revision (ct_redact ty m),
        dr_ValidationErrors = errs\<rparr>"
proof -
  let ?ct = "keyed_tracker A ty (Some key)"
  have ct [simp]: "ct_redact ?ct = ct_redact ty" "ct_maskedFields ?ct = MaskedFields (ct_New ty)"
    by (simp_all add: NewDefaultingActiveKeyedConfigTracker_def ct_maskedFields_def)
  have "clear_spec (MaskedFields (ct_New ty)) (Some spec) = Some spec'"
    using assms(7) by (simp add: clear_spec_masked clearMaskedFields_def ct_maskedFields_def NewDefaultingActiveKeyedConfigTracker_def)
  from dc_Set_send [OF assms(13) this] obtain k resp where k: "copyContextKey dryRunKey (Some setKey) newD req = Inr k"
    "cl_DryRun (keyed_client (keyed_tracker A ty) getKey dryRunKey) \<lparr>dq_Target = Target_Active, dq_Action = Action_Set,
        dq_Spec = spec', dq_Mask = None, dq_Patch = ct_New ty, dq_Revision = None, dq_Key = k\<rparr> (d, s) = Inr resp"
    "dc_response dc' = Some resp" by blast
  have "contextWithKey dryRunKey k = Inr key" using copy_key [OF k(1) assms(6)] assms(4) by simp
  then have dry: "DryRunApply ?ct spec' (d, s) = Inr resp"
    using k(2) by (simp add: keyed_client_def keyed_ServerDryRun_def keyed_read_def ServerDryRun_def DryRun_def DryRunRequest.truncate_def)
  have redact: "same_descriptor (ct_redact ?ct m) m" "GetRevision (ct_redact ?ct m) = GetRevision m" for m
    using assms(12) by (simp_all add: redact_keeps_revision_def)
  from tracker.DryRunApply_predicts [OF keyed_tracker_at [OF assms(1,5)] assms(2,3,8-11) redact, of now] dry
  obtain m s' r' where "dry_run_results ?ct (ct_redact ty base) (unset_revision (ct_redact ty m)) = Inr resp"
    "Apply ?ct now spec' (d, s) = (Inr (), d, s')" "kv_cur A s' key = Some (unset_revision m, r')"
    by (auto split: sum.splits)
  with k(3) show ?thesis using assms(4,7)
    by (auto simp: keyed_Set_def keyed_write_def server_Set_def dry_run_results_def rbind_Inr)
qed

abbreviation ex_dry_client where
  "ex_dry_client \<equiv> NewDryRunClient (keyed_client (keyed_tracker alist_art ex_type) ex_key_field ex_key_field) (ct_New ex_type)
     (Msg ''ext.DryRunRequest'' [(ex_key_field, None)] []) (Some ex_key_field) (Some ex_key_field) None"

lemma ex_dry_set: "fst (dc_Set ex_dry_client \<lparr>sq_Spec = Some (ex_cfg (Some ''x'') (Some False) None), sq_Key = ex_keyed_req\<rparr>
    (ex_store, ex_keyed_store)) = Inr ()"
  by code_simp

lemma ex_keyed_base:
  "base_config (keyed_tracker alist_art ex_type (Some ''a'')) (inMemory_cur ex_store) (kv_cur alist_art ex_keyed_store ''a'')
     = (ex_cfg (Some ''def'') (Some True) None, 0)"
  by code_simp

lemma dry_run_client_predicts_set_witness:
  "\<exists>s' m r'. keyed_Set (keyed_tracker alist_art ex_type) ex_key_field ex_keyed_req 2 (ex_cfg (Some ''x'') (Some False) None)
       (ex_store, ex_keyed_store) = (Inr (), ex_store, s') \<and> kv_cur alist_art s' ''a'' = Some (unset_revision m, r')"
proof -
  obtain dc' where run: "dc_Set ex_dry_client \<lparr>sq_Spec = Some (ex_cfg (Some ''x'') (Some False) None), sq_Key = ex_keyed_req\<rparr>
    (ex_store, ex_keyed_store) = (Inr (), dc')" using ex_dry_set by (metis prod.collapse)
  have key: "contextWithKey ex_key_field ex_keyed_req = Inr ''a''"
    "has_field (fd_Name ex_key_field) (Msg ''ext.DryRunRequest'' [(ex_key_field, None)] [])"
    "clearMaskedFields (keyed_tracker alist_art ex_type (Some ''a'')) (ex_cfg (Some ''x'') (Some False) None) = ex_cfg (Some ''x'') None None"
    by code_simp+
  have laws: "redact_keeps_revision ex_type" by (simp add: redact_keeps_revision_def ex_type_def)
  from dry_run_client_predicts_set [OF alist_art_laws _ ex_keyed_store_inv key(1) _ key(2,3) _ ex_keyed_base _ _ laws run, of 2]
  show ?thesis by (auto simp: ex_cfg_facts)
qed

section \<open>Reset\<close>

text \<open>
  The dry run of a \<open>Reset\<close> without a mask does not show what the server does on a type with masked
  fields: the server keeps the value of a masked field, the dry run shows it reset to the default.
\<close>

theorem dry_run_reset_misses_masked_field:
  assumes "inMemory_inv d" "inMemory_inv s" "inMemory_cur s = Some (v, r)" "art_laws (ct_art ty)"
    and "norm_law (ct_Normalize ty)" "appends_paths ty" "masked_field ty n" "leaves_field ty n" "dotless n"
    and "fst (default_config (inMemory_tracker ty) (inMemory_cur d)) = dflt" "\<not> is_time_message (msg_name dflt)"
    and "outside_oneofs n dflt" "msg_get n v = Some (VScalar x)" "msg_get n (ct_redact ty dflt) = msg_get n dflt"
    and "rq_Mask req = None" "rq_Revision req = None"
    and "dc_Reset (NewDryRunClient (base_client (inMemory_tracker ty)) (ct_New ty) newD None setKey resetKey)
           (req :: KeyedResetRequest) (d, s) = (Inr (), dc')"
    and "server_Reset (inMemory_tracker ty) now (ResetRequest.truncate req) (d, s) = (Inr (), d', s')"
  shows "\<exists>c r' resp. inMemory_cur s' = Some (c, r') \<and> msg_get n c = Some (VScalar x)
    \<and> dc_response dc' = Some resp \<and> msg_get n (dr_Modified resp) = msg_get n dflt"
proof -
  let ?ct = "inMemory_tracker ty"
  from Reset_masked [OF assms(1-12,18)] assms(13)
  obtain c r' where c: "inMemory_cur s' = Some (c, r')" "msg_get n c = Some (VScalar x)" by auto
  from dc_Reset_send [OF assms(17)] assms(15,16) obtain resp where resp: "dc_response dc' = Some resp"
    "DryRunReset ?ct None (rq_Patch req) [None] (d, s) = Inr resp"
    by (auto simp: base_client_def ServerDryRun_def DryRun_def DryRunRequest.truncate_def)
  have "st_Get (ct_activeStore ?ct) [] s = Inr (v, None)"
    using inmem.get_cur [OF assms(2), of "[]"] assms(3) by (simp add: get_options_def)
  moreover have "getDefaultConfigLocked ?ct [] d = Inr (default_config ?ct (inMemory_cur d))"
    by (rule inmem_tracker.default_get [OF assms(1)])
  ultimately have "dry_run_results ?ct (ct_redact ty v) (ct_redact ty dflt) = Inr resp"
    using resp(2) assms(10) by (auto simp: DryRunReset_def split: prod.splits)
  then have "msg_get n (dr_Modified resp) = msg_get n dflt"
    using assms(14) by (auto simp: dry_run_results_def rbind_Inr)
  with c resp(1) show ?thesis by blast
qed

abbreviation ex_reset_req :: KeyedResetRequest where
  "ex_reset_req \<equiv> \<lparr>rq_Mask = None, rq_Patch = ex_cfg None None None, rq_Revision = None, rq_Key = ex_keyed_req\<rparr>"

abbreviation ex_base_dry_client where
  "ex_base_dry_client \<equiv> NewDryRunClient (base_client (inMemory_tracker ex_type)) (ct_New ex_type) (ex_cfg None None None) None None None"

lemma ex_dry_reset: "fst (dc_Reset ex_base_dry_client ex_reset_req (ex_store, ex_active)) = Inr ()"
  "fst (server_Reset (inMemory_tracker ex_type) 2 (ResetRequest.truncate ex_reset_req) (ex_store, ex_active)) = Inr ()"
  by code_simp+

lemma dry_run_reset_misses_masked_field_witness:
  "\<exists>c r resp. inMemory_cur (snd (snd (server_Reset (inMemory_tracker ex_type) 2 (ResetRequest.truncate ex_reset_req) (ex_store, ex_active))))
       = Some (c, r) \<and> msg_get ''enabled'' c = Some (VScalar (SBool False))
     \<and> dc_response (snd (dc_Reset ex_base_dry_client ex_reset_req (ex_store, ex_active))) = Some resp
     \<and> msg_get ''enabled'' (dr_Modified resp) = Some (VScalar (SBool True))"
proof -
  obtain dc' d' s' where run: "dc_Reset ex_base_dry_client ex_reset_req (ex_store, ex_active) = (Inr (), dc')"
    "server_Reset (inMemory_tracker ex_type) 2 (ResetRequest.truncate ex_reset_req) (ex_store, ex_active) = (Inr (), d', s')"
    using ex_dry_reset by (metis prod.collapse)
  have redact: "ct_redact ex_type = (\<lambda>m. m)" by (simp add: ex_type_def)
  from dry_run_reset_misses_masked_field [OF _ ex_active_cur ex_type_laws(5,4,2,3,1) _ ex_default _ _ _ _ _ _ run, of "SBool False"] run
  show ?thesis by (auto simp: ex_cfg_facts dotless_def redact)
qed

end
