(* ===== verification/GoLib.thy ===== *)
theory GoLib
  imports Errors "HOL-Library.Word" "HOL-Library.Sublist"
begin

text \<open>
  The functions of Go's standard library the storage drivers are written with: \<open>path.Clean\<close>, \<open>path.Join\<close>,
  \<open>base64.StdEncoding\<close>, \<open>strconv.FormatInt\<close> and \<open>strconv.ParseInt\<close>. The round trips of the encodings, the
  length of encoded bytes, and what joining a prefix and a key of plain path elements returns.
\<close>

section \<open>Paths\<close>

abbreviation slash :: char where "slash \<equiv> CHR ''/''"

text \<open>The elements between the slashes, also the empty ones, and back.\<close>

fun split_slash :: "string \<Rightarrow> string list" where
  "split_slash [] = [[]]"
| "split_slash (c # cs) = (if c = slash then [] # split_slash cs
     else (case split_slash cs of [] \<Rightarrow> [[c]] | e # es \<Rightarrow> (c # e) # es))"

fun join_slash :: "string list \<Rightarrow> string" where
  "join_slash [] = []"
| "join_slash [e] = e"
| "join_slash (e # es) = e @ slash # join_slash es"

text \<open>
  \<open>path.Clean\<close>: empty and \<open>.\<close> elements are dropped, \<open>..\<close> drops the element before it, or itself at the
  root of a rooted path; the elements so far are a stack.
\<close>

definition clean_element :: "bool \<Rightarrow> string list \<Rightarrow> string \<Rightarrow> string list" where
  "clean_element rooted stack e =
     (if e = [] \<or> e = ''.'' then stack
      else if e = ''..'' then
        (if stack \<noteq> [] \<and> last stack \<noteq> ''..'' then butlast stack
         else if rooted then stack else stack @ [e])
      else stack @ [e])"

definition clean_elements :: "bool \<Rightarrow> string list \<Rightarrow> string list" where
  "clean_elements rooted es = foldl (clean_element rooted) [] es"

definition is_rooted :: "string \<Rightarrow> bool" where
  "is_rooted p \<longleftrightarrow> p \<noteq> [] \<and> hd p = slash"

definition path_Clean :: "string \<Rightarrow> string" where
  "path_Clean p =
     (let out = join_slash (clean_elements (is_rooted p) (split_slash p)) in
      if is_rooted p then slash # out else if out = [] then ''.'' else out)"

definition path_Join :: "string list \<Rightarrow> string" where
  "path_Join elem =
     (case filter (\<lambda>e. e \<noteq> []) elem of [] \<Rightarrow> [] | es \<Rightarrow> path_Clean (join_slash es))"

text \<open>A plain element is neither empty nor a dot or two; a plain path consists of such elements.\<close>

definition plain_element :: "string \<Rightarrow> bool" where
  "plain_element e \<longleftrightarrow> e \<noteq> [] \<and> e \<noteq> ''.'' \<and> e \<noteq> ''..'' \<and> slash \<notin> set e"

definition plain_path :: "string \<Rightarrow> bool" where
  "plain_path p \<longleftrightarrow> list_all plain_element (split_slash p)"

lemma split_nonempty [simp]: "split_slash p \<noteq> []"
  by (induction p) (auto split: list.splits)

lemma join_split [simp]: "join_slash (split_slash p) = p"
proof (induction p)
  case (Cons c p)
  then show ?case by (cases "split_slash p"; cases "tl (split_slash p)") auto
qed simp

lemma split_no_slash: "e \<in> set (split_slash p) \<Longrightarrow> slash \<notin> set e"
  by (induction p arbitrary: e) (force split: list.splits if_splits)+

lemma split_append: "split_slash (p @ slash # q) = split_slash p @ split_slash q"
  by (induction p) (auto split: list.splits)

lemma split_element: "slash \<notin> set e \<Longrightarrow> split_slash e = [e]"
  by (induction e) auto

lemma split_join: "es \<noteq> [] \<Longrightarrow> list_all (\<lambda>e. slash \<notin> set e) es \<Longrightarrow> split_slash (join_slash es) = es"
  by (induction es rule: join_slash.induct) (auto simp: split_element split_append)

lemma plain_nonempty: "plain_path p \<Longrightarrow> p \<noteq> []"
  by (auto simp: plain_path_def plain_element_def)

lemma plain_not_rooted: "plain_path p \<Longrightarrow> \<not> is_rooted p"
  by (cases p) (auto simp: plain_path_def plain_element_def is_rooted_def)

lemma clean_append: "clean_elements r (xs @ ys) = foldl (clean_element r) (clean_elements r xs) ys"
  by (simp add: clean_elements_def)

lemma clean_plain: "list_all plain_element es \<Longrightarrow> foldl (clean_element r) st es = st @ es"
  by (induction es arbitrary: st) (auto simp: clean_element_def plain_element_def)

lemma clean_element_no_slash:
  "slash \<notin> set e \<Longrightarrow> list_all (\<lambda>e. slash \<notin> set e) st \<Longrightarrow> list_all (\<lambda>e. slash \<notin> set e) (clean_element r st e)"
  by (auto simp: clean_element_def list_all_iff dest: in_set_butlastD)

lemma clean_no_slash:
  "list_all (\<lambda>e. slash \<notin> set e) es \<Longrightarrow> list_all (\<lambda>e. slash \<notin> set e) (clean_elements r es)"
  unfolding clean_elements_def by (induction es rule: rev_induct) (simp_all add: clean_element_no_slash)

lemma join_append:
  "fs \<noteq> [] \<Longrightarrow> join_slash (es @ fs) = (if es = [] then join_slash fs else join_slash es @ slash # join_slash fs)"
proof (induction es rule: join_slash.induct)
  case (2 e)
  then show ?case by (cases fs) simp_all
qed simp_all

text \<open>The elements of a joined path are those of the cleaned prefix, followed by those of the key.\<close>

definition prefix_elements :: "string \<Rightarrow> string list" where
  "prefix_elements pre = clean_elements (is_rooted pre) (split_slash pre)"

lemma Join_plain:
  assumes "plain_path key"
  shows "path_Join [pre, key] = (if is_rooted pre then [slash] else []) @ join_slash (prefix_elements pre @ split_slash key)"
proof -
  have key: "key \<noteq> []" "\<not> is_rooted key" "list_all plain_element (split_slash key)"
    using assms plain_nonempty plain_not_rooted by (auto simp: plain_path_def)
  then have j: "join_slash (es @ split_slash key) \<noteq> []" for es by (simp add: join_append)
  show ?thesis
  proof (cases "pre = []")
    case True
    with key j [of "[]"] show ?thesis
      by (simp add: path_Join_def path_Clean_def prefix_elements_def clean_elements_def clean_plain is_rooted_def)
        (simp add: clean_element_def)
  next
    case False
    then have "is_rooted (pre @ slash # key) = is_rooted pre" by (cases pre) (auto simp: is_rooted_def)
    with False key j show ?thesis
      by (simp add: path_Join_def path_Clean_def split_append clean_append clean_plain prefix_elements_def)
  qed
qed

lemma prefix_elements_no_slash: "list_all (\<lambda>e. slash \<notin> set e) (prefix_elements pre)"
  unfolding prefix_elements_def by (rule clean_no_slash) (auto simp: list_all_iff dest: split_no_slash)

lemma Join_inj:
  assumes "plain_path key" "plain_path k" "path_Join [pre, key] = path_Join [pre, k]"
  shows "key = k"
proof -
  have no: "list_all (\<lambda>e. slash \<notin> set e) (prefix_elements pre @ split_slash p)" for p
    using prefix_elements_no_slash [of pre] by (auto simp: list_all_iff dest: split_no_slash)
  from assms have "join_slash (prefix_elements pre @ split_slash key) = join_slash (prefix_elements pre @ split_slash k)"
    by (simp add: Join_plain split: if_splits)
  from arg_cong [OF this, of split_slash] have "split_slash key = split_slash k"
    using no by (simp add: split_join)
  from arg_cong [OF this, of join_slash] show ?thesis by simp
qed

section \<open>Strings and bytes\<close>

text \<open>The conversions \<open>[]byte(s)\<close> and \<open>string(b)\<close>.\<close>

definition string_bytes :: "string \<Rightarrow> 8 word list" where
  "string_bytes s = map (\<lambda>ch. word_of_nat (of_char ch)) s"

definition bytes_string :: "8 word list \<Rightarrow> string" where
  "bytes_string bs = map (\<lambda>b. char_of (unat b)) bs"

section \<open>Base64\<close>

definition b64_alphabet :: string where
  "b64_alphabet = ''ABCDEFGHIJKLMNOPQRSTUVWXYZabcdefghijklmnopqrstuvwxyz0123456789+/''"

definition b64_char :: "nat \<Rightarrow> char" where
  "b64_char n = b64_alphabet ! n"

definition b64_digit :: "char \<Rightarrow> nat option" where
  "b64_digit c = map_of (zip b64_alphabet [0..<64]) c"

fun base64_Encode :: "8 word list \<Rightarrow> string" where
  "base64_Encode [] = []"
| "base64_Encode [a] = [b64_char (unat a div 4), b64_char (unat a mod 4 * 16), CHR ''='', CHR ''='']"
| "base64_Encode [a, b] =
     [b64_char (unat a div 4), b64_char (unat a mod 4 * 16 + unat b div 16), b64_char (unat b mod 16 * 4), CHR ''='']"
| "base64_Encode (a # b # c # bs) =
     b64_char (unat a div 4) # b64_char (unat a mod 4 * 16 + unat b div 16)
       # b64_char (unat b mod 16 * 4 + unat c div 64) # b64_char (unat c mod 64) # base64_Encode bs"

text \<open>
  Four characters at a time, of which the last one or two of the text may be padding; the bits that
  padding leaves over are not looked at.
\<close>

definition b64_bytes :: "nat \<Rightarrow> nat \<Rightarrow> nat \<Rightarrow> nat \<Rightarrow> 8 word list" where
  "b64_bytes w x y z =
     [word_of_nat (w * 4 + x div 16), word_of_nat (x mod 16 * 16 + y div 4), word_of_nat (y mod 4 * 64 + z)]"

fun b64_quads :: "string \<Rightarrow> 8 word list option" where
  "b64_quads [] = Some []"
| "b64_quads (w # x # y # z # r) =
     (case (b64_digit w, b64_digit x) of
        (Some w', Some x') \<Rightarrow>
          if r = [] \<and> y = CHR ''='' \<and> z = CHR ''='' then Some (take 1 (b64_bytes w' x' 0 0))
          else
            (case b64_digit y of
               None \<Rightarrow> None
             | Some y' \<Rightarrow>
                 if r = [] \<and> z = CHR ''='' then Some (take 2 (b64_bytes w' x' y' 0))
                 else (case (b64_digit z, b64_quads r) of
                     (Some z', Some bs) \<Rightarrow> Some (b64_bytes w' x' y' z' @ bs)
                   | _ \<Rightarrow> None))
      | _ \<Rightarrow> None)"
| "b64_quads [_] = None"
| "b64_quads [_, _] = None"
| "b64_quads [_, _, _] = None"

definition base64_Decode :: "string \<Rightarrow> 8 word list result" where
  "base64_Decode s =
     (case b64_quads (filter (\<lambda>c. c \<noteq> CHR 0x0A \<and> c \<noteq> CHR 0x0D) s) of
        None \<Rightarrow> Inl (errorf ''illegal base64 data at input byte %d'')
      | Some bs \<Rightarrow> Inr bs)"

lemma b64_table:
  "list_all (\<lambda>n. b64_digit (b64_char n) = Some n \<and> b64_char n \<noteq> CHR ''='' \<and> b64_char n \<noteq> CHR 0x0A \<and> b64_char n \<noteq> CHR 0x0D)
     [0..<64]"
  by code_simp

lemma b64_char [simp]:
  "n < 64 \<Longrightarrow> b64_digit (b64_char n) = Some n" "n < 64 \<Longrightarrow> b64_char n \<noteq> CHR ''=''"
  "n < 64 \<Longrightarrow> b64_char n \<noteq> CHR 0x0A" "n < 64 \<Longrightarrow> b64_char n \<noteq> CHR 0x0D"
  using b64_table by (auto simp: list_all_iff)

lemma byte_bound: "unat (a :: 8 word) < 256"
  using unsigned_less [of a] by simp

lemma b64_bounds:
  "unat (a :: 8 word) div 4 < 64" "unat a mod 4 * 16 + unat (b :: 8 word) div 16 < 64"
  "unat b mod 16 * 4 + unat (c :: 8 word) div 64 < 64" "unat a mod 4 * 16 < 64" "unat a mod 16 * 4 < 64"
  using byte_bound [of a] byte_bound [of b] byte_bound [of c] by linarith+

lemma quads_encode: "b64_quads (base64_Encode bs) = Some bs"
proof (induction bs rule: base64_Encode.induct)
  case (2 a)
  have "unat a div 4 * 4 + (unat a mod 4 * 16) div 16 = unat a" by simp
  with b64_bounds(1,4) [of a] show ?case by (simp add: b64_bytes_def)
next
  case (3 a b)
  have "unat a div 4 * 4 + (unat a mod 4 * 16 + unat b div 16) div 16 = unat a"
    "(unat a mod 4 * 16 + unat b div 16) mod 16 * 16 + (unat b mod 16 * 4) div 4 = unat b"
    using byte_bound [of b] by simp_all
  with b64_bounds(1) [of a] b64_bounds(2) [of a b] b64_bounds(5) [of b] show ?case by (simp add: b64_bytes_def)
next
  case (4 a b c bs)
  have "unat a div 4 * 4 + (unat a mod 4 * 16 + unat b div 16) div 16 = unat a"
    "(unat a mod 4 * 16 + unat b div 16) mod 16 * 16 + (unat b mod 16 * 4 + unat c div 64) div 4 = unat b"
    "(unat b mod 16 * 4 + unat c div 64) mod 4 * 64 + unat c mod 64 = unat c"
    using byte_bound [of b] byte_bound [of c] by simp_all
  with 4 b64_bounds(1) [of a] b64_bounds(2) [of a b] b64_bounds(3) [of b c] show ?case by (simp add: b64_bytes_def)
qed simp

lemma encode_printable: "filter (\<lambda>c. c \<noteq> CHR 0x0A \<and> c \<noteq> CHR 0x0D) (base64_Encode bs) = base64_Encode bs"
  by (induction bs rule: base64_Encode.induct) (use b64_bounds in \<open>simp_all add: b64_bounds\<close>)

text \<open>Decoding gives back what was encoded.\<close>

lemma base64_roundtrip [simp]: "base64_Decode (base64_Encode bs) = Inr bs"
  by (simp add: base64_Decode_def encode_printable quads_encode)

text \<open>\<open>EncodedLen\<close>.\<close>

definition base64_EncodedLen :: "nat \<Rightarrow> nat" where
  "base64_EncodedLen n = (n + 2) div 3 * 4"

lemma base64_length [simp]: "length (base64_Encode bs) = base64_EncodedLen (length bs)"
  by (induction bs rule: base64_Encode.induct) (simp_all add: base64_EncodedLen_def, presburger)

lemma EncodedLen_mono: "m \<le> n \<Longrightarrow> base64_EncodedLen m \<le> base64_EncodedLen n"
  by (simp add: base64_EncodedLen_def div_le_mono)

lemma EncodedLen_add: "base64_EncodedLen (3 * k + n) = 4 * k + base64_EncodedLen n"
  unfolding base64_EncodedLen_def by presburger

section \<open>Decimal numbers\<close>

text \<open>\<open>strconv.FormatInt(n, 10)\<close>.\<close>

fun nat_digits :: "nat \<Rightarrow> string" where
  "nat_digits n = (if n < 10 then [char_of (48 + n)] else nat_digits (n div 10) @ [char_of (48 + n mod 10)])"

declare nat_digits.simps [simp del]

definition FormatInt :: "int64 \<Rightarrow> string" where
  "FormatInt n = (if n < 0 then CHR ''-'' # nat_digits (nat (- n)) else nat_digits (nat n))"

text \<open>
  \<open>strconv.ParseInt(s, 10, 64)\<close>: the value and whether there was no error. A syntax error returns \<open>0\<close>, a
  number out of range the nearest one.
\<close>

definition digit_value :: "char \<Rightarrow> nat option" where
  "digit_value c = (if 48 \<le> (of_char c :: nat) \<and> (of_char c :: nat) \<le> 57 then Some (of_char c - 48) else None)"

definition parse_step :: "nat option \<Rightarrow> char \<Rightarrow> nat option" where
  "parse_step acc c = (case (acc, digit_value c) of (Some n, Some d) \<Rightarrow> Some (10 * n + d) | _ \<Rightarrow> None)"

definition parse_digits :: "string \<Rightarrow> nat option" where
  "parse_digits s = (if s = [] then None else foldl parse_step (Some 0) s)"

definition clamp64 :: "int64 \<Rightarrow> int64 \<times> bool" where
  "clamp64 n = (if n < - (2 ^ 63) then (- (2 ^ 63), False) else if n \<ge> 2 ^ 63 then (2 ^ 63 - 1, False) else (n, True))"

definition ParseInt :: "string \<Rightarrow> int64 \<times> bool" where
  "ParseInt s =
     (let negative = (s \<noteq> [] \<and> hd s = CHR ''-'');
          digits = (if s \<noteq> [] \<and> (hd s = CHR ''-'' \<or> hd s = CHR ''+'') then tl s else s) in
      case parse_digits digits of
        None \<Rightarrow> (0, False)
      | Some n \<Rightarrow> clamp64 (if negative then - int n else int n))"

lemma digit_value_char: "d < 10 \<Longrightarrow> digit_value (char_of (48 + d)) = Some d"
  by (simp add: digit_value_def)

lemma nat_digits_nonempty [simp]: "nat_digits n \<noteq> []"
  by (subst nat_digits.simps) simp

lemma parse_nat_digits: "foldl parse_step (Some 0) (nat_digits n) = Some n"
proof (induction n rule: nat_digits.induct)
  case (1 n)
  show ?case
  proof (cases "n < 10")
    case True
    then show ?thesis by (subst nat_digits.simps) (simp add: parse_step_def digit_value_char)
  next
    case False
    then show ?thesis by (subst nat_digits.simps) (simp add: 1 [OF False] parse_step_def digit_value_char)
  qed
qed

lemma digits_not_sign: "hd (nat_digits n) \<noteq> CHR ''-'' \<and> hd (nat_digits n) \<noteq> CHR ''+''"
proof (induction n rule: nat_digits.induct)
  case (1 n)
  have "char_of (48 + d) \<noteq> CHR ''-'' \<and> char_of (48 + d) \<noteq> CHR ''+''" if "d < 10" for d :: nat
  proof -
    have "(of_char (char_of (48 + d) :: char) :: nat) = 48 + d" using that by simp
    moreover have "(of_char (CHR ''-'') :: nat) = 45" "(of_char (CHR ''+'') :: nat) = 43" by simp_all
    ultimately have "char_of (48 + d) = CHR ''-'' \<Longrightarrow> 48 + d = 45" "char_of (48 + d) = CHR ''+'' \<Longrightarrow> 48 + d = 43" by metis+
    then show ?thesis by auto
  qed
  with 1 show ?case unfolding nat_digits.simps [of n] by (simp add: hd_append)
qed

lemma ParseInt_FormatInt [simp]: "0 \<le> n \<Longrightarrow> n < 2 ^ 63 \<Longrightarrow> ParseInt (FormatInt n) = (n, True)"
  using digits_not_sign [of "nat n"]
  by (simp add: ParseInt_def FormatInt_def parse_digits_def parse_nat_digits clamp64_def)

lemma nat_digits_inj: "nat_digits m = nat_digits n \<Longrightarrow> m = n"
  by (metis parse_nat_digits option.inject)

lemma FormatInt_inj [simp]: "FormatInt m = FormatInt n \<longleftrightarrow> m = n"
proof
  assume *: "FormatInt m = FormatInt n"
  have "\<not> (a < 0 \<and> 0 \<le> b \<and> FormatInt a = FormatInt b)" for a b
    using digits_not_sign [of "nat b"] by (cases "nat_digits (nat b)") (auto simp: FormatInt_def)
  from this [of m n] this [of n m] * have "m < 0 \<longleftrightarrow> n < 0" by auto
  with * have "nat_digits (nat \<bar>m\<bar>) = nat_digits (nat \<bar>n\<bar>)" by (cases "m < 0") (simp_all add: FormatInt_def)
  from nat_digits_inj [OF this] \<open>m < 0 \<longleftrightarrow> n < 0\<close> show "m = n" by linarith
qed simp

lemma FormatInt_nonempty [simp]: "FormatInt n \<noteq> []"
  by (simp add: FormatInt_def)

end
