(* ===== verification/Etcd.thy ===== *)
theory Etcd
  imports GoLib KVUtil
begin

text \<open>
  \<open>storage/drivers/etcd/kv_store.go\<close>: the key-value store on etcd. The etcd client (\<open>clientv3\<close>) is not
  part of the repository: it is a record of operations over a state of the cluster, and what the driver
  hands to it and reads of its answers is data. Time stamps are not set by this driver. A watch of the
  client is what its channel delivers until it is closed or the context of the call is done.
\<close>

section \<open>The client\<close>

text \<open>\<open>mvccpb.KeyValue\<close>, as far as the driver reads it, and \<open>clientv3.Event\<close>.\<close>

record etcd_kv =
  kv_Key :: string
  kv_Value :: string
  kv_CreateRevision :: int64
  kv_ModRevision :: int64

datatype etcd_event_type = EventTypePut | EventTypeDelete

record etcd_event =
  ee_Type :: etcd_event_type
  ee_Kv :: etcd_kv
  ee_PrevKv :: "etcd_kv option"

definition IsCreate :: "etcd_event \<Rightarrow> bool" where
  "IsCreate ev \<longleftrightarrow> ee_Type ev = EventTypePut \<and> kv_CreateRevision (ee_Kv ev) = kv_ModRevision (ee_Kv ev)"

text \<open>The options, comparisons and operations of requests.\<close>

datatype etcd_opt = WithRev int64 | WithPrefix | WithKeysOnly | WithLimit int64 | WithFirstCreate | WithPrevKV

datatype etcd_target = ModRevision string | Version string | LeaseValue string

datatype etcd_cmp = Compare etcd_target string int64

datatype etcd_op =
    OpPut string string bool \<comment> \<open>key, value, \<open>WithIgnoreLease\<close>\<close>
  | OpDelete string
  | OpTxn "etcd_cmp list" "etcd_op list" "etcd_op list"

datatype etcd_resp = ResponsePut int64 | ResponseDelete int64 | ResponseTxn bool "etcd_resp list"

datatype etcd_error = EtcdError code string | OtherError err

record watch_response =
  wr_Err :: "etcd_error option"
  wr_IsProgressNotify :: bool
  wr_Events :: "etcd_event list"

datatype watch_end = WatchClosed | ContextDone err

record 'c etcd_client =
  ec_Txn :: "etcd_cmp list \<Rightarrow> etcd_op list \<Rightarrow> etcd_op list \<Rightarrow> 'c \<Rightarrow> (etcd_error + bool \<times> etcd_resp list) \<times> 'c"
  ec_Get :: "string \<Rightarrow> etcd_opt list \<Rightarrow> 'c \<Rightarrow> etcd_error + etcd_kv list"
  ec_Delete :: "string \<Rightarrow> 'c \<Rightarrow> (etcd_error + int64) \<times> 'c"
  ec_Watch :: "string \<Rightarrow> etcd_opt list \<Rightarrow> 'c \<Rightarrow> watch_response list \<times> watch_end"

section \<open>The store\<close>

record 'c genericKeyValueStore =
  gs_client :: "'c etcd_client"
  gs_prefix :: string

fun etcdGrpcError :: "etcd_error \<Rightarrow> err" where
  "etcdGrpcError (EtcdError c m) = status_error c m"
| "etcdGrpcError (OtherError e) = e"

definition etcd_validateKey :: "string \<Rightarrow> err option" where
  "etcd_validateKey key = (if key = [] then Some (status_error InvalidArgument ''key cannot be empty'') else None)"

definition qualifiedKey :: "'c genericKeyValueStore \<Rightarrow> string \<Rightarrow> string" where
  "qualifiedKey gs key = path_Join [gs_prefix gs, key]"

text \<open>The comparison of a write with a revision.\<close>

definition put_comparisons :: "int64 option \<Rightarrow> string \<Rightarrow> etcd_cmp list" where
  "put_comparisons revision q =
     (case revision of
        None \<Rightarrow> []
      | Some r \<Rightarrow> if r > 0 then [Compare (ModRevision q) ''='' r] else [Compare (Version q) ''='' 0])"

definition NoLease :: int64 where "NoLease = 0"

text \<open>The answer to a write is unwrapped from the nested transaction.\<close>

definition put_response :: "bool \<Rightarrow> etcd_resp list \<Rightarrow> int64 option result" where
  "put_response out responses =
     (case responses of
        ResponseTxn succeeded rs # _ \<Rightarrow>
          if \<not> succeeded then Inl (errorf_w ''%w: revision mismatch'' ErrConflict)
          else if out then
            (case rs of ResponsePut r # _ \<Rightarrow> Inr (Some r) | _ \<Rightarrow> Inl (go_panic ''nil dereference''))
          else Inr None
      | _ \<Rightarrow> Inl (go_panic ''nil dereference''))"

definition ets_Put ::
  "'c genericKeyValueStore \<Rightarrow> string \<Rightarrow> 8 word list \<Rightarrow> PutOpt list \<Rightarrow> 'c \<Rightarrow> int64 option result \<times> 'c" where
  "ets_Put gs key value' opts c =
     (let options = put_options opts in
      case etcd_validateKey key of
        Some e \<Rightarrow> (Inl e, c)
      | None \<Rightarrow>
          (let q = qualifiedKey gs key;
               encodedValue = base64_Encode value';
               comparisons = put_comparisons (put_Revision options) q
           in
           case ec_Txn (gs_client gs) [Compare (LeaseValue q) ''!='' NoLease]
                  [OpTxn comparisons [OpPut q encodedValue True] []]
                  [OpTxn comparisons [OpPut q encodedValue False] []] c of
             (Inl e, c) \<Rightarrow> (Inl (etcdGrpcError e), c)
           | (Inr (_, responses), c) \<Rightarrow> (put_response (put_RevisionOut options) responses, c)))"

definition ets_Get ::
  "'c genericKeyValueStore \<Rightarrow> string \<Rightarrow> GetOpt list \<Rightarrow> 'c \<Rightarrow> (8 word list \<times> int64 option) result" where
  "ets_Get gs key opts c =
     (let options = get_options opts in
      case etcd_validateKey key of
        Some e \<Rightarrow> Inl e
      | None \<Rightarrow>
          (let clientOptions = (case get_Revision options of None \<Rightarrow> [] | Some r \<Rightarrow> [WithRev r]) in
           case ec_Get (gs_client gs) (qualifiedKey gs key) clientOptions c of
             Inl e \<Rightarrow> Inl (etcdGrpcError e)
           | Inr [] \<Rightarrow> Inl ErrNotFound
           | Inr (kv # _) \<Rightarrow>
               rbind (base64_Decode (kv_Value kv)) (\<lambda>value'.
                 Inr (value', if get_RevisionOut options then Some (kv_ModRevision kv) else None))))"

definition ets_Delete ::
  "'c genericKeyValueStore \<Rightarrow> string \<Rightarrow> DeleteOpt list \<Rightarrow> 'c \<Rightarrow> unit result \<times> 'c" where
  "ets_Delete gs key opts c =
     (case etcd_validateKey key of
        Some e \<Rightarrow> (Inl e, c)
      | None \<Rightarrow>
          (let q = qualifiedKey gs key in
           case delete_Revision (delete_options opts) of
             Some r \<Rightarrow>
               (case ec_Txn (gs_client gs) [Compare (ModRevision q) ''='' r] [OpDelete q] [] c of
                  (Inl e, c) \<Rightarrow> (Inl (etcdGrpcError e), c)
                | (Inr (succeeded, _), c) \<Rightarrow>
                    (if \<not> succeeded then Inl (errorf_w ''%w: revision mismatch'' ErrConflict) else Inr (), c))
           | None \<Rightarrow>
               (case ec_Delete (gs_client gs) q c of
                  (Inl e, c) \<Rightarrow> (Inl (etcdGrpcError e), c)
                | (Inr deleted, c) \<Rightarrow> (if deleted = 0 then Inl ErrNotFound else Inr (), c))))"

definition ets_ListKeys ::
  "'c genericKeyValueStore \<Rightarrow> string \<Rightarrow> ListOpt list \<Rightarrow> 'c \<Rightarrow> string list result" where
  "ets_ListKeys gs pre opts c =
     (let clientOptions = [WithPrefix, WithKeysOnly]
            @ (case list_Limit (list_options opts) of None \<Rightarrow> [] | Some n \<Rightarrow> [WithLimit n]) in
      case ec_Get (gs_client gs) (qualifiedKey gs pre) clientOptions c of
        Inl e \<Rightarrow> Inl (etcdGrpcError e)
      | Inr kvs \<Rightarrow> Inr (map (\<lambda>kv. TrimPrefix (kv_Key kv) (gs_prefix gs @ ''/'')) kvs))"

section \<open>History\<close>

text \<open>
  The events of one response: the revisions so far, and whether the latest one was among them, which
  ends the loop.
\<close>

fun history_events ::
  "bool \<Rightarrow> int64 \<Rightarrow> string \<Rightarrow> etcd_event list \<Rightarrow> 8 word list KeyRevisionImpl list
     \<Rightarrow> (bool \<times> 8 word list KeyRevisionImpl list) result" where
  "history_events includeValues latest key [] revs = Inr (False, revs)"
| "history_events includeValues latest key (ev # evs) revs =
     (if ee_Type ev = EventTypePut then
        rbind (if includeValues then base64_Decode (kv_Value (ee_Kv ev)) else Inr []) (\<lambda>value'.
          let r = kv_ModRevision (ee_Kv ev);
              revs = revs @ [\<lparr>kr_K = key, kr_V = value', kr_Rev = r, kr_Time = zero_time\<rparr>] in
          if r = latest then Inr (True, revs) else history_events includeValues latest key evs revs)
      else history_events includeValues latest key evs revs)"

fun history_responses ::
  "bool \<Rightarrow> int64 \<Rightarrow> string \<Rightarrow> watch_response list \<Rightarrow> watch_end \<Rightarrow> 8 word list KeyRevisionImpl list
     \<Rightarrow> 8 word list KeyRevisionImpl list result" where
  "history_responses includeValues latest key [] WatchClosed revs = Inr revs"
| "history_responses includeValues latest key [] (ContextDone e) revs = Inl e"
| "history_responses includeValues latest key (resp # resps) wend revs =
     (case wr_Err resp of
        Some e \<Rightarrow> Inl (etcdGrpcError e)
      | None \<Rightarrow>
          (case history_events includeValues latest key (wr_Events resp) revs of
             Inl e \<Rightarrow> Inl e
           | Inr (finished, revs) \<Rightarrow>
               if finished then Inr revs else history_responses includeValues latest key resps wend revs))"

definition ets_History ::
  "'c genericKeyValueStore \<Rightarrow> string \<Rightarrow> HistoryOpt list \<Rightarrow> 'c \<Rightarrow> 8 word list KeyRevisionImpl list result" where
  "ets_History gs key opts c =
     (let options = history_options opts;
          keysOnly = (if \<not> history_IncludeValues options then [WithKeysOnly] else []) in
      case etcd_validateKey key of
        Some e \<Rightarrow> Inl e
      | None \<Rightarrow>
          (case ec_Get (gs_client gs) (qualifiedKey gs key)
                  ([WithLimit 1] @ keysOnly
                    @ (case history_Revision options of None \<Rightarrow> [] | Some r \<Rightarrow> [WithRev r])) c of
             Inl e \<Rightarrow> Inl (etcdGrpcError e)
           | Inr [] \<Rightarrow> Inl ErrNotFound
           | Inr (last' # _) \<Rightarrow>
               (let (responses, wend) =
                      ec_Watch (gs_client gs) (qualifiedKey gs key) (keysOnly @ [WithRev (kv_CreateRevision last')]) c
                in history_responses (history_IncludeValues options) (kv_ModRevision last') key responses wend [])))"

section \<open>Watches\<close>

definition newKeyRevision :: "'c genericKeyValueStore \<Rightarrow> etcd_kv \<Rightarrow> 8 word list KeyRevisionImpl" where
  "newKeyRevision gs kv =
     \<lparr>kr_K = TrimPrefix (TrimPrefix (kv_Key kv) (gs_prefix gs)) ''/'',
      kr_V = (case base64_Decode (kv_Value kv) of Inl _ \<Rightarrow> string_bytes (kv_Value kv) | Inr v \<Rightarrow> v),
      kr_Rev = kv_ModRevision kv, kr_Time = zero_time\<rparr>"

definition newKeyRevision_ptr ::
  "'c genericKeyValueStore \<Rightarrow> etcd_kv option \<Rightarrow> 8 word list KeyRevisionImpl result" where
  "newKeyRevision_ptr gs kv =
     (case kv of None \<Rightarrow> Inl (go_panic ''nil dereference'') | Some kv \<Rightarrow> Inr (newKeyRevision gs kv))"

definition etcd_watch_event :: "'c genericKeyValueStore \<Rightarrow> etcd_event \<Rightarrow> 8 word list WatchEvent result" where
  "etcd_watch_event gs ev =
     (case ee_Type ev of
        EventTypePut \<Rightarrow>
          (let cur = newKeyRevision gs (ee_Kv ev) in
           if IsCreate ev then Inr \<lparr>ev_EventType = WatchEventPut, ev_Current = Some cur, ev_Previous = None\<rparr>
           else
             rbind (newKeyRevision_ptr gs (ee_PrevKv ev)) (\<lambda>prev.
               Inr \<lparr>ev_EventType = WatchEventPut, ev_Current = Some cur, ev_Previous = Some prev\<rparr>))
      | EventTypeDelete \<Rightarrow>
          rbind (newKeyRevision_ptr gs (ee_PrevKv ev)) (\<lambda>prev.
            Inr \<lparr>ev_EventType = WatchEventDelete, ev_Current = None, ev_Previous = Some prev\<rparr>))"

text \<open>What the goroutine sends, and the panic that ends it, if one does.\<close>

fun etcd_watch_events ::
  "'c genericKeyValueStore \<Rightarrow> etcd_event list \<Rightarrow> 8 word list WatchEvent list \<times> err option" where
  "etcd_watch_events gs [] = ([], None)"
| "etcd_watch_events gs (ev # evs) =
     (case etcd_watch_event gs ev of
        Inl e \<Rightarrow> ([], Some e)
      | Inr w \<Rightarrow> (let (ws, p) = etcd_watch_events gs evs in (w # ws, p)))"

fun etcd_watch_loop ::
  "'c genericKeyValueStore \<Rightarrow> watch_response list \<Rightarrow> 8 word list WatchEvent list \<times> err option" where
  "etcd_watch_loop gs [] = ([], None)"
| "etcd_watch_loop gs (resp # resps) =
     (if wr_Err resp \<noteq> None then ([], None)
      else if wr_IsProgressNotify resp then etcd_watch_loop gs resps
      else
        (case etcd_watch_events gs (wr_Events resp) of
           (ws, Some e) \<Rightarrow> (ws, Some e)
         | (ws, None) \<Rightarrow> (let (ws', p) = etcd_watch_loop gs resps in (ws @ ws', p))))"

text \<open>The options of the client's watch. Revision \<open>0\<close> stands for the creation of the first key that matches.\<close>

definition watch_client_options ::
  "'c genericKeyValueStore \<Rightarrow> string \<Rightarrow> WatchOptions \<Rightarrow> 'c \<Rightarrow> etcd_opt list result" where
  "watch_client_options gs q options c =
     rbind (case watch_Revision options of
              None \<Rightarrow> Inr []
            | Some r \<Rightarrow>
                if r = 0 then
                  (case ec_Get (gs_client gs) q [WithFirstCreate] c of
                     Inl e \<Rightarrow> Inl (etcdGrpcError e)
                   | Inr [kv] \<Rightarrow> Inr [WithRev (kv_CreateRevision kv)]
                   | Inr _ \<Rightarrow> Inr [WithRev r])
                else Inr [WithRev r])
       (\<lambda>rev_opts. Inr ([WithPrevKV] @ rev_opts @ (if watch_Prefix options then [WithPrefix] else [])))"

definition ets_Watch ::
  "'c genericKeyValueStore \<Rightarrow> string \<Rightarrow> WatchOpt list \<Rightarrow> 'c \<Rightarrow> (8 word list WatchEvent list \<times> err option) result" where
  "ets_Watch gs key opts c =
     (let options = watch_options opts; q = qualifiedKey gs key in
      case etcd_validateKey (if watch_Prefix options then q else key) of
        Some e \<Rightarrow> Inl e
      | None \<Rightarrow>
          rbind (watch_client_options gs q options c) (\<lambda>clientOptions.
            Inr (etcd_watch_loop gs (fst (ec_Watch (gs_client gs) q clientOptions c)))))"

definition etcd_ops :: "'c genericKeyValueStore \<Rightarrow> ('c, 8 word list) KeyValueStoreT" where
  "etcd_ops gs =
     \<lparr>kv_Put = (\<lambda>now key value' opts c. ets_Put gs key value' opts c),
      kv_Get = (\<lambda>key opts c. ets_Get gs key opts c),
      kv_Delete = (\<lambda>now key opts c. ets_Delete gs key opts c),
      kv_ListKeys = (\<lambda>pre opts c. ets_ListKeys gs pre opts c),
      kv_History = (\<lambda>key opts c. ets_History gs key opts c)\<rparr>"

end
