(* ===== verification/EtcdIface.thy ===== *)
theory EtcdIface
  imports Etcd
begin

text \<open>
  What the etcd driver relies on, as laws of the client, and the driver as a provider of the
  \<open>keyed_values\<close> interface. The laws describe a cluster that can be reached and has not been compacted:
  its state is a log of the writes it committed, and every answer is a function of it, as the API
  reference of etcd documents. A reference client over such a log satisfies them.
\<close>

section \<open>The log of a cluster\<close>

text \<open>A write: its revision, its key, and the value and lease put, unless it is a deletion.\<close>

record mvcc_entry =
  me_Rev :: int64
  me_Key :: string
  me_Put :: "(string \<times> int64) option"

definition mvcc_step :: "string \<Rightarrow> etcd_kv option \<Rightarrow> mvcc_entry \<Rightarrow> etcd_kv option" where
  "mvcc_step k kv e =
     (if me_Key e \<noteq> k then kv
      else (case me_Put e of
          None \<Rightarrow> None
        | Some (v, l) \<Rightarrow> Some \<lparr>kv_Key = k, kv_Value = v,
            kv_CreateRevision = (case kv of None \<Rightarrow> me_Rev e | Some p \<Rightarrow> kv_CreateRevision p),
            kv_ModRevision = me_Rev e\<rparr>))"

definition kv_of :: "mvcc_entry list \<Rightarrow> string \<Rightarrow> etcd_kv option" where
  "kv_of log k = foldl (mvcc_step k) None log"

definition kv_at :: "mvcc_entry list \<Rightarrow> int64 \<Rightarrow> string \<Rightarrow> etcd_kv option" where
  "kv_at log r k = kv_of (if r \<le> 0 then log else filter (\<lambda>e. me_Rev e \<le> r) log) k"

definition lease_of :: "mvcc_entry list \<Rightarrow> string \<Rightarrow> int64" where
  "lease_of log k = foldl (\<lambda>l e. if me_Key e \<noteq> k then l else (case me_Put e of None \<Rightarrow> 0 | Some (v, l') \<Rightarrow> l')) 0 log"

definition version_of :: "mvcc_entry list \<Rightarrow> string \<Rightarrow> int64" where
  "version_of log k = foldl (\<lambda>n e. if me_Key e \<noteq> k then n else (case me_Put e of None \<Rightarrow> 0 | Some _ \<Rightarrow> n + 1)) 0 log"

text \<open>The events of a key, after those that left it as \<open>kv\<close>.\<close>

fun log_events :: "bool \<Rightarrow> string \<Rightarrow> etcd_kv option \<Rightarrow> mvcc_entry list \<Rightarrow> etcd_event list" where
  "log_events prev k kv [] = []"
| "log_events prev k kv (e # es) =
     (if me_Key e \<noteq> k then log_events prev k kv es
      else
        (let kv' = mvcc_step k kv e in
         (case kv' of
            Some p \<Rightarrow> \<lparr>ee_Type = EventTypePut, ee_Kv = p, ee_PrevKv = if prev then kv else None\<rparr>
          | None \<Rightarrow> \<lparr>ee_Type = EventTypeDelete,
              ee_Kv = \<lparr>kv_Key = k, kv_Value = [], kv_CreateRevision = 0, kv_ModRevision = me_Rev e\<rparr>,
              ee_PrevKv = if prev then kv else None\<rparr>)
         # log_events prev k kv' es))"

definition events_from :: "bool \<Rightarrow> int64 \<Rightarrow> string \<Rightarrow> mvcc_entry list \<Rightarrow> etcd_event list" where
  "events_from prev r k log = filter (\<lambda>ev. r \<le> kv_ModRevision (ee_Kv ev)) (log_events prev k None log)"

text \<open>
  Comparisons and operations at the next revision. A put that keeps the lease of a key that does not
  exist fails, as does a second write to a key in a transaction: they are \<^term>\<open>None\<close>.
\<close>

definition written_at :: "int64 \<Rightarrow> string \<Rightarrow> mvcc_entry list \<Rightarrow> bool" where
  "written_at r k log = list_ex (\<lambda>e. me_Rev e = r \<and> me_Key e = k) log"

fun mvcc_value :: "mvcc_entry list \<Rightarrow> etcd_target \<Rightarrow> int64" where
  "mvcc_value log (ModRevision k) = (case kv_of log k of None \<Rightarrow> 0 | Some kv \<Rightarrow> kv_ModRevision kv)"
| "mvcc_value log (Version k) = version_of log k"
| "mvcc_value log (LeaseValue k) = lease_of log k"

fun mvcc_cmp :: "mvcc_entry list \<Rightarrow> etcd_cmp \<Rightarrow> bool" where
  "mvcc_cmp log (Compare t result n) \<longleftrightarrow>
     (if result = ''='' then mvcc_value log t = n else if result = ''!='' then mvcc_value log t \<noteq> n
      else if result = ''>'' then mvcc_value log t > n else mvcc_value log t < n)"

fun mvcc_op :: "int64 \<Rightarrow> etcd_op \<Rightarrow> mvcc_entry list \<Rightarrow> (etcd_resp \<times> mvcc_entry list) option"
  and mvcc_ops :: "int64 \<Rightarrow> etcd_op list \<Rightarrow> mvcc_entry list \<Rightarrow> (etcd_resp list \<times> mvcc_entry list) option" where
  "mvcc_op r (OpPut k v ignoreLease) log =
     (if written_at r k log \<or> ignoreLease \<and> kv_of log k = None then None
      else Some (ResponsePut r,
        log @ [\<lparr>me_Rev = r, me_Key = k, me_Put = Some (v, if ignoreLease then lease_of log k else 0)\<rparr>]))"
| "mvcc_op r (OpDelete k) log =
     (if written_at r k log then None
      else if kv_of log k = None then Some (ResponseDelete 0, log)
      else Some (ResponseDelete 1, log @ [\<lparr>me_Rev = r, me_Key = k, me_Put = None\<rparr>]))"
| "mvcc_op r (OpTxn cmps thens elses) log =
     (if list_all (mvcc_cmp log) cmps
      then map_option (\<lambda>(rs, log'). (ResponseTxn True rs, log')) (mvcc_ops r thens log)
      else map_option (\<lambda>(rs, log'). (ResponseTxn False rs, log')) (mvcc_ops r elses log))"
| "mvcc_ops r [] log = Some ([], log)"
| "mvcc_ops r (op # ops) log =
     (case mvcc_op r op log of
        None \<Rightarrow> None
      | Some (x, log') \<Rightarrow> map_option (\<lambda>(xs, log''). (x # xs, log'')) (mvcc_ops r ops log'))"

text \<open>The keys of a log that have a value, under a prefix.\<close>

definition keys_under :: "string \<Rightarrow> mvcc_entry list \<Rightarrow> string set" where
  "keys_under p log = {k. prefix p k \<and> kv_of log k \<noteq> None}"

section \<open>Laws of the client\<close>

definition mvcc_wf :: "mvcc_entry list \<Rightarrow> bool" where
  "mvcc_wf log \<longleftrightarrow>
     sorted_wrt (\<lambda>a b. me_Rev a \<le> me_Rev b \<and> (me_Key a = me_Key b \<longrightarrow> me_Rev a < me_Rev b)) log
     \<and> (\<forall>e \<in> set log. 0 < me_Rev e)"

fun opt_rev :: "etcd_opt list \<Rightarrow> int64" where
  "opt_rev [] = 0"
| "opt_rev (WithRev r # os) = r"
| "opt_rev (_ # os) = opt_rev os"

definition get_law where
  "get_law cl ok log head \<longleftrightarrow>
     (\<forall>c k os. ok c \<and> WithPrefix \<notin> set os \<and> WithFirstCreate \<notin> set os \<longrightarrow>
        (if opt_rev os \<le> head c then
           ec_Get cl k os c = Inr (map (\<lambda>kv. if WithKeysOnly \<in> set os then kv\<lparr>kv_Value := []\<rparr> else kv)
             (case kv_at (log c) (opt_rev os) k of None \<Rightarrow> [] | Some kv \<Rightarrow> [kv]))
         else \<exists>m. ec_Get cl k os c = Inl (EtcdError OutOfRange m)))"

definition list_law where
  "list_law cl ok log \<longleftrightarrow>
     (\<forall>c p. ok c \<longrightarrow> (\<exists>kvs. ec_Get cl p [WithPrefix, WithKeysOnly] c = Inr kvs \<and> distinct (map kv_Key kvs)
        \<and> set (map kv_Key kvs) = keys_under p (log c)))"

definition txn_law where
  "txn_law cl ok log head \<longleftrightarrow>
     (\<forall>c cmps thens elses. ok c \<longrightarrow> (\<exists>r > head c. \<forall>succeeded rs log'.
        mvcc_op r (OpTxn cmps thens elses) (log c) = Some (ResponseTxn succeeded rs, log') \<longrightarrow>
        (\<exists>c'. ec_Txn cl cmps thens elses c = (Inr (succeeded, rs), c') \<and> log c' = log' \<and> ok c')))"

definition delete_law where
  "delete_law cl ok log head \<longleftrightarrow>
     (\<forall>c k. ok c \<longrightarrow> (\<exists>r > head c. \<exists>n c'. ec_Delete cl k c = (Inr n, c')
        \<and> mvcc_op r (OpDelete k) (log c) = Some (ResponseDelete n, log c') \<and> ok c'))"

definition watch_law where
  "watch_law cl ok log \<longleftrightarrow>
     (\<forall>c k os. ok c \<and> WithPrefix \<notin> set os \<and> 0 < opt_rev os \<longrightarrow>
        (\<exists>live. concat (map wr_Events (fst (ec_Watch cl k os c)))
             = events_from (WithPrevKV \<in> set os) (opt_rev os) k (log c) @ live)
        \<and> (\<forall>resp \<in> set (fst (ec_Watch cl k os c)). wr_Err resp = None))"

definition etcd_laws ::
  "'c etcd_client \<Rightarrow> ('c \<Rightarrow> bool) \<Rightarrow> ('c \<Rightarrow> mvcc_entry list) \<Rightarrow> ('c \<Rightarrow> int64) \<Rightarrow> bool" where
  "etcd_laws cl ok log head \<longleftrightarrow>
     (\<forall>c. ok c \<longrightarrow> mvcc_wf (log c) \<and> 0 \<le> head c \<and> (\<forall>e \<in> set (log c). me_Rev e \<le> head c))
     \<and> get_law cl ok log head \<and> list_law cl ok log \<and> txn_law cl ok log head \<and> delete_law cl ok log head
     \<and> watch_law cl ok log"

lemma etcd_lawsD:
  assumes "etcd_laws cl ok log head"
  shows "ok c \<Longrightarrow> mvcc_wf (log c)" "ok c \<Longrightarrow> 0 \<le> head c" "ok c \<Longrightarrow> e \<in> set (log c) \<Longrightarrow> me_Rev e \<le> head c"
    "get_law cl ok log head" "list_law cl ok log" "txn_law cl ok log head" "delete_law cl ok log head" "watch_law cl ok log"
  using assms by (auto simp: etcd_laws_def)

lemma not_written:
  assumes "etcd_laws cl ok log head" "ok c" "head c < r"
  shows "\<not> written_at r k (log c)"
  using etcd_lawsD(3) [OF assms(1,2)] assms(3) by (fastforce simp: written_at_def list_ex_iff)

section \<open>Logs\<close>

lemma log_snoc [simp]:
  "kv_of (log @ [e]) k = mvcc_step k (kv_of log k) e" "kv_of [] k = None"
  "lease_of (log @ [e]) k = (if me_Key e \<noteq> k then lease_of log k else (case me_Put e of None \<Rightarrow> 0 | Some (v, l) \<Rightarrow> l))"
  by (simp_all add: kv_of_def lease_of_def)

lemma kv_of_entry:
  "kv_of log k = Some kv \<Longrightarrow> \<exists>e \<in> set log. me_Key e = k \<and> me_Rev e = kv_ModRevision kv \<and> kv_Key kv = k
     \<and> (\<exists>l. me_Put e = Some (kv_Value kv, l))"
  by (induction log arbitrary: kv rule: rev_induct) (auto simp: mvcc_step_def split: if_splits option.splits)

lemma version_none: "version_of log k = 0 \<longleftrightarrow> kv_of log k = None" "0 \<le> version_of log k"
proof -
  have "0 \<le> version_of log k \<and> (version_of log k = 0 \<longleftrightarrow> kv_of log k = None)"
    by (induction log rule: rev_induct) (auto simp: version_of_def mvcc_step_def split: option.splits)
  then show "version_of log k = 0 \<longleftrightarrow> kv_of log k = None" "0 \<le> version_of log k" by auto
qed

lemma lease_none: "kv_of log k = None \<Longrightarrow> lease_of log k = 0"
  by (induction log rule: rev_induct) (auto simp: lease_of_def mvcc_step_def split: option.splits if_splits)

text \<open>The value of a key is that of its last write.\<close>

lemma kv_of_filter: "(\<And>e. e \<in> set log \<Longrightarrow> me_Key e = k \<Longrightarrow> P e) \<Longrightarrow> kv_of (filter P log) k = kv_of log k"
  by (induction log rule: rev_induct) (auto simp: mvcc_step_def)

lemma kv_of_last:
  assumes "mvcc_wf log" "kv_of log k = Some kv" "e \<in> set log" "me_Key e = k"
  shows "me_Rev e \<le> kv_ModRevision kv"
  using assms
proof (induction log arbitrary: kv rule: rev_induct)
  case (snoc e' log)
  then show ?case by (cases "me_Key e' = k") (auto simp: mvcc_wf_def sorted_wrt_append mvcc_step_def split: option.splits)
qed (simp add: kv_of_def)

lemma kv_at_current:
  assumes "mvcc_wf log" "kv_of log k = Some kv"
  shows "kv_at log (kv_ModRevision kv) k = Some kv"
  using assms kv_of_filter [of log k "\<lambda>e. me_Rev e \<le> kv_ModRevision kv"] kv_of_last [OF assms] by (simp add: kv_at_def)

lemma kv_at_rev:
  assumes "mvcc_wf log" "0 < r" "kv_at log r k = Some kv"
  shows "0 < kv_ModRevision kv \<and> kv_ModRevision kv \<le> r"
  using assms kv_of_entry [of "filter (\<lambda>e. me_Rev e \<le> r) log" k kv] by (auto simp: kv_at_def mvcc_wf_def)

section \<open>The operations of the store\<close>

text \<open>The values in the log are those the driver encodes.\<close>

definition etcd_inv :: "('c \<Rightarrow> bool) \<Rightarrow> ('c \<Rightarrow> mvcc_entry list) \<Rightarrow> 'c \<Rightarrow> bool" where
  "etcd_inv ok log c \<longleftrightarrow>
     ok c \<and> (\<forall>e \<in> set (log c). \<forall>v l. me_Put e = Some (v, l) \<longrightarrow> (\<exists>b. base64_Decode v = Inr b))"

definition etcd_cur ::
  "'c genericKeyValueStore \<Rightarrow> ('c \<Rightarrow> mvcc_entry list) \<Rightarrow> 'c \<Rightarrow> string \<Rightarrow> (8 word list \<times> int64) option" where
  "etcd_cur gs log c key =
     map_option (\<lambda>kv. (projr (base64_Decode (kv_Value kv)), kv_ModRevision kv)) (kv_of (log c) (qualifiedKey gs key))"

lemma etcd_invD:
  "etcd_inv ok log c \<Longrightarrow> ok c"
  "etcd_inv ok log c \<Longrightarrow> kv_of (filter P (log c)) k = Some kv \<Longrightarrow> \<exists>b. base64_Decode (kv_Value kv) = Inr b"
proof -
  show "etcd_inv ok log c \<Longrightarrow> ok c" by (simp add: etcd_inv_def)
  assume *: "etcd_inv ok log c" and "kv_of (filter P (log c)) k = Some kv"
  from kv_of_entry [OF this(2)] obtain e l where "e \<in> set (log c)" "me_Put e = Some (kv_Value kv, l)" by auto
  with * show "\<exists>b. base64_Decode (kv_Value kv) = Inr b" unfolding etcd_inv_def by blast
qed

lemma etcd_decode:
  assumes "etcd_inv ok log c" "kv_of (log c) k = Some kv"
  shows "base64_Decode (kv_Value kv) = Inr (projr (base64_Decode (kv_Value kv)))"
  using etcd_invD(2) [OF assms(1), of "\<lambda>_. True" k kv] assms(2) by (metis filter_True sum.sel(2))

text \<open>
  A put appends one write to the log, with the lease the key had, or nothing when its condition does
  not hold.
\<close>

definition put_condition :: "int64 option \<Rightarrow> etcd_kv option \<Rightarrow> bool" where
  "put_condition revision kv \<longleftrightarrow>
     (case revision of
        None \<Rightarrow> True
      | Some r \<Rightarrow> if r > 0 then kv \<noteq> None \<and> kv_ModRevision (the kv) = r else kv = None)"

lemma put_comparisons_hold:
  "list_all (mvcc_cmp log) (put_comparisons revision q) \<longleftrightarrow> put_condition revision (kv_of log q)"
  by (auto simp: put_comparisons_def put_condition_def version_none split: option.splits)

lemma put_txn:
  fixes gs :: "'c genericKeyValueStore" and os :: "PutOpt list" and key :: string
  assumes L: "etcd_laws (gs_client gs) ok log head" and "ok c"
  defines "q \<equiv> qualifiedKey gs key" and "cond \<equiv> put_condition (put_Revision (put_options os)) (kv_of (log c) (qualifiedKey gs key))"
    and "cmps \<equiv> put_comparisons (put_Revision (put_options os)) (qualifiedKey gs key)"
  shows "\<exists>r c' b. head c < r \<and> ok c'
    \<and> ec_Txn (gs_client gs) [Compare (LeaseValue q) ''!='' NoLease]
        [OpTxn cmps [OpPut q (base64_Encode v) True] []] [OpTxn cmps [OpPut q (base64_Encode v) False] []] c
      = (Inr (b, [ResponseTxn cond (if cond then [ResponsePut r] else [])]), c')
    \<and> log c' = (if cond then log c @ [\<lparr>me_Rev = r, me_Key = q, me_Put = Some (base64_Encode v, lease_of (log c) q)\<rparr>] else log c)"
proof -
  let ?lease = "Compare (LeaseValue q) ''!='' NoLease"
  let ?put = "\<lambda>keep. OpTxn cmps [OpPut q (base64_Encode v) keep] []"
  from etcd_lawsD(6) [OF L] assms(2) obtain r where r: "head c < r"
    "\<And>b rs log'. mvcc_op r (OpTxn [?lease] [?put True] [?put False]) (log c) = Some (ResponseTxn b rs, log') \<Longrightarrow>
       \<exists>c'. ec_Txn (gs_client gs) [?lease] [?put True] [?put False] c = (Inr (b, rs), c') \<and> log c' = log' \<and> ok c'"
    unfolding txn_law_def by metis
  have cond: "list_all (mvcc_cmp (log c)) cmps = cond"
    unfolding cmps_def cond_def by (rule put_comparisons_hold)
  have "\<exists>b. mvcc_op r (OpTxn [?lease] [?put True] [?put False]) (log c) =
      Some (ResponseTxn b [ResponseTxn cond (if cond then [ResponsePut r] else [])],
        if cond then log c @ [\<lparr>me_Rev = r, me_Key = q, me_Put = Some (base64_Encode v, lease_of (log c) q)\<rparr>] else log c)"
    using lease_none [of "log c" q] not_written [OF L assms(2) r(1)] by (auto simp: cond NoLease_def)
  with r show ?thesis by blast
qed

lemma etcd_put_effect:
  fixes gs :: "'c genericKeyValueStore" and key :: string and os :: "PutOpt list"
  assumes L: "etcd_laws (gs_client gs) ok log head" and "ok c" "key \<noteq> []"
  defines "q \<equiv> qualifiedKey gs key" and "cond \<equiv> put_condition (put_Revision (put_options os)) (kv_of (log c) (qualifiedKey gs key))"
  shows "\<exists>r c'. head c < r \<and> ok c'
    \<and> ets_Put gs key v os c =
        (if cond then Inr (if put_RevisionOut (put_options os) then Some r else None)
         else Inl (errorf_w ''%w: revision mismatch'' ErrConflict), c')
    \<and> log c' = (if cond then log c @ [\<lparr>me_Rev = r, me_Key = q, me_Put = Some (base64_Encode v, lease_of (log c) q)\<rparr>] else log c)"
proof -
  from put_txn [OF L assms(2), where key = key and os = os and v = v, folded q_def cond_def]
  obtain r c' b where "head c < r" "ok c'"
    "ec_Txn (gs_client gs) [Compare (LeaseValue q) ''!='' NoLease]
        [OpTxn (put_comparisons (put_Revision (put_options os)) q) [OpPut q (base64_Encode v) True] []]
        [OpTxn (put_comparisons (put_Revision (put_options os)) q) [OpPut q (base64_Encode v) False] []] c
      = (Inr (b, [ResponseTxn cond (if cond then [ResponsePut r] else [])]), c')"
    "log c' = (if cond then log c @ [\<lparr>me_Rev = r, me_Key = q, me_Put = Some (base64_Encode v, lease_of (log c) q)\<rparr>] else log c)"
    unfolding q_def cond_def by blast
  then show ?thesis using assms(3)
    by (intro exI [of _ r] exI [of _ c']) (simp add: ets_Put_def etcd_validateKey_def Let_def put_response_def flip: q_def)
qed

definition delete_condition :: "int64 option \<Rightarrow> etcd_kv option \<Rightarrow> bool" where
  "delete_condition revision kv \<longleftrightarrow>
     (case revision of None \<Rightarrow> kv \<noteq> None | Some r \<Rightarrow> (case kv of None \<Rightarrow> 0 | Some p \<Rightarrow> kv_ModRevision p) = r)"

lemma etcd_delete_effect:
  fixes gs :: "'c genericKeyValueStore" and key :: string and os :: "DeleteOpt list"
  assumes L: "etcd_laws (gs_client gs) ok log head" and "ok c" "key \<noteq> []"
  defines "q \<equiv> qualifiedKey gs key"
    and "cond \<equiv> delete_condition (delete_Revision (delete_options os)) (kv_of (log c) (qualifiedKey gs key))"
  shows "\<exists>r x c' e. head c < r \<and> ok c' \<and> ets_Delete gs key os c = (x, c') \<and> x = (if cond then Inr () else Inl e)
    \<and> log c' = (if cond \<and> kv_of (log c) q \<noteq> None then log c @ [\<lparr>me_Rev = r, me_Key = q, me_Put = None\<rparr>] else log c)"
proof (cases "delete_Revision (delete_options os)")
  case None
  from etcd_lawsD(7) [OF L] assms(2) obtain r n c' where r: "head c < r" "ec_Delete (gs_client gs) q c = (Inr n, c')"
    "mvcc_op r (OpDelete q) (log c) = Some (ResponseDelete n, log c')" "ok c'"
    unfolding delete_law_def by metis
  with not_written [OF L assms(2) r(1)] show ?thesis using assms(3) None
    by (intro exI [of _ r]) (auto simp: ets_Delete_def etcd_validateKey_def Let_def cond_def delete_condition_def
        simp flip: q_def split: if_splits)
next
  case (Some n)
  let ?cmp = "Compare (ModRevision q) ''='' n"
  from etcd_lawsD(6) [OF L] assms(2) obtain r where r: "head c < r"
    "\<And>b rs log'. mvcc_op r (OpTxn [?cmp] [OpDelete q] []) (log c) = Some (ResponseTxn b rs, log') \<Longrightarrow>
       \<exists>c'. ec_Txn (gs_client gs) [?cmp] [OpDelete q] [] c = (Inr (b, rs), c') \<and> log c' = log' \<and> ok c'"
    unfolding txn_law_def by metis
  have cond: "cond \<longleftrightarrow> mvcc_cmp (log c) ?cmp"
    using Some by (auto simp: cond_def delete_condition_def simp flip: q_def split: option.splits)
  have "\<exists>rs. mvcc_op r (OpTxn [?cmp] [OpDelete q] []) (log c) = Some (ResponseTxn cond rs,
      if cond \<and> kv_of (log c) q \<noteq> None then log c @ [\<lparr>me_Rev = r, me_Key = q, me_Put = None\<rparr>] else log c)"
    using not_written [OF L assms(2) r(1)] by (simp add: cond)
  then obtain rs where "mvcc_op r (OpTxn [?cmp] [OpDelete q] []) (log c) = Some (ResponseTxn cond rs,
      if cond \<and> kv_of (log c) q \<noteq> None then log c @ [\<lparr>me_Rev = r, me_Key = q, me_Put = None\<rparr>] else log c)" by blast
  from r(2) [OF this] obtain c' where "ec_Txn (gs_client gs) [?cmp] [OpDelete q] [] c = (Inr (cond, rs), c')" "ok c'"
    "log c' = (if cond \<and> kv_of (log c) q \<noteq> None then log c @ [\<lparr>me_Rev = r, me_Key = q, me_Put = None\<rparr>] else log c)"
    by blast
  with r(1) assms(3) Some show ?thesis
    by (intro exI [of _ r]) (auto simp: ets_Delete_def etcd_validateKey_def Let_def simp flip: q_def)
qed

lemma etcd_get_effect:
  fixes gs :: "'c genericKeyValueStore" and key :: string and os :: "GetOpt list"
  assumes L: "etcd_laws (gs_client gs) ok log head" and "ok c" "key \<noteq> []"
    and "r = (case get_Revision (get_options os) of None \<Rightarrow> 0 | Some r \<Rightarrow> r)"
  shows "if r \<le> head c then
      ets_Get gs key os c = (case kv_at (log c) r (qualifiedKey gs key) of
          None \<Rightarrow> Inl ErrNotFound
        | Some kv \<Rightarrow> rbind (base64_Decode (kv_Value kv)) (\<lambda>v.
            Inr (v, if get_RevisionOut (get_options os) then Some (kv_ModRevision kv) else None)))
    else \<exists>m. ets_Get gs key os c = Inl (status_error OutOfRange m)"
proof -
  let ?os = "case get_Revision (get_options os) of None \<Rightarrow> [] | Some r \<Rightarrow> [WithRev r]"
  have os: "WithPrefix \<notin> set ?os" "WithFirstCreate \<notin> set ?os" "WithKeysOnly \<notin> set ?os" "opt_rev ?os = r"
    using assms(4) by (auto split: option.splits)
  have "if r \<le> head c then
      ec_Get (gs_client gs) (qualifiedKey gs key) ?os c =
        Inr (case kv_at (log c) r (qualifiedKey gs key) of None \<Rightarrow> [] | Some kv \<Rightarrow> [kv])
    else \<exists>m. ec_Get (gs_client gs) (qualifiedKey gs key) ?os c = Inl (EtcdError OutOfRange m)"
    using etcd_lawsD(4) [OF L, unfolded get_law_def, rule_format, of c ?os "qualifiedKey gs key"] assms(2) os
    by (simp split: option.splits)
  then show ?thesis using assms(3)
    by (auto simp: ets_Get_def etcd_validateKey_def Let_def split: option.splits if_splits)
qed

section \<open>The interface\<close>

definition etcd_same :: "('c \<Rightarrow> mvcc_entry list) \<Rightarrow> 'c \<Rightarrow> 'c \<Rightarrow> bool" where
  "etcd_same log c c' \<longleftrightarrow> log c' = log c"

lemma etcd_sel [simp]:
  "kv_Put (etcd_ops gs) now key v os c = ets_Put gs key v os c"
  "kv_Get (etcd_ops gs) key gos c = ets_Get gs key gos c"
  "kv_Delete (etcd_ops gs) now key ds c = ets_Delete gs key ds c"
  "kv_ListKeys (etcd_ops gs) p ls c = ets_ListKeys gs p ls c"
  "kv_History (etcd_ops gs) key hs c = ets_History gs key hs c"
  by (simp_all add: etcd_ops_def)

lemma etcd_cur_snoc:
  "log c' = log c @ [e] \<Longrightarrow> etcd_cur gs log c' key =
    (if me_Key e \<noteq> qualifiedKey gs key then etcd_cur gs log c key
     else map_option (\<lambda>(v, l). (projr (base64_Decode v), me_Rev e)) (me_Put e))"
  by (auto simp: etcd_cur_def mvcc_step_def split: option.splits)

lemma etcd_inv_snoc:
  "etcd_inv ok log c \<Longrightarrow> ok c' \<Longrightarrow> log c' = log c @ [e] \<Longrightarrow> (\<And>v l. me_Put e = Some (v, l) \<Longrightarrow> \<exists>b. base64_Decode v = Inr b)
     \<Longrightarrow> etcd_inv ok log c'"
  by (auto simp: etcd_inv_def)

lemma etcd_cur_rev:
  assumes "etcd_laws cl ok log head" "ok c" "etcd_cur gs log c key = Some (v, r)"
  shows "0 < r" "r \<le> head c"
proof -
  from assms(3) obtain kv where "kv_of (log c) (qualifiedKey gs key) = Some kv" "kv_ModRevision kv = r"
    by (auto simp: etcd_cur_def)
  from kv_of_entry [OF this(1)] this(2) obtain e where "e \<in> set (log c)" "me_Rev e = r" by auto
  with etcd_lawsD(1,3) [OF assms(1,2)] show "0 < r" "r \<le> head c" by (auto simp: mvcc_wf_def)
qed

lemma etcd_get:
  fixes gs :: "'c genericKeyValueStore" and os :: "GetOpt list"
  assumes L: "etcd_laws (gs_client gs) ok log head" and "etcd_inv ok log c" "key \<noteq> []"
  shows "get_Revision (get_options os) = None \<Longrightarrow> ets_Get gs key os c =
      (case etcd_cur gs log c key of None \<Rightarrow> Inl ErrNotFound
        | Some (v, r) \<Rightarrow> Inr (v, if get_RevisionOut (get_options os) then Some r else None))"
    "etcd_cur gs log c key = Some (v, r) \<Longrightarrow> get_Revision (get_options os) = Some r \<Longrightarrow>
       ets_Get gs key os c = Inr (v, if get_RevisionOut (get_options os) then Some r else None)"
proof -
  let ?q = "qualifiedKey gs key"
  note ok = etcd_invD(1) [OF assms(2)]
  note get = etcd_get_effect [OF L ok assms(3), of _ os]
  {
    assume "get_Revision (get_options os) = None"
    with get [of 0] etcd_lawsD(2) [OF L ok] have "ets_Get gs key os c = (case kv_of (log c) ?q of
          None \<Rightarrow> Inl ErrNotFound
        | Some kv \<Rightarrow> rbind (base64_Decode (kv_Value kv)) (\<lambda>v.
            Inr (v, if get_RevisionOut (get_options os) then Some (kv_ModRevision kv) else None)))"
      by (simp add: kv_at_def)
    then show "ets_Get gs key os c = (case etcd_cur gs log c key of None \<Rightarrow> Inl ErrNotFound
        | Some (v, r) \<Rightarrow> Inr (v, if get_RevisionOut (get_options os) then Some r else None))"
    proof (cases "kv_of (log c) ?q")
      case (Some kv)
      with etcd_decode [OF assms(2), of ?q kv] obtain b where "base64_Decode (kv_Value kv) = Inr b" by blast
      with Some \<open>ets_Get gs key os c = _\<close> show ?thesis by (simp add: etcd_cur_def)
    qed (simp add: etcd_cur_def)
  next
    assume cur: "etcd_cur gs log c key = Some (v, r)" and r: "get_Revision (get_options os) = Some r"
    from cur obtain kv where kv: "kv_of (log c) ?q = Some kv" "kv_ModRevision kv = r"
        "v = projr (base64_Decode (kv_Value kv))" by (auto simp: etcd_cur_def)
    have at: "kv_at (log c) r ?q = Some kv" "base64_Decode (kv_Value kv) = Inr v"
      using kv_at_current [OF etcd_lawsD(1) [OF L ok] kv(1)] kv(2,3) etcd_decode [OF assms(2) kv(1)] by simp_all
    show "ets_Get gs key os c = Inr (v, if get_RevisionOut (get_options os) then Some r else None)"
      using get [of r] etcd_cur_rev(2) [OF L ok cur] at kv(2) r by simp
  }
qed

lemma etcd_put_cases:
  fixes gs :: "'c genericKeyValueStore" and os :: "PutOpt list"
  assumes L: "etcd_laws (gs_client gs) ok log head" and "etcd_inv ok log c" "key \<noteq> []"
  obtains (stored) r c' where "put_condition (put_Revision (put_options os)) (kv_of (log c) (qualifiedKey gs key))"
      "ets_Put gs key v os c = (Inr (if put_RevisionOut (put_options os) then Some r else None), c')"
      "etcd_inv ok log c'" "head c < r"
      "\<And>k. etcd_cur gs log c' k = (if qualifiedKey gs k = qualifiedKey gs key then Some (v, r) else etcd_cur gs log c k)"
    | (refused) c' where "\<not> put_condition (put_Revision (put_options os)) (kv_of (log c) (qualifiedKey gs key))"
      "ets_Put gs key v os c = (Inl (errorf_w ''%w: revision mismatch'' ErrConflict), c')"
      "etcd_inv ok log c'" "log c' = log c"
proof -
  let ?q = "qualifiedKey gs key" and ?cond = "put_condition (put_Revision (put_options os)) (kv_of (log c) (qualifiedKey gs key))"
  note ok = etcd_invD(1) [OF assms(2)]
  from etcd_put_effect [OF L ok assms(3), of v os] obtain r c' where p: "head c < r" "ok c'"
    "ets_Put gs key v os c = (if ?cond then Inr (if put_RevisionOut (put_options os) then Some r else None)
         else Inl (errorf_w ''%w: revision mismatch'' ErrConflict), c')"
    "log c' = (if ?cond then log c @ [\<lparr>me_Rev = r, me_Key = ?q, me_Put = Some (base64_Encode v, lease_of (log c) ?q)\<rparr>] else log c)"
    by blast
  show thesis
  proof (cases ?cond)
    case True
    with p have log: "log c' = log c @ [\<lparr>me_Rev = r, me_Key = ?q, me_Put = Some (base64_Encode v, lease_of (log c) ?q)\<rparr>]" by simp
    moreover have "etcd_inv ok log c'" using etcd_inv_snoc [OF assms(2) p(2) log] by simp
    ultimately show thesis using stored [of r c'] p True etcd_cur_snoc [of log c' c _ gs, OF log] by auto
  next
    case False
    with p assms(2) show thesis by (intro refused [of c']) (auto simp: etcd_inv_def)
  qed
qed

lemma etcd_delete_cases:
  fixes gs :: "'c genericKeyValueStore" and os :: "DeleteOpt list"
  assumes L: "etcd_laws (gs_client gs) ok log head" and "etcd_inv ok log c" "key \<noteq> []"
  obtains (deleted) c' where "delete_condition (delete_Revision (delete_options os)) (kv_of (log c) (qualifiedKey gs key))"
      "ets_Delete gs key os c = (Inr (), c')" "etcd_inv ok log c'"
      "\<And>k. etcd_cur gs log c' k = (if qualifiedKey gs k = qualifiedKey gs key then None else etcd_cur gs log c k)"
    | (refused) c' e where "\<not> delete_condition (delete_Revision (delete_options os)) (kv_of (log c) (qualifiedKey gs key))"
      "ets_Delete gs key os c = (Inl e, c')" "etcd_inv ok log c'" "log c' = log c"
proof -
  let ?q = "qualifiedKey gs key" and ?cond = "delete_condition (delete_Revision (delete_options os)) (kv_of (log c) (qualifiedKey gs key))"
  note ok = etcd_invD(1) [OF assms(2)]
  from etcd_delete_effect [OF L ok assms(3), of os] obtain r x c' e where p: "ok c'" "ets_Delete gs key os c = (x, c')"
    "x = (if ?cond then Inr () else Inl e)"
    "log c' = (if ?cond \<and> kv_of (log c) ?q \<noteq> None then log c @ [\<lparr>me_Rev = r, me_Key = ?q, me_Put = None\<rparr>] else log c)"
    by blast
  have same: "etcd_inv ok log c'" if "log c' = log c" using that assms(2) p(1) by (auto simp: etcd_inv_def)
  show thesis
  proof (cases ?cond)
    case True
    show thesis
    proof (cases "kv_of (log c) ?q")
      case None
      with p True have log: "log c' = log c" by simp
      then have "etcd_cur gs log c' k = (if qualifiedKey gs k = ?q then None else etcd_cur gs log c k)" for k
        using None by (auto simp: etcd_cur_def)
      with same [OF log] p True show thesis by (intro deleted [of c']) auto
    next
      case (Some kv)
      with p True have log: "log c' = log c @ [\<lparr>me_Rev = r, me_Key = ?q, me_Put = None\<rparr>]" by simp
      have "etcd_inv ok log c'" using etcd_inv_snoc [OF assms(2) p(1) log] by simp
      with p True etcd_cur_snoc [of log c' c _ gs, OF log] show thesis by (intro deleted [of c']) auto
    qed
  next
    case False
    with p same show thesis by (intro refused [of e c']) auto
  qed
qed

lemma etcd_key_store:
  assumes L: "etcd_laws (gs_client gs) ok log head" and key: "key \<noteq> []"
  shows "value_store (WithKey (etcd_ops gs) key) (etcd_inv ok log) (\<lambda>c. etcd_cur gs log c key) (etcd_same log)"
proof (unfold_locales, goal_cases)
  case (1 s) then show ?case by (simp add: etcd_same_def)
next
  case (2 s s') then show ?case by (simp add: etcd_same_def etcd_cur_def)
next
  case (3 s os) then show ?case using etcd_get(1) [OF L 3(1) key 3(2)] by simp
next
  case (4 s now v ps)
  show ?case by (rule etcd_put_cases [OF L 4 key, where os = ps and v = v]) (simp_all add: etcd_put_cases)
next
  case (5 s now ds)
  show ?case by (rule etcd_delete_cases [OF L 5 key, where os = ds]) simp_all
next
  case (6 s now v ps ro)
  show ?case
  proof (rule etcd_put_cases [OF L 6(1) key, where os = ps and v = v], goal_cases)
    case (1 r c')
    have "r' < r" if "etcd_cur gs log s key = Some (v', r')" for v' r'
      using etcd_cur_rev(2) [OF L etcd_invD(1) [OF 6(1)] that] 1(4) by simp
    with 1 etcd_lawsD(2) [OF L etcd_invD(1) [OF 6(1)]] show ?case by auto
  qed (use 6 in simp)
next
  case (7 s now v ps e)
  show ?case by (rule etcd_put_cases [OF L 7(1) key, where os = ps and v = v]) (use 7 in \<open>auto simp: etcd_same_def\<close>)
next
  case (8 s ps r now v)
  have pos: "0 < r'" if "etcd_cur gs log s key = Some (v', r')" for v' r'
    by (rule etcd_cur_rev(1) [OF L etcd_invD(1) [OF 8(1)] that])
  show ?case
    by (rule etcd_put_cases [OF L 8(1) key, where os = ps and v = v])
      (use 8(2) pos in \<open>auto simp: put_condition_def etcd_cur_def split: if_splits\<close>)
next
  case (9 s now ds u)
  show ?case by (rule etcd_delete_cases [OF L 9(1) key, where os = ds]) (use 9 in simp_all)
next
  case (10 s now ds e)
  show ?case by (rule etcd_delete_cases [OF L 10(1) key, where os = ds]) (use 10 in \<open>auto simp: etcd_same_def\<close>)
next
  case (11 s v r ds now)
  show ?case
    by (rule etcd_delete_cases [OF L 11(1) key, where os = ds])
      (use 11(2) in \<open>auto simp: delete_condition_def etcd_cur_def split: option.splits\<close>)
next
  case (12 s v r os) then show ?case using etcd_get(2) [OF L 12(1) key 12(2,3)] by simp
next
  case (13 s os r v ro)
  note ok = etcd_invD(1) [OF 13(1)]
  from etcd_get_effect [OF L ok key, of r os] 13(2-5) obtain kv where
    "kv_at (log s) r (qualifiedKey gs key) = Some kv" "ro = Some (kv_ModRevision kv)"
    by (auto simp: rbind_Inr split: if_splits option.splits)
  with kv_at_rev [OF etcd_lawsD(1) [OF L ok] 13(5)] show ?case by simp
next
  case (14 s v r) show ?case by (rule etcd_cur_rev(1) [OF L etcd_invD(1) [OF 14(1)] 14(2)])
qed

lemma etcd_keyed_values:
  assumes L: "etcd_laws (gs_client gs) ok log head"
  shows "keyed_values (etcd_ops gs) (etcd_inv ok log) (etcd_cur gs log) (etcd_same log) plain_path"
proof (rule keyed_values.intro, goal_cases)
  case (1 key) then show ?case by (simp add: etcd_key_store [OF L] plain_nonempty)
next
  case (2 s key k now v os)
  have "qualifiedKey gs k \<noteq> qualifiedKey gs key" using Join_inj [OF 2(3,2)] 2(4) by (auto simp: qualifiedKey_def)
  then show ?case
    by (rule_tac etcd_put_cases [OF L 2(1) plain_nonempty [OF 2(2)], where os = os and v = v]) (auto simp: etcd_cur_def)
next
  case (3 s key k now ds)
  have "qualifiedKey gs k \<noteq> qualifiedKey gs key" using Join_inj [OF 3(3,2)] 3(4) by (auto simp: qualifiedKey_def)
  then show ?case
    by (rule_tac etcd_delete_cases [OF L 3(1) plain_nonempty [OF 3(2)], where os = ds]) (auto simp: etcd_cur_def)
qed

section \<open>A reference cluster\<close>

text \<open>A client over a log satisfies the laws.\<close>

definition ref_head :: "mvcc_entry list \<Rightarrow> int64" where
  "ref_head log = (if log = [] then 0 else me_Rev (last log))"

definition ref_client :: "mvcc_entry list etcd_client" where
  "ref_client =
     \<lparr>ec_Txn = (\<lambda>cmps thens elses log.
        case mvcc_op (ref_head log + 1) (OpTxn cmps thens elses) log of
          Some (ResponseTxn succeeded rs, log') \<Rightarrow> (Inr (succeeded, rs), log')
        | _ \<Rightarrow> (Inl (EtcdError InvalidArgument ''invalid transaction''), log)),
      ec_Get = (\<lambda>k os log.
        if opt_rev os > ref_head log then Inl (EtcdError OutOfRange ''required revision is a future revision'')
        else Inr (map (\<lambda>kv. if WithKeysOnly \<in> set os then kv\<lparr>kv_Value := []\<rparr> else kv)
          (if WithPrefix \<in> set os \<or> WithFirstCreate \<in> set os
           then somes (map (kv_of log) (filter (prefix k) (remdups (map me_Key log))))
           else (case kv_at log (opt_rev os) k of None \<Rightarrow> [] | Some kv \<Rightarrow> [kv])))),
      ec_Delete = (\<lambda>k log.
        case mvcc_op (ref_head log + 1) (OpDelete k) log of
          Some (ResponseDelete n, log') \<Rightarrow> (Inr n, log')
        | _ \<Rightarrow> (Inl (EtcdError InvalidArgument ''invalid deletion''), log)),
      ec_Watch = (\<lambda>k os log.
        ([\<lparr>wr_Err = None, wr_IsProgressNotify = False,
           wr_Events = events_from (WithPrevKV \<in> set os) (opt_rev os) k log\<rparr>],
         ContextDone (status_error (OtherCode 1) ''context canceled'')))\<rparr>"

lemma ref_head_bound: "mvcc_wf log \<Longrightarrow> e \<in> set log \<Longrightarrow> me_Rev e \<le> ref_head log"
  by (induction log rule: rev_induct) (auto simp: ref_head_def mvcc_wf_def sorted_wrt_append)

lemma ref_head_nonneg: "mvcc_wf log \<Longrightarrow> 0 \<le> ref_head log"
  by (cases "log = []") (auto simp: ref_head_def mvcc_wf_def intro: less_imp_le)

lemma mvcc_op_wf:
  "mvcc_op r op log = Some (x, log') \<Longrightarrow> mvcc_wf log \<Longrightarrow> (\<forall>e \<in> set log. me_Rev e \<le> r) \<Longrightarrow> 0 < r
     \<Longrightarrow> mvcc_wf log' \<and> (\<forall>e \<in> set log'. me_Rev e \<le> r)"
  "mvcc_ops r ops log = Some (xs, log') \<Longrightarrow> mvcc_wf log \<Longrightarrow> (\<forall>e \<in> set log. me_Rev e \<le> r) \<Longrightarrow> 0 < r
     \<Longrightarrow> mvcc_wf log' \<and> (\<forall>e \<in> set log'. me_Rev e \<le> r)"
proof (induction r op log and r ops log arbitrary: x log' and xs log' rule: mvcc_op_mvcc_ops.induct)
  case (1 r k v il log)
  then show ?case
    by (auto simp: mvcc_wf_def sorted_wrt_append written_at_def list_ex_iff order.strict_iff_order split: if_splits)
next
  case (2 r k log)
  then show ?case
    by (auto simp: mvcc_wf_def sorted_wrt_append written_at_def list_ex_iff order.strict_iff_order split: if_splits)
next
  case (3 r cmps thens elses log)
  then show ?case by (auto split: if_splits)
next
  case (5 r op ops log)
  then show ?case by (auto split: option.splits)
qed simp

lemma mvcc_txn_shape: "mvcc_op r (OpTxn cmps thens elses) log = Some (x, log') \<Longrightarrow> \<exists>b rs. x = ResponseTxn b rs"
  by (auto split: if_splits)

lemma mvcc_op_next_wf:
  "mvcc_wf log \<Longrightarrow> mvcc_op (ref_head log + 1) op log = Some (x, log') \<Longrightarrow> mvcc_wf log'"
  using mvcc_op_wf(1) [of "ref_head log + 1" op log x log'] ref_head_bound [of log] ref_head_nonneg [of log] by force

lemma ref_not_written: "mvcc_wf log \<Longrightarrow> \<not> written_at (ref_head log + 1) k log"
  using ref_head_bound by (fastforce simp: written_at_def list_ex_iff)

lemma log_events_put:
  "(\<exists>kv. kv_of log k = Some kv) \<Longrightarrow> k \<in> set (map me_Key log)"
  using kv_of_entry by fastforce

lemma ref_list: "list_law ref_client mvcc_wf (\<lambda>log. log)"
  unfolding list_law_def
proof (intro allI impI)
  fix log p assume "mvcc_wf log"
  let ?ks = "filter (prefix p) (remdups (map me_Key log))"
  have key: "kv_Key kv = k" if "kv_of log k = Some kv" for k kv using kv_of_entry [OF that] by auto
  have keys: "map kv_Key (map (\<lambda>kv. kv\<lparr>kv_Value := []\<rparr>) (somes (map (kv_of log) ks))) = filter (\<lambda>k. kv_of log k \<noteq> None) ks" for ks
    using key by (induction ks) (auto simp: somes_def)
  let ?kvs = "map (\<lambda>kv. kv\<lparr>kv_Value := []\<rparr>) (somes (map (kv_of log) ?ks))"
  have "ec_Get ref_client p [WithPrefix, WithKeysOnly] log = Inr ?kvs"
    using ref_head_nonneg [OF \<open>mvcc_wf log\<close>] by (simp add: ref_client_def)
  moreover have "distinct (map kv_Key ?kvs)" unfolding keys by simp
  moreover have "set (map kv_Key ?kvs) = keys_under p log"
    unfolding keys using log_events_put [of log] by (auto simp: keys_under_def)
  ultimately show "\<exists>kvs. ec_Get ref_client p [WithPrefix, WithKeysOnly] log = Inr kvs \<and> distinct (map kv_Key kvs)
      \<and> set (map kv_Key kvs) = keys_under p log" by blast
qed

lemma ref_laws: "etcd_laws ref_client mvcc_wf (\<lambda>log. log) ref_head"
  unfolding etcd_laws_def
proof (intro conjI allI impI ballI)
  show "get_law ref_client mvcc_wf (\<lambda>log. log) ref_head" by (auto simp: get_law_def ref_client_def)
  show "list_law ref_client mvcc_wf (\<lambda>log. log)" by (rule ref_list)
  show "watch_law ref_client mvcc_wf (\<lambda>log. log)" by (auto simp: watch_law_def ref_client_def)
  show "txn_law ref_client mvcc_wf (\<lambda>log. log) ref_head"
    unfolding txn_law_def
    by (auto simp: ref_client_def simp del: mvcc_op.simps intro!: exI [of _ "ref_head _ + 1"] dest: mvcc_op_next_wf)
  show "delete_law ref_client mvcc_wf (\<lambda>log. log) ref_head"
    unfolding delete_law_def
  proof (intro allI impI)
    fix log k assume "mvcc_wf (log :: mvcc_entry list)"
    then show "\<exists>r > ref_head log. \<exists>n c'. ec_Delete ref_client k log = (Inr n, c')
        \<and> mvcc_op r (OpDelete k) log = Some (ResponseDelete n, c') \<and> mvcc_wf c'"
      using ref_not_written [of log k] mvcc_op_next_wf [of log "OpDelete k"]
      by (intro exI [of _ "ref_head log + 1"]) (auto simp: ref_client_def)
  qed
qed (simp_all add: ref_head_bound ref_head_nonneg)

interpretation etcd_ref:
  keyed_values "etcd_ops \<lparr>gs_client = ref_client, gs_prefix = pre\<rparr>" "etcd_inv mvcc_wf (\<lambda>log. log)"
    "etcd_cur \<lparr>gs_client = ref_client, gs_prefix = pre\<rparr> (\<lambda>log. log)" "etcd_same (\<lambda>log. log)" plain_path
  for pre
  by (rule etcd_keyed_values [where head = ref_head]) (simp add: ref_laws)

end
