(* ===== verification/MsgCountable.thy ===== *)
theory MsgCountable
  imports Msg "HOL-Library.Countable"
begin

text \<open>
  Messages are countable, so they can be numbered: the codecs of the examples carry a message as its number.
\<close>

instance kind :: countable
  by countable_datatype

instance fdesc_ext :: (countable) countable
  by (rule countable_classI [of "\<lambda>r. to_nat (fd_Name r, fd_Kind r, fd_IsList r, fd_IsMap r, fd_Message r,
    fd_Masked r, fd_Oneof r, fdesc.more r)"]) simp

instance scalar :: countable
  by countable_datatype

instance pval and pmsg :: countable
  by countable_datatype

end
