(* ===== verification/EtcdProps.thy ===== *)
theory EtcdProps
  imports EtcdIface ServerProps MsgCountable
begin

text \<open>
  The properties of the etcd driver: a put is one conditional write that keeps the lease of its key, the
  history of a key is the list of its writes since it was created, and the config tracker on top of it.
  Keys with dots leave the prefix of a store, and listing looks beyond it.
\<close>

section \<open>Writing\<close>

text \<open>
  Whatever the nested transactions do, a \<open>Put\<close> commits exactly one write, with the lease the key had
  and at a revision newer than every other, if the requested revision is the key's (\<open>0\<close>: if the key does
  not exist) or none is requested; otherwise it fails with a conflict and commits nothing.
\<close>

theorem etcd_put_one_write:
  assumes "etcd_laws (gs_client gs) ok log head" "ok c" "key \<noteq> []"
    and "put_Revision (put_options os) = revision" "kv_of (log c) (qualifiedKey gs key) = kv"
  shows "\<exists>c'. ok c' \<and>
    (if case revision of None \<Rightarrow> True | Some r \<Rightarrow> if r > 0 then map_option kv_ModRevision kv = Some r else kv = None
     then \<exists>r. (\<forall>e \<in> set (log c). me_Rev e < r)
       \<and> ets_Put gs key v os c = (Inr (if put_RevisionOut (put_options os) then Some r else None), c')
       \<and> log c' = log c @ [\<lparr>me_Rev = r, me_Key = qualifiedKey gs key,
           me_Put = Some (base64_Encode v, lease_of (log c) (qualifiedKey gs key))\<rparr>]
     else \<exists>e. ets_Put gs key v os c = (Inl e, c') \<and> IsConflict (Some e) \<and> log c' = log c)"
proof -
  have cond: "put_condition revision kv \<longleftrightarrow>
      (case revision of None \<Rightarrow> True | Some r \<Rightarrow> if r > 0 then map_option kv_ModRevision kv = Some r else kv = None)"
    by (auto simp: put_condition_def split: option.splits)
  have kv: "put_condition (put_Revision (put_options os)) (kv_of (log c) (qualifiedKey gs key)) = put_condition revision kv"
    using assms(4,5) by simp
  from etcd_put_effect [OF assms(1-3), of v os, unfolded kv] obtain r c' where p: "head c < r" "ok c'"
    "ets_Put gs key v os c = (if put_condition revision kv then Inr (if put_RevisionOut (put_options os) then Some r else None)
       else Inl (errorf_w ''%w: revision mismatch'' ErrConflict), c')"
    "log c' = (if put_condition revision kv then log c @ [\<lparr>me_Rev = r, me_Key = qualifiedKey gs key,
       me_Put = Some (base64_Encode v, lease_of (log c) (qualifiedKey gs key))\<rparr>] else log c)" by blast
  have "\<forall>e \<in> set (log c). me_Rev e < r" using etcd_lawsD(3) [OF assms(1,2)] p(1) by fastforce
  with p show ?thesis unfolding cond [symmetric] by (intro exI [of _ c']) auto
qed

definition ex_log :: "mvcc_entry list" where
  "ex_log = [\<lparr>me_Rev = 2, me_Key = ''p/k'', me_Put = Some (base64_Encode [1, 2], 7)\<rparr>,
     \<lparr>me_Rev = 3, me_Key = ''p2/k'', me_Put = Some (base64_Encode [5], 0)\<rparr>,
     \<lparr>me_Rev = 5, me_Key = ''p/k'', me_Put = Some (base64_Encode [3], 7)\<rparr>]"

abbreviation ex_gs :: "string \<Rightarrow> mvcc_entry list genericKeyValueStore" where
  "ex_gs pre \<equiv> \<lparr>gs_client = ref_client, gs_prefix = pre\<rparr>"

lemma ex_laws: "etcd_laws (gs_client (ex_gs pre)) mvcc_wf (\<lambda>log. log) ref_head"
  using ref_laws by simp

lemma ex_log_wf: "mvcc_wf ex_log" "etcd_inv mvcc_wf (\<lambda>log. log) ex_log"
proof -
  show wf: "mvcc_wf ex_log" by (simp add: mvcc_wf_def ex_log_def)
  show "etcd_inv mvcc_wf (\<lambda>log. log) ex_log" using wf by (auto simp: etcd_inv_def ex_log_def simp del: base64_Encode.simps)
qed

lemma etcd_put_one_write_witness:
  "\<exists>r. snd (ets_Put (ex_gs ''p'') ''k'' [9] [Put_RevisionOpt 5] ex_log) =
     ex_log @ [\<lparr>me_Rev = r, me_Key = ''p/k'', me_Put = Some (base64_Encode [9], 7)\<rparr>] \<and> 5 < r"
proof -
  have "qualifiedKey (ex_gs ''p'') ''k'' = ''p/k''" "lease_of ex_log ''p/k'' = 7"
    "map_option kv_ModRevision (kv_of ex_log ''p/k'') = Some 5" "\<exists>e \<in> set ex_log. me_Rev e = 5"
    by code_simp+
  with etcd_put_one_write [OF ex_laws ex_log_wf(1), of "''k''" "[Put_RevisionOpt 5]" "Some 5" "''p''" _ "[9]", OF _ _ refl]
  show ?thesis by auto
qed

section \<open>History\<close>

text \<open>What the history reads of an event and of the write behind it.\<close>

definition event_view :: "etcd_event \<Rightarrow> (string option \<times> int64)" where
  "event_view ev = (if ee_Type ev = EventTypePut then Some (kv_Value (ee_Kv ev)) else None, kv_ModRevision (ee_Kv ev))"

definition entry_view :: "mvcc_entry \<Rightarrow> (string option \<times> int64)" where
  "entry_view e = (map_option fst (me_Put e), me_Rev e)"

lemma events_view:
  "map event_view (events_from prev r k log) = map entry_view (filter (\<lambda>e. me_Key e = k \<and> r \<le> me_Rev e) log)"
proof -
  have "map event_view (filter (\<lambda>ev. r \<le> kv_ModRevision (ee_Kv ev)) (log_events prev k kv log)) =
      map entry_view (filter (\<lambda>e. me_Key e = k \<and> r \<le> me_Rev e) log)" for kv
    by (induction prev k kv log rule: log_events.induct)
      (auto simp: Let_def mvcc_step_def event_view_def entry_view_def split: option.splits)
  then show ?thesis by (simp add: events_from_def)
qed

definition history_record :: "bool \<Rightarrow> string \<Rightarrow> string option \<times> int64 \<Rightarrow> 8 word list KeyRevisionImpl" where
  "history_record includeValues key x =
     \<lparr>kr_K = key, kr_V = if includeValues then projr (base64_Decode (the (fst x))) else [], kr_Rev = snd x, kr_Time = zero_time\<rparr>"

definition good_view :: "string option \<times> int64 \<Rightarrow> bool" where
  "good_view x \<longleftrightarrow> (\<forall>v. fst x = Some v \<longrightarrow> (\<exists>b. base64_Decode v = Inr b))"

lemma history_events_before:
  "\<forall>x \<in> set (map event_view evs). good_view x \<and> snd x \<noteq> latest \<Longrightarrow>
     history_events iv latest key (evs @ evs') revs =
       history_events iv latest key evs' (revs @ map (history_record iv key) (filter (\<lambda>x. fst x \<noteq> None) (map event_view evs)))"
  by (induction evs arbitrary: revs) (auto simp: event_view_def good_view_def history_record_def Let_def rbind_def)

lemma history_events_latest:
  assumes "\<forall>x \<in> set (map event_view evs). good_view x \<and> snd x \<noteq> latest"
    and "event_view ev = (Some v, latest)" "base64_Decode v = Inr b"
  shows "history_events iv latest key (evs @ ev # evs') revs =
    Inr (True, revs @ map (history_record iv key) (filter (\<lambda>x. fst x \<noteq> None) (map event_view evs))
      @ [history_record iv key (Some v, latest)])"
  using assms(2,3) unfolding history_events_before [OF assms(1)]
  by (auto simp: event_view_def history_record_def Let_def split: if_splits)

text \<open>However the events are split into responses, the loop ends at the latest one.\<close>

lemma history_responses_latest:
  assumes "event_view ev = (Some v, latest)" "base64_Decode v = Inr b"
  shows "concat (map wr_Events resps) = evs @ ev # evs' \<Longrightarrow> \<forall>resp \<in> set resps. wr_Err resp = None \<Longrightarrow>
    \<forall>x \<in> set (map event_view evs). good_view x \<and> snd x \<noteq> latest \<Longrightarrow>
    history_responses iv latest key resps wend revs =
      Inr (revs @ map (history_record iv key) (filter (\<lambda>x. fst x \<noteq> None) (map event_view evs))
        @ [history_record iv key (Some v, latest)])"
proof (induction resps arbitrary: evs revs)
  case (Cons resp resps)
  from Cons.prems(1) consider us where "wr_Events resp = evs @ ev # us"
    | us where "evs = wr_Events resp @ us" "concat (map wr_Events resps) = us @ ev # evs'"
    by (auto simp: append_eq_append_conv2 append_eq_Cons_conv)
  then show ?case
  proof cases
    case (1 us)
    with Cons.prems history_events_latest [OF Cons.prems(3) assms, of iv key us revs] show ?thesis by simp
  next
    case (2 us)
    with Cons.prems have "\<forall>x \<in> set (map event_view (wr_Events resp)). good_view x \<and> snd x \<noteq> latest" by auto
    from history_events_before [OF this, of iv key "[]" revs] 2 Cons.prems Cons.IH [OF 2(2)] show ?thesis by simp
  qed
qed simp

lemma kv_of_create:
  assumes "mvcc_wf log" "kv_of log k = Some kv"
  shows "0 < kv_CreateRevision kv" "kv_CreateRevision kv \<le> kv_ModRevision kv"
proof -
  have "mvcc_wf log \<Longrightarrow> kv_of log k = Some kv \<Longrightarrow> 0 < kv_CreateRevision kv \<and> kv_CreateRevision kv \<le> kv_ModRevision kv"
  proof (induction log arbitrary: kv rule: rev_induct)
    case (snoc e log)
    have wf: "mvcc_wf log" "0 < me_Rev e" "\<forall>e' \<in> set log. me_Rev e' \<le> me_Rev e"
      using snoc.prems(1) by (auto simp: mvcc_wf_def sorted_wrt_append)
    show ?case
    proof (cases "kv_of log k")
      case (Some kv')
      with kv_of_entry [OF Some] have "kv_ModRevision kv' \<le> me_Rev e" using wf(3) by auto
      with snoc.IH [OF wf(1) Some] snoc.prems(2) Some show ?thesis by (auto simp: mvcc_step_def split: if_splits option.splits)
    qed (use snoc.prems wf in \<open>auto simp: mvcc_step_def split: if_splits option.splits\<close>)
  qed simp
  with assms show "0 < kv_CreateRevision kv" "kv_CreateRevision kv \<le> kv_ModRevision kv" by simp_all
qed

lemma sorted_split:
  assumes "sorted_wrt (\<lambda>a b. f a < (f b :: int)) xs" "x \<in> set xs"
  shows "\<exists>ys zs. xs = ys @ x # zs \<and> ys = filter (\<lambda>y. f y < f x) xs"
proof -
  from assms(2) obtain ys zs where xs: "xs = ys @ x # zs" by (auto simp: in_set_conv_decomp)
  with assms(1) have "\<forall>y \<in> set ys. f y < f x" "\<forall>z \<in> set zs. \<not> f z < f x"
    by (auto simp: sorted_wrt_append)
  then have "filter (\<lambda>y. f y < f x) xs = ys" unfolding xs by simp
  then show ?thesis using xs by metis
qed

text \<open>The writes to a key from its creation to the version that a read shows, which is the last of them.\<close>

lemma log_until_latest:
  assumes wf: "mvcc_wf log" and kv: "kv_at log r q = Some kv"
  obtains e0 l ys zs where "e0 \<in> set log" "me_Rev e0 = kv_ModRevision kv" "me_Put e0 = Some (kv_Value kv, l)"
    "filter (\<lambda>e. me_Key e = q \<and> kv_CreateRevision kv \<le> me_Rev e) log = ys @ e0 # zs" "0 < kv_CreateRevision kv"
    "\<forall>e \<in> set ys. e \<in> set log \<and> me_Rev e \<noteq> kv_ModRevision kv"
    "filter (\<lambda>e. me_Key e = q \<and> kv_CreateRevision kv \<le> me_Rev e \<and> me_Rev e \<le> kv_ModRevision kv \<and> me_Put e \<noteq> None) log
       = filter (\<lambda>e. me_Put e \<noteq> None) ys @ [e0]"
proof -
  obtain P where P: "kv_of (filter P log) q = Some kv"
  proof (cases "r \<le> 0")
    case True with kv that [of "\<lambda>_. True"] show thesis by (simp add: kv_at_def)
  next
    case False with kv that [of "\<lambda>e. me_Rev e \<le> r"] show thesis by (simp add: kv_at_def)
  qed
  have wfP: "mvcc_wf (filter P log)" using wf by (auto simp: mvcc_wf_def intro: sorted_wrt_filter)
  let ?es = "filter (\<lambda>e. me_Key e = q \<and> kv_CreateRevision kv \<le> me_Rev e) log"
  from kv_of_entry [OF P] obtain e0 l where e0: "e0 \<in> set log" "me_Key e0 = q" "me_Rev e0 = kv_ModRevision kv"
    "me_Put e0 = Some (kv_Value kv, l)" by auto
  have create: "0 < kv_CreateRevision kv" "kv_CreateRevision kv \<le> kv_ModRevision kv" by (rule kv_of_create [OF wfP P])+
  have sorted: "sorted_wrt (\<lambda>a b. me_Rev a < me_Rev b) ?es"
  proof (rule sorted_wrt_mono_rel)
    show "sorted_wrt (\<lambda>a b. me_Rev a \<le> me_Rev b \<and> (me_Key a = me_Key b \<longrightarrow> me_Rev a < me_Rev b)) ?es"
      using wf by (auto simp: mvcc_wf_def intro: sorted_wrt_filter)
  qed simp
  then obtain ys zs where es: "?es = ys @ e0 # zs" "ys = filter (\<lambda>e. me_Rev e < me_Rev e0) ?es"
    using sorted_split [of me_Rev ?es e0] e0 create by auto
  have "\<forall>e \<in> set zs. me_Rev e0 < me_Rev e" "\<forall>e \<in> set ys. me_Rev e < me_Rev e0"
    using sorted unfolding es(1) by (auto simp: sorted_wrt_append)
  then have "filter (\<lambda>e. me_Rev e \<le> kv_ModRevision kv \<and> me_Put e \<noteq> None) ys = filter (\<lambda>e. me_Put e \<noteq> None) ys"
    "filter (\<lambda>e. me_Rev e \<le> kv_ModRevision kv \<and> me_Put e \<noteq> None) zs = []"
    using e0(3) by (auto intro!: filter_cong simp: filter_empty_conv)
  then have "filter (\<lambda>e. me_Rev e \<le> kv_ModRevision kv \<and> me_Put e \<noteq> None) ?es = filter (\<lambda>e. me_Put e \<noteq> None) ys @ [e0]"
    unfolding es(1) using e0(3,4) by simp
  then have latest: "filter (\<lambda>e. me_Key e = q \<and> kv_CreateRevision kv \<le> me_Rev e \<and> me_Rev e \<le> kv_ModRevision kv
      \<and> me_Put e \<noteq> None) log = filter (\<lambda>e. me_Put e \<noteq> None) ys @ [e0]"
    by (simp add: conj_ac)
  have "\<forall>e \<in> set ys. e \<in> set log \<and> me_Rev e \<noteq> kv_ModRevision kv" using es(2) e0(3) by auto
  from that [OF e0(1,3,4) es(1) create(1) this latest] show thesis .
qed

text \<open>What the loop over the responses of a watch from the creation of the key returns.\<close>

lemma watch_history:
  assumes L: "etcd_laws (gs_client gs) ok log head" and inv: "etcd_inv ok log c"
    and e0: "e0 \<in> set (log c)" "me_Rev e0 = kv_ModRevision kv" "me_Put e0 = Some (kv_Value kv, l)"
    and es: "filter (\<lambda>e. me_Key e = q \<and> kv_CreateRevision kv \<le> me_Rev e) (log c) = ys @ e0 # zs" "0 < kv_CreateRevision kv"
    and ys: "\<forall>e \<in> set ys. e \<in> set (log c) \<and> me_Rev e \<noteq> kv_ModRevision kv"
    and w: "ec_Watch (gs_client gs) q ws c = (resps, wend)" "WithPrefix \<notin> set ws" "opt_rev ws = kv_CreateRevision kv" "WithPrevKV \<notin> set ws"
  shows "history_responses iv (kv_ModRevision kv) key resps wend [] =
    Inr (map (history_record iv key) (map entry_view (filter (\<lambda>e. me_Put e \<noteq> None) ys))
      @ [history_record iv key (Some (kv_Value kv), kv_ModRevision kv)])"
proof -
  from etcd_lawsD(8) [OF L, unfolded watch_law_def, rule_format, of c ws q] etcd_invD(1) [OF inv] w es(2) obtain live where
    live: "concat (map wr_Events resps) = events_from False (kv_CreateRevision kv) q (log c) @ live"
      "\<forall>resp \<in> set resps. wr_Err resp = None" by auto
  from events_view [of False "kv_CreateRevision kv" q "log c"] obtain evs ev evs' where
    evs: "events_from False (kv_CreateRevision kv) q (log c) = evs @ ev # evs'" "map event_view evs = map entry_view ys"
      "event_view ev = entry_view e0"
    unfolding es(1) by (auto simp: map_eq_append_conv map_eq_Cons_conv)
  from e0(1,3) inv obtain b where b: "base64_Decode (kv_Value kv) = Inr b" unfolding etcd_inv_def by blast
  have "good_view (entry_view e) \<and> me_Rev e \<noteq> kv_ModRevision kv" if "e \<in> set ys" for e
    using that ys inv by (auto simp: good_view_def entry_view_def etcd_inv_def)
  then have before: "\<forall>x \<in> set (map event_view evs). good_view x \<and> snd x \<noteq> kv_ModRevision kv"
    unfolding evs(2) by (auto simp: entry_view_def)
  have "filter (\<lambda>x. fst x \<noteq> None) (map entry_view ys) = map entry_view (filter (\<lambda>e. me_Put e \<noteq> None) ys)"
    by (simp add: filter_map entry_view_def comp_def)
  then show ?thesis
    using history_responses_latest [of ev "kv_Value kv" "kv_ModRevision kv" b resps evs "evs' @ live" iv key wend "[]"]
      live evs before b e0(2,3) by (simp add: entry_view_def)
qed

text \<open>
  C33. The history of a key, up to a revision or to now, is exactly the list of writes to it since it was
  last created, oldest first and ending with the latest, with their values if these were asked for;
  however the client splits the events into responses, the call returns as soon as it has the latest.
\<close>

theorem etcd_history:
  assumes L: "etcd_laws (gs_client gs) ok log head" and inv: "etcd_inv ok log c" and "key \<noteq> []"
    and r: "r = (case history_Revision (history_options os) of None \<Rightarrow> 0 | Some r \<Rightarrow> r)" "r \<le> head c"
    and kv: "kv_at (log c) r (qualifiedKey gs key) = Some kv"
  shows "ets_History gs key os c =
    Inr (map (\<lambda>e. \<lparr>kr_K = key,
           kr_V = if history_IncludeValues (history_options os) then projr (base64_Decode (fst (the (me_Put e)))) else [],
           kr_Rev = me_Rev e, kr_Time = zero_time\<rparr>)
      (filter (\<lambda>e. me_Key e = qualifiedKey gs key \<and> kv_CreateRevision kv \<le> me_Rev e \<and> me_Rev e \<le> kv_ModRevision kv
         \<and> me_Put e \<noteq> None) (log c)))"
proof -
  let ?q = "qualifiedKey gs key" and ?iv = "history_IncludeValues (history_options os)"
  define keys where "keys = (if \<not> ?iv then [WithKeysOnly] else [])"
  let ?os = "[WithLimit 1] @ keys @ (case history_Revision (history_options os) of None \<Rightarrow> [] | Some r \<Rightarrow> [WithRev r])"
  let ?w = "keys @ [WithRev (kv_CreateRevision kv)]"
  note ok = etcd_invD(1) [OF inv]
  from log_until_latest [OF etcd_lawsD(1) [OF L ok] kv] obtain e0 l ys zs where e0: "e0 \<in> set (log c)"
    "me_Rev e0 = kv_ModRevision kv" "me_Put e0 = Some (kv_Value kv, l)"
    "filter (\<lambda>e. me_Key e = ?q \<and> kv_CreateRevision kv \<le> me_Rev e) (log c) = ys @ e0 # zs" "0 < kv_CreateRevision kv"
    "\<forall>e \<in> set ys. e \<in> set (log c) \<and> me_Rev e \<noteq> kv_ModRevision kv"
    "filter (\<lambda>e. me_Key e = ?q \<and> kv_CreateRevision kv \<le> me_Rev e \<and> me_Rev e \<le> kv_ModRevision kv \<and> me_Put e \<noteq> None) (log c)
       = filter (\<lambda>e. me_Put e \<noteq> None) ys @ [e0]" .
  obtain resps wend where w: "ec_Watch (gs_client gs) ?q ?w c = (resps, wend)" by (cases "ec_Watch (gs_client gs) ?q ?w c")
  have "WithPrefix \<notin> set ?w" "opt_rev ?w = kv_CreateRevision kv" "WithPrevKV \<notin> set ?w" by (auto simp: keys_def)
  note responses = watch_history [OF L inv e0(1-6) w this, of ?iv key]
  have "WithPrefix \<notin> set ?os" "WithFirstCreate \<notin> set ?os" "opt_rev ?os = r"
    using r(1) by (auto simp: keys_def split: option.splits)
  with etcd_lawsD(4) [OF L, unfolded get_law_def, rule_format, of c ?os ?q] ok r(2) kv obtain kv' where
    kv': "ec_Get (gs_client gs) ?q ?os c = Inr [kv']"
      "kv_CreateRevision kv' = kv_CreateRevision kv" "kv_ModRevision kv' = kv_ModRevision kv" by auto
  have "ets_History gs key os c = history_responses ?iv (kv_ModRevision kv) key resps wend []"
    unfolding ets_History_def Let_def keys_def [symmetric] using assms(3) w kv' by (simp add: etcd_validateKey_def)
  with responses show ?thesis
    unfolding e0(7) using e0(2,3) by (auto simp: history_record_def entry_view_def comp_def)
qed

lemma ex_keys: "qualifiedKey (ex_gs ''p'') ''k'' = ''p/k''" "qualifiedKey (ex_gs ''p2'') ''k'' = ''p2/k''"
  by code_simp+

lemma etcd_history_witness:
  "ets_History (ex_gs ''p'') ''k'' [History_IncludeValuesOpt True] ex_log =
     Inr [\<lparr>kr_K = ''k'', kr_V = [1, 2], kr_Rev = 2, kr_Time = zero_time\<rparr>, \<lparr>kr_K = ''k'', kr_V = [3], kr_Rev = 5, kr_Time = zero_time\<rparr>]"
proof -
  have "kv_at ex_log 0 ''p/k'' = Some \<lparr>kv_Key = ''p/k'', kv_Value = base64_Encode [3], kv_CreateRevision = 2, kv_ModRevision = 5\<rparr>"
    by code_simp
  from etcd_history [OF ex_laws ex_log_wf(2), of "''k''" 0 "[History_IncludeValuesOpt True]" "''p''", unfolded ex_keys, OF _ _ _ this]
  show ?thesis by (simp add: ex_log_def ref_head_def del: base64_Encode.simps)
qed

section \<open>Configurations in etcd\<close>

text \<open>The config tracker with the active configuration under a key of etcd, in a codec.\<close>

definition etcd_tracker ::
  "(pmsg \<Rightarrow> 8 word list result) \<Rightarrow> (8 word list \<Rightarrow> pmsg result) \<Rightarrow> pmsg \<Rightarrow> 'c genericKeyValueStore \<Rightarrow> string
     \<Rightarrow> ('t, 'v) ConfigType \<Rightarrow> ('t, 'v, pmsg inMemoryValueStore, 'c) DefaultingConfigTracker" where
  "etcd_tracker marshal unmarshal nilMsg gs key ty =
     NewDefaultingConfigTracker inMemory_ops (WithMessageCodec marshal unmarshal nilMsg (WithKey (etcd_ops gs) key)) ty"

abbreviation etcd_config where
  "etcd_config unmarshal gs log key \<equiv> codec_cur unmarshal (\<lambda>c. etcd_cur gs log c key)"

abbreviation etcd_config_inv where
  "etcd_config_inv unmarshal gs ok log key \<equiv> codec_inv unmarshal (etcd_inv ok log) (\<lambda>c. etcd_cur gs log c key)"

lemma etcd_tracker_locale:
  assumes "etcd_laws (gs_client gs) ok log head" "codec_laws marshal unmarshal" "key \<noteq> []"
  shows "tracker (etcd_tracker marshal unmarshal nilMsg gs key ty) inMemory_inv inMemory_cur (=)
    (etcd_config_inv unmarshal gs ok log key) (etcd_config unmarshal gs log key) (etcd_same log)"
  using codec_value_store [OF etcd_key_store [OF assms(1,3)] assms(2)] inmem.value_store_axioms
  by (simp add: tracker_def etcd_tracker_def)

text \<open>
  C32. The config tracker keeps its promise on etcd: \<open>Apply\<close> of a configuration with no revision or the
  current one stores the merge onto the active (or default) configuration at a newer revision, and with
  the revision of an older configuration it fails and nothing is written.
\<close>

theorem etcd_apply:
  assumes "etcd_laws (gs_client gs) ok log head" "codec_laws marshal unmarshal" "key \<noteq> []"
    and "inMemory_inv d" "etcd_config_inv unmarshal gs ok log key c"
    and "etcd_config unmarshal gs log key c = cur" "Revision_number (GetRevision newConfig) = n"
    and "base_config (etcd_tracker marshal unmarshal nilMsg gs key ty) (inMemory_cur d) cur = (base, r)"
  shows "(n = None \<or> n = map_option snd cur \<longrightarrow>
      (case applied (etcd_tracker marshal unmarshal nilMsg gs key ty) base newConfig of
         Inl e \<Rightarrow> Apply (etcd_tracker marshal unmarshal nilMsg gs key ty) now newConfig (d, c) = (Inl e, d, c)
       | Inr x \<Rightarrow> \<exists>c' r'. Apply (etcd_tracker marshal unmarshal nilMsg gs key ty) now newConfig (d, c) = (Inr (), d, c')
           \<and> etcd_config unmarshal gs log key c' = Some (x, r') \<and> r < r'))
    \<and> (\<forall>m v r'. n = Some m \<and> cur = Some (v, r') \<and> 0 < m \<and> m < r' \<longrightarrow>
        (\<exists>e c'. Apply (etcd_tracker marshal unmarshal nilMsg gs key ty) now newConfig (d, c) = (Inl e, d, c') \<and> log c' = log c))"
proof (intro conjI allI impI)
  let ?ct = "etcd_tracker marshal unmarshal nilMsg gs key ty"
  note T = etcd_tracker_locale [OF assms(1-3), of nilMsg ty]
  {
    assume n: "n = None \<or> n = map_option snd cur"
    have "case n of None \<Rightarrow> True | Some m \<Rightarrow> \<exists>v. etcd_config unmarshal gs log key c = Some (v, m)"
      using n assms(6) by (cases cur; cases n) auto
    from tracker.Apply_current [OF T assms(4,5), of newConfig now] this assms(6-8)
    show "case applied ?ct base newConfig of
         Inl e \<Rightarrow> Apply ?ct now newConfig (d, c) = (Inl e, d, c)
       | Inr x \<Rightarrow> \<exists>c' r'. Apply ?ct now newConfig (d, c) = (Inr (), d, c')
           \<and> etcd_config unmarshal gs log key c' = Some (x, r') \<and> r < r'"
      by (cases "applied ?ct base newConfig") auto
  next
    fix m v r' assume "n = Some m \<and> cur = Some (v, r') \<and> 0 < m \<and> m < r'"
    with tracker.Apply_older [OF T assms(4,5), of v r' newConfig m now] assms(6,7)
    show "\<exists>e c'. Apply ?ct now newConfig (d, c) = (Inl e, d, c') \<and> log c' = log c"
      by (auto simp: etcd_same_def)
  }
qed

text \<open>
  Etcd reads the latest version at or before a revision, so a request that asks for revision \<open>0\<close> (no
  configuration yet), or for a revision that never was the configuration's but that the cluster has
  reached since, is merged onto the current configuration and accepted, where the in-memory store
  refuses it.
\<close>

theorem etcd_apply_foreign_revision:
  assumes "etcd_laws (gs_client gs) ok log head" "codec_laws marshal unmarshal" "key \<noteq> []"
    and "inMemory_inv d" "etcd_config_inv unmarshal gs ok log key c"
    and "etcd_config unmarshal gs log key c = Some (base, r)"
    and "Revision_number (GetRevision newConfig) = Some n" "n = 0 \<or> r < n \<and> n \<le> head c"
    and "applied (etcd_tracker marshal unmarshal nilMsg gs key ty) base newConfig = Inr x"
  shows "\<exists>c' r'. Apply (etcd_tracker marshal unmarshal nilMsg gs key ty) now newConfig (d, c) = (Inr (), d, c')
    \<and> etcd_config unmarshal gs log key c' = Some (x, r') \<and> r < r'"
proof -
  let ?ct = "etcd_tracker marshal unmarshal nilMsg gs key ty" and ?q = "qualifiedKey gs key"
  note T = etcd_tracker_locale [OF assms(1-3), of nilMsg ty]
  have inv: "etcd_inv ok log c" using assms(5) by (simp add: codec_inv_def)
  note ok = etcd_invD(1) [OF inv]
  from codec_cur_Some [OF assms(5,6)] obtain b where b: "etcd_cur gs log c key = Some (b, r)" "unmarshal b = Inr base" .
  then obtain kv where kv: "kv_of (log c) ?q = Some kv" "kv_ModRevision kv = r" "projr (base64_Decode (kv_Value kv)) = b"
    by (auto simp: etcd_cur_def)
  have "kv_at (log c) n ?q = Some kv"
  proof (cases "n = 0")
    case True
    with kv show ?thesis by (simp add: kv_at_def)
  next
    case False
    with assms(8) etcd_cur_rev(1) [OF assms(1) ok b(1)] have n: "0 < n" "r < n" by auto
    have "kv_of (filter (\<lambda>e. me_Rev e \<le> n) (log c)) ?q = kv_of (log c) ?q"
    proof (rule kv_of_filter)
      fix e assume "e \<in> set (log c)" "me_Key e = ?q"
      from kv_of_last [OF etcd_lawsD(1) [OF assms(1) ok] kv(1) this] kv(2) n show "me_Rev e \<le> n" by simp
    qed
    with kv n show ?thesis by (simp add: kv_at_def)
  qed
  moreover have "n \<le> head c" using assms(8) etcd_lawsD(2) [OF assms(1) ok] by auto
  moreover have "base64_Decode (kv_Value kv) = Inr b" using etcd_decode [OF inv kv(1)] kv(3) by simp
  ultimately have "ets_Get gs key [Get_RevisionOutOpt True, Get_RevisionOpt n] c = Inr (b, Some r)"
    using etcd_get_effect [OF assms(1) ok assms(3), of n "[Get_RevisionOutOpt True, Get_RevisionOpt n]"] kv(2) by simp
  then have "getConfigOrDefaultLocked ?ct [GetRevision newConfig] (d, c) =
      Inr (base_config ?ct (inMemory_cur d) (etcd_config unmarshal gs log key c))"
    using assms(6,7) b(2) by (simp add: getConfigOrDefaultLocked_def etcd_tracker_def base_config_def)
  from tracker.Apply_on_base [OF T assms(5) this, of now] assms(6,9) show ?thesis
    by (auto simp: base_config_def)
qed

text \<open>Messages are countable, so there is a codec.\<close>

definition ex_marshal :: "pmsg \<Rightarrow> 8 word list result" where
  "ex_marshal m = Inr (replicate (to_nat m) 0)"

definition ex_unmarshal :: "8 word list \<Rightarrow> pmsg result" where
  "ex_unmarshal b = Inr (from_nat (length b))"

lemma ex_codec_laws: "codec_laws ex_marshal ex_unmarshal"
  by (simp add: codec_laws_def ex_marshal_def ex_unmarshal_def)

text \<open>A log with a configuration at revision \<open>3\<close>, and another key written at revision \<open>8\<close>.\<close>

definition ex_config_log :: "mvcc_entry list" where
  "ex_config_log =
     [\<lparr>me_Rev = 3, me_Key = ''p/k'', me_Put = Some (base64_Encode (projr (ex_marshal (ex_cfg (Some ''a'') (Some False) None))), 0)\<rparr>,
      \<lparr>me_Rev = 8, me_Key = ''p/x'', me_Put = Some (base64_Encode [], 0)\<rparr>]"

lemma ex_config_log: "etcd_config_inv ex_unmarshal (ex_gs ''p'') mvcc_wf (\<lambda>log. log) ''k'' ex_config_log"
  "etcd_config ex_unmarshal (ex_gs ''p'') (\<lambda>log. log) ''k'' ex_config_log = Some (ex_cfg (Some ''a'') (Some False) None, 3)"
  "ref_head ex_config_log = 8"
proof -
  let ?b = "base64_Encode (projr (ex_marshal (ex_cfg (Some ''a'') (Some False) None)))"
  have kv: "kv_of ex_config_log ''p/k'' =
      Some \<lparr>kv_Key = ''p/k'', kv_Value = ?b, kv_CreateRevision = 3, kv_ModRevision = 3\<rparr>"
    by (simp add: ex_config_log_def kv_of_def mvcc_step_def)
  have cur: "etcd_cur (ex_gs ''p'') (\<lambda>log. log) ex_config_log ''k'' = Some (projr (ex_marshal (ex_cfg (Some ''a'') (Some False) None)), 3)"
    by (simp add: etcd_cur_def ex_keys kv)
  have "etcd_inv mvcc_wf (\<lambda>log. log) ex_config_log"
    by (auto simp: etcd_inv_def mvcc_wf_def ex_config_log_def simp del: base64_Encode.simps)
  with cur show "etcd_config_inv ex_unmarshal (ex_gs ''p'') mvcc_wf (\<lambda>log. log) ''k'' ex_config_log"
    by (simp add: codec_inv_def ex_unmarshal_def)
  show "etcd_config ex_unmarshal (ex_gs ''p'') (\<lambda>log. log) ''k'' ex_config_log = Some (ex_cfg (Some ''a'') (Some False) None, 3)"
    by (simp add: codec_cur_def cur ex_marshal_def ex_unmarshal_def)
  show "ref_head ex_config_log = 8" by (simp add: ref_head_def ex_config_log_def)
qed

abbreviation ex_etcd_tracker where
  "ex_etcd_tracker \<equiv> etcd_tracker ex_marshal ex_unmarshal (ex_cfg None None None) (ex_gs ''p'') ''k'' ex_type"

lemma ex_etcd_applied:
  "applied ex_etcd_tracker (ex_cfg (Some ''a'') (Some False) None) (ex_cfg (Some ''b'') None r) = Inr (ex_cfg (Some ''b'') (Some False) None)"
proof -
  have "applied ex_etcd_tracker = applied (inMemory_tracker ex_type)"
    by (intro ext) (simp add: applied_def etcd_tracker_def)
  moreover have "applied (inMemory_tracker ex_type) (ex_cfg (Some ''a'') (Some False) None) (ex_cfg (Some ''b'') None r)
      = Inr (ex_cfg (Some ''b'') (Some False) None)"
    unfolding applied_def by (cases r) (simp add: ex_type_def, code_simp)+
  ultimately show ?thesis by simp
qed

lemma ex_revision: "Revision_number (GetRevision (ex_cfg name enabled (Some 0))) = Some 0"
  by (simp add: Revision_number_def GetRevision_def ex_cfg_def msg_get_def ex_revision_fd_def revision_msg_def revision_fields_def)

lemma etcd_apply_witness:
  "\<exists>c' r'. Apply ex_etcd_tracker 1 (ex_cfg (Some ''b'') None None) (ex_store, ex_config_log) = (Inr (), ex_store, c')
     \<and> etcd_config ex_unmarshal (ex_gs ''p'') (\<lambda>log. log) ''k'' c' = Some (ex_cfg (Some ''b'') (Some False) None, r') \<and> 3 < r'"
  using etcd_apply [OF ex_laws ex_codec_laws _ _ ex_config_log(1,2), of ex_store "ex_cfg (Some ''b'') None None" None
      "ex_cfg None None None" ex_type _ _ 1] ex_etcd_applied [of None]
  by (simp add: base_config_def ex_cfg_facts)

lemma etcd_apply_foreign_revision_witness:
  "\<exists>c' r'. Apply ex_etcd_tracker 1 (ex_cfg (Some ''b'') None (Some 0)) (ex_store, ex_config_log) = (Inr (), ex_store, c')
     \<and> etcd_config ex_unmarshal (ex_gs ''p'') (\<lambda>log. log) ''k'' c' = Some (ex_cfg (Some ''b'') (Some False) None, r') \<and> 3 < r'"
  by (rule etcd_apply_foreign_revision [OF ex_laws ex_codec_laws _ _ ex_config_log(1,2) ex_revision _ ex_etcd_applied]) simp_all

section \<open>Keys outside the prefix\<close>

text \<open>
  Joining the prefix and the key cleans the path, so a key that starts with \<open>..\<close> leaves the prefix of
  its store: what one store does with such a key is what a store with the other prefix does with its own,
  in every operation.
\<close>

theorem etcd_key_escapes_prefix:
  assumes "plain_element a" "plain_element b" "plain_path key"
    and "mine = \<lparr>gs_client = cl, gs_prefix = p @ slash # a\<rparr>" "theirs = \<lparr>gs_client = cl, gs_prefix = p @ slash # b\<rparr>"
    and "k = ''../'' @ b @ slash # key"
  shows "ets_Put mine k v os c = ets_Put theirs key v os c \<and> ets_Get mine k gos c = ets_Get theirs key gos c
    \<and> ets_Delete mine k ds c = ets_Delete theirs key ds c"
proof -
  have rooted: "is_rooted ((p @ slash # a) @ slash # k) = is_rooted (p @ [slash])"
    "is_rooted ((p @ slash # b) @ slash # key) = is_rooted (p @ [slash])"
    by (cases p; simp add: is_rooted_def)+
  have a: "split_slash a = [a]" "split_slash b = [b]" "list_all plain_element (split_slash key)"
    using assms(1-3) by (auto simp: split_element plain_element_def plain_path_def)
  have k: "split_slash k = ''..'' # b # split_slash key" by (simp add: assms(6) split_append a)
  have "clean_elements r (split_slash (p @ slash # a) @ split_slash k)
      = clean_elements r (split_slash (p @ slash # b) @ split_slash key)" for r
    using assms(1,2) by (simp add: split_append a k clean_append clean_plain [OF a(3)])
      (simp add: clean_elements_def clean_element_def plain_element_def)
  then have "path_Clean ((p @ slash # a) @ slash # k) = path_Clean ((p @ slash # b) @ slash # key)"
    unfolding path_Clean_def split_append [of "p @ slash # a" k] split_append [of "p @ slash # b" key] rooted by simp
  moreover have "key \<noteq> []" "k \<noteq> []" using plain_nonempty [OF assms(3)] by (auto simp: assms(6))
  ultimately have q: "qualifiedKey mine k = qualifiedKey theirs key"
    by (simp add: qualifiedKey_def assms(4,5) path_Join_def)
  have client: "gs_client mine = gs_client theirs" by (simp add: assms(4,5))
  have "etcd_validateKey key = None" "etcd_validateKey k = None"
    using \<open>key \<noteq> []\<close> \<open>k \<noteq> []\<close> by (simp_all add: etcd_validateKey_def)
  then show ?thesis unfolding ets_Put_def ets_Get_def ets_Delete_def q client by simp
qed

lemma etcd_key_escapes_prefix_witness:
  "ets_Put (ex_gs ''a/mine'') ''../theirs/k'' [1] [] [] = ets_Put (ex_gs ''a/theirs'') ''k'' [1] [] []"
proof -
  have "plain_element ''mine''" "plain_element ''theirs''" "plain_path ''k''"
    by (simp_all add: plain_element_def plain_path_def)
  from etcd_key_escapes_prefix [OF this, of "ex_gs ''a/mine''" ref_client "''a''" "ex_gs ''a/theirs''" "''../theirs/k''" "[1]" "[]" "[]"]
  show ?thesis by simp
qed

text \<open>
  Listing asks etcd for all keys that start with the prefix as a string, without a slash at its end:
  the keys of every store whose prefix continues this one are listed too, under their full names.
\<close>

theorem etcd_list_leaks:
  assumes "etcd_laws cl ok log head" "ok c" "plain_path p" "plain_path (p @ x)" "x \<noteq> []" "hd x \<noteq> slash" "plain_path key"
    and "etcd_cur \<lparr>gs_client = cl, gs_prefix = p @ x\<rparr> log c key \<noteq> None"
  shows "\<exists>ks. ets_ListKeys \<lparr>gs_client = cl, gs_prefix = p\<rparr> [] [] c = Inr ks \<and> p @ x @ slash # key \<in> set ks"
proof -
  have clean: "path_Join [q, []] = q" if "plain_path q" for q
    using that plain_nonempty [OF that] plain_not_rooted [OF that]
    by (simp add: path_Join_def path_Clean_def clean_elements_def clean_plain plain_path_def)
  have key: "path_Join [p @ x, key] = p @ x @ slash # key"
  proof -
    have "prefix_elements (p @ x) = split_slash (p @ x)"
      using assms(4) by (simp add: prefix_elements_def clean_elements_def clean_plain plain_path_def)
    with Join_plain [OF assms(7), of "p @ x"] plain_not_rooted [OF assms(4)] show ?thesis by (simp add: join_append)
  qed
  from etcd_lawsD(5) [OF assms(1), unfolded list_law_def] assms(2) obtain kvs where
    kvs: "ec_Get cl p [WithPrefix, WithKeysOnly] c = Inr kvs" "set (map kv_Key kvs) = keys_under p (log c)" by blast
  have "p @ x @ slash # key \<in> keys_under p (log c)"
    using assms(8) key by (auto simp: keys_under_def etcd_cur_def qualifiedKey_def)
  then have "p @ x @ slash # key \<in> kv_Key ` set kvs" using kvs(2) by simp
  then obtain kv where kv: "kv \<in> set kvs" "kv_Key kv = p @ x @ slash # key" by (metis imageE)
  have "TrimPrefix (p @ x @ slash # key) (p @ ''/'') = p @ x @ slash # key"
    using assms(5,6) by (cases x) (auto simp: TrimPrefix_def prefix_def)
  with kvs(1) kv clean [OF assms(3)] show ?thesis
    by (force simp: ets_ListKeys_def qualifiedKey_def image_iff)
qed

lemma etcd_list_leaks_witness:
  "\<exists>ks. ets_ListKeys (ex_gs ''p'') [] [] ex_log = Inr ks \<and> ''p2/k'' \<in> set ks"
proof -
  have "plain_path ''p''" "plain_path (''p'' @ ''2'')" "plain_path ''k''"
    by (simp_all add: plain_element_def plain_path_def)
  moreover have "etcd_cur (ex_gs (''p'' @ ''2'')) (\<lambda>log. log) ex_log ''k'' \<noteq> None" by code_simp
  ultimately show ?thesis
    using etcd_list_leaks [OF ref_laws ex_log_wf(1), of "''p''" "''2''" "''k''"] by simp
qed

end
