(* ===== verification/Json.thy ===== *)
theory Json
  imports GoLib Stores
begin

text \<open>
  \<open>encoding/json\<close> of Go's standard library, as far as the history of a custom resource is written and read
  with it: the grammar of JSON texts as a parser, the case-insensitive lookup of struct fields, and the
  decoding of byte slices. A text is valid or refused as a whole before anything is decoded. Left out: the
  replacement of invalid UTF-8 inside strings, the non-ASCII case folding of field names, and the limit of
  the nesting depth.
\<close>

datatype json = JNull | JBool bool | JNumber string | JString string | JArray "json list"
  | JObject "(string \<times> json) list"

section \<open>Strings\<close>

definition is_space :: "char \<Rightarrow> bool" where
  "is_space c \<longleftrightarrow> c = CHR '' '' \<or> c = CHR 0x09 \<or> c = CHR 0x0A \<or> c = CHR 0x0D"

definition skip_ws :: "string \<Rightarrow> string" where
  "skip_ws s = dropWhile is_space s"

definition hex_value :: "char \<Rightarrow> nat option" where
  "hex_value c = map_of (zip ''0123456789abcdefABCDEF'' ([0..<16] @ [10..<16])) c"

definition hex4 :: "string \<Rightarrow> nat option" where
  "hex4 s =
     (if length s < 4 then None
      else foldl (\<lambda>n c. case (n, hex_value c) of (Some n, Some d) \<Rightarrow> Some (16 * n + d) | _ \<Rightarrow> None) (Some 0) (take 4 s))"

definition utf8 :: "nat \<Rightarrow> string" where
  "utf8 n =
     map char_of
       (if n < 0x80 then [n]
        else if n < 0x800 then [0xC0 + n div 64, 0x80 + n mod 64]
        else if n < 0x10000 then [0xE0 + n div 4096, 0x80 + n div 64 mod 64, 0x80 + n mod 64]
        else [0xF0 + n div 262144, 0x80 + n div 4096 mod 64, 0x80 + n div 64 mod 64, 0x80 + n mod 64])"

text \<open>
  A code unit written as an escape, and how many characters after it belong to it: a second escape, when the
  two are a surrogate pair. A lone surrogate becomes the replacement character.
\<close>

definition json_unicode :: "nat \<Rightarrow> string \<Rightarrow> string \<times> nat" where
  "json_unicode n r =
     (if n < 0xD800 \<or> 0xDFFF < n then (utf8 n, 0)
      else
        (case (if take 2 r = [CHR 0x5C, CHR ''u''] then hex4 (drop 2 r) else None) of
           Some m \<Rightarrow>
             if n < 0xDC00 \<and> 0xDC00 \<le> m \<and> m \<le> 0xDFFF
             then (utf8 (0x10000 + (n - 0xD800) * 1024 + (m - 0xDC00)), 6) else (utf8 0xFFFD, 0)
         | None \<Rightarrow> (utf8 0xFFFD, 0)))"

definition json_escapes :: "(char \<times> char) list" where
  "json_escapes =
     [(CHR 0x22, CHR 0x22), (CHR 0x5C, CHR 0x5C), (CHR ''/'', CHR ''/''), (CHR ''b'', CHR 0x08), (CHR ''f'', CHR 0x0C),
      (CHR ''n'', CHR 0x0A), (CHR ''r'', CHR 0x0D), (CHR ''t'', CHR 0x09)]"

text \<open>The contents of a string after its opening quote, and the text after its closing one.\<close>

function json_string :: "string \<Rightarrow> (string \<times> string) option" where
  "json_string [] = None"
| "json_string (c # cs) =
     (if c = CHR 0x22 then Some ([], cs)
      else if (of_char c :: nat) < 32 then None
      else if c \<noteq> CHR 0x5C then map_option (\<lambda>(s, r). (c # s, r)) (json_string cs)
      else if take 1 cs = ''u'' then
        (case hex4 (drop 1 cs) of
           None \<Rightarrow> None
         | Some n \<Rightarrow> map_option (\<lambda>(s, r). (fst (json_unicode n (drop 5 cs)) @ s, r))
             (json_string (drop (5 + snd (json_unicode n (drop 5 cs))) cs)))
      else if cs = [] then None
      else
        (case map_of json_escapes (hd cs) of
           None \<Rightarrow> None
         | Some d \<Rightarrow> map_option (\<lambda>(s, r). (d # s, r)) (json_string (drop 1 cs))))"
  by pat_completeness auto
termination by (relation "measure length") auto

section \<open>Values\<close>

definition is_digit :: "char \<Rightarrow> bool" where
  "is_digit c \<longleftrightarrow> digit_value c \<noteq> None"

definition valid_fraction :: "string \<Rightarrow> bool" where
  "valid_fraction s \<longleftrightarrow>
     (let exponent = (\<lambda>s. s = [] \<or> (hd s = CHR ''e'' \<or> hd s = CHR ''E'')
            \<and> (let e = (if take 1 (tl s) = ''+'' \<or> take 1 (tl s) = ''-'' then tl (tl s) else tl s) in
               e \<noteq> [] \<and> list_all is_digit e)) in
      if take 1 s = ''.'' then takeWhile is_digit (tl s) \<noteq> [] \<and> exponent (dropWhile is_digit (tl s)) else exponent s)"

definition valid_number :: "string \<Rightarrow> bool" where
  "valid_number s \<longleftrightarrow>
     (let s = (if take 1 s = ''-'' then tl s else s); i = takeWhile is_digit s in
      i \<noteq> [] \<and> (hd i = CHR ''0'' \<longrightarrow> length i = 1) \<and> valid_fraction (dropWhile is_digit s))"

definition in_number :: "char \<Rightarrow> bool" where
  "in_number c \<longleftrightarrow> List.member ''+-.eE0123456789'' c"

definition json_literal :: "string \<Rightarrow> (json \<times> string) option" where
  "json_literal s =
     (if take 4 s = ''null'' then Some (JNull, drop 4 s)
      else if take 4 s = ''true'' then Some (JBool True, drop 4 s)
      else if take 5 s = ''false'' then Some (JBool False, drop 5 s)
      else if valid_number (takeWhile in_number s) then Some (JNumber (takeWhile in_number s), dropWhile in_number s)
      else None)"

text \<open>
  A value, the elements of an array from the one that starts the text to the closing bracket, and the members
  of an object likewise. Every second call takes a character of the text, so fuel of twice its length is
  enough.
\<close>

fun json_value :: "nat \<Rightarrow> string \<Rightarrow> (json \<times> string) option"
  and json_elements :: "nat \<Rightarrow> string \<Rightarrow> (json list \<times> string) option"
  and json_members :: "nat \<Rightarrow> string \<Rightarrow> ((string \<times> json) list \<times> string) option" where
  "json_value 0 s = None"
| "json_value (Suc n) s =
     (case skip_ws s of
        [] \<Rightarrow> None
      | c # r \<Rightarrow>
          if c = CHR 0x22 then map_option (\<lambda>(x, r). (JString x, r)) (json_string r)
          else if c = CHR ''['' then
            (if take 1 (skip_ws r) = '']'' then Some (JArray [], tl (skip_ws r))
             else map_option (\<lambda>(xs, r). (JArray xs, r)) (json_elements n r))
          else if c = CHR ''{'' then
            (if take 1 (skip_ws r) = ''}'' then Some (JObject [], tl (skip_ws r))
             else map_option (\<lambda>(xs, r). (JObject xs, r)) (json_members n r))
          else json_literal (c # r))"
| "json_elements 0 s = None"
| "json_elements (Suc n) s =
     (case json_value n s of
        None \<Rightarrow> None
      | Some (x, r) \<Rightarrow>
          (case skip_ws r of
             [] \<Rightarrow> None
           | c # r \<Rightarrow>
               if c = CHR '']'' then Some ([x], r)
               else if c = CHR '','' then map_option (\<lambda>(xs, r). (x # xs, r)) (json_elements n r)
               else None))"
| "json_members 0 s = None"
| "json_members (Suc n) s =
     (if take 1 (skip_ws s) \<noteq> [CHR 0x22] then None
      else
        (case json_string (tl (skip_ws s)) of
           None \<Rightarrow> None
         | Some (k, r) \<Rightarrow>
             if take 1 (skip_ws r) \<noteq> '':'' then None
             else
               (case json_value n (tl (skip_ws r)) of
                  None \<Rightarrow> None
                | Some (x, r) \<Rightarrow>
                    (case skip_ws r of
                       [] \<Rightarrow> None
                     | c # r \<Rightarrow>
                         if c = CHR ''}'' then Some ([(k, x)], r)
                         else if c = CHR '','' then map_option (\<lambda>(xs, r). ((k, x) # xs, r)) (json_members n r)
                         else None))))"

definition json_parse :: "string \<Rightarrow> json option" where
  "json_parse s =
     (case json_value (2 * length s + 2) s of
        Some (x, r) \<Rightarrow> if skip_ws r = [] then Some x else None
      | None \<Rightarrow> None)"

section \<open>Decoding into Go values\<close>

definition json_SyntaxError :: err where
  "json_SyntaxError = errorf ''unexpected end of JSON input''"

definition json_UnmarshalTypeError :: err where
  "json_UnmarshalTypeError = errorf ''json: cannot unmarshal %s into Go value of type %s''"

text \<open>A key of an object names the field of a struct.\<close>

definition json_field :: "string \<Rightarrow> string \<Rightarrow> bool" where
  "json_field name key \<longleftrightarrow> ToLower key = ToLower name"

text \<open>
  A \<open>[]byte\<close>: base64 in a string, or an array of numbers. The first error is kept and decoding goes on; a
  string that cannot be decoded, like a value of the wrong type, leaves the slice as it is.
\<close>

definition json_byte :: "json \<Rightarrow> 8 word \<times> err option" where
  "json_byte j =
     (case j of
        JNull \<Rightarrow> (0, None)
      | JNumber s \<Rightarrow>
          (case parse_digits s of
             Some n \<Rightarrow> if n < 256 then (word_of_nat n, None) else (0, Some json_UnmarshalTypeError)
           | None \<Rightarrow> (0, Some json_UnmarshalTypeError))
      | _ \<Rightarrow> (0, Some json_UnmarshalTypeError))"

definition first_error :: "err option \<Rightarrow> err option \<Rightarrow> err option" where
  "first_error e e' = (case e of None \<Rightarrow> e' | Some _ \<Rightarrow> e)"

definition json_bytes :: "json \<Rightarrow> 8 word list \<Rightarrow> 8 word list \<times> err option" where
  "json_bytes j old =
     (case j of
        JNull \<Rightarrow> ([], None)
      | JString s \<Rightarrow> (case base64_Decode s of Inl e \<Rightarrow> (old, Some e) | Inr bs \<Rightarrow> (bs, None))
      | JArray js \<Rightarrow> (map (fst \<circ> json_byte) js, foldl (\<lambda>e j. first_error e (snd (json_byte j))) None js)
      | _ \<Rightarrow> (old, Some json_UnmarshalTypeError))"

section \<open>Reading back plain texts\<close>

definition plain_string :: "string \<Rightarrow> bool" where
  "plain_string s \<longleftrightarrow> list_all (\<lambda>c. c \<noteq> CHR 0x22 \<and> c \<noteq> CHR 0x5C \<and> 32 \<le> (of_char c :: nat)) s"

lemma json_string_plain: "plain_string s \<Longrightarrow> json_string (s @ CHR 0x22 # r) = Some (s, r)"
  by (induction s) (simp_all add: plain_string_def del: of_char_eq_iff)

lemma skip_ws_simps [simp]:
  "skip_ws [] = []" "\<not> is_space c \<Longrightarrow> skip_ws (c # s) = c # s"
  by (simp_all add: skip_ws_def)

lemma b64_alphabet_plain:
  "list_all (\<lambda>n. b64_char n \<noteq> CHR 0x22 \<and> b64_char n \<noteq> CHR 0x5C \<and> 32 \<le> (of_char (b64_char n) :: nat)) [0..<64]"
  by code_simp

lemma b64_char_plain: "n < 64 \<Longrightarrow> b64_char n \<noteq> CHR 0x22 \<and> b64_char n \<noteq> CHR 0x5C \<and> 32 \<le> (of_char (b64_char n) :: nat)"
  using b64_alphabet_plain by (auto simp: list_all_iff)

lemma base64_plain: "plain_string (base64_Encode bs)"
  by (induction bs rule: base64_Encode.induct)
    (use b64_bounds in \<open>simp_all add: plain_string_def b64_char_plain b64_bounds\<close>)

end
