(* ===== verification/Crd.thy ===== *)
theory Crd
  imports Json Revision
begin

text \<open>
  \<open>storage/drivers/crds/value_store.go\<close>: a value store that keeps one configuration in a Kubernetes custom
  resource. The revision of the value is the resource version of the object; older values are kept in an
  annotation. The client of the API server, the codecs (protobuf, snappy, the formatting of times in the
  local zone) and the two methods that translate between an object and a configuration are parameters. An
  object is its metadata, as far as the driver reads it, and the rest of it as one value. The map of the
  annotations is shared with the object that returned it: writes to it are writes to the object, unless it
  was nil.
\<close>

section \<open>The client, the codecs and the methods\<close>

datatype k8s_reason = ReasonNotFound | ReasonConflict | ReasonAlreadyExists | ReasonInvalid | ReasonBadRequest
  | ReasonOther

datatype k8s_error = K8sStatus k8s_reason string | K8sOther err

record 'b kobject =
  ko_Name :: string
  ko_Namespace :: string
  ko_GVK :: string
  ko_ResourceVersion :: string
  ko_CreationTimestamp :: time
  ko_Annotations :: "(string \<rightharpoonup> string) option"
  ko_Body :: 'b

datatype k8s_watch_type = Added | Modified | Deleted | Bookmark | WatchError

text \<open>The object of a watch result: of the watched type, or the status an error comes with.\<close>

datatype 'b k8s_object = Object "'b kobject" | StatusObject string

type_synonym 'b watch_result = "k8s_watch_type \<times> 'b k8s_object"

text \<open>
  A successful Create or Update writes the answer of the server to the object. What a watch delivers is the
  list of its results up to the close of its channel or the end of the context.
\<close>

record ('c, 'b) k8s_client =
  kc_Get :: "string \<Rightarrow> string \<Rightarrow> 'c \<Rightarrow> k8s_error + 'b kobject"
  kc_Create :: "'b kobject \<Rightarrow> string \<Rightarrow> 'c \<Rightarrow> (k8s_error + 'b kobject) \<times> 'c"
  kc_Update :: "'b kobject \<Rightarrow> string \<Rightarrow> 'c \<Rightarrow> (k8s_error + 'b kobject) \<times> 'c"
  kc_Delete :: "'b kobject \<Rightarrow> string option \<Rightarrow> 'c \<Rightarrow> k8s_error option \<times> 'c"
  kc_Watch :: "string \<Rightarrow> string \<Rightarrow> 'c \<Rightarrow> k8s_error + 'b watch_result list"

text \<open>\<open>proto.Unmarshal\<close> into an empty message returns what it decoded up to an error.\<close>

record crd_codec =
  cd_Marshal :: "pmsg \<Rightarrow> 8 word list result"
  cd_Unmarshal :: "8 word list \<Rightarrow> pmsg \<times> err option"
  cd_Encode :: "8 word list \<Rightarrow> 8 word list"
  cd_Decode :: "8 word list \<Rightarrow> 8 word list result"
  cd_DecodedLen :: "8 word list \<Rightarrow> nat result"
  cd_MaxEncodedLen :: "nat \<Rightarrow> nat"
  cd_FormatTime :: "time \<Rightarrow> string"
  cd_ParseTime :: "string \<Rightarrow> time result"

text \<open>\<open>ControllerReference\<close> with what \<open>controllerutil.SetControllerReference\<close> makes of the reference.\<close>

record 'b ValueStoreMethods =
  vm_ControllerReference :: "('b kobject \<Rightarrow> 'b kobject) option"
  vm_FillObjectFromConfig :: "'b kobject \<Rightarrow> pmsg \<Rightarrow> 'b kobject"
  vm_FillConfigFromObject :: "'b kobject \<Rightarrow> pmsg \<Rightarrow> pmsg"

definition FieldManagerName :: string where "FieldManagerName = ''protoconfig-crd-value-store''"

definition HistoryAnnotation :: string where "HistoryAnnotation = ''protoconfig-history''"

definition LastModifiedAnnotation :: string where "LastModifiedAnnotation = ''protoconfig-last-modified''"

record ('c, 'b) CRDValueStore =
  cs_client :: "('c, 'b) k8s_client"
  cs_Name :: string
  cs_Namespace :: string
  cs_gvk :: string
  cs_methods :: "'b ValueStoreMethods"
  cs_codec :: crd_codec
  cs_zero :: pmsg \<comment> \<open>a message of the configuration type\<close>
  cs_zeroBody :: 'b

definition newEmptyObject :: "('c, 'b) CRDValueStore \<Rightarrow> 'b kobject" where
  "newEmptyObject s = \<lparr>ko_Name = cs_Name s, ko_Namespace = cs_Namespace s, ko_GVK = cs_gvk s, ko_ResourceVersion = [],
     ko_CreationTimestamp = 0, ko_Annotations = None, ko_Body = cs_zeroBody s\<rparr>"

definition newEmptyConfig :: "('c, 'b) CRDValueStore \<Rightarrow> pmsg" where
  "newEmptyConfig s = msg_new (cs_zero s)"

definition FillConfigFromObject :: "('c, 'b) CRDValueStore \<Rightarrow> 'b kobject \<Rightarrow> pmsg" where
  "FillConfigFromObject s obj = vm_FillConfigFromObject (cs_methods s) obj (newEmptyConfig s)"

fun ReasonForError :: "k8s_error \<Rightarrow> k8s_reason" where
  "ReasonForError (K8sStatus r _) = r"
| "ReasonForError (K8sOther _) = ReasonOther"

fun k8s_err :: "k8s_error \<Rightarrow> err" where
  "k8s_err (K8sStatus _ m) = errorf m"
| "k8s_err (K8sOther e) = e"

definition toGrpcError :: "k8s_error \<Rightarrow> err" where
  "toGrpcError e =
     (if ReasonForError e = ReasonNotFound then status_error NotFound (err_msg (k8s_err e))
      else if ReasonForError e = ReasonConflict then status_error Aborted (err_msg (k8s_err e))
      else if ReasonForError e = ReasonAlreadyExists then status_error AlreadyExists (err_msg (k8s_err e))
      else if ReasonForError e = ReasonInvalid \<or> ReasonForError e = ReasonBadRequest
      then status_error InvalidArgument (err_msg (k8s_err e))
      else k8s_err e)"

text \<open>The calls of the revision helpers on a configuration pointer that may be nil.\<close>

definition GetRevision_ptr :: "pmsg option \<Rightarrow> pmsg option" where
  "GetRevision_ptr conf = Option.bind conf GetRevision"

definition UnsetRevision_ptr :: "pmsg \<Rightarrow> pmsg option \<Rightarrow> pmsg option result" where
  "UnsetRevision_ptr zero conf =
     (case conf of
        None \<Rightarrow> rbind (with_revision_field zero (\<lambda>_. zero)) (\<lambda>_. Inr None)
      | Some m \<Rightarrow> rbind (UnsetRevision m) (\<lambda>m. Inr (Some m)))"

section \<open>The history annotation\<close>

record historyEntry =
  he_Wire :: "8 word list"
  he_Wirev2 :: "8 word list"
  he_Config :: "pmsg option"

type_synonym historyFormat = "historyEntry list"

definition config_entry :: "pmsg \<Rightarrow> historyEntry" where
  "config_entry conf = \<lparr>he_Wire = [], he_Wirev2 = [], he_Config = Some conf\<rparr>"

definition empty_entry :: historyEntry where
  "empty_entry = \<lparr>he_Wire = [], he_Wirev2 = [], he_Config = None\<rparr>"

text \<open>
  \<open>(*historyEntry).MarshalJSON\<close>, as \<open>json.Marshal\<close> calls it: the empty output for a nil configuration is not
  a JSON text.
\<close>

definition entry_json :: "8 word list \<Rightarrow> string" where
  \<open>entry_json wirev2 = ''{"wirev2":"'' @ base64_Encode wirev2 @ ''"}''\<close>

definition historyEntry_MarshalJSON :: "crd_codec \<Rightarrow> historyEntry \<Rightarrow> string result" where
  "historyEntry_MarshalJSON cd e =
     (case he_Config e of
        None \<Rightarrow> Inl json_SyntaxError
      | Some conf \<Rightarrow> rbind (cd_Marshal cd conf) (\<lambda>wire. Inr (entry_json (cd_Encode cd wire))))"

fun marshal_entries :: "crd_codec \<Rightarrow> historyFormat \<Rightarrow> string list result" where
  "marshal_entries cd [] = Inr []"
| "marshal_entries cd (e # es) =
     rbind (historyEntry_MarshalJSON cd e) (\<lambda>x. rbind (marshal_entries cd es) (\<lambda>xs. Inr (x # xs)))"

fun join_comma :: "string list \<Rightarrow> string" where
  "join_comma [] = []"
| "join_comma [e] = e"
| "join_comma (e # es) = e @ CHR '','' # join_comma es"

definition history_json :: "string list \<Rightarrow> string" where
  \<open>history_json xs = ''{"entries":['' @ join_comma xs @ '']}''\<close>

text \<open>
  \<open>(*historyEntry).UnmarshalJSON\<close>, into an entry that is zero: the fields in the order of the text, then the
  two encodings. The entry is returned as it is left, with the error.
\<close>

definition unmarshal_field :: "historyEntry \<times> err option \<Rightarrow> string \<times> json \<Rightarrow> historyEntry \<times> err option" where
  "unmarshal_field st m =
     (let (e, err) = st; (key, j) = m in
      if json_field ''wire'' key then
        (case json_bytes j (he_Wire e) of (bs, err') \<Rightarrow> (e\<lparr>he_Wire := bs\<rparr>, first_error err err'))
      else if json_field ''wirev2'' key then
        (case json_bytes j (he_Wirev2 e) of (bs, err') \<Rightarrow> (e\<lparr>he_Wirev2 := bs\<rparr>, first_error err err'))
      else (e, err))"

definition unmarshal_fields :: "json \<Rightarrow> historyEntry \<Rightarrow> historyEntry \<times> err option" where
  "unmarshal_fields j e =
     (case j of
        JNull \<Rightarrow> (e, None)
      | JObject ms \<Rightarrow> foldl unmarshal_field (e, None) ms
      | _ \<Rightarrow> (e, Some json_UnmarshalTypeError))"

definition unmarshal_wire :: "crd_codec \<Rightarrow> historyEntry \<Rightarrow> historyEntry \<times> err option" where
  "unmarshal_wire cd e =
     (if he_Wire e = [] then (e, None)
      else (case cd_Unmarshal cd (he_Wire e) of (conf, err) \<Rightarrow> (e\<lparr>he_Config := Some conf\<rparr>, err)))"

definition historyEntry_UnmarshalJSON :: "crd_codec \<Rightarrow> json \<Rightarrow> historyEntry \<times> err option" where
  "historyEntry_UnmarshalJSON cd j =
     (case unmarshal_fields j empty_entry of
        (e, Some err) \<Rightarrow> (e, Some err)
      | (e, None) \<Rightarrow>
          if he_Wirev2 e \<noteq> [] then
            (case cd_Decode cd (he_Wirev2 e) of
               Inl err \<Rightarrow> (e\<lparr>he_Wire := []\<rparr>, Some err)
             | Inr wire \<Rightarrow> unmarshal_wire cd (e\<lparr>he_Wire := wire, he_Wirev2 := []\<rparr>))
          else unmarshal_wire cd e)"

text \<open>\<open>json.Unmarshal\<close> into a history without entries. An element that fails ends the slice.\<close>

fun unmarshal_entries :: "crd_codec \<Rightarrow> json list \<Rightarrow> historyFormat \<times> err option" where
  "unmarshal_entries cd [] = ([], None)"
| "unmarshal_entries cd (j # js) =
     (case historyEntry_UnmarshalJSON cd j of
        (e, Some err) \<Rightarrow> ([e], Some err)
      | (e, None) \<Rightarrow> (case unmarshal_entries cd js of (es, err) \<Rightarrow> (e # es, err)))"

fun unmarshal_members :: "crd_codec \<Rightarrow> (string \<times> json) list \<Rightarrow> historyFormat \<times> err option \<Rightarrow> historyFormat \<times> err option" where
  "unmarshal_members cd [] st = st"
| "unmarshal_members cd ((key, j) # ms) (hist, saved) =
     (if json_field ''entries'' key then
        (case j of
           JNull \<Rightarrow> unmarshal_members cd ms ([], saved)
         | JArray js \<Rightarrow>
             (case unmarshal_entries cd js of
                (es, Some err) \<Rightarrow> (es, Some err)
              | (es, None) \<Rightarrow> unmarshal_members cd ms (es, saved))
         | _ \<Rightarrow> unmarshal_members cd ms (hist, first_error saved (Some json_UnmarshalTypeError)))
      else unmarshal_members cd ms (hist, saved))"

definition json_Unmarshal_history :: "crd_codec \<Rightarrow> string \<Rightarrow> historyFormat \<times> err option" where
  "json_Unmarshal_history cd text' =
     (case json_parse text' of
        None \<Rightarrow> ([], Some json_SyntaxError)
      | Some JNull \<Rightarrow> ([], None)
      | Some (JObject ms) \<Rightarrow> unmarshal_members cd ms ([], None)
      | Some _ \<Rightarrow> ([], Some json_UnmarshalTypeError))"

text \<open>
  \<open>decodeHistory\<close>: the entries it leaves, and the error it returns. The outer result is a panic: on an empty
  annotation, and on an entry of the first version without content, which has no configuration to decode into.
\<close>

fun unmarshal_v1_configs :: "crd_codec \<Rightarrow> historyFormat \<Rightarrow> (historyFormat \<times> err option) result" where
  "unmarshal_v1_configs cd [] = Inr ([], None)"
| "unmarshal_v1_configs cd (e # es) =
     (if he_Config e = None then Inl (go_panic ''nil dereference'')
      else
        (case cd_Unmarshal cd (he_Wire e) of
           (conf, Some err) \<Rightarrow> Inr (e\<lparr>he_Config := Some conf\<rparr> # es, Some err)
         | (conf, None) \<Rightarrow>
             rbind (unmarshal_v1_configs cd es) (\<lambda>(es, err). Inr (e\<lparr>he_Config := Some conf\<rparr> # es, err))))"

definition decodeHistory_v1 :: "crd_codec \<Rightarrow> string \<Rightarrow> (historyFormat \<times> err option) result" where
  "decodeHistory_v1 cd str =
     (case base64_Decode str of
        Inl err \<Rightarrow> Inr ([], Some err)
      | Inr b64 \<Rightarrow>
          (case cd_DecodedLen cd b64 of
             Inl err \<Rightarrow> Inr ([], Some err)
           | Inr _ \<Rightarrow>
               (case cd_Decode cd b64 of
                  Inl err \<Rightarrow> Inr ([], Some err)
                | Inr jsonData \<Rightarrow>
                    (case json_Unmarshal_history cd (bytes_string jsonData) of
                       (hist, Some err) \<Rightarrow> Inr (hist, Some err)
                     | (hist, None) \<Rightarrow> unmarshal_v1_configs cd hist))))"

definition decodeHistory :: "crd_codec \<Rightarrow> string \<Rightarrow> (historyFormat \<times> err option) result" where
  "decodeHistory cd str =
     (if str = [] then Inl (go_panic ''index out of range'')
      else if hd str \<noteq> CHR ''{'' then decodeHistory_v1 cd str
      else Inr (json_Unmarshal_history cd str))"

section \<open>Writing the history\<close>

definition maxAnnotationSize :: nat where "maxAnnotationSize = 250 * 1024"

fun fill_wire :: "crd_codec \<Rightarrow> historyFormat \<Rightarrow> historyFormat result" where
  "fill_wire cd [] = Inr []"
| "fill_wire cd (e # es) =
     rbind (case he_Config e of None \<Rightarrow> Inr [] | Some conf \<Rightarrow> cd_Marshal cd conf) (\<lambda>wire.
       rbind (fill_wire cd es) (\<lambda>es. Inr (e\<lparr>he_Wire := wire\<rparr> # es)))"

text \<open>
  The entries that fit, from the newest backwards: the argument is the rest of them, newest first, and the size
  so far.
\<close>

definition entry_size :: "crd_codec \<Rightarrow> historyEntry \<Rightarrow> nat" where
  \<open>entry_size cd e = base64_EncodedLen (cd_MaxEncodedLen cd (length ''{"wire":""},'' + length (he_Wire e)))\<close>

fun newest_that_fit :: "crd_codec \<Rightarrow> historyFormat \<Rightarrow> nat \<Rightarrow> historyFormat" where
  "newest_that_fit cd [] sz = []"
| "newest_that_fit cd (e # older) sz =
     (if sz + entry_size cd e > maxAnnotationSize then []
      else e # newest_that_fit cd older (sz + entry_size cd e))"

definition truncate_history :: "crd_codec \<Rightarrow> historyFormat \<Rightarrow> historyFormat" where
  \<open>truncate_history cd hist = rev (newest_that_fit cd (rev hist) (length ''{"entries":[]}''))\<close>

definition encodeHistory :: "crd_codec \<Rightarrow> historyFormat \<Rightarrow> (string \<times> nat) result" where
  "encodeHistory cd hist =
     rbind (fill_wire cd hist) (\<lambda>hist.
       let hist = truncate_history cd hist in
       rbind (marshal_entries cd hist) (\<lambda>xs. Inr (history_json xs, length hist)))"

definition last_modified :: "crd_codec \<Rightarrow> 'b kobject \<Rightarrow> (string \<rightharpoonup> string) \<Rightarrow> time" where
  "last_modified cd obj annotations =
     (case annotations LastModifiedAnnotation of
        Some t \<Rightarrow> (case cd_ParseTime cd t of Inl _ \<Rightarrow> zero_time | Inr t \<Rightarrow> t)
      | None \<Rightarrow> ko_CreationTimestamp obj)"

definition annotations_of :: "'b kobject \<Rightarrow> (string \<rightharpoonup> string)" where
  "annotations_of obj = (case ko_Annotations obj of None \<Rightarrow> Map.empty | Some a \<Rightarrow> a)"

text \<open>The entries a reader of the annotation gets; errors of the decoding are dropped.\<close>

definition read_annotation :: "crd_codec \<Rightarrow> 'b kobject \<Rightarrow> historyFormat result" where
  "read_annotation cd obj =
     (case annotations_of obj HistoryAnnotation of
        None \<Rightarrow> Inr []
      | Some str \<Rightarrow> map_sum id fst (decodeHistory cd str))"

text \<open>The object as the call leaves it and the error it returns.\<close>

definition appendSpecToHistory ::
  "('c, 'b) CRDValueStore \<Rightarrow> time \<Rightarrow> 'b kobject \<Rightarrow> ('b kobject \<times> err option) result" where
  "appendSpecToHistory s now obj =
     (let cd = cs_codec s; conf = FillConfigFromObject s obj; annotations = annotations_of obj in
      rbind (read_annotation cd obj) (\<lambda>entries.
        let lastModifiedTime = last_modified cd obj annotations;
            annotations = annotations(LastModifiedAnnotation \<mapsto> cd_FormatTime cd now) in
        rbind (case ParseInt (ko_ResourceVersion obj) of
                 (revisionNumber, True) \<Rightarrow> SetRevision conf revisionNumber [lastModifiedTime]
               | (_, False) \<Rightarrow> Inr conf) (\<lambda>conf.
          let entries = entries @ [config_entry conf];
              entries = drop (length entries - 64) entries in
          case encodeHistory cd entries of
            Inr (str, _) \<Rightarrow> Inr (obj\<lparr>ko_Annotations := Some (annotations(HistoryAnnotation \<mapsto> str))\<rparr>, None)
          | Inl err \<Rightarrow>
              Inr (if ko_Annotations obj = None then obj
                   else obj\<lparr>ko_Annotations := Some (annotations(HistoryAnnotation \<mapsto> []))\<rparr>, Some err))))"

definition readHistory :: "('c, 'b) CRDValueStore \<Rightarrow> 'b kobject \<Rightarrow> historyFormat result" where
  "readHistory s obj =
     (let cd = cs_codec s in
      rbind (read_annotation cd obj) (\<lambda>entries.
        rbind (SetRevision (FillConfigFromObject s obj) (fst (ParseInt (ko_ResourceVersion obj)))
                 [last_modified cd obj (annotations_of obj)]) (\<lambda>conf.
          Inr (entries @ [config_entry conf]))))"


section \<open>The operations\<close>

definition RevisionOut :: "bool \<Rightarrow> 'b kobject \<Rightarrow> int64 option" where
  "RevisionOut out obj = (if out then Some (fst (ParseInt (ko_ResourceVersion obj))) else None)"

definition with_controller_reference :: "('c, 'b) CRDValueStore \<Rightarrow> 'b kobject \<Rightarrow> 'b kobject" where
  "with_controller_reference s obj =
     (case vm_ControllerReference (cs_methods s) of None \<Rightarrow> obj | Some set_ref \<Rightarrow> set_ref obj)"

definition crd_create ::
  "('c, 'b) CRDValueStore \<Rightarrow> PutOptions \<Rightarrow> 'b kobject \<Rightarrow> 'c \<Rightarrow> int64 option result \<times> 'c" where
  "crd_create s options obj c =
     (case kc_Create (cs_client s) obj FieldManagerName c of
        (Inl e, c) \<Rightarrow> (Inl (toGrpcError e), c)
      | (Inr obj, c) \<Rightarrow> (Inr (RevisionOut (put_RevisionOut options) obj), c))"

definition crd_update ::
  "('c, 'b) CRDValueStore \<Rightarrow> PutOptions \<Rightarrow> 'b kobject \<Rightarrow> 'c \<Rightarrow> int64 option result \<times> 'c" where
  "crd_update s options obj c =
     (if put_Revision options = Some 0 then
        (Inl (errorf_w ''%w: expected object not to exist (requested revision 0)'' ErrConflict), c)
      else
        (let obj = (case put_Revision options of
               None \<Rightarrow> obj | Some r \<Rightarrow> obj\<lparr>ko_ResourceVersion := FormatInt r\<rparr>) in
         case kc_Update (cs_client s) (obj\<lparr>ko_GVK := cs_gvk s\<rparr>) FieldManagerName c of
           (Inl e, c) \<Rightarrow> (Inl (toGrpcError e), c)
         | (Inr obj, c) \<Rightarrow> (Inr (RevisionOut (put_RevisionOut options) obj), c)))"

definition crd_Put ::
  "('c, 'b) CRDValueStore \<Rightarrow> time \<Rightarrow> pmsg option \<Rightarrow> PutOpt list \<Rightarrow> 'c \<Rightarrow> int64 option result \<times> 'c" where
  "crd_Put s now value' opts c =
     (let value' = (case value' of None \<Rightarrow> newEmptyConfig s | Some v \<Rightarrow> v);
          options = put_options opts;
          filled = (\<lambda>obj. vm_FillObjectFromConfig (cs_methods s) (with_controller_reference s obj) value') in
      case kc_Get (cs_client s) (cs_Namespace s) (cs_Name s) c of
        Inl e \<Rightarrow>
          if ReasonForError e = ReasonNotFound then crd_create s options (filled (newEmptyObject s)) c
          else (Inl (toGrpcError e), c)
      | Inr obj \<Rightarrow>
          (case appendSpecToHistory s now obj of
             Inl p \<Rightarrow> (Inl p, c)
           | Inr (obj, _) \<Rightarrow> crd_update s options (filled obj) c))"

definition entry_revision :: "historyEntry \<Rightarrow> int64" where
  "entry_revision e = Revision_GetRevision (GetRevision_ptr (he_Config e))"

text \<open>The value at a revision that is not the latest.\<close>

definition crd_lookup ::
  "crd_codec \<Rightarrow> 'b kobject \<Rightarrow> int64 \<Rightarrow> int64 \<Rightarrow> (pmsg option \<times> int64) result" where
  "crd_lookup cd obj latestRevision r =
     rbind (read_annotation cd obj) (\<lambda>entries.
       case find_first (\<lambda>e. entry_revision e = r) entries of
         Some e \<Rightarrow> Inr (he_Config e, r)
       | None \<Rightarrow>
           if r > latestRevision then Inl (status_error OutOfRange ''revision %d is a future revision'')
           else Inl (status_error NotFound ''revision %d not found''))"

definition crd_Get :: "('c, 'b) CRDValueStore \<Rightarrow> GetOpt list \<Rightarrow> 'c \<Rightarrow> (pmsg option \<times> int64 option) result" where
  "crd_Get s opts c =
     (let getOpts = get_options opts in
      case kc_Get (cs_client s) (cs_Namespace s) (cs_Name s) c of
        Inl e \<Rightarrow> Inl (toGrpcError e)
      | Inr obj \<Rightarrow>
          (let latestRevision = fst (ParseInt (ko_ResourceVersion obj)) in
           rbind (case get_Revision getOpts of
                    Some r \<Rightarrow>
                      if r \<noteq> latestRevision then crd_lookup (cs_codec s) obj latestRevision r
                      else Inr (Some (FillConfigFromObject s obj), latestRevision)
                  | None \<Rightarrow> Inr (Some (FillConfigFromObject s obj), latestRevision))
             (\<lambda>(conf, confRevision). rbind (UnsetRevision_ptr (cs_zero s) conf) (\<lambda>conf.
                Inr (conf, if get_RevisionOut getOpts then Some confRevision else None)))))"

definition crd_Delete :: "('c, 'b) CRDValueStore \<Rightarrow> DeleteOpt list \<Rightarrow> 'c \<Rightarrow> unit result \<times> 'c" where
  "crd_Delete s opts c =
     (case kc_Get (cs_client s) (cs_Namespace s) (cs_Name s) c of
        Inl e \<Rightarrow> (Inl (toGrpcError e), c)
      | Inr obj \<Rightarrow>
          (case kc_Delete (cs_client s) obj (map_option FormatInt (delete_Revision (delete_options opts))) c of
             (Some e, c) \<Rightarrow> (Inl (toGrpcError e), c)
           | (None, c) \<Rightarrow> (Inr (), c)))"

fun history_revisions ::
  "pmsg \<Rightarrow> HistoryOptions \<Rightarrow> historyFormat \<Rightarrow> pmsg option KeyRevisionImpl list result" where
  "history_revisions zero options [] = Inr []"
| "history_revisions zero options (e # es) =
     rbind (UnsetRevision_ptr zero (he_Config e)) (\<lambda>conf.
       let revision = GetRevision_ptr (he_Config e);
           rev = \<lparr>kr_K = [], kr_V = if history_IncludeValues options then conf else None,
             kr_Rev = Revision_GetRevision revision, kr_Time = AsTime (GetTimestamp revision)\<rparr> in
       if history_Revision options = Some (kr_Rev rev) then Inr [rev]
       else rbind (history_revisions zero options es) (\<lambda>revs. Inr (rev # revs)))"

definition crd_History ::
  "('c, 'b) CRDValueStore \<Rightarrow> HistoryOpt list \<Rightarrow> 'c \<Rightarrow> pmsg option KeyRevisionImpl list result" where
  "crd_History s opts c =
     (let historyOpts = history_options opts in
      case kc_Get (cs_client s) (cs_Namespace s) (cs_Name s) c of
        Inl e \<Rightarrow>
          if ReasonForError e = ReasonNotFound \<and> history_Revision historyOpts \<noteq> None then
            Inl (status_error Unimplemented
              ''this storage backend does not support tracking history for deleted objects'')
          else Inl (toGrpcError e)
      | Inr obj \<Rightarrow> rbind (readHistory s obj) (history_revisions (cs_zero s) historyOpts))"

section \<open>Watches\<close>

type_synonym crd_revision = "pmsg option KeyRevisionImpl"

type_synonym crd_event = "pmsg option WatchEvent"

text \<open>\<open>cloneKeyRevision\<close>: values are immutable here, so a clone differs from the original in nothing.\<close>

definition cloneKeyRevision :: "crd_revision option \<Rightarrow> crd_revision option" where
  "cloneKeyRevision kr =
     map_option (\<lambda>kr. \<lparr>kr_K = kr_K kr, kr_V = kr_V kr, kr_Rev = kr_Rev kr, kr_Time = kr_Time kr\<rparr>) kr"

definition getPreviousRevisionSlow :: "crd_codec \<Rightarrow> 'b kobject \<Rightarrow> int64 result" where
  "getPreviousRevisionSlow cd obj =
     rbind (read_annotation cd obj) (\<lambda>entries.
       Inr (if entries = [] then fst (ParseInt (ko_ResourceVersion obj)) else entry_revision (last entries)))"

definition key_revision :: "pmsg option \<Rightarrow> int64 \<Rightarrow> time \<Rightarrow> crd_revision" where
  "key_revision v r t = \<lparr>kr_K = [], kr_V = v, kr_Rev = r, kr_Time = t\<rparr>"

text \<open>
  What the goroutine sends, with the panic that ends it, if one does. The history before a watched revision:
  the events it sends, and the last entry it looked at.
\<close>

fun replay_history ::
  "pmsg \<Rightarrow> WatchEventType \<Rightarrow> int64 \<Rightarrow> int64 \<Rightarrow> historyFormat \<Rightarrow> crd_revision option
     \<Rightarrow> crd_event list \<times> crd_revision option result" where
  "replay_history zero ty watched current [] previous = ([], Inr previous)"
| "replay_history zero ty watched current (e # es) previous =
     (let rev = GetRevision_ptr (he_Config e) in
      if Revision_GetRevision rev = current then ([], Inr previous)
      else
        (case UnsetRevision_ptr zero (he_Config e) of
           Inl p \<Rightarrow> ([], Inl p)
         | Inr conf \<Rightarrow>
             if rev = None then ([], Inl (go_panic ''nil dereference''))
             else
               (let kr = key_revision conf (Revision_GetRevision rev) (AsTime (GetTimestamp rev));
                    sent = (case Revision_number rev of
                        Some n \<Rightarrow> if watched \<le> n \<and> n < current
                          then [\<lparr>ev_EventType = ty, ev_Current = cloneKeyRevision (Some kr),
                            ev_Previous = cloneKeyRevision previous\<rparr>] else []
                      | None \<Rightarrow> []);
                    (evs, res) = replay_history zero ty watched current es (Some kr) in
                (sent @ evs, res))))"

text \<open>The type assertion on the object of a result.\<close>

fun watched_object :: "'b k8s_object \<Rightarrow> 'b kobject result" where
  "watched_object (Object obj) = Inr obj"
| "watched_object (StatusObject _) = Inl (go_panic ''interface conversion'')"

definition crd_current :: "('c, 'b) CRDValueStore \<Rightarrow> 'b kobject \<Rightarrow> crd_revision result" where
  "crd_current s obj =
     rbind (UnsetRevision (FillConfigFromObject s obj)) (\<lambda>conf.
       Inr (key_revision (Some conf) (fst (ParseInt (ko_ResourceVersion obj))) zero_time))"

definition watch_initial ::
  "('c, 'b) CRDValueStore \<Rightarrow> int64 option \<Rightarrow> string \<Rightarrow> 'b watch_result \<Rightarrow> crd_event list \<times> crd_revision option result" where
  "watch_initial s watched latestVersion res =
     (let ty = fst res;
          eventType = (if ty = Deleted then WatchEventDelete else WatchEventPut) in
      if ty \<notin> {Added, Modified, Deleted} then ([], Inr None)
      else
        (case watched_object (snd res) of
           Inl p \<Rightarrow> ([], Inl p)
         | Inr obj \<Rightarrow>
             (let currentRevision = fst (ParseInt (ko_ResourceVersion obj));
                  (evs, replayed) =
                    (case watched of
                       None \<Rightarrow> ([], Inr None)
                     | Some r \<Rightarrow>
                         (case readHistory s obj of
                            Inl p \<Rightarrow> ([], Inl p)
                          | Inr entries \<Rightarrow> replay_history (cs_zero s) eventType r currentRevision entries None)) in
              case rbind replayed (\<lambda>previous. rbind (crd_current s obj) (\<lambda>current. Inr (previous, current))) of
                Inl p \<Rightarrow> (evs, Inl p)
              | Inr (previous, current) \<Rightarrow>
                  (evs @ (if watched \<noteq> None \<or> ko_ResourceVersion obj \<noteq> latestVersion
                          then [\<lparr>ev_EventType = eventType, ev_Current = cloneKeyRevision (Some current),
                            ev_Previous = cloneKeyRevision previous\<rparr>] else []),
                   Inr (Some current)))))"

text \<open>One later result: the event it sends, if any, and the revision remembered after it.\<close>

definition watch_step ::
  "('c, 'b) CRDValueStore \<Rightarrow> crd_revision option \<Rightarrow> 'b watch_result \<Rightarrow> (crd_event option \<times> crd_revision option) result" where
  "watch_step s previous res =
     rbind (watched_object (snd res)) (\<lambda>obj. rbind (crd_current s obj) (\<lambda>current.
       case fst res of
         Deleted \<Rightarrow>
           rbind (case previous of None \<Rightarrow> getPreviousRevisionSlow (cs_codec s) obj | Some p \<Rightarrow> Inr (kr_Rev p))
             (\<lambda>previousRevision.
               Inr (Some \<lparr>ev_EventType = WatchEventDelete, ev_Current = None,
                     ev_Previous = Some (key_revision (kr_V current) previousRevision zero_time)\<rparr>, None))
       | Bookmark \<Rightarrow> Inr (None, previous)
       | WatchError \<Rightarrow> Inr (None, previous)
       | _ \<Rightarrow>
           Inr (Some \<lparr>ev_EventType = WatchEventPut, ev_Current = cloneKeyRevision (Some current),
                 ev_Previous = cloneKeyRevision previous\<rparr>, Some current)))"

fun watch_loop ::
  "('c, 'b) CRDValueStore \<Rightarrow> crd_revision option \<Rightarrow> 'b watch_result list \<Rightarrow> crd_event list \<times> err option" where
  "watch_loop s previous [] = ([], None)"
| "watch_loop s previous (res # rest) =
     (case watch_step s previous res of
        Inl p \<Rightarrow> ([], Some p)
      | Inr (ev, previous) \<Rightarrow>
          (case watch_loop s previous rest of (evs, p) \<Rightarrow> (case ev of None \<Rightarrow> evs | Some e \<Rightarrow> e # evs, p)))"

definition watch_results ::
  "('c, 'b) CRDValueStore \<Rightarrow> int64 option \<Rightarrow> string \<Rightarrow> 'b watch_result list \<Rightarrow> crd_event list \<times> err option" where
  "watch_results s watched latestVersion results =
     (case results of
        [] \<Rightarrow> ([], None)
      | res # rest \<Rightarrow>
          (case watch_initial s watched latestVersion res of
             (evs, Inl p) \<Rightarrow> (evs, Some p)
           | (evs, Inr previous) \<Rightarrow> (case watch_loop s previous rest of (evs', p) \<Rightarrow> (evs @ evs', p))))"

definition crd_Watch ::
  "('c, 'b) CRDValueStore \<Rightarrow> WatchOpt list \<Rightarrow> 'c \<Rightarrow> (crd_event list \<times> err option) result" where
  "crd_Watch s opts c =
     (let watchOpts = watch_options opts in
      if watch_Prefix watchOpts then
        Inl (status_error Unimplemented ''prefix watches are not supported by this storage backend'')
      else
        (let latestVersion = (case kc_Get (cs_client s) (cs_Namespace s) (cs_Name s) c of
               Inl _ \<Rightarrow> [] | Inr obj \<Rightarrow> ko_ResourceVersion obj) in
         case kc_Watch (cs_client s) (cs_Namespace s) (cs_Name s) c of
           Inl e \<Rightarrow> Inl (toGrpcError e)
         | Inr results \<Rightarrow> Inr (watch_results s (watch_Revision watchOpts) latestVersion results)))"

definition crd_ops :: "('c, 'b) CRDValueStore \<Rightarrow> ('c, pmsg option) ValueStoreT" where
  "crd_ops s = \<lparr>st_Put = crd_Put s, st_Get = crd_Get s, st_Delete = (\<lambda>now. crd_Delete s), st_History = crd_History s\<rparr>"

end
