(* ===== verification/CrdHistory.thy ===== *)
theory CrdHistory
  imports Crd
begin

text \<open>
  The history annotation of a custom resource: what is written can be read back, and it fits the limit of the
  API server.
\<close>

section \<open>The text\<close>

text \<open>An entry without white space at its start, which a skipped prefix does not change.\<close>

lemma not_space [simp]:
  "\<not> is_space CHR 0x22" "\<not> is_space CHR ''{''" "\<not> is_space CHR ''}''" "\<not> is_space CHR ''[''" "\<not> is_space CHR '']''"
  "\<not> is_space CHR '':''" "\<not> is_space CHR '',''"
  by (simp_all add: is_space_def)

definition entry_value :: "8 word list \<Rightarrow> json" where
  "entry_value b = JObject [(''wirev2'', JString (base64_Encode b))]"

lemma json_key_wirev2: \<open>json_string (''wirev2":'' @ r) = Some (''wirev2'', '':'' @ r)\<close>
  using json_string_plain [of "''wirev2''" "'':'' @ r"] by (simp add: plain_string_def)

lemma json_key_entries: \<open>json_string (''entries":'' @ r) = Some (''entries'', '':'' @ r)\<close>
  using json_string_plain [of "''entries''" "'':'' @ r"] by (simp add: plain_string_def)

lemma json_value_entry: "json_value (Suc (Suc (Suc n))) (entry_json b @ r) = Some (entry_value b, r)"
proof -
  have s: \<open>json_string (base64_Encode b @ ''"}'' @ r) = Some (base64_Encode b, ''}'' @ r)\<close>
    using json_string_plain [OF base64_plain, of b "''}'' @ r"] by simp
  show ?thesis
    using s json_key_wirev2 [of \<open>''"'' @ base64_Encode b @ ''"}'' @ r\<close>]
    by (simp add: entry_json_def entry_value_def del: json_string.simps)
qed

lemma json_elements_entries:
  "bs \<noteq> [] \<Longrightarrow> length bs + 3 \<le> n \<Longrightarrow>
   json_elements n (join_comma (map entry_json bs) @ '']'' @ r) = Some (map entry_value bs, r)"
proof (induction bs arbitrary: n)
  case (Cons b bs)
  define k where "k = n - 4"
  with Cons.prems have n: "n = Suc (Suc (Suc (Suc k)))" "length bs + 3 \<le> Suc (Suc (Suc k))" by simp_all
  show ?case
  proof (cases "bs = []")
    case True
    with n show ?thesis using json_value_entry [of k b "'']'' @ r"] by simp
  next
    case False
    then have "join_comma (map entry_json (b # bs)) = entry_json b @ CHR '','' # join_comma (map entry_json bs)"
      by (cases bs) simp_all
    with n False show ?thesis
      using json_value_entry [of k b "CHR '','' # join_comma (map entry_json bs) @ '']'' @ r"] Cons.IH [of "Suc (Suc (Suc k))"]
      by simp
  qed
qed simp

lemma entry_json_length: "length (entry_json b) = 13 + base64_EncodedLen (length b)"
  by (simp add: entry_json_def)

lemma join_comma_length:
  "length (join_comma xs) = sum_list (map length xs) + (length xs - 1)"
  by (induction xs rule: join_comma.induct) simp_all

lemma history_json_length: "length (history_json xs) = 14 + sum_list (map length xs) + (length xs - 1)"
  by (simp add: history_json_def join_comma_length)

lemma json_parse_history:
  "json_parse (history_json (map entry_json bs)) = Some (JObject [(''entries'', JArray (map entry_value bs))])"
proof -
  have "sum_list (map length (map entry_json bs)) \<ge> length bs"
    by (induction bs) (simp_all add: entry_json_length)
  then have fuel: "length bs + 3 \<le> 2 * length (history_json (map entry_json bs)) - 1"
    by (simp add: history_json_length)
  define n where "n = 2 * length (history_json (map entry_json bs)) - 1"
  then have n: "2 * length (history_json (map entry_json bs)) + 2 = Suc (Suc (Suc n))"
    by (simp add: history_json_length)
  have e: "json_elements n (join_comma (map entry_json bs) @ '']}'') = Some (map entry_value bs, ''}'')" if "bs \<noteq> []"
    using json_elements_entries [OF that, of n "''}''"] fuel n_def by simp
  have "json_value (2 * length (history_json (map entry_json bs)) + 2) (history_json (map entry_json bs))
      = Some (JObject [(''entries'', JArray (map entry_value bs))], [])"
  proof (cases "bs = []")
    case True
    then show ?thesis
      unfolding n using json_key_entries [of "''[]}''"]
      by (simp add: history_json_def del: json_string.simps)
  next
    case False
    have x: "take 1 (skip_ws (join_comma (map entry_json bs) @ '']}'')) \<noteq> '']''"
      using False by (cases bs; cases "tl bs") (simp_all add: entry_json_def)
    show ?thesis
      unfolding n using json_key_entries [of "''['' @ join_comma (map entry_json bs) @ '']}''"] e [OF False] x
      by (simp add: history_json_def del: json_string.simps)
  qed
  then show ?thesis by (simp add: json_parse_def)
qed


section \<open>Encoding\<close>

lemma truncate_history_eq: "truncate_history cd hist = rev (newest_that_fit cd (rev hist) 14)"
  by (simp add: truncate_history_def eval_nat_numeral)

lemma entry_size_eq: "entry_size cd e = base64_EncodedLen (cd_MaxEncodedLen cd (12 + length (he_Wire e)))"
  by (simp add: entry_size_def eval_nat_numeral)

text \<open>What the driver needs of snappy: decoding undoes encoding, and \<open>MaxEncodedLen\<close> bounds the result.\<close>

locale snappy =
  fixes cd :: crd_codec
  assumes decode_encode [simp]: "cd_Decode cd (cd_Encode cd w) = Inr w"
    and encode_nonempty [simp]: "cd_Encode cd w \<noteq> []"
    and encode_length: "length (cd_Encode cd w) \<le> cd_MaxEncodedLen cd (length w)"
    and max_add: "cd_MaxEncodedLen cd n + 12 \<le> cd_MaxEncodedLen cd (12 + n)"

text \<open>A message that protobuf carries unchanged.\<close>

definition transmits :: "crd_codec \<Rightarrow> pmsg \<Rightarrow> bool" where
  "transmits cd m \<longleftrightarrow> (\<exists>w. cd_Marshal cd m = Inr w \<and> w \<noteq> [] \<and> cd_Unmarshal cd w = (m, None))"

definition sound_entry :: "crd_codec \<Rightarrow> historyEntry \<Rightarrow> bool" where
  "sound_entry cd e \<longleftrightarrow> (\<exists>m. he_Config e = Some m \<and> transmits cd m)"

lemma transmits_Marshal: "transmits cd m \<Longrightarrow> \<exists>w. cd_Marshal cd m = Inr w"
  by (auto simp: transmits_def)

text \<open>An entry whose wire form is that of its configuration.\<close>

definition filled :: "crd_codec \<Rightarrow> historyEntry \<Rightarrow> bool" where
  "filled cd e \<longleftrightarrow> (\<forall>m. he_Config e = Some m \<longrightarrow> cd_Marshal cd m = Inr (he_Wire e))"

lemma fill_wire_filled:
  "fill_wire cd hist = Inr hist' \<Longrightarrow> list_all (filled cd) hist' \<and> map he_Config hist' = map he_Config hist"
  by (induction hist arbitrary: hist') (auto simp: rbind_Inr filled_def split: option.splits)

lemma fill_wire_ok: "list_all (sound_entry cd) hist \<Longrightarrow> \<exists>hist'. fill_wire cd hist = Inr hist'"
  by (induction hist) (auto simp: sound_entry_def dest!: transmits_Marshal)

lemma newest_prefix: "\<exists>k \<le> length es. newest_that_fit cd es sz = take k es"
proof (induction es arbitrary: sz)
  case (Cons e es)
  show ?case
  proof (cases "sz + entry_size cd e > maxAnnotationSize")
    case True
    then show ?thesis by (auto intro: exI [of _ 0])
  next
    case False
    with Cons [of "sz + entry_size cd e"] obtain k where "k \<le> length es"
      "newest_that_fit cd es (sz + entry_size cd e) = take k es" by auto
    with False show ?thesis by (auto intro: exI [of _ "Suc k"])
  qed
qed simp

lemma newest_size:
  "sz \<le> maxAnnotationSize \<Longrightarrow> sz + sum_list (map (entry_size cd) (newest_that_fit cd es sz)) \<le> maxAnnotationSize"
  by (induction es arbitrary: sz) (auto simp: add.assoc [symmetric])

lemma truncate_suffix: "\<exists>k \<le> length hist. truncate_history cd hist = drop k hist"
proof -
  obtain k where "k \<le> length hist" "newest_that_fit cd (rev hist) 14 = take k (rev hist)"
    using newest_prefix [of "rev hist" cd 14] by auto
  then have "truncate_history cd hist = drop (length hist - k) hist"
    by (simp add: truncate_history_eq rev_take)
  then show ?thesis by (metis diff_le_self)
qed

text \<open>Nothing is cut off when all entries fit.\<close>

lemma newest_all: "sz + sum_list (map (entry_size cd) es) \<le> maxAnnotationSize \<Longrightarrow> newest_that_fit cd es sz = es"
  by (induction es arbitrary: sz) auto

definition message_size :: "crd_codec \<Rightarrow> historyEntry \<Rightarrow> nat" where
  "message_size cd e =
     base64_EncodedLen (cd_MaxEncodedLen cd (12 + (case cd_Marshal cd (the (he_Config e)) of Inr w \<Rightarrow> length w | Inl _ \<Rightarrow> 0)))"

definition history_fits :: "crd_codec \<Rightarrow> historyFormat \<Rightarrow> bool" where
  "history_fits cd es \<longleftrightarrow> 14 + sum_list (map (message_size cd) es) \<le> maxAnnotationSize"

lemma message_size_filled:
  "filled cd e \<Longrightarrow> he_Config e = Some m \<Longrightarrow> he_Config e' = Some m \<Longrightarrow> message_size cd e' = entry_size cd e"
  by (simp add: message_size_def entry_size_eq filled_def)

lemma truncate_fits:
  assumes "map he_Config ws = map he_Config hist" "list_all (filled cd) ws" "list_all (sound_entry cd) hist"
    and "history_fits cd hist"
  shows "truncate_history cd ws = ws"
proof -
  from assms(1-3) have "map (entry_size cd) ws = map (message_size cd) hist"
  proof (induction ws arbitrary: hist)
    case (Cons w ws)
    then obtain h hs where h: "hist = h # hs" "he_Config w = he_Config h" "map he_Config ws = map he_Config hs" by (cases hist) auto
    with Cons.prems obtain m where "he_Config h = Some m" by (auto simp: sound_entry_def)
    with Cons h message_size_filled [of cd w m h] show ?case by simp
  qed simp
  then have "sum_list (map (entry_size cd) (rev ws)) = sum_list (map (message_size cd) hist)" by (simp flip: rev_map)
  with assms(4) have "14 + sum_list (map (entry_size cd) (rev ws)) \<le> maxAnnotationSize" by (simp add: history_fits_def)
  from newest_all [OF this] show ?thesis by (simp add: truncate_history_eq)
qed

lemma truncate_size: "14 + sum_list (map (entry_size cd) (truncate_history cd hist)) \<le> maxAnnotationSize"
  using newest_size [of 14 cd "rev hist"]
  by (simp add: truncate_history_eq maxAnnotationSize_def flip: rev_map)

lemma marshal_entries_filled:
  "marshal_entries cd es = Inr xs \<Longrightarrow> list_all (filled cd) es \<Longrightarrow>
   xs = map (\<lambda>e. entry_json (cd_Encode cd (he_Wire e))) es \<and> list_all (\<lambda>e. he_Config e \<noteq> None) es"
  by (induction es arbitrary: xs)
    (auto simp: rbind_Inr historyEntry_MarshalJSON_def filled_def split: option.splits)

lemma marshal_entries_ok:
  "list_all (sound_entry cd) es \<Longrightarrow> \<exists>xs. marshal_entries cd es = Inr xs"
  by (induction es) (auto simp: historyEntry_MarshalJSON_def sound_entry_def dest!: transmits_Marshal)

lemma encodeHistory_cases:
  assumes "encodeHistory cd hist = Inr (str, n)"
  obtains es where "fill_wire cd hist = Inr es"
    "str = history_json (map entry_json (map (\<lambda>e. cd_Encode cd (he_Wire e)) (truncate_history cd es)))"
    "n = length (truncate_history cd es)" "list_all (filled cd) (truncate_history cd es)"
    "list_all (\<lambda>e. he_Config e \<noteq> None) (truncate_history cd es)"
proof -
  from assms obtain es xs where es: "fill_wire cd hist = Inr es"
    and xs: "marshal_entries cd (truncate_history cd es) = Inr xs" "str = history_json xs"
      "n = length (truncate_history cd es)"
    by (auto simp: encodeHistory_def rbind_Inr Let_def)
  from truncate_suffix [of es cd] obtain k where "truncate_history cd es = drop k es" by auto
  with fill_wire_filled [OF es] have "list_all (filled cd) (truncate_history cd es)"
    by (auto simp: list_all_iff dest: in_set_dropD)
  with es xs marshal_entries_filled [OF xs(1)] that show ?thesis by (simp add: comp_def)
qed

context snappy
begin

lemma entry_fits: "length (entry_json (cd_Encode cd (he_Wire e))) + 1 \<le> entry_size cd e"
proof -
  have "length (cd_Encode cd (he_Wire e)) + 12 \<le> cd_MaxEncodedLen cd (12 + length (he_Wire e))"
    using encode_length [of "he_Wire e"] max_add [of "length (he_Wire e)"] by simp
  then have "base64_EncodedLen (3 * 4 + length (cd_Encode cd (he_Wire e)))
      \<le> base64_EncodedLen (cd_MaxEncodedLen cd (12 + length (he_Wire e)))"
    by (intro EncodedLen_mono) simp
  moreover have "base64_EncodedLen (3 * 4 + length (cd_Encode cd (he_Wire e))) = 16 + base64_EncodedLen (length (cd_Encode cd (he_Wire e)))"
    by (simp only: EncodedLen_add)
  ultimately show ?thesis by (simp add: entry_json_length entry_size_eq)
qed

lemma encodeHistory_bound:
  assumes "encodeHistory cd hist = Inr (str, n)"
  shows "length str \<le> maxAnnotationSize"
proof -
  from assms obtain es where str:
    "str = history_json (map entry_json (map (\<lambda>e. cd_Encode cd (he_Wire e)) (truncate_history cd es)))"
    by (rule encodeHistory_cases)
  have "sum_list (map (\<lambda>e. length (entry_json (cd_Encode cd (he_Wire e))) + 1) ts) \<le> sum_list (map (entry_size cd) ts)" for ts
    by (rule sum_list_mono) (rule entry_fits)
  moreover have "sum_list (map (\<lambda>e. length (entry_json (cd_Encode cd (he_Wire e))) + 1) ts)
      = sum_list (map (\<lambda>e. length (entry_json (cd_Encode cd (he_Wire e)))) ts) + length ts" for ts
    by (induction ts) simp_all
  ultimately have "sum_list (map (\<lambda>e. length (entry_json (cd_Encode cd (he_Wire e)))) ts) + length ts
      \<le> sum_list (map (entry_size cd) ts)" for ts by metis
  from this [of "truncate_history cd es"] truncate_size [of cd es] show ?thesis
    by (simp add: str history_json_length comp_def)
qed

end

section \<open>Decoding\<close>

lemma json_fields [simp]:
  "json_field ''entries'' ''entries''" "json_field ''wirev2'' ''wirev2''" "\<not> json_field ''wire'' ''wirev2''"
  by (simp_all add: json_field_def ToLower_def char_ToLower_def)

context snappy
begin

lemma unmarshal_entry:
  "w \<noteq> [] \<Longrightarrow> cd_Unmarshal cd w = (m, None) \<Longrightarrow>
   historyEntry_UnmarshalJSON cd (entry_value (cd_Encode cd w)) = (\<lparr>he_Wire = w, he_Wirev2 = [], he_Config = Some m\<rparr>, None)"
  by (simp add: historyEntry_UnmarshalJSON_def entry_value_def unmarshal_fields_def unmarshal_field_def json_bytes_def
      first_error_def empty_entry_def unmarshal_wire_def)

lemma unmarshal_entries_sound:
  "list_all (sound_entry cd) es \<Longrightarrow> list_all (filled cd) es \<Longrightarrow>
   unmarshal_entries cd (map (\<lambda>e. entry_value (cd_Encode cd (he_Wire e))) es)
     = (map (\<lambda>e. e\<lparr>he_Wirev2 := []\<rparr>) es, None)"
proof (induction es)
  case (Cons e es)
  then obtain m where m: "he_Config e = Some m" "he_Wire e \<noteq> []" "cd_Unmarshal cd (he_Wire e) = (m, None)"
    by (auto simp: sound_entry_def transmits_def filled_def)
  have "\<lparr>he_Wire = he_Wire e, he_Wirev2 = [], he_Config = Some m\<rparr> = e\<lparr>he_Wirev2 := []\<rparr>" using m by (cases e) simp
  with Cons unmarshal_entry [OF m(2,3)] show ?case by simp
qed simp

text \<open>
  A history of sound entries is written, and read back without its oldest entries: those the size limit cut off.
\<close>

lemma history_roundtrip:
  assumes "list_all (sound_entry cd) hist"
  shows "\<exists>str n es k. encodeHistory cd hist = Inr (str, n) \<and> str \<noteq> [] \<and> decodeHistory cd str = Inr (es, None)
    \<and> map he_Config es = drop k (map he_Config hist) \<and> (history_fits cd hist \<longrightarrow> k = 0) \<and> n = length es \<and> list_all (sound_entry cd) es"
proof -
  from fill_wire_ok [OF assms] obtain ws where ws: "fill_wire cd hist = Inr ws" by auto
  from fill_wire_filled [OF ws] have f: "list_all (filled cd) ws" "map he_Config ws = map he_Config hist" by auto
  from assms have "list_all (\<lambda>c. \<exists>m. c = Some m \<and> transmits cd m) (map he_Config hist)"
    by (simp add: list_all_iff sound_entry_def)
  then have sound: "list_all (sound_entry cd) ws"
    unfolding f(2) [symmetric] by (simp add: list_all_iff sound_entry_def)
  obtain k where k: "truncate_history cd ws = drop k ws" "history_fits cd hist \<longrightarrow> k = 0"
    using truncate_suffix [of ws cd] truncate_fits [OF f(2,1) assms] by (cases "history_fits cd hist") auto
  with sound f(1) have d: "list_all (sound_entry cd) (drop k ws)" "list_all (filled cd) (drop k ws)"
    by (auto simp: list_all_iff dest: in_set_dropD)
  from marshal_entries_ok [OF d(1)] obtain xs where xs: "marshal_entries cd (drop k ws) = Inr xs" by auto
  define str where "str = history_json (map entry_json (map (\<lambda>e. cd_Encode cd (he_Wire e)) (drop k ws)))"
  from marshal_entries_filled [OF xs d(2)] ws k xs have e: "encodeHistory cd hist = Inr (str, length (drop k ws))"
    by (simp add: encodeHistory_def str_def comp_def)
  have "hd str = CHR ''{''" "str \<noteq> []" by (simp_all add: str_def history_json_def)
  then have "decodeHistory cd str = Inr (map (\<lambda>e. e\<lparr>he_Wirev2 := []\<rparr>) (drop k ws), None)"
    unfolding decodeHistory_def json_Unmarshal_history_def
    using json_parse_history [of "map (\<lambda>e. cd_Encode cd (he_Wire e)) (drop k ws)"] unmarshal_entries_sound [OF d]
    by (simp add: str_def comp_def)
  moreover have "map he_Config (map (\<lambda>e. e\<lparr>he_Wirev2 := []\<rparr>) (drop k ws)) = drop k (map he_Config hist)"
    by (simp add: f(2) [symmetric] drop_map comp_def)
  moreover have "list_all (sound_entry cd) (map (\<lambda>e. e\<lparr>he_Wirev2 := []\<rparr>) (drop k ws))"
    using d(1) by (simp add: list_all_iff sound_entry_def)
  ultimately show ?thesis using e k(2) \<open>str \<noteq> []\<close> by (metis length_map)
qed

end

end
