(* ===== verification/CrdIface.thy ===== *)
theory CrdIface
  imports CrdHistory
begin

text \<open>
  What the driver for custom resources relies on, and what it does with it. The API server gives every version
  of an object a number of its own and refuses an update of an older one; the methods put a configuration into
  the body of an object and read it back. Then the object is a log of configurations: the entries of its
  annotation and its body, at increasing revisions.
\<close>

section \<open>The API server\<close>

text \<open>
  \<open>head\<close> is the last version that was assigned. A state with no room for another version is not written to.
\<close>

definition accepted where
  "accepted ok stored head c obj obj' c' \<longleftrightarrow>
     ok c' \<and> stored c' = Some obj' \<and> ko_Body obj' = ko_Body obj \<and> ko_Annotations obj' = ko_Annotations obj
     \<and> head c < head c' \<and> ko_ResourceVersion obj' = FormatInt (head c')
     \<and> ko_Name obj' = ko_Name obj \<and> ko_Namespace obj' = ko_Namespace obj"

locale k8s_server =
  fixes cl :: "('c, 'b) k8s_client"
    and ns :: string and nm :: string
    and ok :: "'c \<Rightarrow> bool"
    and stored :: "'c \<Rightarrow> 'b kobject option"
    and head :: "'c \<Rightarrow> int64"
  assumes head: "ok c \<Longrightarrow> 0 \<le> head c \<and> head c < 2 ^ 63"
    and get_some: "ok c \<Longrightarrow> stored c = Some obj \<Longrightarrow> kc_Get cl ns nm c = Inr obj"
    and get_none: "ok c \<Longrightarrow> stored c = None \<Longrightarrow> \<exists>m. kc_Get cl ns nm c = Inl (K8sStatus ReasonNotFound m)"
    and version:
      "ok c \<Longrightarrow> stored c = Some obj \<Longrightarrow> \<exists>n. 0 < n \<and> n \<le> head c \<and> ko_ResourceVersion obj = FormatInt n"
    and create:
      "ok c \<Longrightarrow> head c + 1 < 2 ^ 63 \<Longrightarrow> stored c = None \<Longrightarrow> ko_Name obj = nm \<Longrightarrow> ko_Namespace obj = ns \<Longrightarrow>
       \<exists>obj' c'. kc_Create cl obj fm c = (Inr obj', c') \<and> accepted ok stored head c obj obj' c'"
    and update:
      "ok c \<Longrightarrow> head c + 1 < 2 ^ 63 \<Longrightarrow> stored c = Some old \<Longrightarrow> ko_Name obj = ko_Name old \<Longrightarrow>
       ko_Namespace obj = ko_Namespace old \<Longrightarrow> ko_ResourceVersion obj = ko_ResourceVersion old \<Longrightarrow>
       \<exists>obj' c'. kc_Update cl obj fm c = (Inr obj', c') \<and> accepted ok stored head c obj obj' c'"
    and update_stale:
      "ok c \<Longrightarrow> stored c = Some old \<Longrightarrow> ko_Name obj = ko_Name old \<Longrightarrow> ko_Namespace obj = ko_Namespace old \<Longrightarrow>
       ko_ResourceVersion obj \<noteq> [] \<Longrightarrow> ko_ResourceVersion obj \<noteq> ko_ResourceVersion old \<Longrightarrow>
       \<exists>m. kc_Update cl obj fm c = (Inl (K8sStatus ReasonConflict m), c)"
    and delete:
      "ok c \<Longrightarrow> stored c = Some obj \<Longrightarrow> pre = None \<or> pre = Some (ko_ResourceVersion obj) \<Longrightarrow>
       \<exists>c'. kc_Delete cl obj pre c = (None, c') \<and> ok c' \<and> stored c' = None"
    and delete_stale:
      "ok c \<Longrightarrow> stored c = Some obj \<Longrightarrow> pre = Some v \<Longrightarrow> v \<noteq> ko_ResourceVersion obj \<Longrightarrow>
       \<exists>m. kc_Delete cl obj pre c = (Some (K8sStatus ReasonConflict m), c)"

section \<open>The log of an object\<close>

definition entry_log :: "historyEntry \<Rightarrow> pmsg \<times> int64" where
  "entry_log e = (unset_revision (the (he_Config e)), entry_revision e)"

definition object_log :: "('c, 'b) CRDValueStore \<Rightarrow> 'b kobject \<Rightarrow> (pmsg \<times> int64) list" where
  "object_log s obj = (case readHistory s obj of Inl _ \<Rightarrow> [] | Inr es \<Rightarrow> map entry_log es)"

definition crd_log where
  "crd_log s stored c = (case stored c of None \<Rightarrow> [] | Some obj \<Rightarrow> object_log s obj)"

definition revision_entry :: "crd_codec \<Rightarrow> historyEntry \<Rightarrow> bool" where
  "revision_entry cd e \<longleftrightarrow>
     sound_entry cd e \<and> has_revision (the (he_Config e)) \<and> GetRevision (the (he_Config e)) \<noteq> None"

definition sound_object :: "('c, 'b) CRDValueStore \<Rightarrow> (pmsg \<Rightarrow> bool) \<Rightarrow> 'b kobject \<Rightarrow> bool" where
  "sound_object s valid obj \<longleftrightarrow>
     valid (FillConfigFromObject s obj)
     \<and> (\<exists>es. read_annotation (cs_codec s) obj = Inr es \<and> list_all (revision_entry (cs_codec s)) es
          \<and> sorted_wrt (<) (map entry_revision es @ [fst (ParseInt (ko_ResourceVersion obj))]))"

definition crd_inv where
  "crd_inv s ok stored valid c \<longleftrightarrow> ok c \<and> (\<forall>obj. stored c = Some obj \<longrightarrow> sound_object s valid obj
     \<and> ko_Name obj = cs_Name s \<and> ko_Namespace obj = cs_Namespace s)"

text \<open>The history that a write leaves fits the annotation: nothing but the limit of entries cuts it.\<close>

definition object_fits :: "('c, 'b) CRDValueStore \<Rightarrow> 'b kobject \<Rightarrow> bool" where
  "object_fits s obj =
     (case readHistory s obj of Inl _ \<Rightarrow> True | Inr es \<Rightarrow> history_fits (cs_codec s) (drop (length es - 64) es))"

section \<open>The store\<close>

text \<open>
  A configuration is valid when the methods carry it: it has a revision field, which is empty, and comes back
  from an object it was put into; protobuf carries it with a revision.
\<close>

locale crd_store = snappy "cs_codec s" + k8s_server "cs_client s" "cs_Namespace s" "cs_Name s" ok stored head
  for s :: "('c, 'b) CRDValueStore" and ok stored head +
  fixes valid :: "pmsg \<Rightarrow> bool"
  assumes valid_revision: "valid v \<Longrightarrow> has_revision v \<and> msg_get ''revision'' v = None"
    and valid_transmits:
      "valid v \<Longrightarrow> 0 < n \<Longrightarrow> n < 2 ^ 63 \<Longrightarrow> SetRevision v n [t] = Inr m \<Longrightarrow> transmits (cs_codec s) m"
    and fill_config: "valid v \<Longrightarrow> FillConfigFromObject s (vm_FillObjectFromConfig (cs_methods s) obj v) = v"
    and fill_body: "ko_Body obj = ko_Body obj' \<Longrightarrow> FillConfigFromObject s obj = FillConfigFromObject s obj'"
    and fill_meta:
      "vm_FillObjectFromConfig (cs_methods s) obj v = obj\<lparr>ko_Body := ko_Body (vm_FillObjectFromConfig (cs_methods s) obj v)\<rparr>"
    and reference_meta:
      "with_controller_reference s obj = obj\<lparr>ko_Body := ko_Body (with_controller_reference s obj)\<rparr>"
begin

lemma SetRevision_valid:
  assumes "valid v"
  shows "SetRevision v n [t] = Inr (msg_Set ''revision'' (VMsg (revision_msg (Some n) (maybe_timestamp [t]))) v)"
  using valid_revision [OF assms] by (simp add: SetRevision_def with_revision_field_ok GetRevision_def)

text \<open>The entry for the current value.\<close>

lemma current_entry:
  assumes "valid v" "0 < n" "n < 2 ^ 63"
  obtains m where "SetRevision v n [t] = Inr m" "revision_entry (cs_codec s) (config_entry m)"
    "entry_log (config_entry m) = (v, n)" "entry_revision (config_entry m) = n"
proof -
  let ?m = "msg_Set ''revision'' (VMsg (revision_msg (Some n) (maybe_timestamp [t]))) v"
  note m = SetRevision_valid [OF assms(1), of n t] and v = valid_revision [OF assms(1)]
  have g: "GetRevision ?m = Some (revision_msg (Some n) (maybe_timestamp [t]))"
    using v by (simp add: GetRevision_def msg_get_put has_revision_field)
  have n: "sint (word_of_int n :: 64 word) = n" using assms(2,3) by (intro sint_word_of_int) auto
  have r: "entry_revision (config_entry ?m) = n"
    using g n by (simp add: entry_revision_def config_entry_def GetRevision_ptr_def Revision_GetRevision_def)
  moreover have "revision_entry (cs_codec s) (config_entry ?m)"
    using v g valid_transmits [OF assms m] by (simp add: revision_entry_def sound_entry_def config_entry_def)
  moreover have "msg_Clear ''revision'' v = v" using v msg_put_simps(5) [of "''revision''" v] by simp
  then have "entry_log (config_entry ?m) = (v, n)"
    using r g by (simp add: entry_log_def config_entry_def unset_revision_def)
  ultimately show thesis using that m by blast
qed

lemma sound_readHistory:
  assumes "sound_object s valid obj" "ko_ResourceVersion obj = FormatInt n" "0 < n" "n < 2 ^ 63"
  obtains es m where "read_annotation (cs_codec s) obj = Inr es"
    "SetRevision (FillConfigFromObject s obj) n [last_modified (cs_codec s) obj (annotations_of obj)] = Inr m"
    "readHistory s obj = Inr (es @ [config_entry m])" "list_all (revision_entry (cs_codec s)) (es @ [config_entry m])"
    "object_log s obj = map entry_log es @ [(FillConfigFromObject s obj, n)]"
    "sorted_wrt (<) (map entry_revision (es @ [config_entry m]))" "entry_revision (config_entry m) = n"
proof -
  from assms obtain es where es: "valid (FillConfigFromObject s obj)" "read_annotation (cs_codec s) obj = Inr es"
    "list_all (revision_entry (cs_codec s)) es" "sorted_wrt (<) (map entry_revision es @ [n])"
    by (auto simp: sound_object_def)
  from current_entry [OF es(1) assms(3,4), of "last_modified (cs_codec s) obj (annotations_of obj)"] obtain m where
    m: "SetRevision (FillConfigFromObject s obj) n [last_modified (cs_codec s) obj (annotations_of obj)] = Inr m"
      "revision_entry (cs_codec s) (config_entry m)" "entry_log (config_entry m) = (FillConfigFromObject s obj, n)"
      "entry_revision (config_entry m) = n" .
  then have "readHistory s obj = Inr (es @ [config_entry m])"
    using es(2) assms by (simp add: readHistory_def)
  with that es m show thesis by (simp add: object_log_def)
qed

lemma map_by_config:
  assumes "map he_Config es = map he_Config es'" "\<And>e. f e = g (he_Config e)"
  shows "map f es = map f es'"
proof -
  have "map f xs = map g (map he_Config xs)" for xs by (simp add: assms(2))
  with assms(1) show ?thesis by metis
qed

text \<open>What \<open>appendSpecToHistory\<close> leaves in the annotation.\<close>

lemma append_effect:
  assumes "sound_object s valid obj" "ko_ResourceVersion obj = FormatInt n" "0 < n" "n < 2 ^ 63"
  obtains ann str es k where
    "appendSpecToHistory s now obj = Inr (obj\<lparr>ko_Annotations := Some ann\<rparr>, None)"
    "ann HistoryAnnotation = Some str" "decodeHistory (cs_codec s) str = Inr (es, None)"
    "map entry_log es = drop k (object_log s obj)" "object_fits s obj \<longrightarrow> k = length (object_log s obj) - 64"
    "list_all (revision_entry (cs_codec s)) es" "sorted_wrt (<) (map entry_revision es)"
    "\<forall>e \<in> set es. entry_revision e \<le> n"
proof -
  let ?cd = "cs_codec s"
  from sound_readHistory [OF assms] obtain es0 m where es0: "read_annotation ?cd obj = Inr es0"
    "SetRevision (FillConfigFromObject s obj) n [last_modified ?cd obj (annotations_of obj)] = Inr m"
    "readHistory s obj = Inr (es0 @ [config_entry m])" "list_all (revision_entry ?cd) (es0 @ [config_entry m])"
    "sorted_wrt (<) (map entry_revision (es0 @ [config_entry m]))" "entry_revision (config_entry m) = n" .
  define all where "all = es0 @ [config_entry m]"
  have all: "readHistory s obj = Inr all" "list_all (revision_entry ?cd) all" "sorted_wrt (<) (map entry_revision all)"
    "\<forall>e \<in> set all. entry_revision e \<le> n"
    using es0(3-6) by (auto simp: all_def sorted_wrt_append)
  define kept where "kept = drop (length all - 64) all"
  from all(2) have kept: "list_all (sound_entry ?cd) kept"
    by (auto simp: kept_def list_all_iff revision_entry_def dest: in_set_dropD)
  from history_roundtrip [OF kept] obtain str k es count where es: "encodeHistory ?cd kept = Inr (str, count)"
    "decodeHistory ?cd str = Inr (es, None)" "map he_Config es = drop k (map he_Config kept)"
    "history_fits ?cd kept \<longrightarrow> k = 0" "list_all (sound_entry ?cd) es" by metis
  let ?ann = "(annotations_of obj)(LastModifiedAnnotation \<mapsto> cd_FormatTime ?cd now, HistoryAnnotation \<mapsto> str)"
  have "appendSpecToHistory s now obj = Inr (obj\<lparr>ko_Annotations := Some ?ann\<rparr>, None)"
    unfolding appendSpecToHistory_def Let_def es0(1)
    using es0(2) assms(2-4) es(1) by (simp add: kept_def all_def)
  moreover have configs: "map he_Config es = map he_Config (drop (k + (length all - 64)) all)"
    using es(3) by (simp add: kept_def drop_map)
  have "map entry_log es = map entry_log (drop (k + (length all - 64)) all)"
    by (rule map_by_config [OF configs, where g = "\<lambda>c. (unset_revision (the c), Revision_GetRevision (GetRevision_ptr c))"])
      (simp add: entry_log_def entry_revision_def)
  then have "map entry_log es = drop (k + (length all - 64)) (object_log s obj)"
    by (simp add: object_log_def all(1) drop_map)
  moreover have "object_fits s obj \<longrightarrow> k + (length all - 64) = length (object_log s obj) - 64"
    using es(4) by (simp add: object_fits_def object_log_def all(1) kept_def)
  moreover have r: "map entry_revision es = map entry_revision (drop (k + (length all - 64)) all)"
    by (rule map_by_config [OF configs, where g = "\<lambda>c. Revision_GetRevision (GetRevision_ptr c)"]) (simp add: entry_revision_def)
  then have "sorted_wrt (<) (map entry_revision es)" "\<forall>e \<in> set es. entry_revision e \<le> n"
    using all(3,4) sorted_wrt_drop [OF all(3)]
    by (simp add: drop_map) (metis (no_types, lifting) all(4) in_set_conv_nth in_set_dropD length_map nth_map nth_mem r)
  moreover have "map (revision_entry ?cd) es = map (revision_entry ?cd) (drop (k + (length all - 64)) all)"
    by (rule map_by_config [OF configs, where g = "\<lambda>c. (\<exists>m. c = Some m \<and> transmits ?cd m) \<and> has_revision (the c) \<and> GetRevision (the c) \<noteq> None"])
      (simp add: revision_entry_def sound_entry_def)
  then have "set (map (revision_entry ?cd) es) \<subseteq> set (map (revision_entry ?cd) all)"
    by (metis drop_map set_drop_subset)
  then have "list_all (revision_entry ?cd) es" using all(2) by (auto simp: list_all_iff)
  ultimately show thesis using es(2) that [of ?ann str es "k + (length all - 64)"] by simp
qed

section \<open>The operations on the log\<close>

lemma invD:
  assumes "crd_inv s ok stored valid c" "stored c = Some obj"
  obtains n where "ok c" "sound_object s valid obj" "ko_ResourceVersion obj = FormatInt n" "0 < n" "n < 2 ^ 63" "n \<le> head c"
    "ko_Name obj = cs_Name s" "ko_Namespace obj = cs_Namespace s"
proof -
  from assms have "ok c" by (simp add: crd_inv_def)
  with version [OF this assms(2)] head [OF this] assms that show thesis by (fastforce simp: crd_inv_def)
qed

lemma log_some:
  assumes "crd_inv s ok stored valid c" "stored c = Some obj" "ko_ResourceVersion obj = FormatInt n"
  obtains es where "readHistory s obj = Inr es" "crd_log s stored c = map entry_log es"
    "last (crd_log s stored c) = (FillConfigFromObject s obj, n)" "crd_log s stored c \<noteq> []"
proof -
  from invD [OF assms(1,2)] obtain n' where i: "sound_object s valid obj" "ko_ResourceVersion obj = FormatInt n'" "0 < n'" "n' < 2 ^ 63" .
  from sound_readHistory [OF i] obtain es m where es: "readHistory s obj = Inr (es @ [config_entry m])"
    "object_log s obj = map entry_log es @ [(FillConfigFromObject s obj, n')]" by blast
  moreover have "crd_log s stored c = object_log s obj" using assms(2) by (simp add: crd_log_def)
  moreover have "n' = n" using i(2) assms(3) by simp
  ultimately show thesis using that by (simp add: object_log_def)
qed

lemma filled_object: "\<exists>b. vm_FillObjectFromConfig (cs_methods s) (with_controller_reference s obj) v = obj\<lparr>ko_Body := b\<rparr>"
proof -
  define b where "b = ko_Body (with_controller_reference s obj)"
  note w = reference_meta [of obj, folded b_def]
  define b' where "b' = ko_Body (vm_FillObjectFromConfig (cs_methods s) (with_controller_reference s obj) v)"
  have "vm_FillObjectFromConfig (cs_methods s) (with_controller_reference s obj) v = (obj\<lparr>ko_Body := b\<rparr>)\<lparr>ko_Body := b'\<rparr>"
    using fill_meta [of "with_controller_reference s obj" v, folded b'_def] unfolding w .
  then show ?thesis by (simp, blast)
qed

text \<open>A Put over an object moves its log on.\<close>

lemma put_over:
  assumes inv: "crd_inv s ok stored valid c" and obj: "stored c = Some obj" and room: "head c + 1 < 2 ^ 63"
    and v: "valid v" and r: "put_Revision (put_options ps) = None \<or> put_Revision (put_options ps) = Some (snd (last (crd_log s stored c)))"
  shows "\<exists>c' k. crd_Put s now (Some v) ps c = (Inr (if put_RevisionOut (put_options ps) then Some (head c') else None), c')
    \<and> crd_inv s ok stored valid c' \<and> head c < head c' \<and> crd_log s stored c' = drop k (crd_log s stored c) @ [(v, head c')]
    \<and> (object_fits s obj \<longrightarrow> k = length (crd_log s stored c) - 64)"
proof -
  from invD [OF inv obj] obtain n where n: "ok c" "sound_object s valid obj" "ko_ResourceVersion obj = FormatInt n" "0 < n"
    "n < 2 ^ 63" "n \<le> head c" "ko_Name obj = cs_Name s" "ko_Namespace obj = cs_Namespace s" .
  from append_effect [OF n(2-5)] obtain ann str es k where a:
    "appendSpecToHistory s now obj = Inr (obj\<lparr>ko_Annotations := Some ann\<rparr>, None)"
    "ann HistoryAnnotation = Some str" "decodeHistory (cs_codec s) str = Inr (es, None)"
    "map entry_log es = drop k (object_log s obj)" "object_fits s obj \<longrightarrow> k = length (object_log s obj) - 64"
    "list_all (revision_entry (cs_codec s)) es" "sorted_wrt (<) (map entry_revision es)"
    "\<forall>e \<in> set es. entry_revision e \<le> n" by metis
  from log_some [OF inv obj n(3)] obtain es0 where "readHistory s obj = Inr es0" "crd_log s stored c = map entry_log es0"
    "last (crd_log s stored c) = (FillConfigFromObject s obj, n)" "crd_log s stored c \<noteq> []" .
  then have last: "snd (last (crd_log s stored c)) = n" by simp
  from filled_object obtain b where b: "vm_FillObjectFromConfig (cs_methods s)
      (with_controller_reference s (obj\<lparr>ko_Annotations := Some ann\<rparr>)) v = obj\<lparr>ko_Annotations := Some ann, ko_Body := b\<rparr>" by metis
  define new where "new = obj\<lparr>ko_Annotations := Some ann, ko_Body := b\<rparr>"
  have new: "ko_Annotations new = Some ann \<and> ko_ResourceVersion new = ko_ResourceVersion obj \<and> ko_Name new = ko_Name obj
      \<and> ko_Namespace new = ko_Namespace obj \<and> FillConfigFromObject s new = v"
    using fill_config [OF v, of "with_controller_reference s (obj\<lparr>ko_Annotations := Some ann\<rparr>)"] unfolding b by (simp add: new_def)
  define sent where "sent = new\<lparr>ko_GVK := cs_gvk s\<rparr>"
  have same: "(case put_Revision (put_options ps) of None \<Rightarrow> new | Some r \<Rightarrow> new\<lparr>ko_ResourceVersion := FormatInt r\<rparr>)\<lparr>ko_GVK := cs_gvk s\<rparr> = sent"
    using r new n(3) unfolding last sent_def by (cases new) auto
  have "ko_Name sent = ko_Name obj" "ko_Namespace sent = ko_Namespace obj" "ko_ResourceVersion sent = ko_ResourceVersion obj"
    using new by (simp_all add: sent_def)
  from update [OF n(1) room obj this, of FieldManagerName] obtain obj' c' where u:
    "kc_Update (cs_client s) sent FieldManagerName c = (Inr obj', c')" "accepted ok stored head c sent obj' c'" by blast
  from head [OF n(1)] u(2) head [of c'] have h: "0 < head c'" "head c' < 2 ^ 63" "fst (ParseInt (ko_ResourceVersion obj')) = head c'"
    by (auto simp: accepted_def)
  have "put_Revision (put_options ps) \<noteq> Some 0" using r n(4) unfolding last by auto
  then have "crd_update s (put_options ps) new c = (Inr (if put_RevisionOut (put_options ps) then Some (head c') else None), c')"
    unfolding crd_update_def Let_def same using u(1) h(3) by (simp add: RevisionOut_def)
  moreover have "crd_Put s now (Some v) ps c = crd_update s (put_options ps) new c"
    using get_some [OF n(1) obj] a(1) by (simp add: crd_Put_def new_def b)
  moreover have "ko_Body obj' = ko_Body new" "ko_Annotations obj' = Some ann"
    using u(2) new by (simp_all add: accepted_def sent_def)
  then have obj': "FillConfigFromObject s obj' = v" "read_annotation (cs_codec s) obj' = Inr es"
    using fill_body [of obj' new] new a(2,3) by (simp_all add: read_annotation_def annotations_of_def)
  have "\<forall>e \<in> set es. entry_revision e < head c'" using a(8) n(6) u(2) by (fastforce simp: accepted_def)
  then have sound: "sound_object s valid obj'"
    using obj' v a(6,7) h(3) by (simp add: sound_object_def sorted_wrt_append)
  from u(2) h(1,2) have rv: "stored c' = Some obj'" "ok c'" "head c < head c'" "ko_ResourceVersion obj' = FormatInt (head c')"
    by (auto simp: accepted_def)
  from sound_readHistory [OF sound rv(4) h(1,2)] obj' have "object_log s obj' = map entry_log es @ [(v, head c')]" by (metis sum.inject(2))
  moreover have "crd_inv s ok stored valid c'" using rv sound u(2) n(7,8) new by (simp add: crd_inv_def accepted_def sent_def)
  ultimately show ?thesis using a(4,5) rv(1,3) obj by (auto simp: crd_log_def)
qed

text \<open>A Put creates the object, whatever revision it asks for.\<close>

lemma put_fresh:
  assumes inv: "crd_inv s ok stored valid c" and none: "stored c = None" and room: "head c + 1 < 2 ^ 63" and v: "valid v"
  shows "\<exists>c'. crd_Put s now (Some v) ps c = (Inr (if put_RevisionOut (put_options ps) then Some (head c') else None), c')
    \<and> crd_inv s ok stored valid c' \<and> head c < head c' \<and> crd_log s stored c' = [(v, head c')]"
proof -
  from inv have ok: "ok c" by (simp add: crd_inv_def)
  from filled_object obtain b where b: "vm_FillObjectFromConfig (cs_methods s) (with_controller_reference s (newEmptyObject s)) v
      = (newEmptyObject s)\<lparr>ko_Body := b\<rparr>" by metis
  define new where "new = (newEmptyObject s)\<lparr>ko_Body := b\<rparr>"
  have new: "ko_Annotations new = None" "ko_Name new = cs_Name s" "ko_Namespace new = cs_Namespace s"
    "FillConfigFromObject s new = v"
    using fill_config [OF v, of "with_controller_reference s (newEmptyObject s)"] unfolding b
    by (simp_all add: new_def newEmptyObject_def)
  from create [OF ok room none new(2,3), of FieldManagerName] obtain obj' c' where u:
    "kc_Create (cs_client s) new FieldManagerName c = (Inr obj', c')" "accepted ok stored head c new obj' c'" by blast
  then have rv: "stored c' = Some obj'" "ok c'" "head c < head c'" "ko_ResourceVersion obj' = FormatInt (head c')"
    "ko_Body obj' = ko_Body new" "ko_Annotations obj' = None" "ko_Name obj' = cs_Name s" "ko_Namespace obj' = cs_Namespace s"
    using new by (simp_all add: accepted_def)
  from head [OF ok] rv(3) head [OF rv(2)] have h: "0 < head c'" "head c' < 2 ^ 63" by auto
  have obj': "FillConfigFromObject s obj' = v" "read_annotation (cs_codec s) obj' = Inr []"
    using fill_body [of obj' new] rv(5,6) new(4) by (simp_all add: read_annotation_def annotations_of_def)
  then have sound: "sound_object s valid obj'" using v by (simp add: sound_object_def)
  from sound_readHistory [OF sound rv(4) h] obj' have "object_log s obj' = [(v, head c')]" by fastforce
  moreover obtain m where "kc_Get (cs_client s) (cs_Namespace s) (cs_Name s) c = Inl (K8sStatus ReasonNotFound m)"
    using get_none [OF ok none] by blast
  then have "crd_Put s now (Some v) ps c = crd_create s (put_options ps) new c" by (simp add: crd_Put_def b new_def)
  ultimately show ?thesis
    using u(1) rv(1-4) rv(7,8) h sound by (intro exI [of _ c']) (simp add: crd_create_def RevisionOut_def crd_log_def crd_inv_def)
qed

text \<open>A Put with another revision fails; the error is a conflict only for revision \<open>0\<close>.\<close>

lemma put_stale:
  assumes inv: "crd_inv s ok stored valid c" and obj: "stored c = Some obj"
    and r: "put_Revision (put_options ps) = Some r" "r \<noteq> snd (last (crd_log s stored c))"
  shows "\<exists>m. crd_Put s now (Some v) ps c = (Inl (if r = 0 then errorf_w m ErrConflict else status_error Aborted m), c)"
proof -
  from invD [OF inv obj] obtain n where n: "ok c" "sound_object s valid obj" "ko_ResourceVersion obj = FormatInt n" "0 < n"
    "n < 2 ^ 63" "n \<le> head c" "ko_Name obj = cs_Name s" "ko_Namespace obj = cs_Namespace s" .
  from append_effect [OF n(2-5)] obtain ann where a:
    "appendSpecToHistory s now obj = Inr (obj\<lparr>ko_Annotations := Some ann\<rparr>, None)" by metis
  from log_some [OF inv obj n(3)] obtain es0 where "readHistory s obj = Inr es0" "crd_log s stored c = map entry_log es0"
    "last (crd_log s stored c) = (FillConfigFromObject s obj, n)" "crd_log s stored c \<noteq> []" .
  then have rn: "r \<noteq> n" using r(2) by simp
  from filled_object obtain b where b: "vm_FillObjectFromConfig (cs_methods s)
      (with_controller_reference s (obj\<lparr>ko_Annotations := Some ann\<rparr>)) v = obj\<lparr>ko_Annotations := Some ann, ko_Body := b\<rparr>" by metis
  define sent where "sent = obj\<lparr>ko_Annotations := Some ann, ko_Body := b, ko_ResourceVersion := FormatInt r, ko_GVK := cs_gvk s\<rparr>"
  have "ko_Name sent = ko_Name obj" "ko_Namespace sent = ko_Namespace obj" "ko_ResourceVersion sent \<noteq> []"
    "ko_ResourceVersion sent \<noteq> ko_ResourceVersion obj"
    using rn n(3) by (simp_all add: sent_def)
  from update_stale [OF n(1) obj this, of FieldManagerName] obtain m where
    "kc_Update (cs_client s) sent FieldManagerName c = (Inl (K8sStatus ReasonConflict m), c)" by blast
  then show ?thesis
    using get_some [OF n(1) obj] a b r(1) by (auto simp: crd_Put_def crd_update_def sent_def toGrpcError_def)
qed

lemma delete_log:
  assumes inv: "crd_inv s ok stored valid c" and obj: "stored c = Some obj" and n: "ko_ResourceVersion obj = FormatInt n"
  shows "if delete_Revision (delete_options ds) = None \<or> delete_Revision (delete_options ds) = Some n
    then \<exists>c'. crd_Delete s ds c = (Inr (), c') \<and> crd_inv s ok stored valid c' \<and> crd_log s stored c' = []
    else \<exists>m. crd_Delete s ds c = (Inl (status_error Aborted m), c)"
proof -
  let ?pre = "map_option FormatInt (delete_Revision (delete_options ds))"
  from inv have ok: "ok c" by (simp add: crd_inv_def)
  show ?thesis
  proof (cases "delete_Revision (delete_options ds) = None \<or> delete_Revision (delete_options ds) = Some n")
    case True
    then have "?pre = None \<or> ?pre = Some (ko_ResourceVersion obj)" using n by auto
    from delete [OF ok obj this] obtain c' where
      "kc_Delete (cs_client s) obj ?pre c = (None, c')" "ok c'" "stored c' = None" by blast
    with True get_some [OF ok obj] show ?thesis by (simp add: crd_Delete_def crd_inv_def crd_log_def)
  next
    case False
    then obtain r where r: "delete_Revision (delete_options ds) = Some r" "r \<noteq> n" by auto
    with n have "?pre = Some (FormatInt r)" "FormatInt r \<noteq> ko_ResourceVersion obj" by simp_all
    from delete_stale [OF ok obj this] obtain m where
      "kc_Delete (cs_client s) obj ?pre c = (Some (K8sStatus ReasonConflict m), c)" by blast
    with r get_some [OF ok obj] show ?thesis by (auto simp: crd_Delete_def toGrpcError_def)
  qed
qed

section \<open>Reading the log\<close>

lemma find_first_map: "find_first P (map f xs) = map_option f (find_first (\<lambda>x. P (f x)) xs)"
  by (induction xs) auto

lemma unset_entry:
  "revision_entry cd e \<Longrightarrow> UnsetRevision_ptr zero (he_Config e) = Inr (Some (fst (entry_log e)))"
  by (auto simp: revision_entry_def sound_entry_def UnsetRevision_ptr_def UnsetRevision_ok entry_log_def)

lemma entry_log_revision [simp]: "snd (entry_log e) = entry_revision e"
  by (simp add: entry_log_def)

lemma unset_valid: "valid v \<Longrightarrow> UnsetRevision_ptr zero (Some v) = Inr (Some v)"
  using valid_revision by (simp add: UnsetRevision_ptr_def UnsetRevision_ok unset_revision_def GetRevision_def)

text \<open>A read finds its revision in the log, and the latest without one.\<close>

lemma get_log:
  assumes inv: "crd_inv s ok stored valid c" and log: "crd_log s stored c \<noteq> []"
  shows "crd_Get s os c =
    (case (case get_Revision (get_options os) of
             None \<Rightarrow> Some (last (crd_log s stored c))
           | Some r \<Rightarrow> find_first (\<lambda>p. snd p = r) (crd_log s stored c)) of
       Some (v, r) \<Rightarrow> Inr (Some v, if get_RevisionOut (get_options os) then Some r else None)
     | None \<Rightarrow> Inl (if the (get_Revision (get_options os)) > snd (last (crd_log s stored c))
                  then status_error OutOfRange ''revision %d is a future revision''
                  else status_error NotFound ''revision %d not found''))"
proof -
  from log obtain obj where obj: "stored c = Some obj" by (auto simp: crd_log_def split: option.splits)
  from invD [OF inv obj] obtain n where n: "ok c" "sound_object s valid obj" "ko_ResourceVersion obj = FormatInt n" "0 < n"
    "n < 2 ^ 63" "n \<le> head c" "ko_Name obj = cs_Name s" "ko_Namespace obj = cs_Namespace s" .
  from sound_readHistory [OF n(2-5)] obtain es m where es: "read_annotation (cs_codec s) obj = Inr es"
    "list_all (revision_entry (cs_codec s)) (es @ [config_entry m])"
    "object_log s obj = map entry_log es @ [(FillConfigFromObject s obj, n)]"
    "sorted_wrt (<) (map entry_revision (es @ [config_entry m]))" "entry_revision (config_entry m) = n" by blast
  from n(2) have v: "valid (FillConfigFromObject s obj)" by (simp add: sound_object_def)
  have P: "fst (ParseInt (ko_ResourceVersion obj)) = n" using n(3-5) by simp
  show ?thesis
  proof (cases "get_Revision (get_options os) = None \<or> get_Revision (get_options os) = Some n")
    case True
    have "find_first (\<lambda>e. entry_revision e = n) es = None"
      using es(4,5) by (auto simp: find_first_None sorted_wrt_append)
    with True get_some [OF n(1) obj] unset_valid [OF v] P obj show ?thesis
      by (auto simp: crd_Get_def crd_log_def es(3) find_first_append find_first_map)
  next
    case False
    then obtain r where r: "get_Revision (get_options os) = Some r" "r \<noteq> n" by auto
    show ?thesis
    proof (cases "find_first (\<lambda>e. entry_revision e = r) es")
      case None
      with r get_some [OF n(1) obj] P obj es(1) show ?thesis
        by (simp add: crd_Get_def crd_log_def es(3) find_first_append find_first_map crd_lookup_def)
    next
      case (Some e)
      with find_first_Some [OF Some] es(2) have "revision_entry (cs_codec s) e" "entry_revision e = r"
        by (auto simp: list_all_iff)
      with Some r get_some [OF n(1) obj] P obj es(1) unset_entry [of "cs_codec s" e "cs_zero s"] show ?thesis
        by (simp add: crd_Get_def crd_log_def es(3) find_first_append find_first_map crd_lookup_def split_beta)
    qed
  qed
qed

end

text \<open>The log up to a revision.\<close>

fun log_upto :: "int64 option \<Rightarrow> (pmsg \<times> int64) list \<Rightarrow> (pmsg \<times> int64) list" where
  "log_upto r [] = []"
| "log_upto r (p # ps) = p # (if r = Some (snd p) then [] else log_upto r ps)"

context crd_store
begin

lemma history_entries:
  "list_all (revision_entry cd) es \<Longrightarrow>
   \<exists>revs. history_revisions zero os es = Inr revs
     \<and> map (\<lambda>kr. (kr_V kr, kr_Rev kr)) revs
       = map (\<lambda>(v, r). (if history_IncludeValues os then Some v else None, r)) (log_upto (history_Revision os) (map entry_log es))"
proof (induction es)
  case (Cons e es)
  then obtain revs where "history_revisions zero os es = Inr revs"
     "map (\<lambda>kr. (kr_V kr, kr_Rev kr)) revs
       = map (\<lambda>(v, r). (if history_IncludeValues os then Some v else None, r)) (log_upto (history_Revision os) (map entry_log es))"
    by auto
  with Cons.prems unset_entry [of cd e zero] show ?case
    by (auto simp: Let_def entry_revision_def [symmetric] split_beta)
qed simp

lemma history_log:
  assumes inv: "crd_inv s ok stored valid c" and log: "crd_log s stored c \<noteq> []"
  shows "\<exists>revs. crd_History s os c = Inr revs
    \<and> map (\<lambda>kr. (kr_V kr, kr_Rev kr)) revs
      = map (\<lambda>(v, r). (if history_IncludeValues (history_options os) then Some v else None, r))
          (log_upto (history_Revision (history_options os)) (crd_log s stored c))"
proof -
  from log obtain obj where obj: "stored c = Some obj" by (auto simp: crd_log_def split: option.splits)
  from invD [OF inv obj] obtain n where n: "ok c" "sound_object s valid obj" "ko_ResourceVersion obj = FormatInt n" "0 < n"
    "n < 2 ^ 63" "n \<le> head c" "ko_Name obj = cs_Name s" "ko_Namespace obj = cs_Namespace s" .
  from sound_readHistory [OF n(2-5)] obtain es where es: "readHistory s obj = Inr es" "list_all (revision_entry (cs_codec s)) es"
    by metis
  from history_entries [OF es(2), of "cs_zero s" "history_options os"] es(1) obj get_some [OF n(1) obj] show ?thesis
    by (simp add: crd_History_def crd_log_def object_log_def)
qed

end

end
