(* ===== verification/CrdRef.thy ===== *)
theory CrdRef
  imports CrdIface MsgCountable
begin

text \<open>
  A reference server of one object, codecs for it, and a store on it, which satisfies everything the driver
  relies on.
\<close>

section \<open>The server\<close>

record 'b ref_server =
  rs_obj :: "'b kobject option"
  rs_head :: int64

definition ref_status :: "k8s_reason \<Rightarrow> k8s_error" where
  "ref_status r = K8sStatus r ''status''"

definition ref_write :: "'b kobject \<Rightarrow> 'b ref_server \<Rightarrow> (k8s_error + 'b kobject) \<times> 'b ref_server" where
  "ref_write obj c =
     (if rs_head c + 1 \<ge> 2 ^ 63 then (Inl (ref_status ReasonOther), c)
      else
        (let obj = obj\<lparr>ko_ResourceVersion := FormatInt (rs_head c + 1)\<rparr> in
         (Inr obj, \<lparr>rs_obj = Some obj, rs_head = rs_head c + 1\<rparr>)))"

definition ref_k8s :: "string \<Rightarrow> string \<Rightarrow> ('b ref_server, 'b) k8s_client" where
  "ref_k8s ns nm =
     \<lparr>kc_Get = (\<lambda>ns' nm' c. case rs_obj c of
         Some obj \<Rightarrow> if ns' = ns \<and> nm' = nm then Inr obj else Inl (ref_status ReasonNotFound)
       | None \<Rightarrow> Inl (ref_status ReasonNotFound)),
      kc_Create = (\<lambda>obj fm c.
         if ko_Namespace obj \<noteq> ns \<or> ko_Name obj \<noteq> nm then (Inl (ref_status ReasonInvalid), c)
         else if rs_obj c \<noteq> None then (Inl (ref_status ReasonAlreadyExists), c) else ref_write obj c),
      kc_Update = (\<lambda>obj fm c. case rs_obj c of
         None \<Rightarrow> (Inl (ref_status ReasonNotFound), c)
       | Some old \<Rightarrow>
           if ko_Namespace obj \<noteq> ns \<or> ko_Name obj \<noteq> nm then (Inl (ref_status ReasonNotFound), c)
           else if ko_ResourceVersion obj \<noteq> [] \<and> ko_ResourceVersion obj \<noteq> ko_ResourceVersion old
           then (Inl (ref_status ReasonConflict), c) else ref_write obj c),
      kc_Delete = (\<lambda>obj pre c. case rs_obj c of
         None \<Rightarrow> (Some (ref_status ReasonNotFound), c)
       | Some old \<Rightarrow>
           if pre \<noteq> None \<and> pre \<noteq> Some (ko_ResourceVersion old) then (Some (ref_status ReasonConflict), c)
           else (None, c\<lparr>rs_obj := None\<rparr>)),
      kc_Watch = (\<lambda>ns nm c. Inr (case rs_obj c of None \<Rightarrow> [] | Some obj \<Rightarrow> [(Added, Object obj)]))\<rparr>"

definition ref_ok :: "string \<Rightarrow> string \<Rightarrow> 'b ref_server \<Rightarrow> bool" where
  "ref_ok ns nm c \<longleftrightarrow> 0 \<le> rs_head c \<and> rs_head c < 2 ^ 63
     \<and> (\<forall>obj. rs_obj c = Some obj \<longrightarrow> ko_Namespace obj = ns \<and> ko_Name obj = nm
          \<and> (\<exists>n. 0 < n \<and> n \<le> rs_head c \<and> ko_ResourceVersion obj = FormatInt n))"

lemma ref_write_ok:
  "ref_ok ns nm c \<Longrightarrow> rs_head c + 1 < 2 ^ 63 \<Longrightarrow> ko_Namespace obj = ns \<Longrightarrow> ko_Name obj = nm \<Longrightarrow>
   \<exists>obj' c'. ref_write obj c = (Inr obj', c') \<and> accepted (ref_ok ns nm) rs_obj rs_head c obj obj' c'"
  by (simp add: ref_write_def accepted_def ref_ok_def Let_def)

interpretation ref_server: k8s_server "ref_k8s ns nm :: ('b ref_server, 'b) k8s_client" ns nm "ref_ok ns nm" rs_obj rs_head for ns nm :: string
proof unfold_locales
  fix c :: "'b ref_server" and obj old :: "'b kobject" and fm assume c: "ref_ok ns nm c" "rs_head c + 1 < 2 ^ 63"
  note w = ref_write_ok [OF c, of obj]
  {
    assume "rs_obj c = None" "ko_Name obj = nm" "ko_Namespace obj = ns"
    with w show "\<exists>obj' c'. kc_Create (ref_k8s ns nm) obj fm c = (Inr obj', c')
        \<and> accepted (ref_ok ns nm) rs_obj rs_head c obj obj' c'"
      by (simp add: ref_k8s_def)
  next
    assume "rs_obj c = Some old" "ko_Name obj = ko_Name old" "ko_Namespace obj = ko_Namespace old"
      "ko_ResourceVersion obj = ko_ResourceVersion old"
    with w c(1) show "\<exists>obj' c'. kc_Update (ref_k8s ns nm) obj fm c = (Inr obj', c')
        \<and> accepted (ref_ok ns nm) rs_obj rs_head c obj obj' c'"
      by (simp add: ref_k8s_def ref_ok_def)
  }
qed (auto simp: ref_ok_def ref_k8s_def ref_status_def)

section \<open>The store\<close>

text \<open>
  The body of an object is the configuration. A message is carried as its number, and compression adds a byte.
\<close>

definition ref_codec :: crd_codec where
  "ref_codec =
     \<lparr>cd_Marshal = (\<lambda>m. Inr (replicate (Suc (to_nat m)) 0)), cd_Unmarshal = (\<lambda>w. (from_nat (length w - 1), None)),
      cd_Encode = (\<lambda>w. 0 # w), cd_Decode = (\<lambda>w. if w = [] then Inl (errorf ''corrupt'') else Inr (tl w)),
      cd_DecodedLen = (\<lambda>w. if w = [] then Inl (errorf ''corrupt'') else Inr (length w - 1)),
      cd_MaxEncodedLen = (\<lambda>n. 32 + n + n div 6), cd_FormatTime = FormatInt,
      cd_ParseTime = (\<lambda>t. case ParseInt t of (n, True) \<Rightarrow> Inr n | _ \<Rightarrow> Inl (errorf ''time''))\<rparr>"

definition ref_methods :: "pmsg ValueStoreMethods" where
  "ref_methods = \<lparr>vm_ControllerReference = None, vm_FillObjectFromConfig = (\<lambda>obj v. obj\<lparr>ko_Body := v\<rparr>),
     vm_FillConfigFromObject = (\<lambda>obj v. ko_Body obj)\<rparr>"

definition ref_store :: "pmsg \<Rightarrow> (pmsg ref_server, pmsg) CRDValueStore" where
  "ref_store zero = \<lparr>cs_client = ref_k8s ''ns'' ''config'', cs_Name = ''config'', cs_Namespace = ''ns'', cs_gvk = ''Config'',
     cs_methods = ref_methods, cs_codec = ref_codec, cs_zero = zero, cs_zeroBody = zero\<rparr>"

definition ref_valid :: "pmsg \<Rightarrow> bool" where
  "ref_valid v \<longleftrightarrow> has_revision v \<and> msg_get ''revision'' v = None"

interpretation ref_snappy: snappy ref_codec
  by unfold_locales (auto simp: ref_codec_def)

interpretation ref_store: crd_store "ref_store zero" "ref_ok ''ns'' ''config''" rs_obj rs_head ref_valid for zero
proof (rule crd_store.intro)
  show "snappy (cs_codec (ref_store zero))" by (simp add: ref_store_def ref_snappy.snappy_axioms)
  show "k8s_server (cs_client (ref_store zero)) (cs_Namespace (ref_store zero)) (cs_Name (ref_store zero))
      (ref_ok ''ns'' ''config'') rs_obj rs_head"
    by (simp add: ref_store_def ref_server.k8s_server_axioms)
  show "crd_store_axioms (ref_store zero) ref_valid"
    by unfold_locales
      (auto simp: ref_store_def ref_valid_def FillConfigFromObject_def ref_methods_def transmits_def ref_codec_def
        with_controller_reference_def)
qed

end
