(* ===== verification/CrdProps.thy ===== *)
theory CrdProps
  imports CrdRef
begin

text \<open>
  The properties of the driver for custom resources: what it writes and reads is a log of configurations, the
  annotation that holds the log fits the limit of the API server, and what a watch sends follows the object.
  A history that cannot be encoded is lost, and the operations after that panic.
\<close>

section \<open>The store as a log\<close>

text \<open>
  C34. A \<open>Put\<close> without a revision, with the current one, or while there is no object, stores the value as the
  last of the log at a newer revision; the log before it is kept up to the newest 64 values, or fewer if the
  annotation has no room for them. Any other revision is refused and nothing is written; the error has the code
  \<open>Aborted\<close>, but only for revision \<open>0\<close> the details by which \<open>IsConflict\<close> knows a conflict. A \<open>Delete\<close>
  without a revision or with the current one empties the log, and is refused with another.
\<close>

theorem crd_write:
  assumes S: "crd_store s ok stored head valid" and inv: "crd_inv s ok stored valid c" and room: "head c + 1 < 2 ^ 63"
    and v: "valid v" and log: "crd_log s stored c = log"
  shows "(let r = put_Revision (put_options ps) in
      if log = [] \<or> r = None \<or> r = Some (snd (last log))
      then \<exists>c' k. crd_Put s now (Some v) ps c = (Inr (if put_RevisionOut (put_options ps) then Some (head c') else None), c')
        \<and> crd_inv s ok stored valid c' \<and> head c < head c' \<and> crd_log s stored c' = drop k log @ [(v, head c')]
        \<and> (\<forall>obj. stored c = Some obj \<and> object_fits s obj \<longrightarrow> k = length log - 64)
      else \<exists>e. crd_Put s now (Some v) ps c = (Inl e, c) \<and> err_code e = Aborted \<and> (IsConflict (Some e) \<longleftrightarrow> r = Some 0))
    \<and> (log \<noteq> [] \<longrightarrow>
      (let r = delete_Revision (delete_options ds) in
       if r = None \<or> r = Some (snd (last log))
       then \<exists>c'. crd_Delete s ds c = (Inr (), c') \<and> crd_inv s ok stored valid c' \<and> crd_log s stored c' = []
       else \<exists>e. crd_Delete s ds c = (Inl e, c) \<and> err_code e = Aborted))"
proof (cases "stored c")
  case None
  with log have "log = []" by (simp add: crd_log_def)
  moreover from crd_store.put_fresh [OF S inv None room v, of now ps] obtain c' where
    "crd_Put s now (Some v) ps c = (Inr (if put_RevisionOut (put_options ps) then Some (head c') else None), c')"
    "crd_inv s ok stored valid c'" "head c < head c'" "crd_log s stored c' = [(v, head c')]" by blast
  ultimately show ?thesis using None by auto
next
  case (Some obj)
  from crd_store.invD [OF S inv Some] obtain n where n: "ok c" "sound_object s valid obj" "ko_ResourceVersion obj = FormatInt n"
    "0 < n" "n < 2 ^ 63" "n \<le> head c" "ko_Name obj = cs_Name s" "ko_Namespace obj = cs_Namespace s" .
  from crd_store.log_some [OF S inv Some n(3)] obtain es where es: "readHistory s obj = Inr es" "crd_log s stored c = map entry_log es"
    "last (crd_log s stored c) = (FillConfigFromObject s obj, n)" "crd_log s stored c \<noteq> []" .
  then have l: "log \<noteq> []" "snd (last log) = n" using log by auto
  have D: "if delete_Revision (delete_options ds) = None \<or> delete_Revision (delete_options ds) = Some (snd (last log))
      then \<exists>c'. crd_Delete s ds c = (Inr (), c') \<and> crd_inv s ok stored valid c' \<and> crd_log s stored c' = []
      else \<exists>e. crd_Delete s ds c = (Inl e, c) \<and> err_code e = Aborted"
    using crd_store.delete_log [OF S inv Some n(3), of ds] unfolding l(2) by (auto split: if_splits)
  show ?thesis
  proof (cases "put_Revision (put_options ps) = None \<or> put_Revision (put_options ps) = Some (snd (last log))")
    case True
    with crd_store.put_over [OF S inv Some room v, of ps now] D Some l(1) log show ?thesis by (simp add: Let_def)
  next
    case False
    then obtain r where r: "put_Revision (put_options ps) = Some r" "r \<noteq> snd (last log)" by auto
    from crd_store.put_stale [OF S inv Some r(1), of now v] r(2) log obtain m where
      "crd_Put s now (Some v) ps c = (Inl (if r = 0 then errorf_w m ErrConflict else status_error Aborted m), c)" by auto
    with r l(1) D show ?thesis by (auto simp: Let_def)
  qed
qed

text \<open>
  C35. Every read is a lookup in the log: \<open>Get\<close> returns the value of the revision it asks for, or the last one,
  and otherwise says whether the revision is one of the future; \<open>History\<close> lists the log, up to the revision it
  is given if the log has an entry for it, with the values if they are asked for. A revision without an entry (dropped
  from the log, of another object, or from before the object was created again) limits nothing: the whole
  log is listed, newer entries included (\<open>crd_history_unknown_revision\<close>).
\<close>

theorem crd_read:
  assumes S: "crd_store s ok stored head valid" and inv: "crd_inv s ok stored valid c"
    and log: "crd_log s stored c = log" "log \<noteq> []"
  shows "crd_Get s os c =
      (case (case get_Revision (get_options os) of
               None \<Rightarrow> Some (last log) | Some r \<Rightarrow> find_first (\<lambda>p. snd p = r) log) of
         Some (v, r) \<Rightarrow> Inr (Some v, if get_RevisionOut (get_options os) then Some r else None)
       | None \<Rightarrow> Inl (if the (get_Revision (get_options os)) > snd (last log)
                    then status_error OutOfRange ''revision %d is a future revision''
                    else status_error NotFound ''revision %d not found''))
    \<and> (\<exists>revs. crd_History s hs c = Inr revs
        \<and> map (\<lambda>kr. (kr_V kr, kr_Rev kr)) revs
          = map (\<lambda>(v, r). (if history_IncludeValues (history_options hs) then Some v else None, r))
              (log_upto (history_Revision (history_options hs)) log))"
  using crd_store.get_log [OF S inv, unfolded log(1), OF log(2)]
    crd_store.history_log [OF S inv, unfolded log(1), OF log(2)] by (rule conjI)

lemma log_upto_unknown: "r \<notin> snd ` set log \<Longrightarrow> log_upto (Some r) log = log"
  by (induction "Some r" log rule: log_upto.induct) auto

theorem crd_history_unknown_revision:
  assumes S: "crd_store s ok stored head valid" and inv: "crd_inv s ok stored valid c"
    and log: "crd_log s stored c = log" "log \<noteq> []"
    and "history_Revision (history_options hs) = Some r" "r \<notin> snd ` set log"
  shows "\<exists>revs. crd_History s hs c = Inr revs \<and> map kr_Rev revs = map snd log"
proof -
  from crd_store.history_log [OF S inv, unfolded log(1), OF log(2), of hs] obtain revs where
    revs: "crd_History s hs c = Inr revs" "map (\<lambda>kr. (kr_V kr, kr_Rev kr)) revs
      = map (\<lambda>(v, r). (if history_IncludeValues (history_options hs) then Some v else None, r)) log"
    using log_upto_unknown [OF assms(6)] by (auto simp: assms(5))
  from arg_cong [OF revs(2), of "map snd"] have "map kr_Rev revs = map snd log" by (simp add: comp_def case_prod_beta)
  with revs(1) show ?thesis by blast
qed

text \<open>Two writes and a stale one, on the reference server.\<close>

definition ex_zero :: pmsg where
  "ex_zero = Msg ''ex.Cfg'' [(ex_revision_fd, None), (\<lparr>fd_Name = ''n'', fd_Kind = Int64Kind, fd_IsList = False, fd_IsMap = False,
     fd_Message = [], fd_Masked = False, fd_Oneof = []\<rparr>, None)] []"

definition ex_value :: "int64 \<Rightarrow> pmsg" where
  "ex_value n = msg_Set ''n'' (VScalar (SInt64 (word_of_int n))) ex_zero"

definition ex_empty :: "pmsg ref_server" where "ex_empty = \<lparr>rs_obj = None, rs_head = 0\<rparr>"

lemma ex_value_valid: "ref_valid (ex_value n)"
  by (simp add: ref_valid_def ex_value_def msg_get_put) (simp add: has_revision_def GetRevisionFieldIndex_def ex_zero_def
    msg_fields_def ex_revision_fd_def msg_get_def)

lemma ex_empty_inv: "crd_inv (ref_store ex_zero) (ref_ok ''ns'' ''config'') rs_obj ref_valid ex_empty"
  by (simp add: crd_inv_def ref_ok_def ex_empty_def)

lemma crd_write_witness:
  "\<exists>c. crd_Put (ref_store ex_zero) 5 (Some (ex_value 1)) [Put_RevisionOutOpt True] ex_empty = (Inr (Some (rs_head c)), c)
     \<and> crd_log (ref_store ex_zero) rs_obj c = [(ex_value 1, rs_head c)]
     \<and> (\<exists>e. crd_Put (ref_store ex_zero) 6 (Some (ex_value 2)) [Put_RevisionOpt 77] c = (Inl e, c) \<and> \<not> IsConflict (Some e))"
proof -
  let ?inv = "crd_inv (ref_store ex_zero) (ref_ok ''ns'' ''config'') rs_obj ref_valid" and ?log = "crd_log (ref_store ex_zero) rs_obj"
  have "?log ex_empty = []" by (simp add: crd_log_def ex_empty_def)
  from crd_write [OF ref_store.crd_store_axioms ex_empty_inv _ ex_value_valid this, of "[Put_RevisionOutOpt True]" 5 1]
  obtain c where c: "crd_Put (ref_store ex_zero) 5 (Some (ex_value 1)) [Put_RevisionOutOpt True] ex_empty = (Inr (Some (rs_head c)), c)"
    "?inv c" "?log c = [(ex_value 1, rs_head c)]"
    by (auto simp: ex_empty_def)
  have "rs_head c = 1" using arg_cong [OF c(1), of "\<lambda>x. rs_head (snd x)"]
    by (simp add: crd_Put_def crd_create_def ref_store_def ref_k8s_def ref_write_def ex_empty_def newEmptyObject_def ref_methods_def
        ref_status_def with_controller_reference_def Let_def)
  with crd_write [OF ref_store.crd_store_axioms c(2) _ ex_value_valid c(3), of "[Put_RevisionOpt 77]" 6 2] c(1,3)
  show ?thesis by auto
qed

definition ex_object :: "int64 \<Rightarrow> int64 \<Rightarrow> pmsg kobject" where
  "ex_object v n = (newEmptyObject (ref_store ex_zero))\<lparr>ko_Body := ex_value v, ko_ResourceVersion := FormatInt n\<rparr>"

lemma ex_object:
  "read_annotation ref_codec (ex_object v n) = Inr []" "FillConfigFromObject (ref_store ex_zero) (ex_object v n) = ex_value v"
  "ko_ResourceVersion (ex_object v n) = FormatInt n"
  by (simp_all add: ex_object_def read_annotation_def annotations_of_def newEmptyObject_def FillConfigFromObject_def ref_store_def
      ref_methods_def)

lemma ex_object_sound: "sound_object (ref_store ex_zero) ref_valid (ex_object v n)"
  using ex_value_valid by (simp add: sound_object_def ex_object) (simp add: ref_store_def ex_object)

lemma crd_read_witness:
  "\<exists>c. crd_log (ref_store ex_zero) rs_obj c = [(ex_value 1, 1)]
     \<and> crd_Get (ref_store ex_zero) [Get_RevisionOpt 1, Get_RevisionOutOpt True] c = Inr (Some (ex_value 1), Some 1)"
proof -
  let ?obj = "ex_object 1 1"
  define c where "c = \<lparr>rs_obj = Some ?obj, rs_head = 1\<rparr>"
  note sound = ex_object_sound [of 1 1] and obj = ex_object [of 1 1]
  have inv: "crd_inv (ref_store ex_zero) (ref_ok ''ns'' ''config'') rs_obj ref_valid c"
    using sound by (auto simp: crd_inv_def c_def ref_ok_def ex_object_def newEmptyObject_def ref_store_def)
  from ref_store.sound_readHistory [OF sound, of 1] obj have "object_log (ref_store ex_zero) ?obj = [(ex_value 1, 1)]"
    by (fastforce simp: ref_store_def)
  then have log: "crd_log (ref_store ex_zero) rs_obj c = [(ex_value 1, 1)]" by (simp add: crd_log_def c_def)
  with crd_read [OF ref_store.crd_store_axioms inv log, of "[Get_RevisionOpt 1, Get_RevisionOutOpt True]"] show ?thesis by auto
qed

section \<open>The size of the annotation\<close>

lemma append_cases:
  "appendSpecToHistory s now obj = Inr (obj', err) \<Longrightarrow> annotations_of obj' HistoryAnnotation = None
     \<or> annotations_of obj' HistoryAnnotation = Some []
     \<or> (\<exists>hist str n. encodeHistory (cs_codec s) hist = Inr (str, n) \<and> annotations_of obj' HistoryAnnotation = Some str)"
proof -
  assume *: "appendSpecToHistory s now obj = Inr (obj', err)"
  define stamped where "stamped = (case ParseInt (ko_ResourceVersion obj) of
      (n, True) \<Rightarrow> SetRevision (FillConfigFromObject s obj) n [last_modified (cs_codec s) obj (annotations_of obj)]
    | (_, False) \<Rightarrow> Inr (FillConfigFromObject s obj))"
  from * obtain es conf where e: "read_annotation (cs_codec s) obj = Inr es" "stamped = Inr conf"
    unfolding appendSpecToHistory_def Let_def stamped_def [symmetric] rbind_Inr by blast
  define hist where "hist = drop (length (es @ [config_entry conf]) - 64) (es @ [config_entry conf])"
  show ?thesis
  proof (cases "encodeHistory (cs_codec s) hist")
    case (Inl err')
    with * show ?thesis
      unfolding appendSpecToHistory_def Let_def stamped_def [symmetric] e rbind_simps hist_def [symmetric]
      by (auto simp: annotations_of_def split: if_splits)
  next
    case (Inr x)
    obtain str n where x: "x = (str, n)" by (cases x)
    have "annotations_of obj' HistoryAnnotation = Some str"
      using * unfolding appendSpecToHistory_def Let_def stamped_def [symmetric] e rbind_simps hist_def [symmetric] Inr x
      by (auto simp: annotations_of_def)
    with Inr x show ?thesis by blast
  qed
qed

text \<open>
  C36. Whatever the annotation of an object held, the history that \<open>appendSpecToHistory\<close> leaves in it is no
  longer than \<open>maxAnnotationSize\<close>, although the driver estimates the sizes of the entries before they are
  encoded, in an older format.
\<close>

theorem crd_history_bound:
  assumes "snappy (cs_codec s)" "appendSpecToHistory s now obj = Inr (obj', err)"
    and "annotations_of obj' HistoryAnnotation = Some str"
  shows "length str \<le> 250 * 1024"
proof -
  from append_cases [OF assms(2)] assms(3) consider "str = []"
    | hist n where "encodeHistory (cs_codec s) hist = Inr (str, n)" by auto
  then show ?thesis
    using snappy.encodeHistory_bound [OF assms(1)] by cases (auto simp: maxAnnotationSize_def)
qed

lemma crd_history_bound_witness:
  "\<exists>obj str. appendSpecToHistory (ref_store ex_zero) 5 (ex_object 1 1) = Inr (obj, None)
     \<and> annotations_of obj HistoryAnnotation = Some str \<and> length str \<le> 250 * 1024"
proof -
  have one: "(0 :: int64) < 1" "(1 :: int64) < 2 ^ 63" by simp_all
  from ref_store.append_effect [OF ex_object_sound ex_object(3) one] obtain ann str where a:
    "appendSpecToHistory (ref_store ex_zero) 5 (ex_object 1 1) = Inr ((ex_object 1 1)\<lparr>ko_Annotations := Some ann\<rparr>, None)"
    "ann HistoryAnnotation = Some str" by metis
  moreover have "snappy (cs_codec (ref_store ex_zero))" by (simp add: ref_store_def ref_snappy.snappy_axioms)
  ultimately show ?thesis using crd_history_bound [OF _ a(1)] by (auto simp: annotations_of_def)
qed

section \<open>Watches\<close>

text \<open>
  C37. Every later version of the object that the API server reports becomes one event: a put with the new
  configuration and revision, whose \<open>Previous\<close> is what the event before it carried as \<open>Current\<close>; a deletion
  becomes one with the revision of the last put, not that of the deletion.
\<close>

theorem crd_watch_chain:
  assumes "\<forall>obj \<in> set objs. has_revision (FillConfigFromObject s obj)" "has_revision (FillConfigFromObject s gone)"
    and "current = (\<lambda>obj. key_revision (Some (unset_revision (FillConfigFromObject s obj))) (fst (ParseInt (ko_ResourceVersion obj))) zero_time)"
    and "objs \<noteq> []"
  shows "watch_loop s previous (map (\<lambda>obj. (Modified, Object obj)) objs @ [(Deleted, Object gone)])
    = (map2 (\<lambda>p obj. \<lparr>ev_EventType = WatchEventPut, ev_Current = Some (current obj), ev_Previous = p\<rparr>)
         (previous # map (\<lambda>obj. Some (current obj)) (butlast objs)) objs
       @ [\<lparr>ev_EventType = WatchEventDelete, ev_Current = None,
            ev_Previous = Some (key_revision (kr_V (current gone)) (kr_Rev (current (last objs))) zero_time)\<rparr>], None)"
proof -
  have clone: "cloneKeyRevision p = p" for p by (cases p) (simp_all add: cloneKeyRevision_def)
  have cur: "crd_current s obj = Inr (current obj)" if "has_revision (FillConfigFromObject s obj)" for obj
    using that assms(3) by (simp add: crd_current_def UnsetRevision_ok)
  have step: "watch_step s p (Modified, Object obj) =
      Inr (Some \<lparr>ev_EventType = WatchEventPut, ev_Current = Some (current obj), ev_Previous = p\<rparr>, Some (current obj))"
    if "has_revision (FillConfigFromObject s obj)" for p obj
    using cur [OF that] by (simp add: watch_step_def clone)
  show ?thesis
    using assms(1,4)
  proof (induction objs arbitrary: previous)
    case (Cons obj objs)
    show ?case
    proof (cases "objs = []")
      case True
      with Cons.prems step cur [OF assms(2)] show ?thesis by (simp add: watch_step_def [of s _ "(Deleted, _)"])
    next
      case False
      with Cons.prems step Cons.IH [of "Some (current obj)"] show ?thesis by (cases objs) simp_all
    qed
  qed simp
qed

lemma crd_watch_chain_witness:
  "\<exists>evs. watch_loop (ref_store ex_zero) None [(Modified, Object (ex_object 1 3)), (Modified, Object (ex_object 2 8)),
       (Deleted, Object (ex_object 2 9))] = (evs, None)
     \<and> map (\<lambda>ev. (map_option kr_Rev (ev_Current ev), map_option kr_Rev (ev_Previous ev))) evs
       = [(Some 3, None), (Some 8, Some 3), (None, Some 8)]"
proof -
  have r: "has_revision (ex_value v)" for v using ex_value_valid [of v] by (simp add: ref_valid_def)
  show ?thesis
    using crd_watch_chain [of "[ex_object 1 3, ex_object 2 8]" "ref_store ex_zero" "ex_object 2 9" _ None, OF _ _ refl]
    by (simp add: ex_object r key_revision_def)
qed

lemma panics_only:
  "watched_object res = Inl p \<Longrightarrow> err_code p = GoPanic"
  "crd_current s obj = Inl p \<Longrightarrow> err_code p = GoPanic"
  "decodeHistory cd str = Inl p \<Longrightarrow> err_code p = GoPanic"
proof -
  show "watched_object res = Inl p \<Longrightarrow> err_code p = GoPanic" by (cases res) auto
  show "crd_current s obj = Inl p \<Longrightarrow> err_code p = GoPanic"
    by (auto simp: crd_current_def UnsetRevision_def with_revision_field_def rbind_def split: sum.splits option.splits)
  have "unmarshal_v1_configs cd es = Inl p \<Longrightarrow> err_code p = GoPanic" for es
    by (induction es) (auto simp: rbind_def split: if_splits prod.splits option.splits sum.splits)
  then show "decodeHistory cd str = Inl p \<Longrightarrow> err_code p = GoPanic"
    by (auto simp: decodeHistory_def decodeHistory_v1_def split: if_splits sum.splits prod.splits option.splits)
qed

lemma map_sum_is_Inl [simp]: "map_sum id f r = Inl p \<longleftrightarrow> r = Inl p"
  by (cases r) simp_all

lemma step_panics: "watch_step s previous res = Inl p \<Longrightarrow> err_code p = GoPanic"
  by (auto simp: watch_step_def getPreviousRevisionSlow_def read_annotation_def rbind_def
      split: sum.splits k8s_watch_type.splits option.splits dest: panics_only)

lemma loop_panics: "watch_loop s previous rest = (evs, Some p) \<Longrightarrow> err_code p = GoPanic"
  by (induction rest arbitrary: previous evs)
    (auto split: sum.splits prod.splits option.splits dest: step_panics)

text \<open>
  When the API server ends a watch with an error (an expired resource version, say), the result carries a
  status instead of an object. The loop converts the object to the type of the store before it looks at the
  type of the result, so every such watch ends with a panic of the process; only as the very first result is
  the error passed over.
\<close>

theorem crd_watch_error_panics:
  assumes "\<not> watch_Prefix (watch_options os)"
    and "kc_Watch (cs_client s) (cs_Namespace s) (cs_Name s) c = Inr (res # rest)" "(WatchError, StatusObject m) \<in> set rest"
    and "watch_initial s (watch_Revision (watch_options os)) latest res = (evs, Inr previous)"
    and "latest = (case kc_Get (cs_client s) (cs_Namespace s) (cs_Name s) c of Inl _ \<Rightarrow> [] | Inr obj \<Rightarrow> ko_ResourceVersion obj)"
  shows "\<exists>evs p. crd_Watch s os c = Inr (evs, Some p) \<and> err_code p = GoPanic"
proof -
  have "\<exists>evs p. watch_loop s previous rest = (evs, Some p)"
    using assms(3)
  proof (induction rest arbitrary: previous)
    case (Cons r rest)
    show ?case
    proof (cases "r = (WatchError, StatusObject m)")
      case True
      then show ?thesis by (simp add: watch_step_def)
    next
      case False
      with Cons.prems have "(WatchError, StatusObject m) \<in> set rest" by simp
      note IH = Cons.IH [OF this]
      show ?thesis
      proof (cases "watch_step s previous r")
        case (Inr x)
        obtain ev previous' where x: "x = (ev, previous')" by (cases x)
        from IH obtain evs p where "watch_loop s previous' rest = (evs, Some p)" by blast
        with Inr x show ?thesis by simp
      qed simp
    qed
  qed simp
  then obtain evs' p where "watch_loop s previous rest = (evs', Some p)" by blast
  with assms(4) have "watch_results s (watch_Revision (watch_options os)) latest (res # rest) = (evs @ evs', Some p)"
    by (simp add: watch_results_def)
  then have "crd_Watch s os c = Inr (evs @ evs', Some p)"
    using assms(1,2) unfolding crd_Watch_def Let_def assms(5) [symmetric] by simp
  moreover have "err_code p = GoPanic" by (rule loop_panics) fact
  ultimately show ?thesis by blast
qed

text \<open>A server that reports the object and then an error.\<close>

definition ex_watch_store :: "(pmsg ref_server, pmsg) CRDValueStore" where
  "ex_watch_store = (ref_store ex_zero)\<lparr>cs_client := (ref_k8s ''ns'' ''config'')\<lparr>kc_Watch := (\<lambda>ns nm c.
     Inr [(Added, Object (ex_object 1 3)), (WatchError, StatusObject ''too old resource version'')])\<rparr>\<rparr>"

lemma crd_watch_error_panics_witness: "\<exists>evs p. crd_Watch ex_watch_store [] ex_empty = Inr (evs, Some p) \<and> err_code p = GoPanic"
proof -
  have r: "has_revision (ex_value v)" for v using ex_value_valid [of v] by (simp add: ref_valid_def)
  have "FillConfigFromObject ex_watch_store (ex_object 1 3) = ex_value 1"
    using ex_object(2) [of 1 3] by (simp add: FillConfigFromObject_def ex_watch_store_def newEmptyConfig_def)
  then have "\<exists>evs previous. watch_initial ex_watch_store None [] (Added, Object (ex_object 1 3)) = (evs, Inr previous)"
    using r [of 1] by (simp add: watch_initial_def crd_current_def UnsetRevision_ok Let_def)
  then obtain evs previous where "watch_initial ex_watch_store None [] (Added, Object (ex_object 1 3)) = (evs, Inr previous)" by blast
  then show ?thesis
    using crd_watch_error_panics [of "[]" ex_watch_store ex_empty "(Added, Object (ex_object 1 3))"
        "[(WatchError, StatusObject ''too old resource version'')]" "''too old resource version''" "[]" evs previous]
    by (simp add: ex_watch_store_def ref_k8s_def ref_store_def ex_empty_def)
qed

section \<open>A history that cannot be encoded\<close>

text \<open>
  \<open>Put\<close> drops the errors of \<open>appendSpecToHistory\<close>, which by then has written an empty annotation to the
  object. So when an object has annotations and its history cannot be encoded (an entry of it could not be
  decoded, or a string is not UTF-8), a \<open>Put\<close> succeeds, the history is gone, and from then on every \<open>Put\<close>,
  every \<open>History\<close> and every \<open>Get\<close> at an older revision panics on the empty annotation.
\<close>

theorem crd_unencodable_history:
  assumes S: "crd_store s ok stored head valid" and "ok c" "head c + 1 < 2 ^ 63" "stored c = Some obj"
    and "ko_Name obj = cs_Name s" "ko_Namespace obj = cs_Namespace s" "ko_Annotations obj = Some ann"
    and "readHistory s obj = Inr es" "encodeHistory (cs_codec s) (drop (length es - 64) es) = Inl e"
    and "valid v" "put_Revision (put_options ps) = None"
  shows "\<exists>ro c'. crd_Put s now (Some v) ps c = (Inr ro, c') \<and> head c < head c'
    \<and> (\<forall>now v ps. \<exists>p. crd_Put s now v ps c' = (Inl p, c') \<and> err_code p = GoPanic)
    \<and> (\<forall>hs. \<exists>p. crd_History s hs c' = Inl p \<and> err_code p = GoPanic)
    \<and> (\<forall>os. get_Revision (get_options os) \<notin> {None, Some (head c')} \<longrightarrow>
        (\<exists>p. crd_Get s os c' = Inl p \<and> err_code p = GoPanic))"
proof -
  have K: "k8s_server (cs_client s) (cs_Namespace s) (cs_Name s) ok stored head" using S by (simp add: crd_store_def)
  note get = k8s_server.get_some [OF K]
  from k8s_server.version [OF K assms(2,4)] k8s_server.head [OF K assms(2)] obtain n where
    n: "0 < n" "n \<le> head c" "ko_ResourceVersion obj = FormatInt n" "n < 2 ^ 63" by auto
  let ?ann = "ann(LastModifiedAnnotation \<mapsto> cd_FormatTime (cs_codec s) now, HistoryAnnotation \<mapsto> [])"
  from assms(8) obtain es0 m where r: "read_annotation (cs_codec s) obj = Inr es0" "es = es0 @ [config_entry m]"
    "SetRevision (FillConfigFromObject s obj) n [last_modified (cs_codec s) obj (annotations_of obj)] = Inr m"
    using n by (auto simp: readHistory_def rbind_Inr Let_def)
  have a: "appendSpecToHistory s now obj = Inr (obj\<lparr>ko_Annotations := Some ?ann\<rparr>, Some e)"
    using r n(1,3,4) assms(7,9) by (simp add: appendSpecToHistory_def annotations_of_def)
  from crd_store.filled_object [OF S] obtain b where b: "vm_FillObjectFromConfig (cs_methods s)
      (with_controller_reference s (obj\<lparr>ko_Annotations := Some ?ann\<rparr>)) v = obj\<lparr>ko_Annotations := Some ?ann, ko_Body := b\<rparr>" by metis
  define sent where "sent = obj\<lparr>ko_Annotations := Some ?ann, ko_Body := b, ko_GVK := cs_gvk s\<rparr>"
  have "ko_Name sent = ko_Name obj" "ko_Namespace sent = ko_Namespace obj" "ko_ResourceVersion sent = ko_ResourceVersion obj"
    by (simp_all add: sent_def)
  from k8s_server.update [OF K assms(2-4) this, of FieldManagerName] obtain obj' c' where u:
    "kc_Update (cs_client s) sent FieldManagerName c = (Inr obj', c')" "accepted ok stored head c sent obj' c'" by blast
  then have c': "ok c'" "stored c' = Some obj'" "head c < head c'" "ko_ResourceVersion obj' = FormatInt (head c')"
    "annotations_of obj' HistoryAnnotation = Some []"
    by (simp_all add: accepted_def sent_def annotations_of_def)
  have put: "\<exists>ro. crd_Put s now (Some v) ps c = (Inr ro, c')"
    using get [OF assms(2,4)] a b u(1) assms(11) by (simp add: crd_Put_def crd_update_def sent_def)
  have panic: "read_annotation (cs_codec s) obj' = Inl (go_panic ''index out of range'')"
    using c'(5) by (simp add: read_annotation_def decodeHistory_def)
  have "0 \<le> head c'" "head c' < 2 ^ 63" using k8s_server.head [OF K c'(1)] by simp_all
  then have P: "fst (ParseInt (ko_ResourceVersion obj')) = head c'" by (simp add: c'(4))
  have "crd_Put s now v ps c' = (Inl (go_panic ''index out of range''), c')" for now v ps
    using get [OF c'(1,2)] panic by (simp add: crd_Put_def appendSpecToHistory_def)
  moreover have "crd_History s hs c' = Inl (go_panic ''index out of range'')" for hs
    using get [OF c'(1,2)] panic by (simp add: crd_History_def readHistory_def)
  moreover have "crd_Get s os c' = Inl (go_panic ''index out of range'')"
    if "get_Revision (get_options os) \<notin> {None, Some (head c')}" for os
    using that get [OF c'(1,2)] panic P by (auto simp: crd_Get_def crd_lookup_def)
  ultimately show ?thesis using put c'(3) by (metis err_fields(5))
qed

text \<open>A codec that refuses the configurations whose number is \<open>13\<close>, and an object with such a one.\<close>

definition bad_config :: "pmsg \<Rightarrow> bool" where
  "bad_config m \<longleftrightarrow> msg_get ''n'' m = Some (VScalar (SInt64 13))"

definition picky_codec :: crd_codec where
  "picky_codec = ref_codec\<lparr>cd_Marshal := (\<lambda>m. if bad_config m then Inl (errorf ''invalid UTF-8'') else cd_Marshal ref_codec m)\<rparr>"

definition picky_store :: "(pmsg ref_server, pmsg) CRDValueStore" where
  "picky_store = (ref_store ex_zero)\<lparr>cs_codec := picky_codec\<rparr>"

lemma bad_config_revision: "msg_get ''n'' (msg_Set ''revision'' x v) = msg_get ''n'' v"
  by (simp add: msg_get_put)

interpretation picky_store: crd_store picky_store "ref_ok ''ns'' ''config''" rs_obj rs_head "\<lambda>v. ref_valid v \<and> \<not> bad_config v"
proof (rule crd_store.intro)
  show "snappy (cs_codec picky_store)"
    using ref_snappy.snappy_axioms by (simp add: snappy_def picky_store_def picky_codec_def)
  show "k8s_server (cs_client picky_store) (cs_Namespace picky_store) (cs_Name picky_store) (ref_ok ''ns'' ''config'') rs_obj rs_head"
    using ref_server.k8s_server_axioms by (simp add: picky_store_def ref_store_def)
  have "transmits (cs_codec picky_store) m" if "ref_valid v \<and> \<not> bad_config v" "SetRevision v n [t] = Inr m" for v n t m
  proof -
    from that ref_store.SetRevision_valid [of v n t] have "m = msg_Set ''revision'' (VMsg (revision_msg (Some n) (maybe_timestamp [t]))) v" by simp
    with that(1) have "\<not> bad_config m" by (simp add: bad_config_def bad_config_revision)
    then show ?thesis by (simp add: transmits_def picky_store_def picky_codec_def ref_codec_def)
  qed
  then show "crd_store_axioms picky_store (\<lambda>v. ref_valid v \<and> \<not> bad_config v)"
    by unfold_locales
      (auto simp: picky_store_def ref_store_def ref_valid_def FillConfigFromObject_def ref_methods_def with_controller_reference_def)
qed

lemma crd_unencodable_history_witness:
  "\<exists>ro c c'. crd_Put picky_store 5 (Some (ex_value 1)) [] c = (Inr ro, c')
     \<and> (\<exists>p. crd_Put picky_store 6 (Some (ex_value 2)) [] c' = (Inl p, c') \<and> err_code p = GoPanic)"
proof -
  define obj where "obj = (ex_object 13 1)\<lparr>ko_Annotations := Some Map.empty\<rparr>"
  define c where "c = \<lparr>rs_obj = Some obj, rs_head = 1\<rparr>"
  have n: "msg_get ''n'' (ex_value n) = Some (VScalar (SInt64 (word_of_int n)))" for n
    by (simp add: ex_value_def msg_get_put) (simp add: ex_zero_def has_field_def msg_fields_def)
  have obj: "FillConfigFromObject picky_store obj = ex_value 13" "read_annotation picky_codec obj = Inr []"
    by (simp_all add: obj_def ex_object_def FillConfigFromObject_def picky_store_def ref_store_def ref_methods_def
        read_annotation_def annotations_of_def)
  have rv: "ko_ResourceVersion obj = FormatInt 1" "ko_Name obj = ''config''" "ko_Namespace obj = ''ns''" "ko_Annotations obj = Some Map.empty"
    by (simp_all add: obj_def ex_object_def newEmptyObject_def ref_store_def)
  have names: "cs_Name picky_store = ''config''" "cs_Namespace picky_store = ''ns''" by (simp_all add: picky_store_def ref_store_def)
  obtain m where m: "SetRevision (ex_value 13) 1 [last_modified picky_codec obj (annotations_of obj)] = Inr m" "bad_config m"
    using ref_store.SetRevision_valid [OF ex_value_valid] by (simp add: bad_config_def bad_config_revision n)
  then have "readHistory picky_store obj = Inr [config_entry m]"
    using obj rv(1) by (simp add: readHistory_def) (simp add: picky_store_def)
  moreover have "encodeHistory (cs_codec picky_store) (drop (length [config_entry m] - 64) [config_entry m]) = Inl (errorf ''invalid UTF-8'')"
    using m(2) by (simp add: encodeHistory_def config_entry_def picky_store_def picky_codec_def)
  moreover have "ref_valid (ex_value 1) \<and> \<not> bad_config (ex_value 1)" using ex_value_valid by (simp add: bad_config_def n)
  moreover have "ref_ok ''ns'' ''config'' c" by (auto simp: ref_ok_def c_def rv)
  ultimately show ?thesis
    using crd_unencodable_history [OF picky_store.crd_store_axioms, of c obj Map.empty "[config_entry m]" _ "ex_value 1" "[]" 5] rv names
    by (simp add: c_def) blast
qed

end
