(* ===== verification/Rollback.thy ===== *)
theory Rollback
  imports Server GoLib
begin

text \<open>
  \<open>server/rollback/rollback.go\<close>: the command that reverts a configuration to an earlier revision, and the
  rendering of the differences it shows (\<open>server/jsondiff.go\<close>). The requests it sends go through a client, a
  record of operations over the state of the server. What the user answers to its prompts is a list that is
  consumed from the front: each round of the loop ends or takes an answer, so the command is a function of
  that list, and one that runs out of answers is waiting. What it prints is a list of lines.

  Parameters are the JSON encoding of messages and the comparison of two texts (third-party), the
  normalisation of masks, and how \<open>protopath\<close> writes the key of a map.
\<close>

section \<open>Differences\<close>

text \<open>
  \<open>jsondiff.Compare\<close> with the options of a format (and whether matches are skipped) returns whether the texts
  match fully, and the rendering; \<open>jd_tags\<close> are the texts that open an added, removed or changed part.
\<close>

record json_diff =
  jd_Marshal :: "pmsg \<Rightarrow> string"
  jd_Compare :: "string \<Rightarrow> bool \<Rightarrow> string \<Rightarrow> string \<Rightarrow> bool \<times> string"
  jd_tags :: "string \<times> string \<times> string"

definition RenderJsonDiff :: "json_diff \<Rightarrow> string \<Rightarrow> bool \<Rightarrow> pmsg \<Rightarrow> pmsg \<Rightarrow> string \<times> bool" where
  "RenderJsonDiff jd fmt skipMatches old new =
     (let (fullMatch, str) = jd_Compare jd fmt skipMatches (jd_Marshal jd old) (jd_Marshal jd new) in
      if fullMatch then ([], False) else (str, True))"

text \<open>\<open>strings.Count\<close>: the occurrences that do not overlap; of the empty string one more than the length.\<close>

function count_occurrences :: "string \<Rightarrow> string \<Rightarrow> nat" where
  "count_occurrences sub s =
     (if sub = [] then length s + 1
      else if s = [] then 0
      else if take (length sub) s = sub then 1 + count_occurrences sub (drop (length sub) s)
      else count_occurrences sub (tl s))"
  by pat_completeness auto
termination by (relation "measure (\<lambda>(sub, s). length s)") (auto simp: neq_Nil_conv)

fun join_parts :: "string list \<Rightarrow> string" where
  "join_parts [] = []"
| "join_parts [p] = p"
| "join_parts (p # ps) = p @ ''/'' @ join_parts ps"

definition DiffStat :: "string \<times> string \<times> string \<Rightarrow> string \<Rightarrow> string" where
  "DiffStat tags diff =
     (if diff = [] then []
      else
        (let (added, removed, changed) = tags;
             part = (\<lambda>sign tag. if count_occurrences tag diff > 0 then [sign @ nat_digits (count_occurrences tag diff)] else [])
         in join_parts (part ''+'' added @ part ''-'' removed @ part ''~'' changed)))"

section \<open>Filling in secrets\<close>

text \<open>
  The walk of \<open>protorange.Range\<close> over the populated fields: a singular string field whose path has an answer
  takes it. The path grows by the field's name, the index of a list or the key of a map.
\<close>

fun fill :: "(scalar \<Rightarrow> string) \<Rightarrow> (string \<rightharpoonup> string) \<Rightarrow> string \<Rightarrow> pmsg \<Rightarrow> pmsg"
  and fill_slots :: "(scalar \<Rightarrow> string) \<Rightarrow> (string \<rightharpoonup> string) \<Rightarrow> string \<Rightarrow> slots \<Rightarrow> slots"
  and fill_val :: "(scalar \<Rightarrow> string) \<Rightarrow> (string \<rightharpoonup> string) \<Rightarrow> string \<Rightarrow> pval \<Rightarrow> pval"
  and fill_vals :: "(scalar \<Rightarrow> string) \<Rightarrow> (string \<rightharpoonup> string) \<Rightarrow> string \<Rightarrow> nat \<Rightarrow> pval list \<Rightarrow> pval list"
  and fill_map :: "(scalar \<Rightarrow> string) \<Rightarrow> (string \<rightharpoonup> string) \<Rightarrow> string \<Rightarrow> (scalar \<times> pval) list \<Rightarrow> (scalar \<times> pval) list" where
  "fill key answers p (Msg n ss u) = Msg n (fill_slots key answers p ss) u"
| "fill_slots key answers p [] = []"
| "fill_slots key answers p ((fd, None) # ss) = (fd, None) # fill_slots key answers p ss"
| "fill_slots key answers p ((fd, Some v) # ss) =
     (let path = p @ ''.'' @ fd_Name fd in
      (fd, Some (if fd_Kind fd = StringKind \<and> \<not> fd_IsList fd \<and> \<not> fd_IsMap fd
                 then (case answers (tl path) of Some a \<Rightarrow> VScalar (SString a) | None \<Rightarrow> v)
                 else fill_val key answers path v)))
     # fill_slots key answers p ss"
| "fill_val key answers p (VScalar s) = VScalar s"
| "fill_val key answers p (VMsg m) = VMsg (fill key answers p m)"
| "fill_val key answers p (VList vs) = VList (fill_vals key answers p 0 vs)"
| "fill_val key answers p (VMap kvs) = VMap (fill_map key answers p kvs)"
| "fill_vals key answers p i [] = []"
| "fill_vals key answers p i (v # vs) =
     fill_val key answers (p @ ''['' @ nat_digits i @ '']'') v # fill_vals key answers p (Suc i) vs"
| "fill_map key answers p [] = []"
| "fill_map key answers p ((k, v) # kvs) =
     (k, fill_val key answers (p @ ''['' @ key k @ '']'') v) # fill_map key answers p kvs"

text \<open>The fields an error names. Sorting them only orders the questions.\<close>

definition discontinuity_field :: "detail \<Rightarrow> string list" where
  "discontinuity_field d =
     (case d of
        ErrorInfo reason _ metadata \<Rightarrow>
          if reason = ''DISCONTINUITY'' then [case map_of metadata ''field'' of None \<Rightarrow> [] | Some f \<Rightarrow> f] else []
      | OtherDetail _ \<Rightarrow> [])"

definition discontinuity_fields :: "err \<Rightarrow> string list" where
  "discontinuity_fields e = concat (map discontinuity_field (err_details e))"

section \<open>The command\<close>

record ('s, 'v) RollbackClient =
  rc_Get :: "pmsg \<Rightarrow> 's \<Rightarrow> pmsg result"
  rc_GetDefault :: "pmsg \<Rightarrow> 's \<Rightarrow> pmsg result"
  rc_DryRun :: "DryRunRequest \<Rightarrow> 's \<Rightarrow> 'v DryRunResults result"
  rc_Reset :: "ResetRequest \<Rightarrow> 's \<Rightarrow> unit result \<times> 's"
  rc_SetDefault :: "pmsg \<Rightarrow> 's \<Rightarrow> unit result \<times> 's"

text \<open>The flags, the libraries, and the empty configuration.\<close>

record rollback_env =
  re_diffFull :: bool
  re_diffFormat :: string
  re_diff :: json_diff
  re_Normalize :: "mask \<Rightarrow> mask"
  re_key :: "scalar \<Rightarrow> string"
  re_New :: pmsg

text \<open>
  An answer: to the questions for secrets, to the choice between yes, no and edit, the configuration an editor
  returns, to the question about validation, or the error of an interrupted prompt.
\<close>

datatype answer = Secrets "string \<rightharpoonup> string" | Yes | No | Edit | Edited pmsg | Confirm bool | Interrupted err

datatype rb_return = Waiting | Returned "err option"

type_synonym 's rollback_run = "rb_return \<times> string list \<times> 's"

definition rollback_dry_run_request :: "rollback_env \<Rightarrow> Target \<Rightarrow> pmsg \<Rightarrow> DryRunRequest" where
  "rollback_dry_run_request env target targetConfig =
     (let req = \<lparr>dq_Target = target, dq_Action = Action_NoAction, dq_Spec = re_New env, dq_Mask = None,
                 dq_Patch = re_New env, dq_Revision = None\<rparr> in
      case target of
        Target_Active \<Rightarrow> req\<lparr>dq_Action := Action_Reset,
          dq_Mask := Some (ByPresence (re_Normalize env) targetConfig), dq_Patch := targetConfig\<rparr>
      | Target_Default \<Rightarrow> req\<lparr>dq_Action := Action_Set, dq_Spec := targetConfig\<rparr>
      | Target_Other _ \<Rightarrow> req)"

definition rollback_reset_request :: "rollback_env \<Rightarrow> pmsg \<Rightarrow> ResetRequest" where
  "rollback_reset_request env targetConfig =
     \<lparr>rq_Mask = Some (ByPresence (re_Normalize env) targetConfig), rq_Patch = targetConfig, rq_Revision = None\<rparr>"

text \<open>\<open>// perform the rollback\<close>, to the end. The error is printed and not returned.\<close>

definition rollback_perform ::
  "('s, 'v) RollbackClient \<Rightarrow> rollback_env \<Rightarrow> Target \<Rightarrow> pmsg \<Rightarrow> 's \<Rightarrow> 's rollback_run" where
  "rollback_perform client env target targetConfig s =
     (let (r, s) = (case target of
            Target_Active \<Rightarrow> rc_Reset client (rollback_reset_request env targetConfig) s
          | Target_Default \<Rightarrow> rc_SetDefault client targetConfig s
          | Target_Other _ \<Rightarrow> (Inr (), s)) in
      (Returned None,
       (case r of Inl _ \<Rightarrow> [''rollback failed:''] | Inr _ \<Rightarrow> []) @ [''successfully rolled back to revision %d''], s))"

definition printing :: "string list \<Rightarrow> 's rollback_run \<Rightarrow> 's rollback_run" where
  "printing out run = (case run of (r, out', s) \<Rightarrow> (r, out @ out', s))"

definition fails :: "err \<Rightarrow> 's \<Rightarrow> 's rollback_run" where
  "fails e s = (Returned (Some e), [], s)"

text \<open>What is shown before the choice: \<^term>\<open>None\<close> when there is nothing to apply.\<close>

definition rollback_preview :: "rollback_env \<Rightarrow> 'v DryRunResults \<Rightarrow> string list option" where
  "rollback_preview env resp =
     (let (diffStr, anyChanges) = RenderJsonDiff (re_diff env) (re_diffFormat env) (\<not> re_diffFull env)
            (dr_Current resp) (dr_Modified resp) in
      if \<not> anyChanges then None
      else Some ([''The following changes will be applied ('' @ DiffStat (jd_tags (re_diff env)) diffStr @ ''):'', diffStr]
             @ (if dr_ValidationErrors resp \<noteq> None then [''validation errors''] else [])))"

text \<open>The prompts after the preview; a confirmed run with validation errors asks once more.\<close>

datatype choice = Write | Again pmsg "answer list" | Cancel err | Wait

definition rollback_choice :: "bool \<Rightarrow> answer list \<Rightarrow> choice" where
  "rollback_choice invalid answers =
     (case answers of
        No # _ \<Rightarrow> Cancel (errorf ''rollback canceled'')
      | Edit # Edited conf # answers \<Rightarrow> Again conf answers
      | Edit # Interrupted e # _ \<Rightarrow> Cancel e
      | Yes # answers \<Rightarrow>
          if \<not> invalid then Write
          else
            (case answers of
               Confirm True # _ \<Rightarrow> Write
             | Confirm False # _ \<Rightarrow> Cancel (errorf ''rollback canceled'')
             | Interrupted e # _ \<Rightarrow> Cancel e
             | _ \<Rightarrow> Wait)
      | Interrupted e # _ \<Rightarrow> Cancel e
      | _ \<Rightarrow> Wait)"

lemma choice_Again: "rollback_choice invalid answers = Again conf rest \<Longrightarrow> answers = Edit # Edited conf # rest"
  by (auto simp: rollback_choice_def split: list.splits answer.splits bool.splits if_splits)

lemma choice_Write: "rollback_choice invalid answers = Write \<Longrightarrow> Yes \<in> set answers \<and> (invalid \<longrightarrow> Confirm True \<in> set answers)"
  by (auto simp: rollback_choice_def split: list.splits answer.splits bool.splits if_splits)

text \<open>The loop.\<close>

function rollback_loop ::
  "('s, 'v) RollbackClient \<Rightarrow> rollback_env \<Rightarrow> Target \<Rightarrow> answer list \<Rightarrow> pmsg \<Rightarrow> 's \<Rightarrow> 's rollback_run" where
  "rollback_loop client env target answers targetConfig s =
     (case rc_DryRun client (rollback_dry_run_request env target targetConfig) s of
        Inl e \<Rightarrow>
          if IsDiscontinuity (Some e) then
            printing [''The target revision contains redacted secrets that have since been cleared.'']
              (if discontinuity_fields e = []
               then fails (go_panic ''bug: secrets discontinuity error missing field metadata'') s
               else
                 (case answers of
                    Secrets a # answers \<Rightarrow>
                      rollback_loop client env target answers
                        (fill (re_key env) (a |` set (discontinuity_fields e)) [] targetConfig) s
                  | Interrupted e # _ \<Rightarrow> fails (errorf_w ''rollback canceled: %w'' e) s
                  | _ \<Rightarrow> (Waiting, [], s)))
          else fails (errorf_w ''dry-run failed: %w'' e) s
      | Inr resp \<Rightarrow>
          if re_diffFormat env \<notin> {''console'', ''json'', ''html''} then fails (errorf ''invalid diff format: %s'') s
          else
            (case rollback_preview env resp of
               None \<Rightarrow> (Returned None, [''No changes to apply.''], s)
             | Some lines \<Rightarrow>
                 printing lines
                   (case rollback_choice (dr_ValidationErrors resp \<noteq> None) answers of
                      Write \<Rightarrow> rollback_perform client env target targetConfig s
                    | Again conf answers \<Rightarrow> rollback_loop client env target answers conf s
                    | Cancel e \<Rightarrow> fails e s
                    | Wait \<Rightarrow> (Waiting, [], s))))"
  by pat_completeness auto
termination
  by (relation "measure (\<lambda>(client, env, target, answers, conf, s). length answers)") (auto dest: choice_Again)

declare rollback_loop.simps [simp del]

text \<open>\<open>RunE\<close>. The client is missing when the context does not hold one.\<close>

definition rollback_configs ::
  "('s, 'v) RollbackClient \<Rightarrow> Target \<Rightarrow> pmsg \<Rightarrow> 's \<Rightarrow> (pmsg \<times> pmsg) result" where
  "rollback_configs client target getRequest s =
     (let both = (\<lambda>get. rbind (UnsetRevision getRequest) (\<lambda>withoutRevision.
            rbind (get withoutRevision s) (\<lambda>currentConfig. rbind (get getRequest s) (\<lambda>targetConfig.
              Inr (currentConfig, targetConfig))))) in
      case target of
        Target_Active \<Rightarrow> both (rc_Get client)
      | Target_Default \<Rightarrow> both (rc_GetDefault client)
      | Target_Other _ \<Rightarrow> Inl (errorf ''invalid target %q''))"

definition rollback_RunE ::
  "('s, 'v) RollbackClient option \<Rightarrow> rollback_env \<Rightarrow> Target \<Rightarrow> pmsg \<Rightarrow> answer list \<Rightarrow> 's \<Rightarrow> 's rollback_run" where
  "rollback_RunE client env target getRequest answers s =
     (case client of
        None \<Rightarrow> (Returned None, [''failed to get client from context''], s)
      | Some client \<Rightarrow>
          (case rollback_configs client target getRequest s of
             Inl e \<Rightarrow> fails e s
           | Inr (currentConfig, targetConfig) \<Rightarrow>
               if Revision_GetRevision (GetRevision currentConfig) = Revision_GetRevision (GetRevision targetConfig)
               then fails (errorf ''current configuration is already at revision %d'') s
               else
                 (case CopyRevision targetConfig currentConfig of
                    Inl e \<Rightarrow> fails e s
                  | Inr targetConfig \<Rightarrow> rollback_loop client env target answers targetConfig s)))"

end
