(* ===== verification/RollbackProps.thy ===== *)
theory RollbackProps
  imports Rollback ServerProps
begin

text \<open>
  The properties of the rollback command: what it writes is what it showed and the user confirmed, what it does
  to the configuration of a server, and what it reports when the write fails.
\<close>

section \<open>Nothing is written without consent\<close>

text \<open>A run that wrote is one that was confirmed, of a configuration whose changes were shown.\<close>

definition shown_and_confirmed where
  "shown_and_confirmed client env target answers s run \<longleftrightarrow>
     (\<exists>conf resp lines before. rc_DryRun client (rollback_dry_run_request env target conf) s = Inr resp
        \<and> rollback_preview env resp = Some lines
        \<and> Yes \<in> set answers \<and> (dr_ValidationErrors resp \<noteq> None \<longrightarrow> Confirm True \<in> set answers)
        \<and> run = printing (before @ lines) (rollback_perform client env target conf s))"

lemma printing_append [simp]: "printing out (printing out' run) = printing (out @ out') run"
  by (simp add: printing_def split: prod.splits)

lemma printing_nil [simp]: "printing [] run = run"
  by (simp add: printing_def split: prod.splits)

lemma printing_state [simp]: "snd (snd (printing out run)) = snd (snd run)"
  by (simp add: printing_def split: prod.splits)

lemma fails_state [simp]: "snd (snd (fails e s)) = s"
  by (simp add: fails_def)

lemma shown_printing:
  "shown_and_confirmed client env target answers s run \<Longrightarrow> set answers \<subseteq> set answers' \<Longrightarrow>
   shown_and_confirmed client env target answers' s (printing out run)"
  unfolding shown_and_confirmed_def
  by (elim exE conjE, rule exI, rule exI, rule exI, rule_tac x = "out @ before" in exI) auto

lemma loop_consent:
  "snd (snd (rollback_loop client env target answers conf s)) = s
   \<or> shown_and_confirmed client env target answers s (rollback_loop client env target answers conf s)"
proof (induction client env target answers conf s rule: rollback_loop.induct)
  case (1 client env target answers conf s)
  let ?loop = "rollback_loop client env target"
  have again: "snd (snd (printing out (?loop rest conf' s))) = s
      \<or> shown_and_confirmed client env target answers s (printing out (?loop rest conf' s))"
    if "snd (snd (?loop rest conf' s)) = s \<or> shown_and_confirmed client env target rest s (?loop rest conf' s)"
      "set rest \<subseteq> set answers" for out rest conf'
    using that shown_printing [OF _ that(2)] by (metis printing_state)
  show ?case
  proof (cases "rc_DryRun client (rollback_dry_run_request env target conf) s")
    case (Inl e)
    show ?thesis
    proof (cases "\<exists>a rest. answers = Secrets a # rest \<and> IsDiscontinuity (Some e) \<and> discontinuity_fields e \<noteq> []")
      case True
      then obtain a rest where a: "answers = Secrets a # rest" "IsDiscontinuity (Some e)" "discontinuity_fields e \<noteq> []" by blast
      from 1(1) [OF Inl a(2,3,1)] again [of rest] a Inl show ?thesis by (subst (1 2) rollback_loop.simps) auto
    next
      case False
      then have "snd (snd (?loop answers conf s)) = s"
        by (subst rollback_loop.simps) (auto simp: Inl split: list.splits answer.splits)
      then show ?thesis ..
    qed
  next
    case (Inr resp)
    note simps = rollback_loop.simps [of client env target answers conf s] Inr
    show ?thesis
    proof (cases "rollback_preview env resp")
      case None
      then have "snd (snd (?loop answers conf s)) = s" by (simp add: simps fails_def)
      then show ?thesis ..
    next
      case (Some lines)
      show ?thesis
      proof (cases "re_diffFormat env \<in> {''console'', ''json'', ''html''}")
        case True
        then have format: "\<not> re_diffFormat env \<notin> {''console'', ''json'', ''html''}" by simp
        show ?thesis
        proof (cases "rollback_choice (dr_ValidationErrors resp \<noteq> None) answers")
          case Write
          then have "?loop answers conf s = printing lines (rollback_perform client env target conf s)"
            unfolding simps using True by (simp add: Some)
          with choice_Write [OF Write] Inr Some have "shown_and_confirmed client env target answers s (?loop answers conf s)"
            unfolding shown_and_confirmed_def by (metis append_Nil)
          then show ?thesis ..
        next
          case (Again conf' rest)
          have "?loop answers conf s = printing lines (?loop rest conf' s)"
            unfolding simps using True Again by (simp add: Some)
          with 1(2) [OF Inr format Some Again] again [of rest conf' lines] choice_Again [OF Again] show ?thesis by auto
        qed (use True in \<open>simp_all add: simps Some fails_def\<close>)
      qed (simp add: simps fails_def)
    qed
  qed
qed

lemma RunE_loop:
  "snd (snd (rollback_RunE client env target getRequest answers s)) = s \<or> (\<exists>cl conf. client = Some cl
     \<and> rollback_RunE client env target getRequest answers s = rollback_loop cl env target answers conf s)"
proof (cases client)
  case (Some cl)
  then show ?thesis
    by (cases "rollback_configs cl target getRequest s"; cases "CopyRevision (snd (projr (rollback_configs cl target getRequest s)))
        (fst (projr (rollback_configs cl target getRequest s)))"; auto simp: rollback_RunE_def fails_def; blast)
qed (simp add: rollback_RunE_def)

text \<open>
  C39. The command writes only what it showed and the user agreed to: either the server's state is as before, or
  the user chose yes, after a dry run of exactly the configuration that is written, in the same state of the
  server, whose differences were printed before; and if the dry run found validation errors, the user also
  confirmed to bypass them. So it is through any number of rounds of editing and of filling in secrets.
\<close>

theorem rollback_needs_consent:
  "snd (snd (rollback_RunE client env target getRequest answers s)) = s
   \<or> (\<exists>cl conf resp lines before. client = Some cl
        \<and> rc_DryRun cl (rollback_dry_run_request env target conf) s = Inr resp \<and> rollback_preview env resp = Some lines
        \<and> Yes \<in> set answers \<and> (dr_ValidationErrors resp = None \<or> Confirm True \<in> set answers)
        \<and> rollback_RunE client env target getRequest answers s
            = printing (before @ lines) (rollback_perform cl env target conf s))"
proof -
  consider "snd (snd (rollback_RunE client env target getRequest answers s)) = s"
    | cl conf where "client = Some cl"
        "rollback_RunE client env target getRequest answers s = rollback_loop cl env target answers conf s"
    using RunE_loop [of client env target getRequest answers s] by blast
  then show ?thesis
  proof cases
    case (2 cl conf)
    with loop_consent [of cl env target answers conf s] show ?thesis
      unfolding shown_and_confirmed_def by metis
  qed simp
qed

section \<open>A failed rollback\<close>

text \<open>The run of an immediate yes.\<close>

lemma rollback_yes:
  assumes "rollback_configs client target getRequest s = Inr (currentConfig, targetConfig)"
    and "Revision_GetRevision (GetRevision currentConfig) \<noteq> Revision_GetRevision (GetRevision targetConfig)"
    and "CopyRevision targetConfig currentConfig = Inr conf"
    and "rc_DryRun client (rollback_dry_run_request env target conf) s = Inr resp" "dr_ValidationErrors resp = None"
    and "re_diffFormat env \<in> {''console'', ''json'', ''html''}" "rollback_preview env resp = Some lines"
  shows "rollback_RunE (Some client) env target getRequest (Yes # answers) s
    = printing lines (rollback_perform client env target conf s)"
proof -
  have "rollback_loop client env target (Yes # answers) conf s = printing lines (rollback_perform client env target conf s)"
    unfolding rollback_loop.simps [of client env target "Yes # answers"] using assms(4-7) by (simp add: rollback_choice_def)
  with assms(1-3) show ?thesis by (simp add: rollback_RunE_def)
qed

text \<open>
  A rollback that fails is reported as a success: when the server refuses the \<open>Reset\<close> the user confirmed,
  the command prints the error and then that it rolled back to the revision, and returns no error, so its exit
  status is that of a success.
\<close>

theorem rollback_hides_failure:
  assumes "rollback_configs client Target_Active getRequest s = Inr (currentConfig, targetConfig)"
    and "Revision_GetRevision (GetRevision currentConfig) \<noteq> Revision_GetRevision (GetRevision targetConfig)"
    and "CopyRevision targetConfig currentConfig = Inr conf"
    and "rc_DryRun client (rollback_dry_run_request env Target_Active conf) s = Inr resp" "dr_ValidationErrors resp = None"
    and "re_diffFormat env \<in> {''console'', ''json'', ''html''}" "rollback_preview env resp = Some lines"
    and "rc_Reset client (rollback_reset_request env conf) s = (Inl e, s')"
  shows "rollback_RunE (Some client) env Target_Active getRequest (Yes # answers) s
    = (Returned None, lines @ [''rollback failed:'', ''successfully rolled back to revision %d''], s')"
  unfolding rollback_yes [OF assms(1-7)] by (simp add: rollback_perform_def printing_def assms(8))

definition plain_cfg :: "string option \<Rightarrow> string option \<Rightarrow> int64 option \<Rightarrow> pmsg" where
  "plain_cfg name mode r = Msg ''ex.Plain''
     [(ex_revision_fd, map_option (\<lambda>n. VMsg (revision_msg (Some n) None)) r),
      (\<lparr>fd_Name = ''name'', fd_Kind = StringKind, fd_IsList = False, fd_IsMap = False, fd_Message = [], fd_Masked = False, fd_Oneof = []\<rparr>,
       map_option (VScalar \<circ> SString) name),
      (\<lparr>fd_Name = ''mode'', fd_Kind = StringKind, fd_IsList = False, fd_IsMap = False, fd_Message = [], fd_Masked = False, fd_Oneof = []\<rparr>,
       map_option (VScalar \<circ> SString) mode)] []"

definition ex_env :: rollback_env where
  "ex_env = \<lparr>re_diffFull = False, re_diffFormat = ''console'',
     re_diff = \<lparr>jd_Marshal = (\<lambda>m. case msg_get ''name'' m of Some (VScalar (SString x)) \<Rightarrow> x | _ \<Rightarrow> []),
       jd_Compare = (\<lambda>fmt skip a b. (a = b, a @ '' => '' @ b)), jd_tags = (''+'', ''-'', ''~'')\<rparr>,
     re_Normalize = ex_nrm, re_key = (\<lambda>_. []), re_New = plain_cfg None None None\<rparr>"

text \<open>A server with two revisions that fails to write.\<close>

definition failing_client :: "(unit, unit) RollbackClient" where
  "failing_client =
     \<lparr>rc_Get = (\<lambda>req s. Inr (if Revision_GetRevision (GetRevision req) = 1 then plain_cfg (Some ''a'') None (Some 1)
         else plain_cfg (Some ''b'') None (Some 2))),
      rc_GetDefault = (\<lambda>req s. Inl ErrNotFound),
      rc_DryRun = (\<lambda>req s. Inr \<lparr>dr_Current = plain_cfg (Some ''b'') None None, dr_Modified = dq_Patch req, dr_ValidationErrors = None\<rparr>),
      rc_Reset = (\<lambda>req s. (Inl ErrConflict, s)), rc_SetDefault = (\<lambda>req s. (Inl ErrConflict, s))\<rparr>"

lemma rollback_hides_failure_witness:
  "\<exists>lines. rollback_RunE (Some failing_client) ex_env Target_Active (plain_cfg None None (Some 1)) [Yes] ()
     = (Returned None, lines @ [''rollback failed:'', ''successfully rolled back to revision %d''], ())"
proof -
  have "rollback_configs failing_client Target_Active (plain_cfg None None (Some 1)) ()
      = Inr (plain_cfg (Some ''b'') None (Some 2), plain_cfg (Some ''a'') None (Some 1))"
    "Revision_GetRevision (GetRevision (plain_cfg (Some ''b'') None (Some 2)))
      \<noteq> Revision_GetRevision (GetRevision (plain_cfg (Some ''a'') None (Some 1)))"
    "CopyRevision (plain_cfg (Some ''a'') None (Some 1)) (plain_cfg (Some ''b'') None (Some 2))
      = Inr (plain_cfg (Some ''a'') None (Some 2))"
    by code_simp+
  note c = this
  let ?resp = "\<lparr>dr_Current = plain_cfg (Some ''b'') None None, dr_Modified = plain_cfg (Some ''a'') None (Some 2), dr_ValidationErrors = None\<rparr> :: unit DryRunResults"
  have d: "rc_DryRun failing_client (rollback_dry_run_request ex_env Target_Active (plain_cfg (Some ''a'') None (Some 2))) () = Inr ?resp"
    by (simp add: failing_client_def rollback_dry_run_request_def)
  have "rollback_preview ex_env ?resp \<noteq> None" by code_simp
  then obtain lines where "rollback_preview ex_env ?resp = Some lines" by blast
  from rollback_hides_failure [OF c d _ _ this, of ErrConflict "()" "[]"] show ?thesis
    by (simp add: ex_env_def failing_client_def)
qed

section \<open>A rollback on the config server\<close>

text \<open>The client of a server: each call is the server's handler.\<close>

definition server_client ::
  "('t, 'v, 'd, 's) DefaultingConfigTracker \<Rightarrow> time \<Rightarrow> ('d \<times> 's, 'v) RollbackClient" where
  "server_client ct now =
     \<lparr>rc_Get = (\<lambda>req st. server_Get ct (GetRevision req) st),
      rc_GetDefault = (\<lambda>req st. server_GetDefault ct (GetRevision req) st),
      rc_DryRun = (\<lambda>req st. ServerDryRun ct req st),
      rc_Reset = (\<lambda>req st. server_Reset ct now req st),
      rc_SetDefault = (\<lambda>spec st. server_SetDefault ct now spec st)\<rparr>"

lemma choice_yes: "rollback_choice invalid (Yes # answers) \<noteq> Again conf rest"
  using choice_Again by force

text \<open>A run that starts with yes and changed something performed the rollback of its first configuration.\<close>

lemma yes_performs:
  assumes "rollback_loop client env target (Yes # answers) conf s = (r, out, s')" "s' \<noteq> s"
  shows "\<exists>out'. rollback_perform client env target conf s = (r, out', s') \<and> set out' \<subseteq> set out"
proof -
  note step = assms(1) [unfolded rollback_loop.simps [of client env target "Yes # answers" conf s]]
  show ?thesis
  proof (cases "rc_DryRun client (rollback_dry_run_request env target conf) s")
    case (Inl e)
    with step assms(2) show ?thesis by (auto simp: fails_def printing_def split: if_splits)
  next
    case (Inr resp)
    note step = step [unfolded Inr, simplified]
    show ?thesis
    proof (cases "rollback_preview env resp")
      case None
      with step assms(2) show ?thesis by (auto simp: fails_def split: if_splits)
    next
      case (Some lines)
      note step = step [unfolded Some, simplified]
      show ?thesis
      proof (cases "rollback_choice (dr_ValidationErrors resp \<noteq> None) (Yes # answers)")
        case Write
        with step assms(2) show ?thesis by (auto simp: fails_def printing_def split: if_splits prod.splits)
      next
        case (Again conf' rest)
        with choice_yes show ?thesis by blast
      qed (use step assms(2) in \<open>auto simp: fails_def printing_def split: if_splits\<close>)
    qed
  qed
qed

lemma present_scalar: "slot_get n ss = Some (VScalar x) \<Longrightarrow> n \<in> set (present_slots ss)"
proof (induction ss)
  case (Cons a ss)
  then show ?case by (cases a; cases "snd a") (auto split: if_splits)
qed simp

lemma present_name:
  "distinct (map (fd_Name \<circ> fst) ss) \<Longrightarrow> dotless n \<Longrightarrow> n \<in> set (present_slots ss) \<Longrightarrow>
   slot_get n ss \<noteq> None \<and> n \<in> set (map (fd_Name \<circ> fst) ss)"
proof (induction ss)
  case (Cons a ss)
  obtain fd v where a: "a = (fd, v)" by (cases a)
  have field: "fd_Name fd = n" if "n \<in> set (present_field fd w)" for w
    using that Cons.prems(2) by (cases w) (auto simp: sub_path_def dotless_def split: if_splits)
  with Cons a show ?case by (cases v) auto
qed simp

lemma merge_get_msg:
  assumes "MergeWithReplace f dst src = Inr r" "\<not> is_time_message (msg_name src)" "msg_get n src = Some (VMsg m)"
  shows "\<exists>m'. msg_get n r = Some (VMsg m')"
  using merge_get(1) [OF assms(1,2), of n] assms(3) by simp

text \<open>A message-valued field the mask covers stays, however often the mask is normalised.\<close>

lemma keep_presence:
  assumes "art_laws A" "norm_law nrm" "names_ok m" "no_empty m"
  shows "ExclusiveKeep A m (Some (nrm (nrm (rangePresentMessageFields m)))) = m"
proof -
  let ?S = "set (nrm (nrm (rangePresentMessageFields m)))"
  have "\<forall>p \<in> set (rangePresentMessageFields m). in_mask ?S ([] @ p)"
    unfolding in_mask_nrm [OF assms(2)] by (auto simp: in_mask_def)
  from keep_inside(1) [OF AsTree_mask [OF assms(1)] assms(3,4) _ this] show ?thesis by (simp add: ExclusiveKeep_def)
qed

lemma norm_dotless:
  assumes "norm_law nrm" "n \<in> set ps" "dotless n" shows "n \<in> set (nrm ps)"
proof -
  have "\<not> prefix (q @ ''.'') n" for q using assms(3) by (auto simp: dotless_def prefix_def)
  with assms(1,2) show ?thesis unfolding norm_law_def by blast
qed

text \<open>The reset of a rollback, on the configurations.\<close>

lemma reset_to_target:
  assumes ty: "art_laws (ct_art ct)" "norm_law (ct_Normalize ct)" "\<And>p m. ct_unredact ct p m = Inr p"
    and dflt: "\<not> is_time_message (msg_name dflt)"
    and conf: "names_ok conf" "no_empty conf" "GetRevision conf \<noteq> None"
    and reset: "reset_config ct (ByPresence (ct_Normalize ct) conf) conf v dflt = Inr c"
    and n: "dotless n" "scalar_or_unset (msg_get n v)" "scalar_or_unset (msg_get n conf)"
      "\<forall>q \<in> set (rangePresentMessageFields conf). prefix n q \<longrightarrow> q = n" "outside_oneofs n dflt"
  shows "msg_get n c = (case msg_get n conf of Some x \<Rightarrow> Some x | None \<Rightarrow> msg_get n dflt)" "GetRevision c \<noteq> None"
proof -
  let ?nrm = "ct_Normalize ct" and ?R = "rangePresentMessageFields conf"
  let ?ps = "?nrm (?nrm ?R)"
  obtain k ss u where m: "conf = Msg k ss u" by (cases conf)
  with conf(1) have distinct: "distinct (map (fd_Name \<circ> fst) ss)" by simp
  have sub: "set ?ps \<subseteq> set ?R" using ty(2) unfolding norm_law_def by blast
  have r: "msg_get n c =
    (if \<exists>q \<in> set ?ps. prefix n q
     then (case msg_get n conf of Some x \<Rightarrow> Some x
           | None \<Rightarrow> (case msg_get n v of Some x \<Rightarrow> Some x | None \<Rightarrow> msg_get n dflt))
     else msg_get n dflt)"
    using reset_config_layers [OF ty(1) dflt reset ty(3) n(2,3,5)] by (simp add: ByPresence_def)
  show "msg_get n c = (case msg_get n conf of Some x \<Rightarrow> Some x | None \<Rightarrow> msg_get n dflt)"
  proof (cases "msg_get n conf")
    case None
    have "n \<notin> set ?R" using present_name [OF distinct n(1)] None m by (auto simp: msg_get_def)
    with sub n(4) have "\<not> (\<exists>q \<in> set ?ps. prefix n q)" by blast
    with r None show ?thesis by simp
  next
    case (Some x)
    with scalar_or_unset_cases [OF n(3)] m have "n \<in> set ?R" by (auto simp: msg_get_def intro: present_scalar)
    then have "n \<in> set ?ps" by (intro norm_dotless [OF ty(2)] n(1))
    then have "\<exists>q \<in> set ?ps. prefix n q" by blast
    with r Some show ?thesis by simp
  qed
  from reset have "masked_reset ct ?ps conf v dflt = Inr c"
    by (auto simp: reset_config_def check_mask_def Let_def rbind_Inr ByPresence_def split: if_splits)
  then obtain a where a: "MergeWithReplace (ct_fast ct) (ExclusiveKeep (ct_art ct) v (Some ?ps)) conf = Inr a"
    "MergeWithReplace (ct_fast ct) dflt a = Inr c"
    using keep_presence [OF ty(1,2) conf(1,2)] by (auto simp: masked_reset_def rbind_Inr ty(3))
  from a have names: "msg_name a = msg_name dflt" "msg_name conf = msg_name a"
    by (auto simp: MergeWithReplace_def MergeOptions_Merge_def same_descriptor_def split: if_splits)
  obtain m where "msg_get ''revision'' conf = Some (VMsg m)"
    using conf(3) by (auto simp: GetRevision_def split: option.splits pval.splits)
  with merge_get_msg [OF a(1)] names dflt obtain m' where "msg_get ''revision'' a = Some (VMsg m')" by auto
  with merge_get_msg [OF a(2)] names dflt obtain m'' where "msg_get ''revision'' c = Some (VMsg m'')" by auto
  then show "GetRevision c \<noteq> None" by (simp add: GetRevision_def)
qed

text \<open>
  C40. On a config server with neither secrets nor masked fields (which would keep the active value) and without
  other writers, a rollback of the active configuration that is confirmed at once and does not fail stores, for
  each scalar field outside of oneofs whose name is not the beginning of another populated path of the target,
  what the target revision has, and the default where the target has nothing. But it also stores a revision inside
  the configuration: the command copies the current one into the target, the mask of the request covers it, and
  \<open>Reset\<close>, unlike \<open>Set\<close>, does not clear it.
\<close>

theorem rollback_restores:
  assumes inv: "inMemory_inv d" "inMemory_inv s" "inMemory_cur s = Some (v, r)"
    and ty: "art_laws (ct_art ty)" "norm_law (ct_Normalize ty)" "MaskedFields (ct_New ty) = []"
      "\<And>p m. ct_unredact ty p m = Inr p" "re_Normalize env = ct_Normalize ty"
    and dflt: "fst (default_config (inMemory_tracker ty) (inMemory_cur d)) = dflt" "\<not> is_time_message (msg_name dflt)"
    and configs: "rollback_configs (server_client (inMemory_tracker ty) now) Target_Active req (d, s) = Inr (current, target)"
      "CopyRevision target current = Inr conf" "GetRevision current \<noteq> None" "has_revision target"
      "names_ok conf" "no_empty conf"
    and run: "rollback_RunE (Some (server_client (inMemory_tracker ty) now)) env Target_Active req (Yes # answers) (d, s)
        = (res, out, d', s')" "(d', s') \<noteq> (d, s)" "''rollback failed:'' \<notin> set out"
    and n: "n \<noteq> ''revision''" "dotless n" "scalar_or_unset (msg_get n v)" "scalar_or_unset (msg_get n target)"
      "\<forall>q \<in> set (rangePresentMessageFields conf). prefix n q \<longrightarrow> q = n" "outside_oneofs n dflt"
  shows "\<exists>c r'. inMemory_cur s' = Some (c, r') \<and> d' = d
    \<and> msg_get n c = (case msg_get n target of Some x \<Rightarrow> Some x | None \<Rightarrow> msg_get n dflt) \<and> GetRevision c \<noteq> None"
proof -
  let ?ct = "inMemory_tracker ty" and ?client = "server_client (inMemory_tracker ty) now"
  obtain rev where rev: "GetRevision current = Some rev" using configs(3) by blast
  with configs(2,4) have conf: "conf = msg_Set ''revision'' (VMsg rev) target"
    by (simp add: CopyRevision_def with_revision_field_ok)
  then have has: "GetRevision conf \<noteq> None" "msg_get n conf = msg_get n target"
    using has_revision_field [OF configs(4)] n(1) by (simp_all add: GetRevision_def msg_get_put)
  have "rollback_loop ?client env Target_Active (Yes # answers) conf (d, s) = (res, out, d', s')"
    using run(1,2) configs(1,2) by (auto simp: rollback_RunE_def fails_def split: if_splits)
  from yes_performs [OF this run(2)] obtain out' where
    perform: "rollback_perform ?client env Target_Active conf (d, s) = (res, out', d', s')" "set out' \<subseteq> set out" by blast
  with run(3) have "''rollback failed:'' \<notin> set out'" by blast
  with perform(1) have "server_Reset ?ct now (rollback_reset_request env conf) (d, s) = (Inr (), d', s')"
    by (auto simp: rollback_perform_def server_client_def split: prod.splits sum.splits)
  then have "tracker_Reset ?ct now (Some (ByPresence (ct_Normalize ty) conf)) conf [] (d, s) = (Inr (), d', s')"
    using ty(3,5) by (simp add: server_Reset_def ct_maskedFields_def rollback_reset_request_def)
  from reset_stores [OF inv this] dflt(1) obtain c r' where
    c: "reset_config ?ct (ByPresence (ct_Normalize ty) conf) conf v dflt = Inr c" "inMemory_cur s' = Some (c, r')" "d' = d" by auto
  have ct: "art_laws (ct_art ?ct)" "norm_law (ct_Normalize ?ct)" "ct_unredact ?ct p m = Inr p" for p m
    using ty(1,2,4) by simp_all
  from reset_to_target [OF ct dflt(2) configs(5,6) has(1) _ n(2,3) _ n(5,6), of c] c n(4) has(2) show ?thesis by auto
qed

text \<open>A server that had the name a, then b with a mode.\<close>

definition plain_type :: "(unit alist_tree, unit) ConfigType" where
  "plain_type = ex_type\<lparr>ct_New := plain_cfg None None None, ct_defaultLoader := (\<lambda>_. plain_cfg None (Some ''fast'') None)\<rparr>"

definition plain_active :: "pmsg inMemoryValueStore" where
  "plain_active = snd (st_Put inMemory_ops 2 (plain_cfg (Some ''b'') (Some ''slow'') None) []
     (snd (st_Put inMemory_ops 1 (plain_cfg (Some ''a'') None None) [] (NewValueStore (\<lambda>x. x) (plain_cfg None None None)))))"

abbreviation plain_store :: "pmsg inMemoryValueStore" where
  "plain_store \<equiv> NewValueStore (\<lambda>x. x) (plain_cfg None None None)"

abbreviation "plain_client \<equiv> server_client (inMemory_tracker plain_type) 3"

lemma plain_active: "inMemory_inv plain_active" "inMemory_cur plain_active = Some (plain_cfg (Some ''b'') (Some ''slow'') None, 2)"
proof -
  show "inMemory_inv plain_active" unfolding plain_active_def by (intro inmem.put_inv) simp
  show "inMemory_cur plain_active = Some (plain_cfg (Some ''b'') (Some ''slow'') None, 2)" by code_simp
qed

lemma rollback_restores_witness:
  "\<exists>res out d s c r. rollback_RunE (Some plain_client) ex_env Target_Active (plain_cfg None None (Some 1)) [Yes] (plain_store, plain_active)
     = (res, out, d, s) \<and> inMemory_cur s = Some (c, r) \<and> msg_get ''mode'' c = Some (VScalar (SString ''fast'')) \<and> GetRevision c \<noteq> None"
proof -
  obtain res out d s where run: "rollback_RunE (Some plain_client) ex_env Target_Active (plain_cfg None None (Some 1)) [Yes]
      (plain_store, plain_active) = (res, out, d, s)" by (metis prod_cases4)
  have out: "''rollback failed:'' \<notin> set (fst (snd (rollback_RunE (Some plain_client) ex_env Target_Active
      (plain_cfg None None (Some 1)) [Yes] (plain_store, plain_active))))"
    by code_simp
  have cur: "map_option snd (inMemory_cur (snd (snd (snd (rollback_RunE (Some plain_client) ex_env Target_Active
      (plain_cfg None None (Some 1)) [Yes] (plain_store, plain_active)))))) = Some 3"
    by code_simp
  have "(d, s) \<noteq> (plain_store, plain_active)" using cur plain_active(2) unfolding run by auto
  have configs: "rollback_configs plain_client Target_Active (plain_cfg None None (Some 1)) (plain_store, plain_active)
      = Inr (plain_cfg (Some ''b'') (Some ''slow'') (Some 2), plain_cfg (Some ''a'') None (Some 1))"
    "CopyRevision (plain_cfg (Some ''a'') None (Some 1)) (plain_cfg (Some ''b'') (Some ''slow'') (Some 2))
      = Inr (plain_cfg (Some ''a'') None (Some 2))"
    by code_simp+
  have ty: "art_laws (ct_art plain_type)" "norm_law (ct_Normalize plain_type)" "MaskedFields (ct_New plain_type) = []"
    "ct_unredact plain_type p m = Inr p" "re_Normalize ex_env = ct_Normalize plain_type" for p m
    using ex_keep_laws ex_nrm_law
    by (simp_all add: plain_type_def ex_type_def ex_env_def MaskedFields_def plain_cfg_def msg_fields_def ex_revision_fd_def)
  have dflt: "fst (default_config (inMemory_tracker plain_type) (inMemory_cur plain_store)) = plain_cfg None (Some ''fast'') None"
    by (simp add: default_config_def newDefaultSpec_def plain_type_def)
  have facts: "GetRevision (plain_cfg (Some ''b'') (Some ''slow'') (Some 2)) \<noteq> None" "has_revision (plain_cfg (Some ''a'') None (Some 1))"
    "names_ok (plain_cfg (Some ''a'') None (Some 2))" "no_empty (plain_cfg (Some ''a'') None (Some 2))"
    "\<not> is_time_message (msg_name (plain_cfg None (Some ''fast'') None))" "dotless ''mode''"
    "msg_get ''mode'' (plain_cfg (Some ''b'') (Some ''slow'') None) = Some (VScalar (SString ''slow''))"
    "msg_get ''mode'' (plain_cfg (Some ''a'') None (Some 1)) = None"
    "msg_get ''mode'' (plain_cfg None (Some ''fast'') None) = Some (VScalar (SString ''fast''))"
    "\<forall>q \<in> set (rangePresentMessageFields (plain_cfg (Some ''a'') None (Some 2))). prefix ''mode'' q \<longrightarrow> q = ''mode''"
    "outside_oneofs ''mode'' (plain_cfg None (Some ''fast'') None)"
    by code_simp+
  show ?thesis
    using rollback_restores [OF _ plain_active ty dflt facts(5) configs facts(1-4) run \<open>(d, s) \<noteq> (plain_store, plain_active)\<close>,
        of "''mode''"] facts out run
    by (auto simp: ex_env_def plain_type_def ex_type_def)
qed

end
