(* ===== verification/Typing.thy ===== *)
theory Typing
  imports MergeProps FieldMaskLemmas Revision
begin

text \<open>
  The types of messages. A message is well typed over a schema when its fields are those of its type and every
  value in it, at any depth, is of the kind its field declares: what the Go runtime guarantees of a message that
  was built through \<open>protoreflect\<close>. The fields of the type of a map field are its key and its value, as in a
  descriptor. Merging, keeping and clearing fields stay within the type. That at most one member of a oneof is
  populated is not part of it.
\<close>

fun scalar_kind :: "scalar \<Rightarrow> kind" where
  "scalar_kind (SBool _) = BoolKind" | "scalar_kind (SInt32 _) = Int32Kind" | "scalar_kind (SInt64 _) = Int64Kind"
| "scalar_kind (SUint32 _) = Uint32Kind" | "scalar_kind (SUint64 _) = Uint64Kind" | "scalar_kind (SFloat32 _) = FloatKind"
| "scalar_kind (SFloat64 _) = DoubleKind" | "scalar_kind (SString _) = StringKind" | "scalar_kind (SBytes _) = BytesKind"
| "scalar_kind (SEnum _) = EnumKind"

definition map_entry :: "schema \<Rightarrow> fdesc \<Rightarrow> (fdesc \<times> fdesc) option" where
  "map_entry sch fd = (case sch (fd_Message fd) of [k, v] \<Rightarrow> Some (k, v) | _ \<Rightarrow> None)"

fun typed :: "schema \<Rightarrow> pmsg \<Rightarrow> bool" and typed_slots :: "schema \<Rightarrow> slots \<Rightarrow> bool"
  and typed_val :: "schema \<Rightarrow> fdesc \<Rightarrow> pval \<Rightarrow> bool" and typed_elem :: "schema \<Rightarrow> fdesc \<Rightarrow> pval \<Rightarrow> bool"
  and typed_elems :: "schema \<Rightarrow> fdesc \<Rightarrow> pval list \<Rightarrow> bool"
  and typed_entries :: "schema \<Rightarrow> fdesc \<Rightarrow> fdesc \<Rightarrow> (scalar \<times> pval) list \<Rightarrow> bool" where
  "typed sch (Msg n ss u) \<longleftrightarrow> map fst ss = sch n \<and> typed_slots sch ss"
| "typed_slots sch [] \<longleftrightarrow> True"
| "typed_slots sch ((fd, None) # ss) \<longleftrightarrow> typed_slots sch ss"
| "typed_slots sch ((fd, Some v) # ss) \<longleftrightarrow> typed_val sch fd v \<and> typed_slots sch ss"
| "typed_val sch fd (VList vs) \<longleftrightarrow> fd_IsList fd \<and> \<not> fd_IsMap fd \<and> vs \<noteq> [] \<and> typed_elems sch fd vs"
| "typed_val sch fd (VMap kvs) \<longleftrightarrow> fd_IsMap fd \<and> \<not> fd_IsList fd \<and> kvs \<noteq> [] \<and> distinct (map fst kvs)
     \<and> (case map_entry sch fd of None \<Rightarrow> False | Some (k, v) \<Rightarrow> typed_entries sch k v kvs)"
| "typed_val sch fd (VMsg m) \<longleftrightarrow> \<not> fd_IsList fd \<and> \<not> fd_IsMap fd \<and> typed_elem sch fd (VMsg m)"
| "typed_val sch fd (VScalar x) \<longleftrightarrow> \<not> fd_IsList fd \<and> \<not> fd_IsMap fd \<and> typed_elem sch fd (VScalar x)"
| "typed_elem sch fd (VMsg m) \<longleftrightarrow> fd_Kind fd = MessageKind \<and> msg_name m = fd_Message fd \<and> typed sch m"
| "typed_elem sch fd (VScalar x) \<longleftrightarrow> scalar_kind x = fd_Kind fd"
| "typed_elem sch fd (VList vs) \<longleftrightarrow> False"
| "typed_elem sch fd (VMap kvs) \<longleftrightarrow> False"
| "typed_elems sch fd [] \<longleftrightarrow> True"
| "typed_elems sch fd (v # vs) \<longleftrightarrow> typed_elem sch fd v \<and> typed_elems sch fd vs"
| "typed_entries sch k v [] \<longleftrightarrow> True"
| "typed_entries sch k v ((x, y) # kvs) \<longleftrightarrow> scalar_kind x = fd_Kind k \<and> typed_elem sch v y \<and> typed_entries sch k v kvs"

definition well_typed :: "schema \<Rightarrow> string \<Rightarrow> pmsg \<Rightarrow> bool" where
  "well_typed sch n m \<longleftrightarrow> msg_name m = n \<and> typed sch m"

lemma typed_elems_append [simp]: "typed_elems sch fd (vs @ ws) \<longleftrightarrow> typed_elems sch fd vs \<and> typed_elems sch fd ws"
  by (induction vs) auto

lemma typed_entries_update:
  "typed_entries sch k v ds \<Longrightarrow> scalar_kind x = fd_Kind k \<Longrightarrow> typed_elem sch v y
     \<Longrightarrow> typed_entries sch k v (AList.update x y ds)"
  by (induction ds) auto

lemma typed_empty [simp]: "typed_slots sch (map (\<lambda>s. (fst s, None)) ss)" for ss :: slots
  by (induction ss) auto

lemma typed_new: "typed sch m \<Longrightarrow> typed sch (msg_new m)"
  by (cases m) (simp add: msg_new_def comp_def)

lemma typed_slot_clear: "typed_slots sch ss \<Longrightarrow> typed_slots sch (slot_set n None ss)"
proof (induction ss)
  case (Cons s ss)
  obtain fd x where "s = (fd, x)" by (cases s)
  with Cons show ?case by (cases x) auto
qed simp

lemma typed_clear: "typed sch m \<Longrightarrow> typed sch (msg_Clear n m)"
  by (cases m) (simp add: msg_put_def typed_slot_clear)

lemma well_typed_header: "well_typed sch n a \<Longrightarrow> well_typed sch n b \<Longrightarrow> same_descriptor a b"
  by (cases a; cases b) (auto simp: well_typed_def same_descriptor_def msg_fields_def)

section \<open>Merging\<close>

lemma typed_zero_time: "typed sch m \<Longrightarrow> typed sch (zero_time_fields m)"
  by (simp add: zero_time_fields_def typed_clear)

lemma typed_release [simp]: "typed_slots sch ds \<Longrightarrow> typed_slots sch (release ss ds)"
  unfolding release_def
proof (induction ds)
  case (Cons s ds)
  obtain fd x where "s = (fd, x)" by (cases s)
  with Cons show ?case by (cases x) auto
qed simp

lemma mergeList_nonempty: "ds \<noteq> [] \<or> vs \<noteq> [] \<Longrightarrow> mergeList f o' ds vs \<noteq> []"
  by (induction vs arbitrary: ds) auto

lemma mergeMap_nonempty: "ds \<noteq> [] \<or> kvs \<noteq> [] \<Longrightarrow> mergeMap f o' ds kvs \<noteq> []"
proof (induction kvs arbitrary: ds)
  case (Cons kv kvs)
  obtain k v where kv: "kv = (k, v)" by (cases kv)
  have "AList.update k x ds \<noteq> []" for x by (cases ds) auto
  with Cons.IH show ?case by (simp add: kv)
qed simp

lemma merge_typed:
  "typed sch dst \<Longrightarrow> typed sch src \<Longrightarrow> msg_name dst = msg_name src \<Longrightarrow> typed sch (mergeMessage f replace_options dst src)"
  "typed_slots sch ds \<Longrightarrow> typed_slots sch ss \<Longrightarrow> map fst ds = map fst ss \<Longrightarrow> typed_slots sch (merge_slots f replace_options ds ss)"
  "\<forall>x. d = Some x \<longrightarrow> typed_val sch fd x \<Longrightarrow> typed_val sch fd v \<Longrightarrow> typed_val sch fd (merge_field f replace_options d v)"
  "typed_elem sch fd v \<Longrightarrow> typed_elem sch fd (merge_elem f replace_options v)"
  "typed_elems sch fd es \<Longrightarrow> typed_elems sch fd vs \<Longrightarrow> typed_elems sch fd (mergeList f replace_options es vs)"
  "distinct (map fst ms) \<Longrightarrow> typed_entries sch k w ms \<Longrightarrow> typed_entries sch k w kvs
     \<Longrightarrow> distinct (map fst (mergeMap f replace_options ms kvs)) \<and> typed_entries sch k w (mergeMap f replace_options ms kvs)"
proof (induction f "replace_options" dst src and f "replace_options" ds ss and f "replace_options" d v and f "replace_options" v
    and f "replace_options" es vs and f "replace_options" ms kvs
    arbitrary: and and fd and fd and fd and k w
    rule: mergeMessage_merge_slots_merge_field_merge_elem_mergeList_mergeMap.induct)
  case (1 f dst n ss u)
  show ?case
  proof (cases "is_zero_time (Msg n ss u)")
    case True
    with 1(2) show ?thesis by (simp add: typed_zero_time)
  next
    case False
    with 1 show ?thesis by (cases dst) simp
  qed
next
  case (2 f fd d ds fd' s ss)
  then show ?case by (cases d; cases s) auto
next
  case (5 f d vs)
  then show ?case by (auto simp: mergeList_nonempty)
next
  case (6 f d kvs)
  then show ?case by (auto simp: mergeMap_nonempty split: option.splits)
next
  case (7 f d m)
  then show ?case by (cases d) (auto simp: typed_new split: pval.splits)
next
  case (16 f ds x y kvs)
  from 16(5) have y: "scalar_kind x = fd_Kind k" "typed_elem sch w y" "typed_entries sch k w kvs" by simp_all
  from 16(1) [OF y(2)] y(1) 16(4) have "typed_entries sch k w (AList.update x (merge_elem f replace_options y) ds)"
    by (simp add: typed_entries_update)
  with 16(2) [OF _ this y(3)] 16(3) show ?case by (simp add: distinct_update)
qed (auto simp: typed_new)

lemma MergeWithReplace_typed:
  assumes "MergeWithReplace f dst src = Inr m" "well_typed sch n dst" "well_typed sch n src"
  shows "well_typed sch n m"
proof -
  have "same_descriptor dst src" using assms(2,3) by (rule well_typed_header)
  with assms show ?thesis
    by (auto simp: MergeWithReplace_def MergeOptions_Merge_def well_typed_def intro: merge_typed(1))
qed

section \<open>Masks and revisions\<close>

lemma keep_typed:
  "typed sch m \<Longrightarrow> typed sch (fst (keep A t pre m))"
  "typed_slots sch ss \<Longrightarrow> typed_slots sch (fst (keep_slots A t pre ss))"
  "typed_val sch fd v \<Longrightarrow> keep_field A t path fd v = Some v' \<Longrightarrow> typed_val sch fd v'"
  "typed_val sch fd v \<Longrightarrow> keep_message A t path v = Some v' \<Longrightarrow> typed_val sch fd v'"
proof (induction A t pre m and A t pre ss and A t path fd v and A t path v arbitrary: and and v' and fd v'
    rule: keep_keep_slots_keep_field_keep_message.induct)
  case (1 A t pre n ss u)
  then show ?case by (simp add: case_prod_beta keep_fields)
next
  case (4 A t pre fd v ss)
  then show ?case by (cases "keep_field A t (pre @ fd_Name fd) fd v") (auto simp: case_prod_beta)
next
  case (5 A t path fd v)
  then show ?case by (auto split: if_splits)
next
  case (6 A t path m)
  moreover have "msg_name (fst (keep A t (path @ ''.'') m)) = msg_name m" by (cases m) (simp add: case_prod_beta)
  ultimately show ?case by (auto simp: case_prod_beta split: if_splits)
qed (auto simp: case_prod_beta)

lemma ExclusiveKeep_typed: "well_typed sch n m \<Longrightarrow> well_typed sch n (ExclusiveKeep A m fm)"
  by (cases m) (auto simp: ExclusiveKeep_def well_typed_def case_prod_beta keep_fields keep_typed(2) split: option.splits)

lemma UnsetRevision_typed: "UnsetRevision m = Inr m' \<Longrightarrow> well_typed sch n m \<Longrightarrow> well_typed sch n m'"
  by (auto simp: UnsetRevision_def with_revision_field_def well_typed_def typed_clear split: option.splits if_splits)

end
