(* ===== verification/TypeProps.thy ===== *)
theory TypeProps
  imports Typing TrackerProps
begin

text \<open>
  Type preservation of the config tracker: a store whose values all satisfy a predicate gives only such values
  back, and the tracker, which reads, merges, masks and writes them, keeps the predicate if the messages of the
  requests have it. The predicate is that a configuration is well typed.
\<close>

section \<open>Stores of values of one type\<close>

locale typed_store =
  fixes ops :: "('s, pmsg) ValueStoreT" and holds :: "'s \<Rightarrow> bool" and P :: "pmsg \<Rightarrow> bool"
  assumes get: "holds s \<Longrightarrow> st_Get ops os s = Inr (v, ro) \<Longrightarrow> P v"
    and put: "holds s \<Longrightarrow> P v \<Longrightarrow> st_Put ops now v ps s = (r, s') \<Longrightarrow> holds s'"
    and delete: "holds s \<Longrightarrow> st_Delete ops now ds s = (u, s') \<Longrightarrow> holds s'"

text \<open>The ring, at every revision it retains.\<close>

definition ring_holds :: "('a \<Rightarrow> bool) \<Rightarrow> 'a inMemoryValueStore \<Rightarrow> bool" where
  "ring_holds P s \<longleftrightarrow> (\<forall>i e. vs_ring s i = Some e \<longrightarrow> \<not> el_deleted e \<longrightarrow> P (el_value e)) \<and> (\<forall>x. vs_cloneFunc s x = x)"

lemma ring_holds_New: "ring_holds P (NewValueStore (\<lambda>x. x) z)"
  by (simp add: ring_holds_def NewValueStore_def ring_New_def)

lemma Get_loop_Some: "vs_Get_loop s r i = Some e \<Longrightarrow> (\<exists>i. vs_ring s i = Some e) \<and> \<not> el_deleted e"
proof (induction s r i rule: vs_Get_loop.induct)
  case (1 s r i)
  then show ?case
    by (subst (asm) vs_Get_loop.simps) (auto split: if_splits option.splits)
qed

lemma ring_holds_Get: "ring_holds P s \<Longrightarrow> vs_Get os s = Inr (v, ro) \<Longrightarrow> P v"
  by (auto simp: ring_holds_def vs_Get_def Let_def dest!: Get_loop_Some split: if_splits option.splits)

lemma ring_holds_Put: "ring_holds P s \<Longrightarrow> P v \<Longrightarrow> vs_Put now v os s = (r, s', ev) \<Longrightarrow> ring_holds P s'"
  by (auto simp: ring_holds_def vs_Put_def Let_def split: if_splits option.splits)

lemma ring_holds_Delete: "ring_holds P s \<Longrightarrow> vs_Delete now os s = (r, s', ev) \<Longrightarrow> ring_holds P s'"
  by (auto simp: ring_holds_def vs_Delete_def Let_def split: if_splits option.splits)

interpretation inmem_typed: typed_store inMemory_ops "ring_holds P" P for P
proof (unfold_locales, goal_cases)
  case (1 s os v ro) then show ?case by (simp add: store_simps ring_holds_Get)
next
  case (2 s v now ps r s') then show ?case by (metis inMemory_ops_eqs(1) prod.collapse ring_holds_Put snd_conv)
next
  case (3 s now ds u s') then show ?case by (metis inMemory_ops_eqs(3) prod.collapse ring_holds_Delete snd_conv)
qed

section \<open>The tracker\<close>

text \<open>What the tracker does to messages keeps the predicate.\<close>

definition closed_type :: "('t, 'v, 'd, 's) DefaultingConfigTracker \<Rightarrow> (pmsg \<Rightarrow> bool) \<Rightarrow> bool" where
  "closed_type ct P \<longleftrightarrow> P (newDefaultSpec ct)
     \<and> (\<forall>a b c. P a \<longrightarrow> P b \<longrightarrow> ct_unredact ct a b = Inr c \<longrightarrow> P c)
     \<and> (\<forall>a b c. P a \<longrightarrow> P b \<longrightarrow> MergeWithReplace (ct_fast ct) a b = Inr c \<longrightarrow> P c)
     \<and> (\<forall>a fm. P a \<longrightarrow> P (ExclusiveKeep (ct_art ct) a fm)) \<and> (\<forall>a b. P a \<longrightarrow> UnsetRevision a = Inr b \<longrightarrow> P b)"

fun op_holds :: "(pmsg \<Rightarrow> bool) \<Rightarrow> tracker_op \<Rightarrow> bool" where
  "op_holds P (Op_Apply c) \<longleftrightarrow> P c"
| "op_holds P (Op_SetDefault c) \<longleftrightarrow> P c"
| "op_holds P (Op_Reset fm patch r) \<longleftrightarrow> P patch"
| "op_holds P (Op_ResetDefault r) \<longleftrightarrow> True"

lemma closed_typeD:
  assumes "closed_type ct P"
  shows "P (newDefaultSpec ct)" "P a \<Longrightarrow> P b \<Longrightarrow> ct_unredact ct a b = Inr c \<Longrightarrow> P c"
    "P a \<Longrightarrow> P b \<Longrightarrow> MergeWithReplace (ct_fast ct) a b = Inr c \<Longrightarrow> P c"
    "P a \<Longrightarrow> P (ExclusiveKeep (ct_art ct) a fm)" "P a \<Longrightarrow> UnsetRevision a = Inr b \<Longrightarrow> P b"
  using assms unfolding closed_type_def by metis+

lemma masked_reset_closed:
  assumes T: "closed_type ct P" and r: "masked_reset ct paths patch act def = Inr c" and P: "P patch" "P act" "P def"
  shows "P c"
proof -
  let ?act = "ExclusiveKeep (ct_art ct) act (Some paths)"
  from r obtain p m where s: "ct_unredact ct patch ?act = Inr p"
      "MergeWithReplace (ct_fast ct) ?act (ExclusiveKeep (ct_art ct) p (Some paths)) = Inr m"
      "MergeWithReplace (ct_fast ct) def m = Inr c"
    unfolding masked_reset_def Let_def rbind_Inr by metis
  have act: "P ?act" using T P(2) by (rule closed_typeD(4))
  then have "P (ExclusiveKeep (ct_art ct) p (Some paths))"
    using closed_typeD(4) [OF T] closed_typeD(2) [OF T P(1) _ s(1)] by metis
  then have "P m" by (rule closed_typeD(3) [OF T act _ s(2)])
  then show "P c" by (rule closed_typeD(3) [OF T P(3) _ s(3)])
qed

locale typed_tracker = d: typed_store "ct_defaultStore ct" dh P + a: typed_store "ct_activeStore ct" ah P
  for ct :: "('t, 'v, 'd, 's) DefaultingConfigTracker" and dh :: "'d \<Rightarrow> bool" and ah :: "'s \<Rightarrow> bool" and P :: "pmsg \<Rightarrow> bool"
begin

lemma default_closed:
  assumes T: "closed_type ct P" and d: "dh d" and g: "getDefaultConfigLocked ct r d = Inr (v, n)"
  shows "P v"
proof (cases "st_Get (ct_defaultStore ct) (maybeWithRevision r [Get_RevisionOutOpt True]) d")
  case (Inl e)
  with g closed_typeD(1) [OF T] show ?thesis by (simp add: getDefaultConfigLocked_def split: if_splits)
next
  case (Inr x)
  with g d.get [OF d] show ?thesis by (cases x) (simp add: getDefaultConfigLocked_def)
qed

lemma base_closed:
  assumes T: "closed_type ct P" and d: "dh d" and s: "ah s" and g: "getConfigOrDefaultLocked ct r (d, s) = Inr (v, n)"
  shows "P v"
proof (cases "st_Get (ct_activeStore ct) (maybeWithRevision r [Get_RevisionOutOpt True]) s")
  case (Inl e)
  show ?thesis
  proof (cases "st_Get (ct_defaultStore ct) [] d")
    case (Inl e')
    with g \<open>_ = Inl e\<close> closed_typeD(1) [OF T] show ?thesis
      by (simp add: getConfigOrDefaultLocked_def split: if_splits)
  next
    case (Inr x)
    with g \<open>_ = Inl e\<close> d.get [OF d] show ?thesis
      by (cases x) (simp add: getConfigOrDefaultLocked_def split: if_splits)
  qed
next
  case (Inr x)
  with g a.get [OF s] show ?thesis by (cases x) (simp add: getConfigOrDefaultLocked_def)
qed

lemma Apply_closed:
  assumes T: "closed_type ct P" and h: "dh d" "ah s" and c: "P c" and run: "Apply ct now c (d, s) = (res, d', s')"
  shows "dh d' \<and> ah s'"
proof (cases "getConfigOrDefaultLocked ct [GetRevision c] (d, s)")
  case (Inl e)
  with run h show ?thesis by (simp add: Apply_def)
next
  case (Inr x)
  obtain v n where x: "x = (v, n)" by (cases x)
  show ?thesis
  proof (cases "applied ct v c")
    case (Inl e)
    with run h Inr x show ?thesis by (simp add: Apply_def applied_def)
  next
    case (Inr m)
    then obtain u w where m: "ct_unredact ct c v = Inr u" "MergeWithReplace (ct_fast ct) v u = Inr w" "UnsetRevision w = Inr m"
      unfolding applied_def rbind_Inr by metis
    have v: "P v" using base_closed [OF T h] \<open>_ = Inr x\<close> x by simp
    have "P m" by (rule closed_typeD(5) [OF T closed_typeD(3) [OF T v closed_typeD(2) [OF T c v m(1)] m(2)] m(3)])
    moreover obtain r s1 where p: "st_Put (ct_activeStore ct) now m [Put_RevisionOpt n] s = (r, s1)" by fastforce
    moreover have "d' = d" "s' = s1" using run \<open>_ = Inr x\<close> x Inr p by (simp_all add: Apply_def applied_def)
    ultimately show ?thesis using a.put [OF h(2)] h(1) by simp
  qed
qed

lemma SetDefault_closed:
  assumes T: "closed_type ct P" and h: "dh d" "ah s" and c: "P c" and run: "SetDefault ct now c (d, s) = (res, d', s')"
  shows "dh d' \<and> ah s'"
proof (cases "getDefaultConfigLocked ct [] d")
  case (Inl e)
  with run h show ?thesis by (simp add: SetDefault_def)
next
  case (Inr x)
  obtain v n where x: "x = (v, n)" by (cases x)
  show ?thesis
  proof (cases "new_default ct v c")
    case (Inl e)
    with run h Inr x show ?thesis by (simp add: SetDefault_def new_default_def)
  next
    case (Inr m)
    then obtain u where m: "ct_unredact ct c v = Inr u" "UnsetRevision u = Inr m" unfolding new_default_def rbind_Inr by metis
    have v: "P v" using default_closed [OF T h(1)] \<open>_ = Inr x\<close> x by simp
    have "P m" by (rule closed_typeD(5) [OF T closed_typeD(2) [OF T c v m(1)] m(2)])
    moreover obtain r d1 where p: "st_Put (ct_defaultStore ct) now m [Put_RevisionOpt (Revision_GetRevision (GetRevision c))] d = (r, d1)"
      by fastforce
    moreover have "s' = s" "d' = d1" using run \<open>_ = Inr x\<close> x Inr p by (simp_all add: SetDefault_def new_default_def)
    ultimately show ?thesis using d.put [OF h(1)] h(2) by simp
  qed
qed

lemma Reset_closed:
  assumes T: "closed_type ct P" and h: "dh d" "ah s" and c: "P patch"
    and run: "tracker_Reset ct now fm patch q (d, s) = (res, d', s')"
  shows "dh d' \<and> ah s'"
proof (cases "st_Get (ct_activeStore ct) (maybeWithRevision q [Get_RevisionOutOpt True]) s")
  case (Inl e)
  with run h show ?thesis by (simp add: tracker_Reset_def)
next
  case (Inr x)
  obtain act ro where x: "x = (act, ro)" by (cases x)
  have act: "P act" using a.get [OF h(2)] Inr x by simp
  show ?thesis
  proof (cases fm)
    case None
    obtain r s1 where p: "st_Delete (ct_activeStore ct) now [Delete_RevisionOpt (revision_out ro)] s = (r, s1)" by fastforce
    with run Inr x None have "d' = d" "s' = s1" by (simp_all add: tracker_Reset_def)
    with a.delete [OF h(2) p] h(1) show ?thesis by simp
  next
    case (Some paths)
    note run = run [unfolded tracker_Reset_def fst_conv snd_conv Inr x Some option.case sum.case prod.case]
    let ?m = "rbind (getDefaultConfigLocked ct [] d) (\<lambda>(def, _).
      rbind (check_mask ct (status_error InvalidArgument ''invalid field mask: %v'') paths act)
        (\<lambda>paths. masked_reset ct paths patch act def))"
    show ?thesis
    proof (cases ?m)
      case (Inl e)
      with run h show ?thesis by simp
    next
      case (Inr m)
      then obtain def n ps where m: "getDefaultConfigLocked ct [] d = Inr (def, n)" "masked_reset ct ps patch act def = Inr m"
        by (auto simp: rbind_Inr)
      have "P m" by (rule masked_reset_closed [OF T m(2) c act default_closed [OF T h(1) m(1)]])
      moreover obtain r s1 where p: "st_Put (ct_activeStore ct) now m [Put_RevisionOpt (revision_out ro)] s = (r, s1)" by fastforce
      moreover have "d' = d" "s' = s1" using run Inr p by simp_all
      ultimately show ?thesis using a.put [OF h(2)] h(1) by simp
    qed
  qed
qed

lemma ResetDefault_closed:
  assumes h: "dh d" "ah s" and run: "ResetDefault ct now q (d, s) = (res, d', s')"
  shows "dh d' \<and> ah s'"
proof -
  have "(d' = d \<or> (\<exists>os r. st_Delete (ct_defaultStore ct) now os d = (r, d'))) \<and> s' = s"
    using run unfolding ResetDefault_def by (force split: sum.splits prod.splits)
  with d.delete [OF h(1)] h show ?thesis by metis
qed

lemma step_closed:
  assumes T: "closed_type ct P" and h: "dh d" "ah s" and op: "op_holds P (snd op)"
    and step: "tracker_step ct op (d, s) = (res, d', s')"
  shows "dh d' \<and> ah s'"
proof -
  obtain now o' where o: "op = (now, o')" by (cases op)
  show ?thesis
    using op step Apply_closed [OF T h] SetDefault_closed [OF T h] Reset_closed [OF T h] ResetDefault_closed [OF h]
    unfolding o by (cases o') auto
qed

lemma run_closed:
  "closed_type ct P \<Longrightarrow> list_all (\<lambda>op. op_holds P (snd op)) ops \<Longrightarrow> dh (fst st) \<Longrightarrow> ah (snd st)
     \<Longrightarrow> dh (fst (tracker_run ct ops st)) \<and> ah (snd (tracker_run ct ops st))"
proof (induction ops arbitrary: st)
  case (Cons op ops)
  obtain res d s where s: "tracker_step ct op (fst st, snd st) = (res, d, s)" by (metis prod_cases3)
  from Cons.prems step_closed [OF _ _ _ _ s] have "dh d \<and> ah s" by simp
  with Cons.IH [of "(d, s)"] Cons.prems s show ?case by simp
qed simp

end

interpretation inmem_typed_tracker: typed_tracker "inMemory_tracker ty" "ring_holds P" "ring_holds P" P for ty P
  by (simp add: typed_tracker_def inmem_typed.typed_store_axioms)

section \<open>The property\<close>

lemma closed_well_typed:
  assumes "well_typed sch n (newDefaultSpec ct)"
    and "\<And>a b c. well_typed sch n a \<Longrightarrow> well_typed sch n b \<Longrightarrow> ct_unredact ct a b = Inr c \<Longrightarrow> well_typed sch n c"
  shows "closed_type ct (well_typed sch n)"
  unfolding closed_type_def
proof (intro conjI allI impI)
  show "well_typed sch n c" if "well_typed sch n a" "well_typed sch n b" "MergeWithReplace (ct_fast ct) a b = Inr c" for a b c
    using that(3,1,2) by (rule MergeWithReplace_typed)
qed (use assms ExclusiveKeep_typed UnsetRevision_typed in blast)+

lemma MergeWithReplace_defined:
  assumes "well_typed sch n dst" "well_typed sch n src"
  shows "\<exists>m. MergeWithReplace f dst src = Inr m \<and> well_typed sch n m"
proof -
  have "MergeWithReplace f dst src = Inr (mergeMessage f replace_options dst src)"
    using well_typed_header [OF assms] by (simp add: MergeWithReplace_def MergeOptions_Merge_def)
  then show ?thesis using MergeWithReplace_typed [OF _ assms] by blast
qed

text \<open>
  C10. The stores hold configurations of their type only. If the default configuration of the type is well
  typed, restoring secrets keeps the type, and the messages of all requests are well typed, then after any
  sequence of requests on fresh in-memory stores every value that either store returns, at any revision it can
  still find, is well typed; and merging a further request onto what the tracker reads never panics on
  different descriptors and is well typed again.
\<close>

theorem stored_configs_typed:
  assumes "well_typed sch n (newDefaultSpec (inMemory_tracker ty))"
    and "\<And>a b c. well_typed sch n a \<Longrightarrow> well_typed sch n b \<Longrightarrow> ct_unredact ty a b = Inr c \<Longrightarrow> well_typed sch n c"
    and "list_all (\<lambda>op. op_holds (well_typed sch n) (snd op)) ops"
    and "tracker_run (inMemory_tracker ty) ops (NewValueStore (\<lambda>x. x) z, NewValueStore (\<lambda>x. x) z) = (d, s)"
  shows "(st_Get inMemory_ops os d = Inr (v, ro) \<or> st_Get inMemory_ops os s = Inr (v, ro) \<longrightarrow> well_typed sch n v)
    \<and> (getConfigOrDefaultLocked (inMemory_tracker ty) rs (d, s) = Inr (w, r) \<and> well_typed sch n c
         \<longrightarrow> (\<exists>m. MergeWithReplace (ct_fast ty) w c = Inr m \<and> well_typed sch n m))"
proof -
  have T: "closed_type (inMemory_tracker ty) (well_typed sch n)"
  proof (rule closed_well_typed)
    fix a b c
    assume "well_typed sch n a" "well_typed sch n b" "ct_unredact (inMemory_tracker ty) a b = Inr c"
    then show "well_typed sch n c" unfolding NewDefaultingConfigTracker_sel by (rule assms(2))
  qed (rule assms(1))
  from inmem_typed_tracker.run_closed [OF T assms(3), of "(NewValueStore (\<lambda>x. x) z, NewValueStore (\<lambda>x. x) z)"]
  have h: "ring_holds (well_typed sch n) d" "ring_holds (well_typed sch n) s"
    unfolding assms(4) by (simp_all add: ring_holds_New)
  have "st_Get inMemory_ops os d = Inr (v, ro) \<or> st_Get inMemory_ops os s = Inr (v, ro) \<longrightarrow> well_typed sch n v"
    using inmem_typed.get [OF h(1), of os v ro] inmem_typed.get [OF h(2), of os v ro] by blast
  moreover have "\<exists>m. MergeWithReplace (ct_fast ty) w c = Inr m \<and> well_typed sch n m"
    if "getConfigOrDefaultLocked (inMemory_tracker ty) rs (d, s) = Inr (w, r)" "well_typed sch n c"
    using inmem_typed_tracker.base_closed [OF T h that(1)] that(2) by (rule MergeWithReplace_defined)
  ultimately show ?thesis by blast
qed

text \<open>A default, a change, and a reset of one field.\<close>

definition ex_schema :: schema where
  "ex_schema = (\<lambda>n. if n = ''ex.Config'' then msg_fields (ex_cfg None None None) else [])"

definition ex_ops :: "(time \<times> tracker_op) list" where
  "ex_ops = [(1, Op_SetDefault (ex_cfg (Some ''d'') None None)), (2, Op_Apply (ex_cfg (Some ''a'') (Some False) None)),
     (3, Op_Reset (Some [''enabled'']) (ex_cfg None None None) [])]"

lemma ex_typed: "well_typed ex_schema ''ex.Config'' (ex_cfg n e None)"
  by (cases n; cases e) (simp_all add: well_typed_def ex_schema_def ex_cfg_def msg_fields_def)

lemma stored_configs_typed_witness:
  "\<exists>d s v ro. tracker_run (inMemory_tracker ex_type) ex_ops (ex_store, ex_store) = (d, s)
     \<and> st_Get inMemory_ops [] s = Inr (v, ro) \<and> well_typed ex_schema ''ex.Config'' v"
proof -
  obtain d s where run: "tracker_run (inMemory_tracker ex_type) ex_ops (ex_store, ex_store) = (d, s)" by (metis surj_pair)
  have "\<not> (case st_Get inMemory_ops [] (snd (tracker_run (inMemory_tracker ex_type) ex_ops (ex_store, ex_store))) of Inl _ \<Rightarrow> True | Inr _ \<Rightarrow> False)"
    by code_simp
  then obtain v ro where get: "st_Get inMemory_ops [] s = Inr (v, ro)" by (auto simp: run split: sum.splits)
  have "well_typed ex_schema ''ex.Config'' v"
  proof (rule stored_configs_typed [OF _ _ _ run, THEN conjunct1, THEN mp, OF _ _ _ disjI2 [OF get]])
    show "well_typed ex_schema ''ex.Config'' (newDefaultSpec (inMemory_tracker ex_type))"
      using ex_typed by (simp add: newDefaultSpec_def ex_type_def)
    show "well_typed ex_schema ''ex.Config'' c"
      if "well_typed ex_schema ''ex.Config'' a" "ct_unredact ex_type a b = Inr c" for a b c
      using that by (simp add: ex_type_def)
    show "list_all (\<lambda>op. op_holds (well_typed ex_schema ''ex.Config'') (snd op)) ex_ops"
      using ex_typed by (simp add: ex_ops_def)
  qed
  with run get show ?thesis by blast
qed

end
