(* ===== verification/WatchContext.thy ===== *)
theory WatchContext
  imports Stores
begin

text \<open>
  \<open>storage/context.go\<close>: a context that is done when a watched object is deleted, when its event channel is
  closed, or when its base context is done, whichever the goroutine sees first. The state is the context with
  the channel it reads and the position of the goroutine: in the select loop, after it has stored the error,
  or returned, which closes \<open>done\<close>. The base context is done when \<open>cc_base\<close> holds its error. A channel has a
  list of events (what the senders have passed to it) and may be closed.
\<close>

definition ErrEventChannelClosed :: err where "ErrEventChannelClosed = errorf ''event channel closed''"

definition ErrObjectDeleted :: err where "ErrObjectDeleted = errorf ''object deleted''"

datatype watching = Watching | Returning | Closed_done

record 'a watchContext =
  cc_base :: "err option"
  cc_eventC :: "'a WatchEvent list"
  cc_closed :: bool
  cc_goroutine :: watching
  cc_err :: "err option"

definition NewWatchContext :: "err option \<Rightarrow> 'a WatchEvent list \<Rightarrow> bool \<Rightarrow> 'a watchContext" where
  "NewWatchContext base eventC closed =
     \<lparr>cc_base = base, cc_eventC = eventC, cc_closed = closed, cc_goroutine = Watching, cc_err = None\<rparr>"

text \<open>\<open>Done\<close> is closed; \<open>Err\<close> reads the stored error.\<close>

definition cc_Done :: "'a watchContext \<Rightarrow> bool" where
  "cc_Done cc \<longleftrightarrow> cc_goroutine cc = Closed_done"

definition cc_Err :: "'a watchContext \<Rightarrow> err option" where
  "cc_Err cc = cc_err cc"

definition store_err :: "err \<Rightarrow> 'a watchContext \<Rightarrow> 'a watchContext" where
  "store_err e cc = cc\<lparr>cc_err := Some e, cc_goroutine := Returning\<rparr>"

text \<open>A step of the goroutine. The select takes any case that is ready.\<close>

inductive cc_watch :: "'a watchContext \<Rightarrow> 'a watchContext \<Rightarrow> bool" where
  base_done: "cc_goroutine cc = Watching \<Longrightarrow> cc_base cc = Some e \<Longrightarrow> cc_watch cc (store_err e cc)"
| channel_closed: "cc_goroutine cc = Watching \<Longrightarrow> cc_eventC cc = [] \<Longrightarrow> cc_closed cc \<Longrightarrow>
     cc_watch cc (store_err ErrEventChannelClosed cc)"
| deleted: "cc_goroutine cc = Watching \<Longrightarrow> cc_eventC cc = ev # evs \<Longrightarrow> ev_EventType ev = WatchEventDelete \<Longrightarrow>
     cc_watch cc (store_err ErrObjectDeleted (cc\<lparr>cc_eventC := evs\<rparr>))"
| other_event: "cc_goroutine cc = Watching \<Longrightarrow> cc_eventC cc = ev # evs \<Longrightarrow> ev_EventType ev \<noteq> WatchEventDelete \<Longrightarrow>
     cc_watch cc (cc\<lparr>cc_eventC := evs\<rparr>)"
| close_done: "cc_goroutine cc = Returning \<Longrightarrow> cc_watch cc (cc\<lparr>cc_goroutine := Closed_done\<rparr>)"

inductive_cases cc_watchE: "cc_watch cc cc'"

text \<open>What happens around it: an event is sent, the channel is closed, the base context ends.\<close>

datatype 'a surrounding = Send "'a WatchEvent" | Close | Cancel err

inductive cc_around :: "'a watchContext \<Rightarrow> 'a surrounding \<Rightarrow> 'a watchContext \<Rightarrow> bool" where
  "\<not> cc_closed cc \<Longrightarrow> cc_around cc (Send ev) (cc\<lparr>cc_eventC := cc_eventC cc @ [ev]\<rparr>)"
| "\<not> cc_closed cc \<Longrightarrow> cc_around cc Close (cc\<lparr>cc_closed := True\<rparr>)"
| "cc_base cc = None \<Longrightarrow> cc_around cc (Cancel e) (cc\<lparr>cc_base := Some e\<rparr>)"

inductive_cases cc_aroundE: "cc_around cc l cc'"

text \<open>A run from the start: the state, and what happened around it.\<close>

inductive cc_run :: "'a watchContext \<Rightarrow> 'a surrounding list \<Rightarrow> 'a watchContext \<Rightarrow> bool" where
  start: "cc_run cc [] cc"
| internal: "cc_run cc ls cc' \<Longrightarrow> cc_watch cc' cc'' \<Longrightarrow> cc_run cc ls cc''"
| external: "cc_run cc ls cc' \<Longrightarrow> cc_around cc' l cc'' \<Longrightarrow> cc_run cc (ls @ [l]) cc''"

fun sent :: "'a surrounding list \<Rightarrow> 'a WatchEvent list" where
  "sent [] = []"
| "sent (Send ev # ls) = ev # sent ls"
| "sent (Close # ls) = sent ls"
| "sent (Cancel e # ls) = sent ls"

lemma sent_append [simp]: "sent (ls @ ls') = sent ls @ sent ls'"
  by (induction ls rule: sent.induct) auto

abbreviation is_delete :: "'a WatchEvent \<Rightarrow> bool" where
  "is_delete ev \<equiv> ev_EventType ev = WatchEventDelete"

section \<open>What the error says\<close>

text \<open>
  The goroutine has taken a part of the events sent. While it watches, there was no deletion in it and no
  error is stored; afterwards the error says what it saw last.
\<close>

definition cc_inv :: "'a WatchEvent list \<Rightarrow> 'a surrounding list \<Rightarrow> 'a watchContext \<Rightarrow> 'a WatchEvent list \<Rightarrow> bool" where
  "cc_inv evs ls cc taken \<longleftrightarrow>
     evs @ sent ls = taken @ cc_eventC cc \<and> (cc_closed cc \<longleftrightarrow> Close \<in> set ls) \<and> (\<forall>e. cc_base cc = Some e \<longleftrightarrow> Cancel e \<in> set ls)
     \<and> (if cc_goroutine cc = Watching then cc_err cc = None \<and> \<not> list_ex is_delete taken
        else (cc_err cc = Some ErrObjectDeleted \<and> (\<exists>puts ev. taken = puts @ [ev] \<and> \<not> list_ex is_delete puts \<and> is_delete ev))
          \<or> (cc_err cc = Some ErrEventChannelClosed \<and> Close \<in> set ls \<and> cc_eventC cc = [] \<and> \<not> list_ex is_delete taken)
          \<or> (\<exists>e. cc_err cc = Some e \<and> Cancel e \<in> set ls \<and> \<not> list_ex is_delete taken))"

lemma cc_inv_watch:
  assumes "cc_inv evs ls cc taken" "cc_watch cc cc'"
  shows "\<exists>taken. cc_inv evs ls cc' taken"
  using assms(2,1)
proof cases
  case (deleted ev es)
  then have "cc_inv evs ls cc' (taken @ [ev])" using assms(1) by (auto simp: cc_inv_def store_err_def)
  then show ?thesis ..
next
  case (other_event ev es)
  then have "cc_inv evs ls cc' (taken @ [ev])" using assms(1) by (auto simp: cc_inv_def)
  then show ?thesis ..
qed (use assms(1) in \<open>auto simp: cc_inv_def store_err_def intro!: exI [of _ taken]\<close>)

lemma cc_inv_around:
  assumes "cc_inv evs ls cc taken" "cc_around cc l cc'"
  shows "cc_inv evs (ls @ [l]) cc' taken"
  using assms(2)
proof cases
  case (1 ev)
  then show ?thesis using assms(1) by (auto simp: cc_inv_def split: if_splits)
next
  case 2
  then show ?thesis using assms(1) by (auto simp: cc_inv_def split: if_splits)
next
  case (3 e)
  then show ?thesis using assms(1) by (auto simp: cc_inv_def split: if_splits)
qed

lemma cc_run_inv:
  assumes "cc_run (NewWatchContext None evs False) ls cc"
  shows "\<exists>taken. cc_inv evs ls cc taken"
  using assms
proof (induction "NewWatchContext None evs False" ls cc rule: cc_run.induct)
  case start
  show ?case by (rule exI [of _ "[]"]) (simp add: cc_inv_def NewWatchContext_def)
next
  case (internal ls cc' cc'')
  then show ?case using cc_inv_watch by blast
next
  case (external ls cc' l cc'')
  then show ?case using cc_inv_around by blast
qed

section \<open>Ending\<close>

text \<open>Something has happened for which the context ends; the steps the goroutine has left at most.\<close>

definition ending :: "'a watchContext \<Rightarrow> bool" where
  "ending cc \<longleftrightarrow> cc_goroutine cc \<noteq> Watching \<or> cc_base cc \<noteq> None \<or> cc_closed cc \<or> list_ex is_delete (cc_eventC cc)"

definition steps_left :: "'a watchContext \<Rightarrow> nat" where
  "steps_left cc = length (cc_eventC cc) + (case cc_goroutine cc of Watching \<Rightarrow> 2 | Returning \<Rightarrow> 1 | Closed_done \<Rightarrow> 0)"

lemma watch_steps_left: "cc_watch cc cc' \<Longrightarrow> steps_left cc' < steps_left cc"
  by (erule cc_watch.cases) (auto simp: steps_left_def store_err_def)

lemma watch_ending: "cc_watch cc cc' \<Longrightarrow> ending cc \<Longrightarrow> ending cc'"
  by (erule cc_watch.cases) (auto simp: ending_def store_err_def)

lemma ending_step:
  assumes "ending cc" "\<not> cc_Done cc"
  shows "\<exists>cc'. cc_watch cc cc'"
proof (cases "cc_goroutine cc")
  case Watching
  show ?thesis
  proof (cases "cc_eventC cc")
    case Nil
    with assms(1) Watching cc_watch.base_done cc_watch.channel_closed show ?thesis
      by (fastforce simp: ending_def)
  next
    case (Cons ev evs)
    with Watching cc_watch.deleted cc_watch.other_event show ?thesis by blast
  qed
next
  case Returning
  then show ?thesis using cc_watch.close_done by blast
qed (use assms(2) in \<open>simp add: cc_Done_def\<close>)

lemma run_steps_left: "(cc_watch ^^ n) cc cc' \<Longrightarrow> n + steps_left cc' \<le> steps_left cc"
proof (induction n arbitrary: cc')
  case (Suc n)
  then obtain cm where "(cc_watch ^^ n) cc cm" "cc_watch cm cc'" by auto
  with Suc.IH [OF this(1)] watch_steps_left [OF this(2)] show ?case by simp
qed simp

lemma run_ending: "(cc_watch ^^ n) cc cc' \<Longrightarrow> ending cc \<Longrightarrow> ending cc'"
  by (induction n arbitrary: cc') (auto dest: watch_ending)

definition ex_put_event :: "unit WatchEvent" where
  "ex_put_event = \<lparr>ev_EventType = WatchEventPut, ev_Current = None, ev_Previous = None\<rparr>"

definition ex_delete_event :: "unit WatchEvent" where
  "ex_delete_event = \<lparr>ev_EventType = WatchEventDelete, ev_Current = None, ev_Previous = None\<rparr>"

section \<open>The property\<close>

text \<open>
  C19. The error of a watch context is there as soon as \<open>Done\<close> is closed, and says what happened: that the
  object was deleted only if a deletion was sent, that the channel was closed only if it was, after all events
  had been read and none was a deletion, or else it is the error of the base context. While there is no error,
  no deletion has been read. And the context always ends: once a deletion was sent, the channel closed or the
  base context done, the goroutine reaches the end in a bounded number of steps of its own, and is never stuck
  before.
\<close>

theorem watch_context:
  assumes "cc_run (NewWatchContext None evs False) ls cc"
  shows "(cc_Done cc \<longrightarrow> cc_Err cc \<noteq> None)
    \<and> (case cc_Err cc of None \<Rightarrow> \<exists>puts. evs @ sent ls = puts @ cc_eventC cc \<and> \<not> list_ex is_delete puts
       | Some e \<Rightarrow> e = ErrObjectDeleted \<and> list_ex is_delete (evs @ sent ls)
           \<or> e = ErrEventChannelClosed \<and> Close \<in> set ls \<and> \<not> list_ex is_delete (evs @ sent ls)
           \<or> Cancel e \<in> set ls)
    \<and> (list_ex is_delete (evs @ sent ls) \<or> Close \<in> set ls \<or> (\<exists>e. Cancel e \<in> set ls) \<longrightarrow>
        (\<forall>n cc'. (cc_watch ^^ n) cc cc' \<longrightarrow> n \<le> length (cc_eventC cc) + 2 \<and> (cc_Done cc' \<or> (\<exists>cc''. cc_watch cc' cc''))))"
proof -
  from cc_run_inv [OF assms] obtain taken where inv: "cc_inv evs ls cc taken" ..
  have err: "case cc_Err cc of None \<Rightarrow> \<exists>puts. evs @ sent ls = puts @ cc_eventC cc \<and> \<not> list_ex is_delete puts
       | Some e \<Rightarrow> e = ErrObjectDeleted \<and> list_ex is_delete (evs @ sent ls)
           \<or> e = ErrEventChannelClosed \<and> Close \<in> set ls \<and> \<not> list_ex is_delete (evs @ sent ls)
           \<or> Cancel e \<in> set ls"
  proof (cases "cc_goroutine cc = Watching")
    case True
    with inv have "cc_err cc = None" "evs @ sent ls = taken @ cc_eventC cc" "\<not> list_ex is_delete taken"
      by (simp_all add: cc_inv_def)
    then show ?thesis unfolding cc_Err_def by auto
  next
    case False
    with inv have e: "evs @ sent ls = taken @ cc_eventC cc"
      "(cc_err cc = Some ErrObjectDeleted \<and> (\<exists>puts ev. taken = puts @ [ev] \<and> \<not> list_ex is_delete puts \<and> is_delete ev))
          \<or> (cc_err cc = Some ErrEventChannelClosed \<and> Close \<in> set ls \<and> cc_eventC cc = [] \<and> \<not> list_ex is_delete taken)
          \<or> (\<exists>e. cc_err cc = Some e \<and> Cancel e \<in> set ls \<and> \<not> list_ex is_delete taken)"
      by (simp_all add: cc_inv_def)
    from e(2) show ?thesis unfolding e(1) cc_Err_def by (elim disjE) (auto simp: e(1))
  qed
  have d: "cc_Done cc \<longrightarrow> cc_Err cc \<noteq> None" using inv by (auto simp: cc_inv_def cc_Done_def cc_Err_def)
  have "n \<le> length (cc_eventC cc) + 2 \<and> (cc_Done cc' \<or> (\<exists>cc''. cc_watch cc' cc''))"
    if "list_ex is_delete (evs @ sent ls) \<or> Close \<in> set ls \<or> (\<exists>e. Cancel e \<in> set ls)" "(cc_watch ^^ n) cc cc'" for n cc'
  proof -
    have "ending cc"
    proof (cases "cc_goroutine cc = Watching")
      case True
      with inv have "evs @ sent ls = taken @ cc_eventC cc" "\<not> list_ex is_delete taken"
        "cc_closed cc \<longleftrightarrow> Close \<in> set ls" "\<forall>e. cc_base cc = Some e \<longleftrightarrow> Cancel e \<in> set ls" by (simp_all add: cc_inv_def)
      with that(1) show ?thesis unfolding ending_def by (metis list_ex_append option.distinct(1))
    qed (simp add: ending_def)
    with run_ending [OF that(2)] ending_step [of cc'] run_steps_left [OF that(2)] show ?thesis
      by (auto simp: steps_left_def split: watching.splits)
  qed
  with err d show ?thesis by blast
qed

text \<open>A put and a deletion.\<close>

lemma watch_context_witness:
  "\<exists>cc. cc_run (NewWatchContext None [] False) [Send ex_put_event, Send ex_delete_event] cc \<and> cc_Done cc
     \<and> cc_Err cc = Some ErrObjectDeleted"
proof -
  let ?new = "NewWatchContext None [] False :: unit watchContext"
  let ?two = "?new\<lparr>cc_eventC := [ex_put_event, ex_delete_event]\<rparr>"
  let ?final = "(store_err ErrObjectDeleted (?new\<lparr>cc_eventC := []\<rparr>))\<lparr>cc_goroutine := Closed_done\<rparr>"
  have "cc_run ?new ([] @ [Send ex_put_event]) (?new\<lparr>cc_eventC := [ex_put_event]\<rparr>)"
    by (rule cc_run.external [OF cc_run.start]) (use cc_around.intros(1) [of ?new] in \<open>simp add: NewWatchContext_def\<close>)
  then have "cc_run ?new ([Send ex_put_event] @ [Send ex_delete_event]) ?two"
    by (intro cc_run.external) (use cc_around.intros(1) [of "?new\<lparr>cc_eventC := [ex_put_event]\<rparr>"] in \<open>auto simp: NewWatchContext_def\<close>)
  then have run: "cc_run ?new [Send ex_put_event, Send ex_delete_event] ?two" by simp
  have "cc_watch ?two (?new\<lparr>cc_eventC := [ex_delete_event]\<rparr>)"
    using cc_watch.other_event [of ?two ex_put_event "[ex_delete_event]"] by (simp add: NewWatchContext_def ex_put_event_def)
  note run = cc_run.internal [OF run this]
  have "cc_watch (?new\<lparr>cc_eventC := [ex_delete_event]\<rparr>) (store_err ErrObjectDeleted (?new\<lparr>cc_eventC := []\<rparr>))"
    using cc_watch.deleted [of "?new\<lparr>cc_eventC := [ex_delete_event]\<rparr>" ex_delete_event "[]"]
    by (simp add: NewWatchContext_def ex_delete_event_def)
  note run = cc_run.internal [OF run this]
  have "cc_watch (store_err ErrObjectDeleted (?new\<lparr>cc_eventC := []\<rparr>)) ?final"
    by (rule cc_watch.close_done) (simp add: store_err_def)
  note run = cc_run.internal [OF run this]
  moreover have "cc_Done ?final" by (simp add: cc_Done_def)
  moreover from watch_context [OF run] have "cc_Err ?final \<noteq> None" using calculation by blast
  ultimately show ?thesis by (intro exI [of _ ?final]) (auto simp: cc_Err_def store_err_def)
qed

end
