(* ===== verification/PathReflect.thy ===== *)
theory PathReflect
  imports Typing ReactiveProps
begin

text \<open>
  \<open>util/pathreflect/reflect.go\<close>: the value of a message at a path, and the list of all paths that a generated
  path builder can make. \<open>Value\<close> is what the tests of the reactive controller compare its values with; the
  property here is that they agree.
\<close>

section \<open>Values at paths\<close>

datatype path_step = RootStep | FieldAccessStep fdesc | ListIndexStep nat | OtherStep

text \<open>One step. \<open>Message()\<close> and \<open>List()\<close> panic on a value of another kind, and \<open>Get\<close> outside a list.\<close>

definition step_value :: "schema \<Rightarrow> (fdesc \<Rightarrow> scalar) \<Rightarrow> path_step \<Rightarrow> pval \<Rightarrow> pval result" where
  "step_value sch dflt st v =
     (case st of
        FieldAccessStep fd \<Rightarrow>
          (case v of VMsg m \<Rightarrow> Inr (msg_Get sch dflt fd m) | _ \<Rightarrow> Inl (go_panic ''type mismatch: cannot convert to message''))
      | ListIndexStep i \<Rightarrow>
          (case v of
             VList vs \<Rightarrow> if i < length vs then Inr (vs ! i) else Inl (go_panic ''index out of range'')
           | _ \<Rightarrow> Inl (go_panic ''type mismatch: cannot convert to list''))
      | _ \<Rightarrow> Inr v)"

fun steps_value :: "schema \<Rightarrow> (fdesc \<Rightarrow> scalar) \<Rightarrow> path_step list \<Rightarrow> pval \<Rightarrow> pval result" where
  "steps_value sch dflt [] v = Inr v"
| "steps_value sch dflt (st # path) v = rbind (step_value sch dflt st v) (steps_value sch dflt path)"

definition path_Value :: "schema \<Rightarrow> (fdesc \<Rightarrow> scalar) \<Rightarrow> pmsg \<Rightarrow> path_step list \<Rightarrow> pval result" where
  "path_Value sch dflt msg path = steps_value sch dflt path (VMsg msg)"

section \<open>All paths\<close>

text \<open>
  What \<open>reflect\<close> says of a Go type: its exported methods, each with the parameters it declares and its results,
  and whether the type converts to \<open>protopath.Path\<close>. \<open>Type.Method\<close> on a type that is not an interface describes
  a function whose first argument is the receiver, so \<open>NumIn\<close> counts one more than the declared parameters.
\<close>

record 'ty gomethod =
  gm_params :: nat
  gm_results :: "'ty list"
  gm_Func :: nat \<comment> \<open>identifies the function\<close>

record 'ty gotypes =
  gt_methods :: "'ty \<Rightarrow> 'ty gomethod list"
  gt_isPath :: "'ty \<Rightarrow> bool"

definition NumIn :: "'ty gomethod \<Rightarrow> nat" where "NumIn m = Suc (gm_params m)"

definition path_method :: "'ty gotypes \<Rightarrow> 'ty gomethod \<Rightarrow> bool" where
  "path_method T mtd \<longleftrightarrow> NumIn mtd = 0 \<and> length (gm_results mtd) = 1 \<and> gt_isPath T (gm_results mtd ! 0)"

text \<open>The recursion goes through the types of the results; \<^term>\<open>None\<close> is a recursion deeper than the fuel.\<close>

fun buildAllMethodChains :: "nat \<Rightarrow> 'ty gotypes \<Rightarrow> 'ty \<Rightarrow> nat list list option"
  and method_chains :: "nat \<Rightarrow> 'ty gotypes \<Rightarrow> 'ty gomethod list \<Rightarrow> nat list list option" where
  "buildAllMethodChains 0 T root = None"
| "buildAllMethodChains (Suc fuel) T root = method_chains fuel T (gt_methods T root)"
| "method_chains fuel T [] = Some []"
| "method_chains fuel T (mtd # mtds) =
     (if path_method T mtd then
        (case buildAllMethodChains fuel T (gm_results mtd ! 0) of
           None \<Rightarrow> None
         | Some subChains \<Rightarrow>
             map_option (\<lambda>found. [gm_Func mtd] # map ((#) (gm_Func mtd)) subChains @ found) (method_chains fuel T mtds))
      else method_chains fuel T mtds)"

text \<open>\<open>resolveMethodChains\<close>: the calls of a chain, each on the result of the one before.\<close>

definition resolveMethodChains :: "(nat \<Rightarrow> 'p \<Rightarrow> 'p) \<Rightarrow> nat list list \<Rightarrow> 'p \<Rightarrow> 'p list" where
  "resolveMethodChains call found root = map (\<lambda>chain. foldl (\<lambda>receiver mtd. call mtd receiver) root chain) found"

definition AllPaths :: "nat \<Rightarrow> 'ty gotypes \<Rightarrow> (nat \<Rightarrow> 'p \<Rightarrow> 'p) \<Rightarrow> 'ty \<Rightarrow> 'p \<Rightarrow> 'p list option" where
  "AllPaths fuel T call rootType rootPath =
     map_option (\<lambda>found. resolveMethodChains call found rootPath) (buildAllMethodChains fuel T rootType)"

lemma method_chains_empty: "method_chains fuel T mtds = Some []"
  by (induction fuel T mtds rule: buildAllMethodChains_method_chains.induct(2) [where P = "\<lambda>_ _ _. True"])
    (auto simp: path_method_def NumIn_def)

text \<open>
  No method counts as one without parameters, because the receiver is a parameter of what \<open>Type.Method\<close>
  describes: \<open>AllPaths\<close> is empty for every type.
\<close>

lemma AllPaths_empty: "AllPaths (Suc fuel) T call rootType rootPath = Some []"
  by (simp add: AllPaths_def method_chains_empty resolveMethodChains_def)

section \<open>The controller shows the values of \<open>Value\<close>\<close>

text \<open>The fields along a path of names, and the steps \<open>protopath\<close> has for them.\<close>

fun path_fields :: "schema \<Rightarrow> string \<Rightarrow> string list \<Rightarrow> fdesc list" where
  "path_fields sch d [] = []"
| "path_fields sch d (n # ps) =
     (case find_first (\<lambda>fd. fd_Name fd = n) (sch d) of None \<Rightarrow> [] | Some fd \<Rightarrow> fd # path_fields sch (fd_Message fd) ps)"

fun message_path :: "schema \<Rightarrow> string \<Rightarrow> string list \<Rightarrow> bool" where
  "message_path sch d [] \<longleftrightarrow> True"
| "message_path sch d (n # ps) \<longleftrightarrow>
     (case find_first (\<lambda>fd. fd_Name fd = n) (sch d) of
        None \<Rightarrow> False | Some fd \<Rightarrow> (ps \<noteq> [] \<longrightarrow> is_msg_field fd) \<and> message_path sch (fd_Message fd) ps)"

definition path_steps :: "schema \<Rightarrow> string \<Rightarrow> string list \<Rightarrow> path_step list" where
  "path_steps sch d path = RootStep # map FieldAccessStep (path_fields sch d path)"

lemma scalar_kind_message [simp]: "scalar_kind x \<noteq> MessageKind"
  by (cases x) simp_all

lemma typed_slot:
  "typed_slots sch ss \<Longrightarrow> slot_get n ss = Some v \<Longrightarrow> \<exists>fd \<in> set (map fst ss). fd_Name fd = n \<and> typed_val sch fd v"
proof (induction ss)
  case (Cons s ss)
  obtain f x where "s = (f, x)" by (cases s)
  with Cons show ?case by (cases x) (auto split: if_splits)
qed simp

lemma typed_Get:
  assumes "names_distinct sch" "typed sch m" "fd \<in> set (sch (msg_name m))" "is_msg_field fd"
  shows "\<exists>m'. msg_Get sch dflt fd m = VMsg m' \<and> typed sch m' \<and> msg_name m' = fd_Message fd"
proof (cases "msg_get (fd_Name fd) m")
  case None
  have "typed_slots sch (map (\<lambda>fd. (fd, None)) fds)" for fds by (induction fds) auto
  with None assms(4) show ?thesis by (simp add: msg_Get_def is_msg_field_def empty_msg_def comp_def)
next
  case (Some v)
  obtain n ss u where m: "m = Msg n ss u" by (cases m)
  with assms(1-3) have "typed_slots sch ss" "map fst ss = sch n" "inj_on fd_Name (set (sch n))" "fd \<in> set (sch n)"
    by (simp_all add: names_distinct_def distinct_map)
  with typed_slot [of sch ss "fd_Name fd" v] Some m have "typed_val sch fd v" by (auto simp: msg_get_def dest: inj_onD)
  with assms(4) Some show ?thesis by (cases v) (auto simp: msg_Get_def is_msg_field_def)
qed

lemma value_at_Value:
  assumes "names_distinct sch"
  shows "typed sch m \<Longrightarrow> msg_name m = d \<Longrightarrow> message_path sch d path \<Longrightarrow>
    \<exists>v. value_at sch dflt d (Some (VMsg m)) path = Some v
      \<and> steps_value sch dflt (map FieldAccessStep (path_fields sch d path)) (VMsg m) = Inr v"
proof (induction path arbitrary: d m)
  case (Cons n ps)
  then obtain fd where fd: "find_first (\<lambda>fd. fd_Name fd = n) (sch d) = Some fd" "ps \<noteq> [] \<longrightarrow> is_msg_field fd"
    "message_path sch (fd_Message fd) ps" by (auto split: option.splits)
  show ?case
  proof (cases ps)
    case Nil
    with fd show ?thesis by (simp add: child_value_def val_msg_def step_value_def)
  next
    case (Cons n' ps')
    with fd(1,2) find_first_Some have "is_msg_field fd" "fd \<in> set (sch (msg_name m))" using Cons.prems(2) by fastforce+
    from typed_Get [OF assms Cons.prems(1) this(2,1)] obtain m' where
      m': "msg_Get sch dflt fd m = VMsg m'" "typed sch m'" "msg_name m' = fd_Message fd" by blast
    from Cons.IH [OF m'(2,3) fd(3)] fd(1) m'(1) show ?thesis by (simp add: child_value_def val_msg_def step_value_def)
  qed
qed simp

lemma shaped_message_path:
  fixes t :: "'v pathTrieNode" and ns :: "(fdesc \<times> 'v pathTrieNode) list"
  shows "shaped sch p d t \<Longrightarrow> names_distinct sch \<Longrightarrow> \<forall>x \<in> set (trie_values t). message_path sch d (drop (length p) (fst x))"
    "shaped_nodes sch p ns \<Longrightarrow> names_distinct sch \<Longrightarrow> set (map fst ns) \<subseteq> set (sch d) \<Longrightarrow>
       \<forall>x \<in> set (nodes_values ns). message_path sch d (drop (length p) (fst x))"
proof (induction sch p d t and sch p ns arbitrary: and d rule: shaped_shaped_nodes.induct)
  case (1 sch p d q v ns)
  then have "set (map fst ns) \<subseteq> set (sch d)" by simp
  from 1(1) [OF _ 1(3) this] 1(2) show ?case by simp
next
  case (3 sch p fd n ns)
  have fd: "find_first (\<lambda>f. fd_Name f = fd_Name fd) (sch d) = Some fd"
    using 3(4,5) by (intro find_field) (auto simp: names_distinct_def)
  have n: "message_path sch d (drop (length p) (fst x))" if x: "x \<in> set (trie_values n)" for x
  proof (cases "is_msg_field fd")
    case True
    with 3(3) have t: "shaped sch (p @ [fd_Name fd]) (fd_Message fd) n" by simp
    from shaped_paths(1) [OF t] x obtain ps where ps: "fst x = p @ fd_Name fd # ps" by (auto simp: prefix_def)
    with 3(1) [OF True t 3(4)] x have "message_path sch (fd_Message fd) ps" by force
    with fd True ps show ?thesis by simp
  next
    case False
    with 3(3) x have "fst x = p @ [fd_Name fd]" by (cases n) auto
    with fd show ?thesis by simp
  qed
  from 3(2) [of d] 3(3-5) n show ?case by (auto split: if_splits)
qed auto

text \<open>
  C30. The values of the reactive controller are those of \<open>pathreflect.Value\<close>: after an event with a new
  configuration, for every path of the controller's tree, reading the configuration along the path step by step
  succeeds and gives exactly what the reactive value at the path shows.
\<close>

theorem controller_agrees_with_Value:
  assumes "names_distinct sch" "shaped sch [] desc (co_reactiveMessages s)"
    and "handleWatchEvent veq sch dflt e s = Inr (s', calls)"
    and "ev_EventType e = WatchEventPut" "ev_Current e = Some new" "well_typed sch desc (kr_V new)"
  shows "\<forall>(path, r) \<in> set (trie_values (co_reactiveMessages s')).
    \<exists>v. rv_value r = Some v \<and> path_Value sch dflt (kr_V new) (path_steps sch desc path) = Inr v"
proof -
  have "\<exists>v. rv_value r = Some v \<and> path_Value sch dflt (kr_V new) (path_steps sch desc path) = Inr v"
    if x: "(path, r) \<in> set (trie_values (co_reactiveMessages s'))" for path r
  proof -
    from handle_values [OF assms(1-3)] x obtain r0 where "(path, r0) \<in> set (trie_values (co_reactiveMessages s))" by auto
    with shaped_message_path(1) [OF assms(2,1)] have p: "message_path sch desc path" by force
    from handle_values [OF assms(1-3)] x assms(4,5)
    have "rv_value r = value_at sch dflt desc (Some (VMsg (kr_V new))) path" by (auto simp: Update_value event_value_def)
    with value_at_Value [OF assms(1), of "kr_V new" desc path dflt] assms(6) p show ?thesis
      by (auto simp: path_Value_def path_steps_def step_value_def well_typed_def)
  qed
  then show ?thesis by blast
qed

lemma controller_agrees_with_Value_witness:
  "\<exists>s' calls. handleWatchEvent (=) ex_sch ex_dflt ex_put ex_ctrl = Inr (s', calls)
    \<and> (\<forall>(path, r) \<in> set (trie_values (co_reactiveMessages s')).
        \<exists>v. rv_value r = Some v \<and> path_Value ex_sch ex_dflt (ex_A ''1'' ''3'') (path_steps ex_sch ''A'' path) = Inr v)"
proof -
  from ex_handled obtain s' calls where h: "handleWatchEvent (=) ex_sch ex_dflt ex_put ex_ctrl = Inr (s', calls)" by blast
  have "ev_EventType ex_put = WatchEventPut" "ev_Current ex_put = Some (ex_kr (ex_A ''1'' ''3'') 2)"
    by (simp_all add: ex_put_def)
  from controller_agrees_with_Value [OF ex_sch_names ex_ctrl_shaped h this]
  have "\<forall>(path, r) \<in> set (trie_values (co_reactiveMessages s')).
      \<exists>v. rv_value r = Some v \<and> path_Value ex_sch ex_dflt (ex_A ''1'' ''3'') (path_steps ex_sch ''A'' path) = Inr v"
    by (simp add: ex_kr_def well_typed_def ex_A_def ex_sch_def ex_field_def)
  with h show ?thesis by blast
qed

end
