(* ===== verification/ReactiveWatch.thy ===== *)
theory ReactiveWatch
  imports Bind "HOL-Library.Sublist"
begin

text \<open>
  A watch on a reactive value while the value is updated: \<open>reactiveValue.Update\<close> and \<open>Watch\<close> of
  \<open>reactive/value.go\<close> with \<open>typedReactive.Watch\<close> of \<open>reactive/typed.go\<close> on top, as a step relation. \<open>Update\<close>
  sends to the channel of the watch, which has room for four values, while it holds the lock of the value; a
  goroutine converts what it receives and passes it on in a channel of the same size. When the context of the
  client is done, the watch is removed and its channel closed, also under the lock. The conversion \<open>enc\<close> is one
  that does not panic. A client reads until it cancels its context.
\<close>

definition watch_cap :: nat where "watch_cap = 4"

record ('v, 'a) rwatch =
  rw_update :: "'v option" \<comment> \<open>an \<open>Update\<close> that holds the lock and has this value to send\<close>
  rw_sent :: "'v list" \<comment> \<open>every value sent so far\<close>
  rw_wc :: "'v list"
  rw_wcClosed :: bool
  rw_held :: "'a option" \<comment> \<open>received and converted by the goroutine\<close>
  rw_ch :: "'a list"
  rw_chClosed :: bool
  rw_received :: "'a list"
  rw_cancelled :: bool

text \<open>
  The watch as \<open>Watch\<close> returns it: the base channel has the current value if there is one, which the typed watch
  has already passed on.
\<close>

definition start_watch :: "('v \<Rightarrow> 'a) \<Rightarrow> 'v option \<Rightarrow> ('v, 'a) rwatch" where
  "start_watch enc current =
     \<lparr>rw_update = None, rw_sent = (case current of None \<Rightarrow> [] | Some v \<Rightarrow> [v]), rw_wc = [], rw_wcClosed = False,
      rw_held = None, rw_ch = (case current of None \<Rightarrow> [] | Some v \<Rightarrow> [enc v]), rw_chClosed = False, rw_received = [],
      rw_cancelled = False\<rparr>"

text \<open>Steps that move a value on.\<close>

inductive pass_on :: "('v \<Rightarrow> 'a) \<Rightarrow> ('v, 'a) rwatch \<Rightarrow> ('v, 'a) rwatch \<Rightarrow> bool" for enc where
  send: "rw_update s = Some v \<Longrightarrow> length (rw_wc s) < watch_cap \<Longrightarrow>
     pass_on enc s (s\<lparr>rw_update := None, rw_wc := rw_wc s @ [v], rw_sent := rw_sent s @ [v]\<rparr>)"
| take_value: "rw_held s = None \<Longrightarrow> rw_wc s = v # vs \<Longrightarrow> pass_on enc s (s\<lparr>rw_held := Some (enc v), rw_wc := vs\<rparr>)"
| forward_value: "rw_held s = Some x \<Longrightarrow> length (rw_ch s) < watch_cap \<Longrightarrow>
     pass_on enc s (s\<lparr>rw_held := None, rw_ch := rw_ch s @ [x]\<rparr>)"
| read_value: "\<not> rw_cancelled s \<Longrightarrow> rw_ch s = x # xs \<Longrightarrow>
     pass_on enc s (s\<lparr>rw_ch := xs, rw_received := rw_received s @ [x]\<rparr>)"

text \<open>The other steps: \<open>Update\<close> takes the lock, the client cancels, the watch is removed, the goroutine ends.\<close>

inductive rwatch_step :: "('v \<Rightarrow> 'a) \<Rightarrow> ('v, 'a) rwatch \<Rightarrow> ('v, 'a) rwatch \<Rightarrow> bool" for enc where
  pass: "pass_on enc s s' \<Longrightarrow> rwatch_step enc s s'"
| update: "rw_update s = None \<Longrightarrow> \<not> rw_wcClosed s \<Longrightarrow> rwatch_step enc s (s\<lparr>rw_update := Some v\<rparr>)"
| cancel: "\<not> rw_cancelled s \<Longrightarrow> rwatch_step enc s (s\<lparr>rw_cancelled := True\<rparr>)"
| remove: "rw_cancelled s \<Longrightarrow> rw_update s = None \<Longrightarrow> \<not> rw_wcClosed s \<Longrightarrow> rwatch_step enc s (s\<lparr>rw_wcClosed := True\<rparr>)"
| finish: "rw_wcClosed s \<Longrightarrow> rw_wc s = [] \<Longrightarrow> rw_held s = None \<Longrightarrow> \<not> rw_chClosed s \<Longrightarrow>
     rwatch_step enc s (s\<lparr>rw_chClosed := True\<rparr>)"

inductive_cases pass_onE: "pass_on enc s s'"
inductive_cases rwatch_stepE: "rwatch_step enc s s'"

definition rwatch_reachable :: "('v \<Rightarrow> 'a) \<Rightarrow> 'v option \<Rightarrow> ('v, 'a) rwatch \<Rightarrow> bool" where
  "rwatch_reachable enc current s \<longleftrightarrow> (rwatch_step enc)\<^sup>*\<^sup>* (start_watch enc current) s"

section \<open>The invariant\<close>

definition rwatch_inv :: "('v \<Rightarrow> 'a) \<Rightarrow> ('v, 'a) rwatch \<Rightarrow> bool" where
  "rwatch_inv enc s \<longleftrightarrow>
     rw_received s @ rw_ch s @ (case rw_held s of None \<Rightarrow> [] | Some x \<Rightarrow> [x]) @ map enc (rw_wc s) = map enc (rw_sent s)
     \<and> (rw_chClosed s \<longrightarrow> rw_wcClosed s \<and> rw_wc s = [] \<and> rw_held s = None)
     \<and> (rw_wcClosed s \<longrightarrow> rw_update s = None \<and> rw_cancelled s)
     \<and> length (rw_wc s) \<le> watch_cap \<and> length (rw_ch s) \<le> watch_cap"

lemma pass_on_inv: "pass_on enc s s' \<Longrightarrow> rwatch_inv enc s \<Longrightarrow> rwatch_inv enc s'"
  by (erule pass_onE) (auto simp: rwatch_inv_def)

lemma rwatch_step_inv: "rwatch_step enc s s' \<Longrightarrow> rwatch_inv enc s \<Longrightarrow> rwatch_inv enc s'"
  by (erule rwatch_stepE) (simp add: pass_on_inv, auto simp: rwatch_inv_def)

lemma start_watch_inv: "rwatch_inv enc (start_watch enc current)"
  by (cases current) (simp_all add: rwatch_inv_def start_watch_def watch_cap_def)

lemma rwatch_reachable_inv:
  assumes "rwatch_reachable enc current s"
  shows "rwatch_inv enc s"
  using assms [unfolded rwatch_reachable_def]
proof (induction rule: rtranclp_induct)
  case base
  show ?case by (rule start_watch_inv)
next
  case (step s s')
  from rwatch_step_inv [OF step(2,3)] show ?case .
qed

section \<open>Delivery\<close>

text \<open>The steps the values under way still have to make.\<close>

definition rwatch_work :: "('v, 'a) rwatch \<Rightarrow> nat" where
  "rwatch_work s = length (rw_ch s) + (case rw_held s of None \<Rightarrow> 0 | Some _ \<Rightarrow> 2) + 3 * length (rw_wc s)
     + (case rw_update s of None \<Rightarrow> 0 | Some _ \<Rightarrow> 4)"

definition rwatch_values :: "('v, 'a) rwatch \<Rightarrow> 'v list" where
  "rwatch_values s = rw_sent s @ (case rw_update s of None \<Rightarrow> [] | Some v \<Rightarrow> [v])"

lemma pass_on_work: "pass_on enc s s' \<Longrightarrow> rwatch_work s = Suc (rwatch_work s') \<and> rwatch_values s' = rwatch_values s \<and> rw_cancelled s' = rw_cancelled s"
  by (erule pass_onE) (auto simp: rwatch_work_def rwatch_values_def)

lemma pass_on_possible:
  assumes "\<not> rw_cancelled s" "rwatch_work s \<noteq> 0"
  shows "\<exists>s'. pass_on enc s s'"
proof (cases "rw_ch s")
  case Nil
  show ?thesis
  proof (cases "rw_held s")
    case None
    show ?thesis
    proof (cases "rw_wc s")
      case empty: Nil
      with assms(2) None Nil obtain v where "rw_update s = Some v" by (auto simp: rwatch_work_def split: option.splits)
      with pass_on.send [of s v] empty show ?thesis by (auto simp: watch_cap_def)
    next
      case (Cons v vs)
      from pass_on.take_value [OF None this] show ?thesis by blast
    qed
  next
    case (Some x)
    with pass_on.forward_value [of s x] Nil show ?thesis by (auto simp: watch_cap_def)
  qed
next
  case (Cons x xs)
  from pass_on.read_value [OF assms(1) this] show ?thesis by blast
qed

lemma rwatch_no_work: "rwatch_work s = 0 \<Longrightarrow> rw_ch s = [] \<and> rw_held s = None \<and> rw_wc s = [] \<and> rw_update s = None"
  by (auto simp: rwatch_work_def split: option.splits)

lemma run_work: "(pass_on enc ^^ n) s s' \<Longrightarrow> rwatch_inv enc s \<Longrightarrow>
    n + rwatch_work s' = rwatch_work s \<and> rwatch_values s' = rwatch_values s \<and> rw_cancelled s' = rw_cancelled s \<and> rwatch_inv enc s'"
proof (induction n arbitrary: s')
  case (Suc n)
  then obtain sm where "(pass_on enc ^^ n) s sm" "pass_on enc sm s'" by auto
  with Suc.IH [of sm] Suc.prems(2) pass_on_work [of enc sm s'] pass_on_inv [of enc sm s'] show ?case by simp
qed simp

text \<open>
  C29. Under every interleaving a client of a typed watch gets the values of the updates in order, converted,
  without gaps or duplicates, starting with the current one, and when its channel is closed all of them have been
  passed on. And while the client reads, the values under way, that of a waiting \<open>Update\<close> included, all arrive
  after an exact number of steps, which are possible until then.
\<close>

theorem typed_watch_delivers:
  assumes "rwatch_reachable enc current s"
  shows "prefix (rw_received s) (map enc (rw_sent s))
    \<and> (rw_chClosed s \<longrightarrow> rw_received s @ rw_ch s = map enc (rw_sent s))
    \<and> (\<not> rw_cancelled s \<longrightarrow> (\<forall>n s'. (pass_on enc ^^ n) s s' \<longrightarrow>
         (if n < rwatch_work s then \<exists>s''. pass_on enc s' s''
          else n = rwatch_work s \<and> rw_received s' = map enc (rwatch_values s) \<and> rw_update s' = None)))"
proof -
  have inv: "rwatch_inv enc s" using assms by (rule rwatch_reachable_inv)
  have e: "map enc (rw_sent s) = rw_received s @ (rw_ch s @ (case rw_held s of None \<Rightarrow> [] | Some x \<Rightarrow> [x]) @ map enc (rw_wc s))"
    using inv by (simp add: rwatch_inv_def)
  have "prefix (rw_received s) (map enc (rw_sent s))" unfolding e by (rule prefixI) (rule refl)
  moreover have "rw_chClosed s \<longrightarrow> rw_received s @ rw_ch s = map enc (rw_sent s)"
    using inv unfolding e by (auto simp: rwatch_inv_def)
  moreover have "if n < rwatch_work s then \<exists>s''. pass_on enc s' s''
      else n = rwatch_work s \<and> rw_received s' = map enc (rwatch_values s) \<and> rw_update s' = None"
    if "\<not> rw_cancelled s" "(pass_on enc ^^ n) s s'" for n s'
  proof -
    from run_work [OF that(2) inv] have r: "n + rwatch_work s' = rwatch_work s" "rwatch_values s' = rwatch_values s"
      "rw_cancelled s' = rw_cancelled s" "rwatch_inv enc s'" by simp_all
    show ?thesis
    proof (cases "rwatch_work s' = 0")
      case True
      with r rwatch_no_work [OF True] show ?thesis by (auto simp: rwatch_inv_def rwatch_values_def)
    next
      case False
      with r pass_on_possible [of s' enc] that(1) show ?thesis by simp
    qed
  qed
  ultimately show ?thesis by blast
qed

section \<open>A client that stops reading\<close>

text \<open>Steps by name, to evaluate a run.\<close>

datatype 'v rlabel = LUpdate 'v | LSend | LTake | LForward | LCancel

fun rwatch_do :: "('v \<Rightarrow> 'a) \<Rightarrow> 'v rlabel \<Rightarrow> ('v, 'a) rwatch \<Rightarrow> ('v, 'a) rwatch option" where
  "rwatch_do enc (LUpdate v) s = (if rw_update s = None \<and> \<not> rw_wcClosed s then Some (s\<lparr>rw_update := Some v\<rparr>) else None)"
| "rwatch_do enc LSend s =
     (case rw_update s of
        Some v \<Rightarrow> if length (rw_wc s) < watch_cap
          then Some (s\<lparr>rw_update := None, rw_wc := rw_wc s @ [v], rw_sent := rw_sent s @ [v]\<rparr>) else None
      | None \<Rightarrow> None)"
| "rwatch_do enc LTake s =
     (case rw_wc s of v # vs \<Rightarrow> if rw_held s = None then Some (s\<lparr>rw_held := Some (enc v), rw_wc := vs\<rparr>) else None | [] \<Rightarrow> None)"
| "rwatch_do enc LForward s =
     (case rw_held s of
        Some x \<Rightarrow> if length (rw_ch s) < watch_cap then Some (s\<lparr>rw_held := None, rw_ch := rw_ch s @ [x]\<rparr>) else None
      | None \<Rightarrow> None)"
| "rwatch_do enc LCancel s = (if \<not> rw_cancelled s then Some (s\<lparr>rw_cancelled := True\<rparr>) else None)"

fun rwatch_run :: "('v \<Rightarrow> 'a) \<Rightarrow> 'v rlabel list \<Rightarrow> ('v, 'a) rwatch \<Rightarrow> ('v, 'a) rwatch option" where
  "rwatch_run enc [] s = Some s"
| "rwatch_run enc (l # ls) s = (case rwatch_do enc l s of None \<Rightarrow> None | Some s' \<Rightarrow> rwatch_run enc ls s')"

lemma rwatch_do_step: "rwatch_do enc l s = Some s' \<Longrightarrow> rwatch_step enc s s'"
proof (cases l)
  case LTake
  assume "rwatch_do enc l s = Some s'"
  with LTake obtain v vs where "rw_held s = None" "rw_wc s = v # vs" "s' = s\<lparr>rw_held := Some (enc v), rw_wc := vs\<rparr>"
    by (auto split: list.splits if_splits)
  with pass_on.take_value [OF this(1,2), of enc] rwatch_step.pass show ?thesis by blast
qed (auto split: option.splits if_splits intro: rwatch_step.intros pass_on.intros)

lemma rwatch_run_steps: "rwatch_run enc ls s = Some s' \<Longrightarrow> (rwatch_step enc)\<^sup>*\<^sup>* s s'"
proof (induction ls arbitrary: s)
  case (Cons l ls)
  then obtain sm where "rwatch_do enc l s = Some sm" "rwatch_run enc ls sm = Some s'" by (auto split: option.splits)
  with Cons.IH [of sm] rwatch_do_step [of enc l s sm] show ?case by (metis converse_rtranclp_into_rtranclp)
qed simp

definition fill_channels :: "nat \<Rightarrow> 'v \<Rightarrow> 'v rlabel list" where
  "fill_channels n v = concat (replicate n [LUpdate v, LSend, LTake, LForward]) @ [LUpdate v, LSend, LTake]
     @ concat (replicate 4 [LUpdate v, LSend]) @ [LUpdate v, LCancel]"

definition full_watch :: "('v \<Rightarrow> 'a) \<Rightarrow> 'v list \<Rightarrow> 'a list \<Rightarrow> 'v \<Rightarrow> ('v, 'a) rwatch" where
  "full_watch enc sent ch v = \<lparr>rw_update = Some v, rw_sent = sent, rw_wc = [v, v, v, v], rw_wcClosed = False,
     rw_held = Some (enc v), rw_ch = ch, rw_chClosed = False, rw_received = [], rw_cancelled = True\<rparr>"

lemma fill_run:
  "rwatch_run enc (fill_channels 4 v) (start_watch enc None) = Some (full_watch enc (replicate 9 v) (replicate 4 (enc v)) v)"
  "rwatch_run enc (fill_channels 3 v) (start_watch enc (Some x)) = Some (full_watch enc (x # replicate 8 v) (enc x # replicate 3 (enc v)) v)"
  by (simp_all add: fill_channels_def start_watch_def full_watch_def watch_cap_def eval_nat_numeral)

lemma full_stuck: "length ch = watch_cap \<Longrightarrow> \<not> rwatch_step enc (full_watch enc sent ch v) s'"
  by (auto simp: full_watch_def watch_cap_def elim!: rwatch_stepE pass_onE)

lemma typed_watch_delivers_witness:
  "\<exists>s. rw_sent s = [1, 5] \<and> rwatch_work s = 4
    \<and> (\<forall>n s'. (pass_on (\<lambda>x. x + 1) ^^ n) s s' \<longrightarrow>
         (if n < 4 then \<exists>s''. pass_on (\<lambda>x. x + 1) s' s'' else n = 4 \<and> rw_received s' = [2, 6 :: nat] \<and> rw_update s' = None))"
proof -
  obtain s where s: "rwatch_run (\<lambda>x. x + 1) [LUpdate 5, LSend] (start_watch (\<lambda>x. x + 1) (Some (1 :: nat))) = Some s"
    and sent: "rw_sent s = [1, 5]" "rw_update s = None" and work: "rwatch_work s = 4" and c: "\<not> rw_cancelled s"
    by (simp add: start_watch_def watch_cap_def rwatch_work_def)
  have v: "map (\<lambda>x. x + 1) (rwatch_values s) = [2, 6]" using sent by (simp add: rwatch_values_def)
  have "rwatch_reachable (\<lambda>x. x + 1) (Some 1) s" unfolding rwatch_reachable_def by (rule rwatch_run_steps [OF s])
  from typed_watch_delivers [OF this] c
  have "\<forall>n s'. (pass_on (\<lambda>x. x + 1) ^^ n) s s' \<longrightarrow>
      (if n < rwatch_work s then \<exists>s''. pass_on (\<lambda>x. x + 1) s' s''
       else n = rwatch_work s \<and> rw_received s' = map (\<lambda>x. x + 1) (rwatch_values s) \<and> rw_update s' = None)" by blast
  with sent(1) work show ?thesis unfolding v by metis
qed

text \<open>
  A client that cancels its context and no longer reads can lock the controller up: there are runs that reach a
  state in which an \<open>Update\<close> holds the lock of the value and waits for room in the full channel of the watch, the
  removal of the watch waits for the lock, and no step at all is possible.
\<close>

theorem cancelled_reader_blocks_update:
  "\<exists>s. rwatch_reachable enc current s \<and> rw_cancelled s \<and> rw_update s \<noteq> None \<and> (\<nexists>s'. rwatch_step enc s s')"
proof (cases current)
  case None
  let ?s = "full_watch enc (replicate 9 undefined) (replicate 4 (enc undefined)) undefined"
  from rwatch_run_steps [OF fill_run(1)] None have "rwatch_reachable enc current ?s" by (simp add: rwatch_reachable_def)
  moreover have "\<nexists>s'. rwatch_step enc ?s s'" by (simp add: full_stuck watch_cap_def)
  ultimately show ?thesis by (intro exI [of _ ?s]) (simp add: full_watch_def)
next
  case (Some x)
  let ?s = "full_watch enc (x # replicate 8 x) (enc x # replicate 3 (enc x)) x"
  from rwatch_run_steps [OF fill_run(2)] Some have "rwatch_reachable enc current ?s" by (simp add: rwatch_reachable_def)
  moreover have "\<nexists>s'. rwatch_step enc ?s s'" by (simp add: full_stuck watch_cap_def)
  ultimately show ?thesis by (intro exI [of _ ?s]) (simp add: full_watch_def)
qed

end
