(* ===== verification/ServerUtil.thy ===== *)
theory ServerUtil
  imports Errors KVStore
begin

text \<open>
  \<open>server/options.go\<close>, options that set the tagged fields of a driver's option struct by reflection, and
  \<open>server/cache.go\<close>, the registry of driver builders. The types of Go are a parameter: which are interfaces,
  and which type implements which.
\<close>

section \<open>Options\<close>

record 'ty type_universe =
  tu_isInterface :: "'ty \<Rightarrow> bool"
  tu_Implements :: "'ty \<Rightarrow> 'ty \<Rightarrow> bool"

text \<open>A value with its dynamic type, and whether it is the zero value of the type.\<close>

record ('ty, 'v) govalue =
  gv_Type :: 'ty
  gv_IsZero :: bool
  gv_payload :: 'v

text \<open>
  A field of a struct: its tag \<open>option\<close> (empty if it has none), whether it is exported (only then
  \<open>CanSet\<close>), its type and value.
\<close>

record ('ty, 'v) struct_field =
  sf_Name :: string
  sf_Tag :: string
  sf_exported :: bool
  sf_Type :: 'ty
  sf_value :: "('ty, 'v) govalue"

datatype ('ty, 'v) dest = StructPtr "('ty, 'v) struct_field list" | OtherPtr | NotPtr

text \<open>An option; its value is \<^term>\<open>None\<close> when it is a nil interface, which has no dynamic type.\<close>

record ('ty, 'v) driver_option =
  op_key :: string
  op_value :: "('ty, 'v) govalue option"

definition NewOption :: "string \<Rightarrow> ('ty, 'v) govalue option \<Rightarrow> ('ty, 'v) driver_option" where
  "NewOption key value' = \<lparr>op_key = key, op_value = value'\<rparr>"

text \<open>The body of the loop for the field that has the tag: the new value of the field, if it is set.\<close>

definition set_field ::
  "'ty type_universe \<Rightarrow> ('ty, 'v) govalue option \<Rightarrow> ('ty, 'v) struct_field \<Rightarrow> ('ty, 'v) struct_field result" where
  "set_field U value' field =
     (if \<not> sf_exported field then Inl (errorf ''invalid option field %q (is it exported?)'')
      else
        (case value' of
           None \<Rightarrow> Inl (go_panic ''reflect: call of reflect.Value.IsZero on zero Value'')
         | Some v \<Rightarrow>
             if gv_IsZero v then Inr field
             else
               let typesMatch = (if tu_isInterface U (sf_Type field) then tu_Implements U (gv_Type v) (sf_Type field)
                     else sf_Type field = gv_Type v) in
               if \<not> typesMatch then Inl (errorf ''mismatched option types for key %q: expected %s, got %s'')
               else Inr (field\<lparr>sf_value := v\<rparr>)))"

fun apply_fields ::
  "'ty type_universe \<Rightarrow> ('ty, 'v) driver_option \<Rightarrow> ('ty, 'v) struct_field list \<Rightarrow> ('ty, 'v) struct_field list result" where
  "apply_fields U opt [] = Inr []"
| "apply_fields U opt (field # rest) =
     (if sf_Tag field = op_key opt then rbind (set_field U (op_value opt) field) (\<lambda>f. Inr (f # rest))
      else rbind (apply_fields U opt rest) (\<lambda>fs. Inr (field # fs)))"

definition option_Apply :: "'ty type_universe \<Rightarrow> ('ty, 'v) driver_option \<Rightarrow> ('ty, 'v) dest \<Rightarrow> ('ty, 'v) dest result" where
  "option_Apply U opt dest =
     (if op_key opt = [] then Inr dest
      else
        (case dest of
           NotPtr \<Rightarrow> Inl (go_panic ''destination must be a pointer'')
         | OtherPtr \<Rightarrow> Inl (go_panic ''destination be a pointer to a struct'')
         | StructPtr fs \<Rightarrow> rbind (apply_fields U opt fs) (\<lambda>fs. Inr (StructPtr fs))))"

text \<open>Every option is applied, whatever the errors of the others; a panic ends the call.\<close>

fun apply_all ::
  "'ty type_universe \<Rightarrow> ('ty, 'v) driver_option list \<Rightarrow> ('ty, 'v) dest \<Rightarrow> (('ty, 'v) dest \<times> err list) result" where
  "apply_all U [] dest = Inr (dest, [])"
| "apply_all U (opt # opts) dest =
     (case option_Apply U opt dest of
        Inl e \<Rightarrow>
          if err_code e = GoPanic then Inl e
          else rbind (apply_all U opts dest) (\<lambda>(dest, errs). Inr (dest, e # errs))
      | Inr dest \<Rightarrow> apply_all U opts dest)"

definition ApplyOptions ::
  "'ty type_universe \<Rightarrow> ('ty, 'v) driver_option list \<Rightarrow> ('ty, 'v) dest \<Rightarrow> (('ty, 'v) dest \<times> err option) result" where
  "ApplyOptions U opts dest =
     rbind (apply_all U opts dest) (\<lambda>(dest, errs). Inr (dest, if errs = [] then None else Some (errors_Join errs)))"

section \<open>The registry of drivers\<close>

type_synonym 'b driverCache = "string \<rightharpoonup> 'b"

definition NewCache :: "'b driverCache" where "NewCache = Map.empty"

definition cache_Register :: "string \<Rightarrow> 'b \<Rightarrow> 'b driverCache \<Rightarrow> 'b driverCache" where
  "cache_Register name builder dc = dc(name \<mapsto> builder)"

definition cache_Unregister :: "string \<Rightarrow> 'b driverCache \<Rightarrow> 'b driverCache" where
  "cache_Unregister name dc = dc(name := None)"

definition cache_Get :: "string \<Rightarrow> 'b driverCache \<Rightarrow> 'b option" where "cache_Get name dc = dc name"

text \<open>The order of \<open>List\<close> and of \<open>Range\<close> is that of a Go map, unspecified.\<close>

definition cache_List :: "'b driverCache \<Rightarrow> string set" where "cache_List dc = dom dc"

definition cache_Range :: "'b driverCache \<Rightarrow> (string \<times> 'b) set" where "cache_Range dc = Map.graph dc"

section \<open>What the options set\<close>

text \<open>An option is good for a field when it sets it: the field is exported and the types match.\<close>

definition good_for :: "'ty type_universe \<Rightarrow> ('ty, 'v) driver_option \<Rightarrow> ('ty, 'v) struct_field \<Rightarrow> bool" where
  "good_for U opt field \<longleftrightarrow> sf_exported field
     \<and> (\<exists>v. op_value opt = Some v \<and> (gv_IsZero v \<or>
         (if tu_isInterface U (sf_Type field) then tu_Implements U (gv_Type v) (sf_Type field) else sf_Type field = gv_Type v)))"

text \<open>The value a list of options leaves in a field with a tag: the last one that is not zero.\<close>

fun option_for :: "('ty, 'v) driver_option list \<Rightarrow> string \<Rightarrow> ('ty, 'v) govalue option" where
  "option_for [] tag = None"
| "option_for (opt # opts) tag =
     (case option_for opts tag of
        Some v \<Rightarrow> Some v
      | None \<Rightarrow>
          (case op_value opt of
             Some v \<Rightarrow> if op_key opt = tag \<and> tag \<noteq> [] \<and> \<not> gv_IsZero v then Some v else None
           | None \<Rightarrow> None))"

definition with_option :: "('ty, 'v) driver_option list \<Rightarrow> ('ty, 'v) struct_field \<Rightarrow> ('ty, 'v) struct_field" where
  "with_option opts f = (case option_for opts (sf_Tag f) of None \<Rightarrow> f | Some v \<Rightarrow> f\<lparr>sf_value := v\<rparr>)"

lemma with_option_sel [simp]:
  "sf_Tag (with_option opts f) = sf_Tag f" "good_for U opt (with_option opts f) = good_for U opt f"
  by (auto simp: with_option_def good_for_def split: option.splits)

lemma with_option_Nil [simp]: "with_option [] = id"
  by (rule ext) (simp add: with_option_def)

lemma with_option_Cons: "with_option (opt # opts) f = with_option opts (with_option [opt] f)"
  by (auto simp: with_option_def split: option.splits)

lemma set_field_good: "good_for U opt f \<Longrightarrow> sf_Tag f = op_key opt \<Longrightarrow> op_key opt \<noteq> [] \<Longrightarrow> set_field U (op_value opt) f = Inr (with_option [opt] f)"
  by (auto simp: set_field_def good_for_def with_option_def Let_def)

lemma with_option_other: "sf_Tag f \<noteq> op_key opt \<Longrightarrow> with_option [opt] f = f"
  by (auto simp: with_option_def split: option.splits)

lemma apply_fields_good:
  assumes "op_key opt \<noteq> []"
  shows "distinct (filter (\<lambda>t. t \<noteq> []) (map sf_Tag fs)) \<Longrightarrow> \<forall>f \<in> set fs. sf_Tag f = op_key opt \<longrightarrow> good_for U opt f \<Longrightarrow>
    apply_fields U opt fs = Inr (map (with_option [opt]) fs)"
proof (induction fs)
  case (Cons f fs)
  show ?case
  proof (cases "sf_Tag f = op_key opt")
    case True
    with Cons.prems assms have "\<forall>g \<in> set fs. sf_Tag g \<noteq> op_key opt" by (auto simp: image_iff)
    then have "map (with_option [opt]) fs = fs" by (intro map_idI) (auto simp: with_option_other)
    with True Cons.prems assms show ?thesis by (simp add: set_field_good)
  next
    case False
    with Cons.prems Cons.IH show ?thesis by (auto simp: with_option_other split: if_splits)
  qed
qed simp

text \<open>
  With options that fit the fields they are for, \<open>ApplyOptions\<close> succeeds, sets every tagged field to the last value
  that is not zero among the options with its tag, and touches no other field.
\<close>

theorem apply_options_last_wins:
  assumes "distinct (filter (\<lambda>t. t \<noteq> []) (map sf_Tag fs))"
    and "\<forall>opt \<in> set opts. \<forall>f \<in> set fs. op_key opt \<noteq> [] \<and> sf_Tag f = op_key opt \<longrightarrow> good_for U opt f"
  shows "ApplyOptions U opts (StructPtr fs) = Inr (StructPtr (map (with_option opts) fs), None)"
proof -
  have "apply_all U opts (StructPtr fs) = Inr (StructPtr (map (with_option opts) fs), [])"
    using assms
  proof (induction opts arbitrary: fs)
    case (Cons opt opts)
    let ?fs = "map (with_option [opt]) fs"
    have tags: "map sf_Tag ?fs = map sf_Tag fs" by simp
    have "option_Apply U opt (StructPtr fs) = Inr (StructPtr ?fs)"
    proof (cases "op_key opt = []")
      case True
      then have "?fs = fs" by (intro map_idI) (auto simp: with_option_def split: option.splits)
      with True show ?thesis by (simp add: option_Apply_def)
    next
      case False
      with apply_fields_good [OF False Cons.prems(1), of U] Cons.prems(2) show ?thesis by (simp add: option_Apply_def)
    qed
    moreover have "apply_all U opts (StructPtr ?fs) = Inr (StructPtr (map (with_option opts) ?fs), [])"
      using Cons.prems by (intro Cons.IH) (simp_all add: tags del: map_map)
    moreover have "map (with_option (opt # opts)) fs = map (with_option opts) ?fs"
      by (simp add: with_option_Cons [of opt opts])
    ultimately show ?case by simp
  qed simp
  then show ?thesis by (simp add: ApplyOptions_def)
qed

end
