(* ===== verification/Complete.thy ===== *)
theory Complete
  imports Server GoLib
begin

text \<open>
  \<open>server/complete/history.go\<close>: the completions of a revision flag, from the history without its values. The
  client and the format of a time are parameters; an error of the client is \<^term>\<open>None\<close>, the completion of the
  shell that reports one.
\<close>

definition completion :: "(time \<Rightarrow> string) \<Rightarrow> pmsg \<Rightarrow> string" where
  "completion format entry =
     (let comp = FormatInt (Revision_GetRevision (GetRevision entry)); ts = AsTime (GetTimestamp (GetRevision entry)) in
      if ts \<noteq> zero_time then comp @ [CHR 0x09] @ format ts else comp)"

definition Revisions ::
  "(time \<Rightarrow> string) \<Rightarrow> (ServerHistoryRequest \<Rightarrow> pmsg list result) \<Rightarrow> ServerHistoryRequest \<Rightarrow> string list option" where
  "Revisions format history req =
     (case history (req\<lparr>hq_IncludeValues := False\<rparr>) of
        Inl _ \<Rightarrow> None
      | Inr entries \<Rightarrow> Some (map (completion format) entries))"

text \<open>
  An entry without a timestamp is completed with the time of the epoch: \<open>AsTime\<close> of a nil timestamp is not the
  zero time.
\<close>

lemma completion_without_timestamp:
  assumes "GetTimestamp (GetRevision entry) = None"
  shows "completion format entry = FormatInt (Revision_GetRevision (GetRevision entry)) @ [CHR 0x09] @ format 0"
  using assms by (simp add: completion_def AsTime_def zero_time_def)

end
