(* ===== verification/Future.thy ===== *)
theory Future
  imports Prelude
begin

text \<open>
  \<open>util/future/future.go\<close>: a value that is set once. \<open>Set\<close> runs its body in a \<open>sync.Once\<close>: the first caller stores
  the value and closes the channel, later callers wait for it and do nothing. Reads that have to wait are
  \<^term>\<open>None\<close>. A step is one action of some goroutine, so a run is any interleaving of them.
\<close>

datatype 'a once = Unused | Storing 'a | Closing | Done

record 'a future =
  fu_once :: "'a once"
  fu_object :: "'a option"
  fu_waitClosed :: bool

definition future_New :: "'a future" where
  "future_New = \<lparr>fu_once = Unused, fu_object = None, fu_waitClosed = False\<rparr>"

definition IsSet :: "'a future \<Rightarrow> bool" where "IsSet f \<longleftrightarrow> fu_waitClosed f"

definition future_Get :: "'a future \<Rightarrow> 'a option" where
  "future_Get f = (if fu_waitClosed f then fu_object f else None)"

text \<open>\<open>Set\<close> is called, and the body of the call that came first; it returns when \<open>Once\<close> is done.\<close>

datatype 'a future_event = SetCalled 'a | Stored | WaitClosed | BodyDone

inductive future_step :: "'a future \<Rightarrow> 'a future_event \<Rightarrow> 'a future \<Rightarrow> bool" where
  first: "fu_once f = Unused \<Longrightarrow> future_step f (SetCalled x) (f\<lparr>fu_once := Storing x\<rparr>)"
| later: "fu_once f \<noteq> Unused \<Longrightarrow> future_step f (SetCalled x) f"
| store: "fu_once f = Storing x \<Longrightarrow> future_step f Stored (f\<lparr>fu_once := Closing, fu_object := Some x\<rparr>)"
| close_wait: "fu_once f = Closing \<Longrightarrow> \<not> fu_waitClosed f \<Longrightarrow> future_step f WaitClosed (f\<lparr>fu_waitClosed := True\<rparr>)"
| body_done: "fu_once f = Closing \<Longrightarrow> fu_waitClosed f \<Longrightarrow> future_step f BodyDone (f\<lparr>fu_once := Done\<rparr>)"

inductive future_run :: "'a future \<Rightarrow> 'a future_event list \<Rightarrow> 'a future \<Rightarrow> bool" where
  refl: "future_run f [] f"
| step: "future_run f es f' \<Longrightarrow> future_step f' e f'' \<Longrightarrow> future_run f (es @ [e]) f''"

text \<open>A call of \<open>Set\<close> can return.\<close>

definition Set_returns :: "'a future \<Rightarrow> bool" where "Set_returns f \<longleftrightarrow> fu_once f = Done"

text \<open>
  \<open>C\<close>: the channel it returns, as the value in it and whether it is or will be closed. When the future is set
  already the channel is never closed.
\<close>

record 'a future_channel =
  fc_buffered :: "'a option"
  fc_closed :: bool

definition future_C :: "'a future \<Rightarrow> 'a future_channel" where
  "future_C f = (if IsSet f then \<lparr>fc_buffered = future_Get f, fc_closed = False\<rparr> else \<lparr>fc_buffered = None, fc_closed = False\<rparr>)"

text \<open>The goroutine of a channel that was made before, once the future is set.\<close>

definition future_C_fill :: "'a future \<Rightarrow> 'a future_channel \<Rightarrow> 'a future_channel" where
  "future_C_fill f c = (if IsSet f then \<lparr>fc_buffered = future_Get f, fc_closed = True\<rparr> else c)"

text \<open>The constructors from a value and from a channel, whose goroutine sets what it receives.\<close>

definition future_Instant :: "'a \<Rightarrow> 'a future" where
  "future_Instant x = \<lparr>fu_once = Done, fu_object = Some x, fu_waitClosed = True\<rparr>"

definition NewFromChannel :: "'a option \<Rightarrow> 'a future_event list" where
  "NewFromChannel received = (case received of None \<Rightarrow> [] | Some x \<Rightarrow> [SetCalled x])"

text \<open>\<open>Wait1\<close> to \<open>Wait7\<close>, for futures of one type: the arguments of the callback, once all are set.\<close>

fun wait_all :: "'a future list \<Rightarrow> 'a list option" where
  "wait_all [] = Some []"
| "wait_all (f # fs) =
     (case future_Get f of None \<Rightarrow> None | Some x \<Rightarrow> map_option (\<lambda>xs. x # xs) (wait_all fs))"

section \<open>The first value stays\<close>

fun first_set :: "'a future_event list \<Rightarrow> 'a option" where
  "first_set [] = None"
| "first_set (SetCalled x # es) = Some x"
| "first_set (_ # es) = first_set es"

lemma first_set_append: "first_set (es @ es') = (case first_set es of None \<Rightarrow> first_set es' | Some x \<Rightarrow> Some x)"
  by (induction es rule: first_set.induct) auto

definition future_inv :: "'a future_event list \<Rightarrow> 'a future \<Rightarrow> bool" where
  "future_inv es f \<longleftrightarrow>
     (case fu_once f of
        Unused \<Rightarrow> first_set es = None \<and> fu_object f = None \<and> \<not> fu_waitClosed f
      | Storing x \<Rightarrow> first_set es = Some x \<and> \<not> fu_waitClosed f
      | Closing \<Rightarrow> first_set es \<noteq> None \<and> fu_object f = first_set es
      | Done \<Rightarrow> first_set es \<noteq> None \<and> fu_object f = first_set es \<and> fu_waitClosed f)"

lemma future_run_inv: "future_run future_New es f \<Longrightarrow> future_inv es f"
proof (induction "future_New :: 'a future" es f rule: future_run.induct)
  case refl
  then show ?case by (simp add: future_inv_def future_New_def)
next
  case (step es f e f')
  from step(3,2) show ?case
    by cases (auto simp: future_inv_def first_set_append split: once.splits option.splits)
qed

text \<open>
  Whatever goroutines call \<open>Set\<close> and however they interleave, every \<open>Get\<close> that returns gives the value of the
  first call, a call of \<open>Set\<close> returns only when \<open>Get\<close> does, and the callback of a wait gets these values.
\<close>

lemma future_set_once:
  assumes "future_run future_New es f"
  shows "(future_Get f \<noteq> None \<longleftrightarrow> IsSet f) \<and> (IsSet f \<longrightarrow> future_Get f = first_set es) \<and> (Set_returns f \<longrightarrow> IsSet f)"
  using future_run_inv [OF assms]
  by (auto simp: future_inv_def future_Get_def IsSet_def Set_returns_def split: once.splits)

lemma wait_all_first:
  assumes "list_all2 (\<lambda>es f. future_run future_New es f) ess fs" "wait_all fs = Some xs"
  shows "map Some xs = map first_set ess"
  using assms
proof (induction arbitrary: xs rule: list_all2_induct)
  case (Cons es ess f fs)
  then obtain x ys where "future_Get f = Some x" "wait_all fs = Some ys" "xs = x # ys" by (auto split: option.splits)
  with Cons.IH [of ys] future_set_once [OF Cons(1)] show ?case by auto
qed simp

end
