(* ===== verification/DryRunCommand.thy ===== *)
theory DryRunCommand
  imports DryRunClient Rollback
begin

text \<open>
  The dry-run command of \<open>server/dryrun/dryrun.go\<close> (\<open>BuildCmd\<close>): before a command runs, the client in its context
  is replaced by one whose connection is the dry-run shim; afterwards the response of the shim is printed. The
  hooks of the command line package that run first (\<open>BasePreRunE\<close>, \<open>BasePostRunE\<close>) are their errors, if any.
\<close>

text \<open>What the context of a command holds: no client, one with its own connection, or one on the shim.\<close>

datatype 'd context_client = NoClient | RealClient 'd | ShimClient 'd

record 'v dry_run_env =
  de_diffFull :: bool
  de_diffFormat :: string
  de_diff :: json_diff
  de_New :: pmsg \<comment> \<open>how a nil configuration is printed\<close>
  de_errors :: "'v \<Rightarrow> string"

text \<open>
  The context the command starts with holds no client or a real one, given as the dry-run client made from it.
\<close>

definition dry_run_PersistentPreRunE ::
  "err option \<Rightarrow> ('g, 's, 'v) DryRunClient option \<Rightarrow> ('g, 's, 'v) DryRunClient context_client result" where
  "dry_run_PersistentPreRunE base client =
     (case base of
        Some e \<Rightarrow> Inl e
      | None \<Rightarrow> Inr (case client of Some dc \<Rightarrow> ShimClient dc | None \<Rightarrow> NoClient))"

definition dry_run_PersistentPostRunE ::
  "'v dry_run_env \<Rightarrow> err option \<Rightarrow> ('g, 's, 'v) DryRunClient context_client \<Rightarrow> err option \<times> string list" where
  "dry_run_PersistentPostRunE env base client =
     (case base of
        Some e \<Rightarrow> (Some e, [])
      | None \<Rightarrow>
          (case client of
             NoClient \<Rightarrow> (None, [])
           | RealClient _ \<Rightarrow> (Some (go_panic ''interface conversion''), [])
           | ShimClient dc \<Rightarrow>
               let (current, modified, errs) = (case dc_response dc of
                     None \<Rightarrow> (de_New env, de_New env, None)
                   | Some r \<Rightarrow> (dr_Current r, dr_Modified r, dr_ValidationErrors r));
                   lines = (case errs of None \<Rightarrow> [] | Some v \<Rightarrow> [de_errors env v]) in
               if de_diffFormat env \<notin> {''console'', ''json'', ''html''}
               then (Some (errorf ''invalid diff format: %s''), lines)
               else
                 (let (str, anyChanges) = RenderJsonDiff (de_diff env) (de_diffFormat env) (\<not> de_diffFull env) current modified in
                  (None, lines @ [if \<not> anyChanges then ''no changes'' else str]))))"

text \<open>
  A command that makes no request has no response to print and reports that there
  are no changes, when an empty configuration matches itself.
\<close>

lemma dry_run_without_response:
  assumes "dc_response dc = None" "de_diffFormat env \<in> {''console'', ''json'', ''html''}"
    and "\<And>fmt skip s. fst (jd_Compare (de_diff env) fmt skip s s)"
  shows "dry_run_PersistentPostRunE env None (ShimClient dc) = (None, [''no changes''])"
proof -
  have "RenderJsonDiff (de_diff env) fmt skip m m = ([], False)" for fmt skip m
    using assms(3) [of fmt skip "jd_Marshal (de_diff env) m"] by (auto simp: RenderJsonDiff_def split: prod.splits)
  with assms(1,2) show ?thesis by (simp add: dry_run_PersistentPostRunE_def Let_def)
qed

end
