(* ===== verification/ProtoRand.thy ===== *)
theory ProtoRand
  imports FieldMask Reactive
begin

text \<open>
  \<open>util/protorand/rand.go\<close>: random messages with some of their fields set. Parameters are the third-party
  generator, the number of fields a ratio selects (\<open>math.Round\<close> of a \<open>float64\<close> product), the shuffle, which is
  seeded with a hash of the encoding of the message, and which fields track presence.
\<close>

record rand_env =
  re_Gen :: "pmsg \<Rightarrow> pmsg result"
  re_round :: "nat \<Rightarrow> nat" \<comment> \<open>\<open>int(math.Round(ratio*float64(size)))\<close>\<close>
  re_Shuffle :: "pmsg \<Rightarrow> nat list \<Rightarrow> nat list"
  re_presence :: "fdesc \<Rightarrow> bool"

datatype ratio = RatioZero | RatioOne | RatioBetween \<comment> \<open>at most 0, at least 1, or neither\<close>

definition newPartition :: "(nat \<Rightarrow> nat) \<Rightarrow> nat \<Rightarrow> nat list result" where
  "newPartition round size' =
     (if size' = 0 then Inr []
      else
        let numOnes = max 1 (round size') in
        if numOnes > size' then Inl (go_panic ''index out of range'')
        else Inr (replicate numOnes 1 @ replicate (size' - numOnes) 0))"

text \<open>
  \<open>sanitizeLargeNumbers\<close>: the walk over the populated fields. \<open>v.Value.Uint()\<close> panics on a list. A number that
  becomes zero no longer populates a field without presence.
\<close>

fun sanitize :: "(fdesc \<Rightarrow> bool) \<Rightarrow> pmsg \<Rightarrow> pmsg result" and sanitize_slots :: "(fdesc \<Rightarrow> bool) \<Rightarrow> slots \<Rightarrow> slots result"
  and sanitize_val :: "(fdesc \<Rightarrow> bool) \<Rightarrow> pval \<Rightarrow> pval result" and sanitize_vals :: "(fdesc \<Rightarrow> bool) \<Rightarrow> pval list \<Rightarrow> pval list result"
  and sanitize_map :: "(fdesc \<Rightarrow> bool) \<Rightarrow> (scalar \<times> pval) list \<Rightarrow> (scalar \<times> pval) list result" where
  "sanitize presence (Msg n ss u) = rbind (sanitize_slots presence ss) (\<lambda>ss. Inr (Msg n ss u))"
| "sanitize_slots presence [] = Inr []"
| "sanitize_slots presence ((fd, None) # ss) = rbind (sanitize_slots presence ss) (\<lambda>ss. Inr ((fd, None) # ss))"
| "sanitize_slots presence ((fd, Some v) # ss) =
     rbind (if fd_Kind fd = Uint64Kind then
              (case v of
                 VScalar (SUint64 w) \<Rightarrow>
                   let masked = and w 0x1FFFFFFFFFFFFF in
                   Inr (if masked = 0 \<and> w \<noteq> 0 \<and> \<not> presence fd then None else Some (VScalar (SUint64 masked)))
               | _ \<Rightarrow> Inl (go_panic ''type mismatch: cannot convert to uint64''))
            else rbind (sanitize_val presence v) (\<lambda>v. Inr (Some v)))
       (\<lambda>x. rbind (sanitize_slots presence ss) (\<lambda>ss. Inr ((fd, x) # ss)))"
| "sanitize_val presence (VScalar s) = Inr (VScalar s)"
| "sanitize_val presence (VMsg m) = rbind (sanitize presence m) (\<lambda>m. Inr (VMsg m))"
| "sanitize_val presence (VList vs) = rbind (sanitize_vals presence vs) (\<lambda>vs. Inr (VList vs))"
| "sanitize_val presence (VMap kvs) = rbind (sanitize_map presence kvs) (\<lambda>kvs. Inr (VMap kvs))"
| "sanitize_vals presence [] = Inr []"
| "sanitize_vals presence (v # vs) = rbind (sanitize_val presence v) (\<lambda>v. rbind (sanitize_vals presence vs) (\<lambda>vs. Inr (v # vs)))"
| "sanitize_map presence [] = Inr []"
| "sanitize_map presence ((k, v) # kvs) =
     rbind (sanitize_val presence v) (\<lambda>v. rbind (sanitize_map presence kvs) (\<lambda>kvs. Inr ((k, v) # kvs)))"

definition rand_Gen :: "rand_env \<Rightarrow> ('t, unit) art_ops \<Rightarrow> mask option \<Rightarrow> pmsg \<Rightarrow> pmsg result" where
  "rand_Gen E A excluded newMsg =
     rbind (re_Gen E newMsg) (\<lambda>out.
       sanitize (re_presence E) (case excluded of None \<Rightarrow> out | Some paths \<Rightarrow> ExclusiveDiscard A out (Some paths)))"

definition MustGen :: "rand_env \<Rightarrow> ('t, unit) art_ops \<Rightarrow> mask option \<Rightarrow> pmsg \<Rightarrow> pmsg result" where
  "MustGen E A excluded newMsg =
     (case rand_Gen E A excluded newMsg of Inl e \<Rightarrow> Inl (go_panic (err_msg e)) | Inr m \<Rightarrow> Inr m)"

text \<open>The fields of a message that the mask does not exclude.\<close>

definition included :: "('t, unit) art_ops \<Rightarrow> 't option \<Rightarrow> string \<Rightarrow> fdesc \<Rightarrow> bool" where
  "included A tree pre fd \<longleftrightarrow> (case tree of None \<Rightarrow> True | Some t \<Rightarrow> art_Search A t (pre @ fd_Name fd) = None)"

text \<open>
  \<open>walk\<close>, and its loop over the selected fields. \<open>Mutable\<close> makes an empty message where none is set, so the
  recursion can go on without end in a type that contains itself: \<^term>\<open>None\<close> is a recursion deeper than the
  fuel.
\<close>

fun rand_walk :: "nat \<Rightarrow> rand_env \<Rightarrow> ('t, unit) art_ops \<Rightarrow> schema \<Rightarrow> 't option \<Rightarrow> string \<Rightarrow> pmsg \<Rightarrow> pmsg result option"
  and rand_fields :: "nat \<Rightarrow> rand_env \<Rightarrow> ('t, unit) art_ops \<Rightarrow> schema \<Rightarrow> 't option \<Rightarrow> string
    \<Rightarrow> (fdesc \<times> nat) list \<Rightarrow> pmsg \<Rightarrow> pmsg result option" where
  "rand_walk 0 E A sch tree pre msg = None"
| "rand_walk (Suc fuel) E A sch tree pre msg =
     (let selected = filter (included A tree pre) (msg_fields msg);
          cleared = fold (\<lambda>fd. msg_Clear (fd_Name fd)) (filter (\<lambda>fd. \<not> included A tree pre fd) (msg_fields msg)) msg in
      case newPartition (re_round E) (length selected) of
        Inl e \<Rightarrow> Some (Inl e)
      | Inr partition' \<Rightarrow> rand_fields fuel E A sch tree pre (zip selected (re_Shuffle E msg partition')) cleared)"
| "rand_fields fuel E A sch tree pre [] msg = Some (Inr msg)"
| "rand_fields fuel E A sch tree pre ((fd, part) # ps) msg =
     (if part = 0 then rand_fields fuel E A sch tree pre ps (msg_Clear (fd_Name fd) msg)
      else if is_msg_field fd then
        (case rand_walk fuel E A sch tree (pre @ fd_Name fd @ ''.'') (val_msg (msg_Get sch (\<lambda>_. SBool False) fd msg)) of
           None \<Rightarrow> None
         | Some (Inl e) \<Rightarrow> Some (Inl e)
         | Some (Inr m) \<Rightarrow> rand_fields fuel E A sch tree pre ps (msg_Set (fd_Name fd) (VMsg m) (clear_siblings fd msg)))
      else rand_fields fuel E A sch tree pre ps msg)"

definition GenPartial ::
  "nat \<Rightarrow> rand_env \<Rightarrow> ('t, unit) art_ops \<Rightarrow> schema \<Rightarrow> mask option \<Rightarrow> ratio \<Rightarrow> pmsg \<Rightarrow> pmsg result option" where
  "GenPartial fuel E A sch excluded r newMsg =
     (case r of
        RatioZero \<Rightarrow> Some (Inr newMsg)
      | RatioOne \<Rightarrow> Some (rand_Gen E A excluded newMsg)
      | RatioBetween \<Rightarrow>
          (case MustGen E A excluded newMsg of
             Inl e \<Rightarrow> Some (Inl e)
           | Inr newGeneratedMsg \<Rightarrow> rand_walk fuel E A sch (map_option (AsTree A) excluded) [] newGeneratedMsg))"

definition MustGenPartial ::
  "nat \<Rightarrow> rand_env \<Rightarrow> ('t, unit) art_ops \<Rightarrow> schema \<Rightarrow> mask option \<Rightarrow> ratio \<Rightarrow> pmsg \<Rightarrow> pmsg result option" where
  "MustGenPartial fuel E A sch excluded r newMsg =
     map_option (\<lambda>res. case res of Inl e \<Rightarrow> Inl (go_panic (err_msg e)) | Inr m \<Rightarrow> Inr m) (GenPartial fuel E A sch excluded r newMsg)"

end
