(* ===== verification/ProtoRandProps.thy ===== *)
theory ProtoRandProps
  imports ProtoRand PathReflect
begin

text \<open>
  The random messages stay within their type, and the walk that sets or clears fields ends for every type from
  which no infinite chain of nested message fields starts; on a type that contains itself it may never end.
\<close>

section \<open>Types\<close>

lemma discard_fields: "map fst (fst (discard_slots A t pre ss)) = map fst ss"
proof (induction ss)
  case (Cons s ss)
  obtain fd x where "s = (fd, x)" by (cases s)
  with Cons show ?case by (cases x) (simp_all add: case_prod_beta Let_def)
qed simp

lemma discard_typed:
  "typed sch m \<Longrightarrow> typed sch (fst (discard A t pre m))"
  "typed_slots sch ss \<Longrightarrow> typed_slots sch (fst (discard_slots A t pre ss))"
  "typed_val sch fd v \<Longrightarrow> discard_field A t path fd v = Some v' \<Longrightarrow> typed_val sch fd v'"
  "typed_val sch fd v \<Longrightarrow> discard_message A t path v = Some v' \<Longrightarrow> typed_val sch fd v'"
proof (induction A t pre m and A t pre ss and A t path fd v and A t path v arbitrary: and and v' and fd v'
    rule: discard_discard_slots_discard_field_discard_message.induct)
  case (1 A t pre n ss u)
  then show ?case by (simp add: case_prod_beta discard_fields)
next
  case (4 A t pre fd v ss)
  then show ?case by (cases "discard_field A t (pre @ fd_Name fd) fd v") (auto simp: case_prod_beta)
next
  case (5 A t path fd v)
  then show ?case by (auto split: if_splits)
next
  case (6 A t path m)
  moreover have "msg_name (fst (discard A t (path @ ''.'') m)) = msg_name m" by (cases m) (simp add: case_prod_beta)
  ultimately show ?case by (auto simp: case_prod_beta split: if_splits)
qed (auto simp: case_prod_beta)

lemma ExclusiveDiscard_typed: "well_typed sch n m \<Longrightarrow> well_typed sch n (ExclusiveDiscard A m fm)"
  by (cases m) (auto simp: ExclusiveDiscard_def well_typed_def case_prod_beta discard_fields discard_typed(2) split: option.splits)

lemma sanitize_typed:
  "sanitize presence m = Inr m' \<Longrightarrow> typed sch m \<Longrightarrow> typed sch m' \<and> msg_name m' = msg_name m"
  "sanitize_slots presence ss = Inr ss' \<Longrightarrow> typed_slots sch ss \<Longrightarrow> typed_slots sch ss' \<and> map fst ss' = map fst ss"
  "sanitize_val presence v = Inr v' \<Longrightarrow> (typed_val sch fd v \<longrightarrow> typed_val sch fd v') \<and> (typed_elem sch fd v \<longrightarrow> typed_elem sch fd v')"
  "sanitize_vals presence vs = Inr vs' \<Longrightarrow> length vs' = length vs \<and> (typed_elems sch fd vs \<longrightarrow> typed_elems sch fd vs')"
  "sanitize_map presence kvs = Inr kvs' \<Longrightarrow> map fst kvs' = map fst kvs \<and> (typed_entries sch k w kvs \<longrightarrow> typed_entries sch k w kvs')"
proof (induction presence m and presence ss and presence v and presence vs and presence kvs
    arbitrary: m' and ss' and v' fd and vs' fd and kvs' k w
    rule: sanitize_sanitize_slots_sanitize_val_sanitize_vals_sanitize_map.induct)
  case (4 presence fd v ss)
  from 4(4) have v: "typed_val sch fd v" "typed_slots sch ss" by simp_all
  show ?case
  proof (cases "fd_Kind fd = Uint64Kind")
    case True
    with 4(2-) show ?thesis by (cases v) (auto simp: rbind_Inr Let_def split: scalar.splits if_splits)
  next
    case False
    with 4(3) obtain v' ss1 where s: "sanitize_val presence v = Inr v'" "sanitize_slots presence ss = Inr ss1"
      "ss' = (fd, Some v') # ss1" by (auto simp: rbind_Inr)
    from 4(1) [OF False s(1), of fd] v(1) have "typed_val sch fd v'" by blast
    moreover from 4(2) [OF s(2) v(2)] have "typed_slots sch ss1 \<and> map fst ss1 = map fst ss" by simp
    ultimately show ?thesis using s(3) by simp
  qed
next
  case (7 presence vs)
  then show ?case by (auto simp: rbind_Inr)
next
  case (8 presence kvs)
  from 8(2) obtain kvs' where k: "sanitize_map presence kvs = Inr kvs'" "v' = VMap kvs'" by (auto simp: rbind_Inr)
  from 8(1) [OF k(1)] k(2) show ?case by (auto split: option.splits)
qed (auto simp: rbind_Inr)

section \<open>The walk ends\<close>

definition nests :: "schema \<Rightarrow> string \<Rightarrow> string \<Rightarrow> bool" where
  "nests sch n' n \<longleftrightarrow> (\<exists>fd \<in> set (sch n). is_msg_field fd \<and> fd_Message fd = n')"

lemma common_bound:
  fixes P :: "'a \<Rightarrow> nat \<Rightarrow> bool"
  assumes "\<forall>x \<in> set xs. \<exists>k. \<forall>i \<ge> k. P x i"
  shows "\<exists>k. \<forall>x \<in> set xs. \<forall>i \<ge> k. P x i"
  using assms
proof (induction xs)
  case (Cons y ys)
  then obtain j k where "\<forall>i \<ge> j. P y i" "\<forall>x \<in> set ys. \<forall>i \<ge> k. P x i" by auto
  then have "\<forall>x \<in> set (y # ys). \<forall>i \<ge> max j k. P x i" by auto
  then show ?case by blast
qed simp

lemma fold_clear:
  "typed sch m \<Longrightarrow> typed sch (fold (\<lambda>fd. msg_Clear (fd_Name fd)) fds m) \<and> msg_name (fold (\<lambda>fd. msg_Clear (fd_Name fd)) fds m) = msg_name m"
  by (induction fds arbitrary: m) (simp_all add: typed_clear)

lemma Get_other:
  "fd_Name fd \<noteq> n \<Longrightarrow> msg_Get sch d fd (msg_put n x m) = msg_Get sch d fd m"
  by (simp add: msg_Get_def msg_get_put)

lemma Get_siblings:
  assumes "msg_Get sch d q m = VMsg m'" "is_msg_field q" "typed sch m'" "msg_name m' = fd_Message q"
  shows "\<exists>m'. msg_Get sch d q (clear_siblings fd m) = VMsg m' \<and> typed sch m' \<and> msg_name m' = fd_Message q"
proof -
  have "typed_slots sch (map (\<lambda>fd. (fd, None)) fds)" for fds by (induction fds) auto
  then have "typed sch (empty_msg sch (fd_Message q))" "msg_name (empty_msg sch (fd_Message q)) = fd_Message q"
    by (simp_all add: empty_msg_def comp_def)
  then show ?thesis
    using assms clear_siblings_get [of "fd_Name q" fd m] by (auto simp: msg_Get_def is_msg_field_def split: option.splits)
qed

lemma rand_fields_ends:
  assumes "\<And>fd p m. fd \<in> fst ` set ps \<Longrightarrow> is_msg_field fd \<Longrightarrow> typed sch m \<Longrightarrow> msg_name m = fd_Message fd
      \<Longrightarrow> rand_walk fuel E A sch tree p m \<noteq> None"
    and "distinct (map (fd_Name \<circ> fst) ps)"
    and "\<forall>fd \<in> fst ` set ps. is_msg_field fd \<longrightarrow>
      (\<exists>m'. msg_Get sch (\<lambda>_. SBool False) fd msg = VMsg m' \<and> typed sch m' \<and> msg_name m' = fd_Message fd)"
  shows "rand_fields fuel E A sch tree pre ps msg \<noteq> None"
  using assms
proof (induction ps arbitrary: msg)
  case (Cons p ps)
  obtain fd part where p: "p = (fd, part)" by (cases p)
  have names: "\<forall>q \<in> fst ` set ps. fd_Name q \<noteq> fd_Name fd" using Cons.prems(2) p by (auto simp: image_iff)
  with Cons.prems(3) have other: "\<forall>q \<in> fst ` set ps. is_msg_field q \<longrightarrow>
      (\<exists>m'. msg_Get sch (\<lambda>_. SBool False) q (msg_put (fd_Name fd) x msg) = VMsg m' \<and> typed sch m' \<and> msg_name m' = fd_Message q)" for x
    by (simp add: Get_other)
  have siblings: "\<forall>q \<in> fst ` set ps. is_msg_field q \<longrightarrow>
      (\<exists>m'. msg_Get sch (\<lambda>_. SBool False) q (msg_put (fd_Name fd) x (clear_siblings fd msg)) = VMsg m'
        \<and> typed sch m' \<and> msg_name m' = fd_Message q)" for x
  proof (intro ballI impI)
    fix q
    assume q: "q \<in> fst ` set ps" "is_msg_field q"
    then obtain m' where "msg_Get sch (\<lambda>_. SBool False) q msg = VMsg m'" "typed sch m'" "msg_name m' = fd_Message q"
      using Cons.prems(3) p by (auto simp: image_iff)
    from Get_siblings [OF this(1) q(2) this(2,3), of fd] bspec [OF names q(1)]
    show "\<exists>m'. msg_Get sch (\<lambda>_. SBool False) q (msg_put (fd_Name fd) x (clear_siblings fd msg)) = VMsg m'
        \<and> typed sch m' \<and> msg_name m' = fd_Message q"
      by (simp add: Get_other)
  qed
  have IH: "rand_fields fuel E A sch tree pre ps msg' \<noteq> None"
    if "\<forall>q \<in> fst ` set ps. is_msg_field q \<longrightarrow>
      (\<exists>m'. msg_Get sch (\<lambda>_. SBool False) q msg' = VMsg m' \<and> typed sch m' \<and> msg_name m' = fd_Message q)" for msg'
  proof (rule Cons.IH)
    show "distinct (map (fd_Name \<circ> fst) ps)" using Cons.prems(2) by (simp add: comp_def)
    show "rand_walk fuel E A sch tree p m \<noteq> None"
      if "fd \<in> fst ` set ps" "is_msg_field fd" "typed sch m" "msg_name m = fd_Message fd" for fd p m
      using Cons.prems(1) [of fd m p] that by simp
  qed (rule that)
  show ?case
  proof (cases "part \<noteq> 0 \<and> is_msg_field fd")
    case True
    then obtain m' where m': "msg_Get sch (\<lambda>_. SBool False) fd msg = VMsg m'" "typed sch m'" "msg_name m' = fd_Message fd"
      using Cons.prems(3) p by auto
    have "rand_walk fuel E A sch tree (pre @ fd_Name fd @ ''.'') m' \<noteq> None"
      using Cons.prems(1) [of fd m'] True m'(2,3) p by simp
    then show ?thesis using True m'(1) p IH [OF siblings] by (auto simp: val_msg_def split: option.split sum.split)
  next
    case False
    then show ?thesis using p IH [OF other] IH Cons.prems(3) by auto
  qed
qed simp

lemma rand_walk_ends:
  assumes "names_distinct sch" "Wellfounded.accp (nests sch) n"
  shows "\<exists>k. \<forall>fuel \<ge> k. \<forall>pre m. typed sch m \<and> msg_name m = n \<longrightarrow> rand_walk fuel E A sch tree pre m \<noteq> None"
  using assms(2)
proof (induction rule: accp.induct)
  case (accI n)
  let ?P = "\<lambda>fd fuel. is_msg_field fd \<longrightarrow> (\<forall>pre m. typed sch m \<and> msg_name m = fd_Message fd \<longrightarrow> rand_walk fuel E A sch tree pre m \<noteq> None)"
  have "\<exists>k. \<forall>fuel \<ge> k. ?P fd fuel" if "fd \<in> set (sch n)" for fd
    using accI(2) [of "fd_Message fd"] that unfolding nests_def by (cases "is_msg_field fd") blast+
  then have "\<forall>fd \<in> set (sch n). \<exists>k. \<forall>fuel \<ge> k. ?P fd fuel" by blast
  from common_bound [OF this] obtain k where k: "\<forall>fd \<in> set (sch n). \<forall>fuel \<ge> k. ?P fd fuel" by blast
  have "rand_walk fuel E A sch tree pre m \<noteq> None" if m: "fuel \<ge> Suc k" "typed sch m" "msg_name m = n" for fuel pre m
  proof -
    obtain fuel' where f: "fuel = Suc fuel'" "fuel' \<ge> k" using m(1) by (cases fuel) auto
    have sch: "msg_fields m = sch n" using m(2,3) by (cases m) (simp add: msg_fields_def)
    let ?sel = "filter (included A tree pre) (msg_fields m)"
    let ?m = "fold (\<lambda>fd. msg_Clear (fd_Name fd)) (filter (\<lambda>fd. \<not> included A tree pre fd) (msg_fields m)) m"
    have t: "typed sch ?m" "msg_name ?m = n" using fold_clear m(2,3) by metis+
    have sel: "fst ` set (zip ?sel part) \<subseteq> set (sch n)" for part :: "nat list"
      using sch by (auto dest: set_zip_leftD)
    have "distinct (map fd_Name ?sel)" using assms(1) sch by (simp add: names_distinct_def distinct_map_filter)
    then have dist: "distinct (map (fd_Name \<circ> fst) (zip ?sel part))" for part :: "nat list"
      by (metis distinct_take map_fst_zip_take map_map take_map)
    have "rand_fields fuel' E A sch tree pre (zip ?sel part) ?m \<noteq> None" for part
    proof (rule rand_fields_ends [OF _ dist])
      fix fd p and m :: pmsg
      assume "fd \<in> fst ` set (zip ?sel part)" "is_msg_field fd" "typed sch m" "msg_name m = fd_Message fd"
      then show "rand_walk fuel' E A sch tree p m \<noteq> None" using k sel f(2) by blast
    next
      show "\<forall>fd \<in> fst ` set (zip ?sel part). is_msg_field fd \<longrightarrow>
          (\<exists>m'. msg_Get sch (\<lambda>_. SBool False) fd ?m = VMsg m' \<and> typed sch m' \<and> msg_name m' = fd_Message fd)"
        using typed_Get [OF assms(1) t(1)] t(2) sel by blast
    qed
    then show ?thesis using f(1) by (simp add: Let_def split: sum.split)
  qed
  then show ?case by blast
qed

lemma rand_mono:
  "rand_walk fuel E A sch tree pre m = Some r \<Longrightarrow> rand_walk (Suc fuel) E A sch tree pre m = Some r"
  "rand_fields fuel E A sch tree pre ps m = Some r \<Longrightarrow> rand_fields (Suc fuel) E A sch tree pre ps m = Some r"
proof (induction fuel E A sch tree pre m and fuel E A sch tree pre ps m arbitrary: r and r rule: rand_walk_rand_fields.induct)
  case (2 fuel E A sch tree pre msg)
  then show ?case by (simp only: rand_walk.simps Let_def) (auto simp del: rand_walk.simps rand_fields.simps split: sum.splits)
next
  case (4 fuel E A sch tree pre fd part ps msg)
  then show ?case by (auto simp del: rand_walk.simps split: if_splits option.splits sum.splits)
qed simp_all

lemma rand_stable: "fuel \<le> fuel' \<Longrightarrow> rand_walk fuel E A sch tree pre m = Some r \<Longrightarrow> rand_walk fuel' E A sch tree pre m = Some r"
  by (induction rule: dec_induct) (simp_all add: rand_mono(1) del: rand_walk.simps)

text \<open>
  C38. Generating a partial message ends, with one result whatever the fuel beyond some bound, for every ratio and
  mask, when no infinite chain of nested message fields starts at the message type and the generator returns
  messages of that type.
\<close>

theorem partial_message_ends:
  assumes "names_distinct sch" "Wellfounded.accp (nests sch) n" "\<And>out. re_Gen E newMsg = Inr out \<Longrightarrow> well_typed sch n out"
  shows "\<exists>k res. \<forall>fuel \<ge> k. GenPartial fuel E A sch excluded r newMsg = Some res"
proof (cases "r = RatioBetween \<and> (\<exists>m. MustGen E A excluded newMsg = Inr m)")
  case True
  then obtain m where r: "r = RatioBetween" and m: "MustGen E A excluded newMsg = Inr m" by blast
  then obtain out where "re_Gen E newMsg = Inr out"
    "sanitize (re_presence E) (case excluded of None \<Rightarrow> out | Some paths \<Rightarrow> ExclusiveDiscard A out (Some paths)) = Inr m"
    by (auto simp: MustGen_def rand_Gen_def rbind_Inr split: sum.splits)
  moreover from this(1) assms(3) have "well_typed sch n (case excluded of None \<Rightarrow> out | Some paths \<Rightarrow> ExclusiveDiscard A out (Some paths))"
    by (auto intro: ExclusiveDiscard_typed split: option.split)
  ultimately have "well_typed sch n m" by (auto simp: well_typed_def dest: sanitize_typed(1))
  moreover obtain k where "\<forall>fuel \<ge> k. \<forall>pre m. typed sch m \<and> msg_name m = n
      \<longrightarrow> rand_walk fuel E A sch (map_option (AsTree A) excluded) pre m \<noteq> None"
    using rand_walk_ends [OF assms(1,2)] by blast
  ultimately have "rand_walk k E A sch (map_option (AsTree A) excluded) [] m \<noteq> None" by (simp add: well_typed_def)
  then obtain res where res: "rand_walk k E A sch (map_option (AsTree A) excluded) [] m = Some res" by blast
  have "\<forall>fuel \<ge> k. rand_walk fuel E A sch (map_option (AsTree A) excluded) [] m = Some res"
    using rand_stable [OF _ res] by blast
  with r m have "\<forall>fuel \<ge> k. GenPartial fuel E A sch excluded r newMsg = Some res"
    by (simp add: GenPartial_def)
  then show ?thesis by blast
next
  case False
  then have "\<exists>res. \<forall>fuel. GenPartial fuel E A sch excluded r newMsg = Some res"
    by (cases r; cases "MustGen E A excluded newMsg") (auto simp: GenPartial_def)
  then show ?thesis by blast
qed

text \<open>On a message type that contains itself, the walk over its only field never ends.\<close>

lemma recursive_type_never_ends:
  assumes "names_distinct sch" "sch T = [fd]" "is_msg_field fd" "fd_Message fd = T"
    and "re_round E 1 \<le> 1" "\<And>m. re_Shuffle E m [1] = [1]"
  shows "typed sch m \<Longrightarrow> msg_name m = T \<Longrightarrow> rand_walk fuel E A sch None pre m = None"
proof (induction fuel arbitrary: pre m)
  case (Suc fuel)
  have "msg_fields m = [fd]" using Suc.prems assms(2) by (cases m) (simp add: msg_fields_def)
  moreover have "newPartition (re_round E) 1 = Inr [1]" using assms(5) by (simp add: newPartition_def Let_def max_def)
  moreover obtain m' where "msg_Get sch (\<lambda>_. SBool False) fd m = VMsg m'" "typed sch m'" "msg_name m' = T"
    using typed_Get [OF assms(1) Suc.prems(1) _ assms(3)] Suc.prems(2) assms(2,4) by auto
  ultimately show ?case using assms(3,6) Suc.IH by (simp add: included_def val_msg_def)
qed simp

definition ex_rand :: rand_env where
  "ex_rand = \<lparr>re_Gen = \<lambda>_. Inr (ex_A ''1'' ''2''), re_round = \<lambda>size'. (size' + 1) div 2, re_Shuffle = \<lambda>_ xs. rev xs, re_presence = \<lambda>_. False\<rparr>"

lemma ex_nests: "Wellfounded.accp (nests ex_sch) ''A''"
proof (rule accp.accI)
  fix n
  assume "nests ex_sch n ''A''"
  then have n: "n = ''B''" by (auto simp: nests_def ex_sch_def ex_field_def is_msg_field_def)
  show "Wellfounded.accp (nests ex_sch) n"
    by (rule accp.accI) (simp add: n nests_def ex_sch_def ex_field_def is_msg_field_def)
qed

lemma partial_message_ends_witness:
  "(\<exists>k res. \<forall>fuel \<ge> k. GenPartial fuel ex_rand alist_art ex_sch (Some [''b.y'']) RatioBetween (Msg ''A'' [] []) = Some res)
   \<and> GenPartial 4 ex_rand alist_art ex_sch (Some [''b.y'']) RatioBetween (Msg ''A'' [] [])
     = Some (Inr (Msg ''A'' [(ex_field ''x'' StringKind [], None),
         (ex_field ''b'' MessageKind ''B'', Some (VMsg (Msg ''B'' [(ex_field ''y'' StringKind [], None)] [])))] []))"
proof
  have "well_typed ex_sch ''A'' out" if "re_Gen ex_rand (Msg ''A'' [] []) = Inr out" for out
    using that by (auto simp: ex_rand_def well_typed_def ex_A_def ex_sch_def ex_field_def)
  from partial_message_ends [OF ex_sch_names ex_nests this]
  show "\<exists>k res. \<forall>fuel \<ge> k. GenPartial fuel ex_rand alist_art ex_sch (Some [''b.y'']) RatioBetween (Msg ''A'' [] []) = Some res" .
qed code_simp

end
