(* ===== verification/Generic.thy ===== *)
theory Generic
  imports Stores Msg
begin

text \<open>
  \<open>util/generic.go\<close>: \<open>Must\<close>, the copy through JSON, and the lookups of a field by its name, which ignore case.
  Field names and the names looked for are ASCII, where \<open>strings.EqualFold\<close> compares the lower-case forms.
\<close>

text \<open>The first argument of \<open>Must\<close> as an interface value: nil, an error, or something else.\<close>

datatype 'a must_arg = NilArg | ErrorArg err | OtherArg 'a

text \<open>The message of \<open>errors.Join\<close>.\<close>

fun join_lines :: "string list \<Rightarrow> string" where
  "join_lines [] = []"
| "join_lines [s] = s"
| "join_lines (s # ss) = s @ [CHR 0x0A] @ join_lines ss"

definition Must :: "'a must_arg \<Rightarrow> err option list \<Rightarrow> 'a must_arg result" where
  "Must t errs =
     (case errs of
        e # _ \<Rightarrow>
          (case e of
             Some _ \<Rightarrow> Inl (go_panic (join_lines (map err_msg (List.map_filter id errs))))
           | None \<Rightarrow> Inr t)
      | [] \<Rightarrow>
          (case t of
             NilArg \<Rightarrow> Inr t
           | ErrorArg e \<Rightarrow> Inl (go_panic (err_msg e))
           | OtherArg _ \<Rightarrow> Inl (go_panic ''interface conversion'')))"

text \<open>\<open>DeepCopyInto\<close> and \<open>DeepCopy\<close>, over the encoder and the decoder, which decodes into a value that is there.\<close>

definition DeepCopyInto :: "('a \<Rightarrow> string result) \<Rightarrow> (string \<Rightarrow> 'a \<Rightarrow> 'a result) \<Rightarrow> 'a \<Rightarrow> 'a \<Rightarrow> 'a result" where
  "DeepCopyInto marshal unmarshal out' in' =
     (case rbind (marshal in') (\<lambda>js. unmarshal js out') of Inl e \<Rightarrow> Inl (go_panic (err_msg e)) | Inr x \<Rightarrow> Inr x)"

definition DeepCopy :: "('a \<Rightarrow> string result) \<Rightarrow> (string \<Rightarrow> 'a \<Rightarrow> 'a result) \<Rightarrow> 'a \<Rightarrow> 'a \<Rightarrow> 'a result" where
  "DeepCopy marshal unmarshal zero in' = DeepCopyInto marshal unmarshal zero in'"

definition EqualFold :: "string \<Rightarrow> string \<Rightarrow> bool" where
  "EqualFold a b \<longleftrightarrow> ToLower a = ToLower b"

definition FieldByName :: "fdesc list \<Rightarrow> string \<Rightarrow> fdesc option" where
  "FieldByName fds name = find_first (\<lambda>field. EqualFold (fd_Name field) name) fds"

fun field_index :: "nat \<Rightarrow> fdesc list \<Rightarrow> string \<Rightarrow> int" where
  "field_index i [] name = - 1"
| "field_index i (field # fds) name = (if EqualFold (fd_Name field) name then int i else field_index (Suc i) fds name)"

definition FieldIndexByName :: "fdesc list \<Rightarrow> string \<Rightarrow> int" where
  "FieldIndexByName fds name = field_index 0 fds name"

lemma field_index_found:
  "case FieldByName fds name of
     None \<Rightarrow> field_index i fds name = - 1
   | Some fd \<Rightarrow> \<exists>j < length fds. field_index i fds name = int (i + j) \<and> fds ! j = fd"
proof (induction fds arbitrary: i)
  case (Cons field fds)
  show ?case
  proof (cases "EqualFold (fd_Name field) name")
    case False
    with Cons.IH [of "Suc i"] show ?thesis by (force simp: FieldByName_def split: option.splits)
  qed (auto simp: FieldByName_def)
qed (simp add: FieldByName_def)

text \<open>Both lookups find the same field, or none.\<close>

lemma FieldIndexByName_FieldByName:
  "case FieldByName fds name of
     None \<Rightarrow> FieldIndexByName fds name = - 1
   | Some fd \<Rightarrow> \<exists>j < length fds. FieldIndexByName fds name = int j \<and> fds ! j = fd"
  using field_index_found [where fds = fds and name = name and i = 0] unfolding FieldIndexByName_def add_0 .

text \<open>
  The completion of revisions looks for the field \<open>includevalues\<close>. The name that the style guide of protobuf asks
  for, and for which the same getter is generated, is not found, and setting a field without a descriptor panics.
\<close>

lemma snake_case_not_found: "fd_Name fd = ''include_values'' \<Longrightarrow> FieldByName [fd] ''includevalues'' = None"
  by (simp add: FieldByName_def EqualFold_def ToLower_def char_ToLower_def)

end
