(* ===== verification/Spec2Isabelle.thy ===== *)
theory Spec2Isabelle
  imports ValueProps ValueWatchProps MergeProps FieldMaskProps ServerProps KVProps CoreValue BindProps DryRunProps EtcdProps CrdProps
    RollbackProps TypeProps WatchContext PathReflect ReactiveWatch ServerUtil Complete Future DryRunCommand ProtoRandProps Generic
begin

text \<open>
  A verification library for protoconfig, a Go library that stores protobuf configurations with revisions, serves
  them over gRPC and shows their fields as reactive values.

  \<^bold>\<open>How the program fits together.\<close> A \<^emph>\<open>store\<close> keeps the history of a value or of a value per key
  (\<open>storage/stores.go\<close>); there is one in memory, one on etcd and one on Kubernetes custom resources, and adapters
  that make a value store of a key, a key-value store of a prefix, or a store of messages of a store of bytes. The
  \<^emph>\<open>config tracker\<close> (\<open>server/config.go\<close>) keeps a default and an active configuration in two value stores and merges
  requests onto them; the \<^emph>\<open>config server\<close> (\<open>server/server.go\<close>) is its gRPC face, which protects masked fields and
  answers dry runs; the dry-run and rollback commands are clients of it. The \<^emph>\<open>reactive controller\<close> (\<open>reactive/\<close>)
  watches a tracker and updates a tree of values, one for each path of the configuration type.

  \<^bold>\<open>How it is modelled.\<close> An operation of the Go code is a function from its state and arguments to its result and the
  new state. Errors and panics are values (\<open>Errors\<close>): \<^term>\<open>Inl\<close> of an error with its gRPC code, its details and
  the errors it wraps, as \<open>errors.Is\<close> and \<open>status.Code\<close> see them. Integers that can overflow are words. Times are
  given to the operations that read the clock. Goroutines are inductive step relations over the positions of the
  goroutines, the locks and the buffers of the channels. Messages are values (\<open>Msg\<close>): a type name, the fields of
  the descriptor with what populates them, and unknown fields. Setting a member of a oneof clears the others.

  \<^bold>\<open>Theories and the code they model\<close> (lemmas in parentheses).

  \<^item> \<open>Prelude\<close>: collections and lemmas on lists and maps. \<open>Errors\<close>: \<open>storage/errors.go\<close>, results and wrapping.
  \<open>Msg\<close>, \<open>MsgCountable\<close>: messages, their fields and order of fields. \<open>Art\<close>: the radix tree as operations with
  laws, and an association list that satisfies them. \<open>GoLib\<close>: \<open>path.Join\<close>, base64 and numbers of the Go library.
  \<open>Json\<close>: \<open>encoding/json\<close> for the history annotation.

  \<^item> \<open>Options\<close>, \<open>Stores\<close>: \<open>storage/options.go\<close>, \<open>storage/stores.go\<close>. A store is a record of operations; the locale
  \<open>value_store\<close> is the contract the tracker needs (an invariant, a current value, writes conditioned on a revision),
  \<open>exact_store\<close> adds what a write of a given revision must do.

  \<^item> \<open>Ring\<close>, \<open>ValueStore\<close>, \<open>ValueWatch\<close>: \<open>storage/inmemory/value_store.go\<close>, the sequential operations over
  the ring of 64 elements, then the same store with its locks, listeners, buffers (8) and client channels (64)
  as a step relation. (\<open>ValueLog\<close>, \<open>ValueIface\<close>, \<open>ValueProps\<close>, \<open>ValueWatchProps\<close>: the ring implements an unbounded
  log; optimistic concurrency; watches deliver in order and drain; the deadlock of a cancelled watch.)

  \<^item> \<open>KVStore\<close>, \<open>KVUtil\<close>: \<open>storage/inmemory/kv_store.go\<close>, \<open>storage/kvutil/kvutil.go\<close>. (\<open>KVIface\<close>, \<open>KVProps\<close>: the
  contract of key-value stores, and that \<open>WithKey\<close> and \<open>WithPrefix\<close> keep it, as sublocales; which watches a write
  reaches in any reachable state; isolation of keys.) \<open>Etcd\<close>: \<open>storage/drivers/etcd\<close>. (\<open>EtcdIface\<close>, \<open>EtcdProps\<close>: the contract from the laws of the client,
  histories.) \<open>Crd\<close>: \<open>storage/drivers/crds\<close>, with both formats of the history annotation. (\<open>CrdHistory\<close>,
  \<open>CrdIface\<close>, \<open>CrdRef\<close>, \<open>CrdProps\<close>: round trip and size of the annotation, reads and writes as operations on a log,
  watches.) \<open>WatchContext\<close>: \<open>storage/context.go\<close>.

  \<^item> \<open>Merge\<close>, \<open>FieldMask\<close>, \<open>Revision\<close>: \<open>util/merge\<close>, \<open>util/fieldmask\<close>, \<open>server/reflect.go\<close> and
  \<open>apis/core/v1/extensions.go\<close>. (\<open>MergeProps\<close>, \<open>FieldMaskLemmas\<close>, \<open>FieldMaskProps\<close>: merging field by field, oneofs
  included; masks
  split the leaves of a message; differences are exact. \<open>Typing\<close>: well-typed messages and that merging and masking
  keep types.) \<open>CoreValue\<close>: \<open>apis/core/v1/value.go\<close> (round trip).

  \<^item> \<open>Tracker\<close>, \<open>Server\<close>: \<open>server/config.go\<close>, \<open>server/server.go\<close>. (\<open>TrackerLemmas\<close>, in the locale
  \<open>tracker\<close> over two value stores, \<open>TrackerProps\<close>, \<open>ServerProps\<close>, \<open>TypeProps\<close>: writes are atomic, merges are
  against the current revision, masked fields outside of oneofs are protected, dry runs predict, stored
  configurations are typed.)

  \<^item> \<open>DryRunClient\<close>, \<open>DryRunCommand\<close>, \<open>Rollback\<close>, \<open>Complete\<close>, \<open>ServerUtil\<close>: \<open>server/dryrun\<close>,
  \<open>server/rollback\<close> with \<open>server/jsondiff.go\<close>, \<open>server/complete\<close>, \<open>server/options.go\<close> and \<open>server/cache.go\<close>.
  (\<open>DryRunProps\<close>, \<open>RollbackProps\<close>: the dry-run client shows what the server would store; a rollback asks first and
  restores what it showed.)

  \<^item> \<open>Paths\<close>, \<open>Reactive\<close>, \<open>Bind\<close>, \<open>ReactiveWatch\<close>: \<open>reactive/\<close>. (\<open>ReactiveLemmas\<close>, \<open>ReactiveProps\<close>,
  \<open>BindProps\<close>: the controller shows the configuration in the store and calls exactly the watchers of what changed;
  bound values are called back for once per change, whenever their goroutines run; typed watches deliver; three
  deadlocks.) \<open>PathReflect\<close>: \<open>util/pathreflect\<close>.

  \<^item> \<open>Generic\<close>: \<open>util/generic.go\<close>. \<open>Future\<close>: \<open>util/future\<close>. \<open>ProtoRand\<close>: \<open>util/protorand\<close> (\<open>ProtoRandProps\<close>: the walk over nested messages ends).

  \<^bold>\<open>Parameters and their laws.\<close> Third-party code is an argument of the model. Its laws, as hypotheses or locale
  assumptions, each with an instance that satisfies them, are: \<open>art_laws\<close> (radix tree), \<open>norm_law\<close>
  (\<open>FieldMask.Normalize\<close>), \<open>codec_laws\<close> (protobuf encoding), \<open>peek_laws\<close> (the LRU cache of bound values),
  \<open>etcd_laws\<close> (etcd transactions, reads and watches), the locales \<open>snappy\<close> and \<open>k8s_server\<close> (compression, API
  server). Validation, redaction, default values, jsondiff, the answers of a user and the random generator are
  parameters without laws. The fast path of \<open>merge\<close> is the merge function of the Go runtime.

  \<^bold>\<open>Interfaces.\<close> Every locale is interpreted on the models of the code: the in-memory ring for \<open>exact_store\<close> and
  \<open>typed_store\<close>, the in-memory key-value store (plain, at a key, under a prefix) and the etcd store for the keyed
  contracts, the tracker on the in-memory store for \<open>tracker\<close> and \<open>typed_tracker\<close>. The two locales of the
  custom resources that speak of an API server and of snappy are interpreted on reference implementations of these,
  and \<open>crd_store\<close> on the store of \<open>Crd\<close> over them.

  \<^bold>\<open>Bounds and fuel.\<close> The capacities are those of the code: 64 elements in the ring (63 of them readable when it is
  full), channels of 64, 8 and 4, an annotation of 250 * 1024 bytes. Recursion over the type of a message, which the
  Go code leaves unbounded, has fuel, and \<^term>\<open>None\<close> means that it was not enough: \<open>buildNode\<close> and
  \<open>rangeDescriptorFields\<close> succeed for some fuel exactly when the type does not contain itself
  (\<open>path_trie_terminates\<close>), \<open>rand_walk\<close> has one result for all fuel beyond some bound when no infinite chain of
  types starts at the message (\<open>partial_message_ends\<close>). The JSON decoder gets twice the length of its
  input, which is enough since every second call consumes a character. The loop of the rollback command recurses on the
  answers of the user; histories and watches recurse on finite lists of events.

  \<^bold>\<open>Idealisations.\<close> The API server of \<open>k8s_server\<close> accepts every object of the right name and version and gives it a
  new version; a real one also rejects invalid and oversized objects and ignores updates that change nothing. The
  rollback command is alone with the server between its requests. \<open>ReactiveWatch\<close> is one watch of a value; an update
  sends to all watches in turn, so the full channel of another client can delay the step that reaches this one. The watch
  of a key in \<open>KVStore\<close> gives up at any time the scheduler likes; \<open>ValueWatch\<close> says when it can.

  \<^bold>\<open>Not modelled.\<close> Interfaces and type constraints (\<open>server/constraints.go\<close>, \<open>server/context.go\<close>,
  \<open>reactive/reactive.go\<close>) contain no code. Generated \<open>.pb.go\<close> files, test suites and fixtures are left out, as are
  logging, flags and shell integration, the constructors of the drivers, the lock adapters (the repository has no
  implementation of a lock), and \<open>reactive/subtle\<close>, one receive from a watch. Messages have no aliasing: functions that change a message return the changed one. A nil
  message and an empty one are not distinguished, except where the code tests for it. Contexts end watches but do
  not interrupt other operations. Order of map iteration is a parameter or a set.
\<close>

end
